(* ===== verification/Go_Prelude.thy ===== *)
theory Go_Prelude
  imports Complex_Main "HOL-Library.Sublist" "HOL-Library.List_Lexorder" "HOL-Library.Char_ord"
begin

text \<open>
  The prelude of the development: the parts of the Go language and its standard library that
  the control plane's code calls (package strings, package strconv, int64 arithmetic, maps),
  as executable functions, with the generic lemmas that the component theories share.

  A Go string is a sequence of bytes, and so is a HOL string: a \<open>char\<close> is one byte.
  Package unicode enters in two places only. \<open>strings.TrimSpace\<close> removes the runes that
  \<open>unicode.IsSpace\<close> accepts, a finite set, given here by their UTF-8 encodings.
  \<open>strings.ToLower\<close> is used by the code only to compare the result with ASCII literals, so
  the model lowers ASCII letters and the two non-ASCII runes whose lower case is an ASCII
  letter (U+0130 and U+212A), and leaves every other byte unchanged.
\<close>

section \<open>Collections of rules\<close>

named_theorems go_str "evaluation of the models of package strings"
named_theorems fence_simps "generation fencing: facts about exact-generation checks"
named_theorems frame_simps "which fields an operation leaves unchanged"

section \<open>int64\<close>

type_synonym int64 = int

text \<open>Go's int64 addition and subtraction wrap around in two's complement.\<close>

definition i64 :: "int \<Rightarrow> int64" where
  "i64 n = (n + 2 ^ 63) mod 2 ^ 64 - 2 ^ 63"

abbreviation max_int64 :: int64 where
  "max_int64 \<equiv> 2 ^ 63 - 1"

definition is_int64 :: "int \<Rightarrow> bool" where
  "is_int64 n \<longleftrightarrow> - (2 ^ 63) \<le> n \<and> n < 2 ^ 63"

lemma i64_range: "is_int64 (i64 n)"
  by (simp add: i64_def is_int64_def)

lemma i64_id [simp]: "is_int64 n \<Longrightarrow> i64 n = n"
  by (simp add: i64_def is_int64_def)

lemma i64_wraps: "i64 (max_int64 + 1) = - (2 ^ 63)"
  by (simp add: i64_def)

section \<open>Package strings\<close>

definition HasPrefix :: "string \<Rightarrow> string \<Rightarrow> bool" where
  "HasPrefix s p \<longleftrightarrow> take (length p) s = p"

definition HasSuffix :: "string \<Rightarrow> string \<Rightarrow> bool" where
  "HasSuffix s p \<longleftrightarrow> length p \<le> length s \<and> drop (length s - length p) s = p"

definition TrimPrefix :: "string \<Rightarrow> string \<Rightarrow> string" where
  "TrimPrefix s p = (if HasPrefix s p then drop (length p) s else s)"

definition TrimSuffix :: "string \<Rightarrow> string \<Rightarrow> string" where
  "TrimSuffix s p = (if HasSuffix s p then take (length s - length p) s else s)"

definition Contains :: "string \<Rightarrow> string \<Rightarrow> bool" where
  "Contains s sub \<longleftrightarrow> list_ex (\<lambda>i. HasPrefix (drop i s) sub) [0..<Suc (length s)]"

fun Split :: "char \<Rightarrow> string \<Rightarrow> string list" where
  "Split c [] = [[]]"
| "Split c (x # xs) =
     (if x = c then [] # Split c xs
      else (case Split c xs of [] \<Rightarrow> [[x]] | w # ws \<Rightarrow> (x # w) # ws))"

text \<open>\<open>strings.IndexByte\<close>; None stands for the result -1.\<close>

fun IndexByte :: "string \<Rightarrow> char \<Rightarrow> nat option" where
  "IndexByte [] c = None"
| "IndexByte (x # xs) c = (if x = c then Some 0 else map_option Suc (IndexByte xs c))"

lemmas go_str_defs [go_str] =
  HasPrefix_def HasSuffix_def TrimPrefix_def TrimSuffix_def Contains_def

lemma HasPrefix_iff: "HasPrefix s p \<longleftrightarrow> (\<exists>r. s = p @ r)"
  unfolding HasPrefix_def by (metis append_eq_conv_conj append_take_drop_id)

lemma HasSuffix_iff: "HasSuffix s p \<longleftrightarrow> (\<exists>r. s = r @ p)"
proof
  assume "HasSuffix s p"
  then have "s = take (length s - length p) s @ p"
    unfolding HasSuffix_def by (metis append_take_drop_id)
  then show "\<exists>r. s = r @ p" ..
qed (auto simp: HasSuffix_def)

lemma TrimPrefix_append [simp]: "TrimPrefix (p @ r) p = r"
  by (simp add: TrimPrefix_def HasPrefix_def)

lemma TrimSuffix_append [simp]: "TrimSuffix (r @ p) p = r"
  by (simp add: TrimSuffix_def HasSuffix_def)

lemma Contains_iff: "Contains s sub \<longleftrightarrow> (\<exists>a b. s = a @ sub @ b)"
proof
  assume "Contains s sub"
  then obtain i where "HasPrefix (drop i s) sub"
    unfolding Contains_def list_ex_iff by blast
  then obtain b where "drop i s = sub @ b"
    by (auto simp: HasPrefix_iff)
  then have "s = take i s @ sub @ b"
    by (metis append_take_drop_id)
  then show "\<exists>a b. s = a @ sub @ b" by blast
next
  assume "\<exists>a b. s = a @ sub @ b"
  then obtain a b where s: "s = a @ sub @ b" by blast
  then have "HasPrefix (drop (length a) s) sub"
    by (simp add: HasPrefix_iff)
  moreover have "length a \<in> set [0..<Suc (length s)]"
    unfolding s by (simp add: less_Suc_eq_le)
  ultimately show "Contains s sub"
    unfolding Contains_def list_ex_iff by blast
qed

lemma Contains_char: "Contains s [c] \<longleftrightarrow> c \<in> set s"
  unfolding Contains_iff by (metis append_Cons append_Nil in_set_conv_decomp)

lemma IndexByte_None: "IndexByte s c = None \<longleftrightarrow> c \<notin> set s"
  by (induction s) auto

lemma IndexByte_Some: "IndexByte s c = Some i \<Longrightarrow> i < length s \<and> s ! i = c \<and> c \<notin> set (take i s)"
  by (induction s arbitrary: i) (auto split: if_splits)

lemma Split_not_Nil [simp]: "Split c s \<noteq> []"
  by (induction s) (auto split: list.splits)

lemma Split_no_sep: "w \<in> set (Split c s) \<Longrightarrow> c \<notin> set w"
  by (induction s arbitrary: w) (auto split: if_splits list.splits)

subsection \<open>TrimSpace\<close>

text \<open>The UTF-8 encodings of the runes that \<open>unicode.IsSpace\<close> accepts.\<close>

definition space_runes :: "string list" where
  "space_runes =
     map (\<lambda>c. [c]) [CHR 0x09, CHR 0x0A, CHR 0x0B, CHR 0x0C, CHR 0x0D, CHR 0x20]
     @ [[CHR 0xC2, CHR 0x85], [CHR 0xC2, CHR 0xA0], [CHR 0xE1, CHR 0x9A, CHR 0x80]]
     @ map (\<lambda>c. [CHR 0xE2, CHR 0x80, c])
         [CHR 0x80, CHR 0x81, CHR 0x82, CHR 0x83, CHR 0x84, CHR 0x85, CHR 0x86, CHR 0x87,
          CHR 0x88, CHR 0x89, CHR 0x8A, CHR 0xA8, CHR 0xA9, CHR 0xAF]
     @ [[CHR 0xE2, CHR 0x81, CHR 0x9F], [CHR 0xE3, CHR 0x80, CHR 0x80]]"

text \<open>Removes words of \<open>ws\<close> from the front for as long as one of them is there.\<close>

function strip_left :: "string list \<Rightarrow> string \<Rightarrow> string" where
  "strip_left ws s =
     (case find (\<lambda>w. w \<noteq> [] \<and> HasPrefix s w) ws of
        None \<Rightarrow> s
      | Some w \<Rightarrow> strip_left ws (drop (length w) s))"
  by pat_completeness auto
termination
  by (relation "measure (\<lambda>(ws, s). length s)")
     (auto simp: find_Some_iff HasPrefix_def intro!: diff_less)

declare strip_left.simps [simp del]

definition TrimSpace :: "string \<Rightarrow> string" where
  "TrimSpace s = rev (strip_left (map rev space_runes) (rev (strip_left space_runes s)))"

text \<open>No word of the list is at the front: the state that the trimming loop stops in.\<close>

definition stripped :: "string list \<Rightarrow> string \<Rightarrow> bool" where
  "stripped ws s \<longleftrightarrow> list_all (\<lambda>w. w = [] \<or> \<not> HasPrefix s w) ws"

lemma strip_left_stripped: "stripped ws (strip_left ws s)"
proof (induction ws s rule: strip_left.induct)
  case (1 ws s)
  show ?case
  proof (cases "find (\<lambda>w. w \<noteq> [] \<and> HasPrefix s w) ws")
    case None
    then have "strip_left ws s = s"
      by (simp add: strip_left.simps [of ws s])
    then show ?thesis
      using None by (auto simp: stripped_def list_all_iff find_None_iff)
  next
    case (Some w)
    then show ?thesis
      using 1 by (simp add: strip_left.simps [of ws s])
  qed
qed

lemma strip_left_id: "stripped ws s \<Longrightarrow> strip_left ws s = s"
  by (subst strip_left.simps)
     (auto simp: stripped_def list_all_iff find_Some_iff split: option.splits dest: nth_mem)

lemma strip_left_drop: "\<exists>n. strip_left ws s = drop n s"
proof (induction ws s rule: strip_left.induct)
  case (1 ws s)
  show ?case
  proof (cases "find (\<lambda>w. w \<noteq> [] \<and> HasPrefix s w) ws")
    case None
    then have "strip_left ws s = drop 0 s"
      by (subst strip_left.simps) simp
    then show ?thesis ..
  next
    case (Some w)
    then obtain n where "strip_left ws (drop (length w) s) = drop n (drop (length w) s)"
      using 1 by blast
    then have "strip_left ws s = drop (n + length w) s"
      using Some by (subst strip_left.simps) simp
    then show ?thesis ..
  qed
qed

lemma stripped_take: "stripped ws s \<Longrightarrow> stripped ws (take n s)"
  unfolding stripped_def list_all_iff HasPrefix_iff
  by (metis append.assoc append_take_drop_id)

text \<open>Trimming is idempotent, so trimming a normalised identifier again changes nothing.\<close>

lemma TrimSpace_idem [simp]: "TrimSpace (TrimSpace s) = TrimSpace s"
proof -
  define l where "l = strip_left space_runes s"
  define r where "r = strip_left (map rev space_runes) (rev l)"
  obtain n where n: "r = drop n (rev l)"
    unfolding r_def using strip_left_drop by blast
  have "stripped space_runes l"
    unfolding l_def by (rule strip_left_stripped)
  then have "stripped space_runes (rev r)"
    unfolding n rev_drop rev_rev_ident by (rule stripped_take)
  then have left: "strip_left space_runes (rev r) = rev r"
    by (rule strip_left_id)
  have "stripped (map rev space_runes) r"
    unfolding r_def by (rule strip_left_stripped)
  then have right: "strip_left (map rev space_runes) r = r"
    by (rule strip_left_id)
  have "TrimSpace s = rev r"
    by (simp add: TrimSpace_def l_def r_def)
  then show ?thesis
    by (simp add: TrimSpace_def left right)
qed

lemma strip_left_Nil [simp]: "strip_left ws [] = []"
  using strip_left_drop [of ws "[]"] by auto

lemma TrimSpace_Nil [simp]: "TrimSpace [] = []"
  by (simp add: TrimSpace_def)

text \<open>A string that starts and ends with a visible ASCII byte is left as it is; this evaluates
  \<open>TrimSpace\<close> on the identifiers of the code.\<close>

definition visible :: "char \<Rightarrow> bool" where
  "visible c \<longleftrightarrow> 33 \<le> (of_char c :: nat) \<and> (of_char c :: nat) \<le> 126"

lemma space_runes_invisible:
  "list_all (\<lambda>w. w \<noteq> [] \<and> \<not> visible (hd w) \<and> \<not> visible (last w)) space_runes"
  by (simp add: space_runes_def visible_def)

lemma strip_left_visible:
  assumes "list_all (\<lambda>w. w \<noteq> [] \<longrightarrow> \<not> visible (hd w)) ws" and "visible (hd s)"
  shows "strip_left ws s = s"
proof (rule strip_left_id)
  show "stripped ws s"
    using assms by (auto simp: stripped_def list_all_iff HasPrefix_iff neq_Nil_conv)
qed

lemma TrimSpace_visible [simp]:
  assumes "visible (hd s)" and "visible (last s)"
  shows "TrimSpace s = s"
proof (cases "s = []")
  case False
  have "strip_left space_runes s = s"
    using assms(1) space_runes_invisible by (auto intro: strip_left_visible simp: list_all_iff)
  moreover have "strip_left (map rev space_runes) (rev s) = rev s"
    using assms(2) space_runes_invisible False
    by (intro strip_left_visible) (auto simp: list_all_iff hd_rev)
  ultimately show ?thesis
    by (simp add: TrimSpace_def)
qed simp

subsection \<open>ToLower\<close>

definition lower_ascii :: "char \<Rightarrow> char" where
  "lower_ascii c =
     (let n = (of_char c :: nat) in if 65 \<le> n \<and> n \<le> 90 then char_of (n + 32) else c)"

fun ToLower :: "string \<Rightarrow> string" where
  "ToLower (a # b # c # s) =
     (if a = CHR 0xE2 \<and> b = CHR 0x84 \<and> c = CHR 0xAA then CHR ''k'' # ToLower s
      else if a = CHR 0xC4 \<and> b = CHR 0xB0 then CHR ''i'' # ToLower (c # s)
      else lower_ascii a # ToLower (b # c # s))"
| "ToLower [a, b] =
     (if a = CHR 0xC4 \<and> b = CHR 0xB0 then ''i'' else [lower_ascii a, lower_ascii b])"
| "ToLower [a] = [lower_ascii a]"
| "ToLower [] = []"

section \<open>Package strconv\<close>

definition is_digit :: "char \<Rightarrow> bool" where
  "is_digit c \<longleftrightarrow> CHR ''0'' \<le> c \<and> c \<le> CHR ''9''"

definition digit_val :: "char \<Rightarrow> nat" where
  "digit_val c = of_char c - 48"

definition digit_char :: "nat \<Rightarrow> char" where
  "digit_char n = char_of (n + 48)"

definition is_digits :: "string \<Rightarrow> bool" where
  "is_digits s \<longleftrightarrow> list_all is_digit s"

text \<open>The number that a string of decimal digits denotes.\<close>

fun dval :: "string \<Rightarrow> nat" where
  "dval [] = 0"
| "dval (c # cs) = digit_val c * 10 ^ length cs + dval cs"

fun nat_digits :: "nat \<Rightarrow> string" where
  "nat_digits n = (if n < 10 then [digit_char n] else nat_digits (n div 10) @ [digit_char (n mod 10)])"

declare nat_digits.simps [simp del]

definition Itoa :: "int \<Rightarrow> string" where
  "Itoa n = (if n < 0 then CHR ''-'' # nat_digits (nat (- n)) else nat_digits (nat n))"

text \<open>\<open>strconv.Atoi\<close> and base-10 \<open>strconv.ParseInt\<close>: an optional sign, at least one digit, in the
  range of int64; None is the error.\<close>

definition Atoi :: "string \<Rightarrow> int64 option" where
  "Atoi s =
     (let (neg, ds) =
        (case s of
           c # cs \<Rightarrow> if c = CHR ''-'' then (True, cs)
                     else if c = CHR ''+'' then (False, cs) else (False, s)
         | [] \<Rightarrow> (False, s))
      in if ds = [] \<or> \<not> is_digits ds then None
         else let n = (if neg then - int (dval ds) else int (dval ds))
              in if is_int64 n then Some n else None)"

lemma is_digit_of_char: "is_digit c \<longleftrightarrow> 48 \<le> (of_char c :: nat) \<and> (of_char c :: nat) \<le> 57"
  by (simp add: is_digit_def less_eq_char_def)

lemma digit_val_less [simp]: "is_digit c \<Longrightarrow> digit_val c < 10"
  by (auto simp: is_digit_of_char digit_val_def)

lemma is_digit_digit_char [simp]: "n < 10 \<Longrightarrow> is_digit (digit_char n)"
  by (simp add: is_digit_of_char digit_char_def)

lemma digit_val_digit_char [simp]: "n < 10 \<Longrightarrow> digit_val (digit_char n) = n"
  by (simp add: digit_val_def digit_char_def)

lemma digit_char_digit_val [simp]: "is_digit c \<Longrightarrow> digit_char (digit_val c) = c"
  by (auto simp: is_digit_of_char digit_val_def digit_char_def)

lemma digit_val_inj: "is_digit c \<Longrightarrow> is_digit d \<Longrightarrow> digit_val c = digit_val d \<longleftrightarrow> c = d"
  by (metis digit_char_digit_val)

lemma digit_val_zero [simp]: "is_digit c \<Longrightarrow> digit_val c = 0 \<longleftrightarrow> c = CHR ''0''"
  using digit_val_inj [of c "CHR ''0''"] by (simp add: is_digit_def digit_val_def)

lemma is_digits_simps [simp]:
  "is_digits []"
  "is_digits (c # cs) \<longleftrightarrow> is_digit c \<and> is_digits cs"
  "is_digits (xs @ ys) \<longleftrightarrow> is_digits xs \<and> is_digits ys"
  by (simp_all add: is_digits_def)

lemma dval_append: "dval (xs @ ys) = dval xs * 10 ^ length ys + dval ys"
  by (induction xs) (simp_all add: power_add algebra_simps)

lemma dval_replicate_zero [simp]: "dval (replicate n (CHR ''0'')) = 0"
  by (induction n) (simp_all add: digit_val_def)

lemma dval_less: "is_digits s \<Longrightarrow> dval s < 10 ^ length s"
proof (induction s)
  case (Cons c cs)
  then have "digit_val c + 1 \<le> 10" and "dval cs < 10 ^ length cs"
    using digit_val_less [of c] by (simp_all add: less_eq_Suc_le)
  then have "digit_val c * 10 ^ length cs + dval cs < (digit_val c + 1) * 10 ^ length cs"
    by simp
  also have "\<dots> \<le> 10 * 10 ^ length cs"
    using \<open>digit_val c + 1 \<le> 10\<close> by (rule mult_le_mono1)
  finally show ?case by simp
qed simp

lemma nat_digits_digits: "is_digits (nat_digits n)"
proof (induction n rule: nat_digits.induct)
  case (1 n)
  then show ?case
    by (subst nat_digits.simps) simp
qed

lemma dval_nat_digits [simp]: "dval (nat_digits n) = n"
proof (induction n rule: nat_digits.induct)
  case (1 n)
  then show ?case
    by (subst nat_digits.simps) (simp add: dval_append)
qed

lemma nat_digits_inj: "nat_digits m = nat_digits n \<longleftrightarrow> m = n"
  by (metis dval_nat_digits)

lemma nat_digits_not_Nil [simp]: "nat_digits n \<noteq> []"
  by (subst nat_digits.simps) simp

lemma not_is_digit_colon [simp]: "\<not> is_digit (CHR '':'')" "\<not> is_digit (CHR ''-'')"
  "\<not> is_digit (CHR ''+'')" "\<not> is_digit (CHR ''.'')"
  by (simp_all add: is_digit_of_char)

lemma is_digits_notin: "is_digits s \<Longrightarrow> \<not> is_digit c \<Longrightarrow> c \<notin> set s"
  by (auto simp: is_digits_def list_all_iff)

lemma Itoa_inj: "Itoa m = Itoa n \<longleftrightarrow> m = n"
proof
  have neg: "nat_digits k \<noteq> CHR ''-'' # s" for k s
    using nat_digits_digits [of k] by (cases "nat_digits k") auto
  assume "Itoa m = Itoa n"
  then show "m = n"
    using neg neg [symmetric] by (auto simp: Itoa_def nat_digits_inj split: if_splits)
qed simp

lemma Atoi_Itoa: "is_int64 n \<Longrightarrow> Atoi (Itoa n) = Some n"
proof -
  assume r: "is_int64 n"
  have hd: "\<exists>c cs. nat_digits k = c # cs \<and> is_digit c \<and> is_digits cs" for k
    using nat_digits_digits [of k] by (cases "nat_digits k") auto
  show ?thesis
  proof (cases "n < 0")
    case True
    then show ?thesis
      using r by (simp add: Atoi_def Itoa_def nat_digits_digits)
  next
    case False
    obtain c cs where c: "nat_digits (nat n) = c # cs" "is_digit c" "is_digits cs"
      using hd by blast
    have "c \<noteq> CHR ''-''" "c \<noteq> CHR ''+''"
      using c(2) by auto
    moreover have "dval (c # cs) = nat n"
      using c(1) by (metis dval_nat_digits)
    ultimately show ?thesis
      using r False c by (simp add: Atoi_def Itoa_def)
  qed
qed

section \<open>Lists and maps\<close>

text \<open>Lookup in an association list, the way the code's linear scans do it: first match.\<close>

lemma map_of_filter_neq: "map_of (filter (\<lambda>(k, v). k \<noteq> a) xs) = (map_of xs)(a := None)"
  by (induction xs) (auto simp: fun_eq_iff)

text \<open>Joining fields with a separator byte that occurs in none of them is injective.\<close>

fun join_sep :: "char \<Rightarrow> string list \<Rightarrow> string" where
  "join_sep c [] = []"
| "join_sep c [x] = x"
| "join_sep c (x # y # xs) = x @ c # join_sep c (y # xs)"

lemma append_sep_eq:
  "c \<notin> set x \<Longrightarrow> c \<notin> set y \<Longrightarrow> x @ c # u = y @ c # v \<longleftrightarrow> x = y \<and> u = v"
proof (induction x arbitrary: y)
  case Nil
  then show ?case by (cases y) auto
next
  case (Cons a x)
  then show ?case by (cases y) auto
qed

lemma join_sep_inj:
  assumes "length xs = length ys" and "\<forall>x \<in> set xs. c \<notin> set x" and "\<forall>y \<in> set ys. c \<notin> set y"
  shows "join_sep c xs = join_sep c ys \<longleftrightarrow> xs = ys"
  using assms
proof (induction c xs arbitrary: ys rule: join_sep.induct)
  case (1 c)
  then show ?case by simp
next
  case (2 c x)
  then show ?case by (cases ys) auto
next
  case (3 c x x' xs)
  then obtain y y' ys' where ys: "ys = y # y' # ys'"
    by (cases ys; cases "tl ys") auto
  then show ?case
    using 3 append_sep_eq [of c x y] by simp
qed

end
