(* ===== verification/Json_Value.thy ===== *)
theory Json_Value
  imports Go_Prelude
begin

text \<open>
  Package jsonvalue (src/internal/jsonvalue): decoded JSON values that keep their numbers as
  tokens, and exact arithmetic on these tokens. The code never converts a number to a float and
  never expands an exponent; it normalises a token to a sign, a digit string without leading and
  trailing zeros, and a decimal exponent kept as a string. The specification is the rational
  number that a token denotes (\<open>num_value\<close>); the main lemmas say that comparison, equality and
  canonicalisation agree with it.
\<close>

section \<open>Decoded values\<close>

text \<open>What \<open>DecodeUnique\<close> puts into an \<open>any\<close>: \<open>json.Number\<close> for numbers, and an object as the
  list of its entries, whose keys are distinct.\<close>

datatype json =
    JNull
  | JBool bool
  | JNum string
  | JStr string
  | JArr "json list"
  | JObj "(string \<times> json) list"

section \<open>Number tokens\<close>

text \<open>\<open>encoding/json\<close>'s number grammar: sign, integer digits, fraction digits, exponent text.\<close>

definition split_exponent :: "string \<Rightarrow> string option" where
  "split_exponent r =
     (case r of
        [] \<Rightarrow> Some []
      | e # q \<Rightarrow>
          if e = CHR ''e'' \<or> e = CHR ''E'' then
            (let ds = (case q of c # cs \<Rightarrow> if c = CHR ''-'' \<or> c = CHR ''+'' then cs else q | [] \<Rightarrow> q)
             in if ds \<noteq> [] \<and> is_digits ds then Some q else None)
          else None)"

fun split_sign :: "string \<Rightarrow> bool \<times> string" where
  "split_sign [] = (False, [])"
| "split_sign (c # cs) = (if c = CHR ''-'' then (True, cs) else (False, c # cs))"

fun split_fraction :: "string \<Rightarrow> (string \<times> string) option" where
  "split_fraction [] = Some ([], [])"
| "split_fraction (c # q) =
     (if c = CHR ''.'' then
        if takeWhile is_digit q = [] then None
        else Some (takeWhile is_digit q, dropWhile is_digit q)
      else Some ([], c # q))"

definition split_number :: "string \<Rightarrow> (bool \<times> string \<times> string \<times> string) option" where
  "split_number s =
     (let (neg, r) = split_sign s; ip = takeWhile is_digit r
      in if ip = [] \<or> (hd ip = CHR ''0'' \<and> tl ip \<noteq> []) then None
         else (case split_fraction (dropWhile is_digit r) of
                 None \<Rightarrow> None
               | Some (fp, r2) \<Rightarrow> map_option (\<lambda>ex. (neg, ip, fp, ex)) (split_exponent r2)))"

definition json_ws :: "char \<Rightarrow> bool" where
  "json_ws c \<longleftrightarrow> c \<in> {CHR '' '', CHR 0x09, CHR 0x0A, CHR 0x0D}"

text \<open>\<open>json.Valid\<close> on a text that starts with a minus sign or a digit: a number token, then
  white space.\<close>

definition json_valid_number :: "string \<Rightarrow> bool" where
  "json_valid_number s \<longleftrightarrow> split_number (rev (dropWhile json_ws (rev s))) \<noteq> None"

definition TrimLeft0 :: "string \<Rightarrow> string" where
  "TrimLeft0 s = dropWhile (\<lambda>c. c = CHR ''0'') s"

definition TrimRight0 :: "string \<Rightarrow> string" where
  "TrimRight0 s = rev (dropWhile (\<lambda>c. c = CHR ''0'') (rev s))"

section \<open>Digit arithmetic\<close>

text \<open>The loop of \<open>addDigits\<close>: \<open>i\<close> and \<open>j\<close> are the code's indices plus one, \<open>k\<close> the number of
  iterations left, \<open>out\<close> the digits already written.\<close>

fun addDigits_loop :: "string \<Rightarrow> string \<Rightarrow> nat \<Rightarrow> nat \<Rightarrow> nat \<Rightarrow> nat \<Rightarrow> string \<Rightarrow> string" where
  "addDigits_loop a b i j carry 0 out = out"
| "addDigits_loop a b i j carry (Suc k) out =
     (let v = carry + (if i > 0 then digit_val (a ! (i - 1)) else 0)
                    + (if j > 0 then digit_val (b ! (j - 1)) else 0)
      in addDigits_loop a b (i - 1) (j - 1) (v div 10) k (digit_char (v mod 10) # out))"

definition addDigits :: "string \<Rightarrow> string \<Rightarrow> string" where
  "addDigits a b =
     TrimLeft0 (addDigits_loop a b (length a) (length b) 0 (Suc (max (length a) (length b))) [])"

text \<open>The loop of \<open>subtractDigits\<close>; \<open>i\<close> and \<open>j\<close> are the code's indices plus one.\<close>

fun subtractDigits_loop :: "string \<Rightarrow> string \<Rightarrow> nat \<Rightarrow> nat \<Rightarrow> int \<Rightarrow> string \<Rightarrow> string" where
  "subtractDigits_loop a b 0 j borrow out = out"
| "subtractDigits_loop a b (Suc i) j borrow out =
     (let v = int (digit_val (a ! i)) - borrow - (if j > 0 then int (digit_val (b ! (j - 1))) else 0)
      in if v < 0 then subtractDigits_loop a b i (j - 1) 1 (digit_char (nat (v + 10)) # out)
         else subtractDigits_loop a b i (j - 1) 0 (digit_char (nat v) # out))"

definition subtractDigits :: "string \<Rightarrow> string \<Rightarrow> string" where
  "subtractDigits a b =
     (let r = TrimLeft0 (subtractDigits_loop a b (length a) (length b) 0 [])
      in if r = [] then ''0'' else r)"

definition shiftExponent :: "string \<Rightarrow> int \<Rightarrow> string" where
  "shiftExponent ex shift =
     (let negative = (hd ex = CHR ''-'');
          ex1 = TrimLeft0 (if hd ex = CHR ''-'' \<or> hd ex = CHR ''+'' then tl ex else ex)
      in if ex1 = [] then Itoa shift
         else
           let (ex2, neg2) =
             (if shift \<noteq> 0 then
                let shiftNegative = shift < 0; magnitude = Itoa \<bar>shift\<bar>
                in if negative = shiftNegative then (addDigits ex1 magnitude, negative)
                   else if length ex1 > length magnitude
                           \<or> length ex1 = length magnitude \<and> ex1 \<ge> magnitude
                   then (subtractDigits ex1 magnitude, negative)
                   else (subtractDigits magnitude ex1, shiftNegative)
              else (ex1, negative))
           in if ex2 = ''0'' then ''0'' else if neg2 then CHR ''-'' # ex2 else ex2)"

section \<open>Normalisation, equality and order of numbers\<close>

definition numberParts :: "string \<Rightarrow> (bool \<times> string \<times> string) option" where
  "numberParts raw =
     (if raw = [] \<or> TrimSpace raw \<noteq> raw \<or> \<not> json_valid_number raw
         \<or> (hd raw \<noteq> CHR ''-'' \<and> (hd raw < CHR ''0'' \<or> hd raw > CHR ''9'')) then None
      else
        let negative = (hd raw = CHR ''-'');
            r1 = (if negative then tl raw else raw);
            (ex, r2) = (if list_ex (\<lambda>c. c = CHR ''e'' \<or> c = CHR ''E'') r1
                        then (tl (dropWhile (\<lambda>c. c \<noteq> CHR ''e'' \<and> c \<noteq> CHR ''E'') r1),
                              takeWhile (\<lambda>c. c \<noteq> CHR ''e'' \<and> c \<noteq> CHR ''E'') r1)
                        else (''0'', r1));
            (fraction, r3) = (case IndexByte r2 (CHR ''.'') of
                                Some pos \<Rightarrow> (length r2 - pos - 1, take pos r2 @ drop (pos + 1) r2)
                              | None \<Rightarrow> (0, r2));
            coefficient = TrimLeft0 r3
        in if coefficient = [] then Some (False, ''0'', ''0'')
           else
             let trimmed = TrimRight0 coefficient;
                 shift = int (length coefficient) - int (length trimmed) - int fraction
             in Some (negative, trimmed, shiftExponent ex shift))"

definition EqualNumbers :: "string \<Rightarrow> string \<Rightarrow> bool" where
  "EqualNumbers a b =
     (case (numberParts a, numberParts b) of
        (Some (an, ac, ae), Some (bn, bc, be)) \<Rightarrow> an = bn \<and> ac = bc \<and> ae = be
      | _ \<Rightarrow> False)"

definition CanonicalNumber :: "string \<Rightarrow> string option" where
  "CanonicalNumber n =
     (case numberParts n of
        None \<Rightarrow> None
      | Some (negative, coefficient, ex) \<Rightarrow>
          Some ((if negative then CHR ''-'' # coefficient else coefficient)
                @ (if ex \<noteq> ''0'' then CHR ''e'' # ex else [])))"

definition compareExponent :: "string \<Rightarrow> string \<Rightarrow> int" where
  "compareExponent a b =
     (let an = (hd a = CHR ''-''); bn = (hd b = CHR ''-'')
      in if an \<noteq> bn then (if an then -1 else 1)
         else
           let a' = (if an then tl a else a); b' = (if an then tl b else b);
               order = (if length a' > length b' \<or> length a' = length b' \<and> a' > b' then 1
                        else if length a' < length b' \<or> length a' = length b' \<and> a' < b' then -1
                        else 0)
           in if an then - order else order)"

text \<open>The digit loop of \<open>CompareNumbers\<close>: the shorter coefficient is padded with zeros.\<close>

fun compareDigits :: "string \<Rightarrow> string \<Rightarrow> int" where
  "compareDigits [] [] = 0"
| "compareDigits (x # xs) ys =
     (let bd = (case ys of [] \<Rightarrow> CHR ''0'' | y # _ \<Rightarrow> y)
      in if x < bd then -1 else if x > bd then 1 else compareDigits xs (tl ys))"
| "compareDigits [] (y # ys) =
     (if CHR ''0'' < y then -1 else if CHR ''0'' > y then 1 else compareDigits [] ys)"

definition CompareNumbers :: "string \<Rightarrow> string \<Rightarrow> int option" where
  "CompareNumbers a b =
     (case (numberParts a, numberParts b) of
        (Some (an, ac, ae), Some (bn, bc, be)) \<Rightarrow>
          if ac = ''0'' \<and> bc = ''0'' then Some 0
          else if an \<noteq> bn then (if an then Some (-1) else Some 1)
          else
            let order =
              (if ac = ''0'' then -1
               else if bc = ''0'' then 1
               else let o1 = compareExponent (shiftExponent ae (int (length ac)))
                                             (shiftExponent be (int (length bc)))
                    in if o1 = 0 then compareDigits ac bc else o1)
            in Some (if an then - order else order)
      | _ \<Rightarrow> None)"

text \<open>\<open>Equal\<close>: numbers by value, objects without regard to order, everything else as
  \<open>reflect.DeepEqual\<close> has it.\<close>

function Equal :: "json \<Rightarrow> json \<Rightarrow> bool" where
  "Equal (JNum a) b = (case b of JNum b' \<Rightarrow> EqualNumbers a b' | _ \<Rightarrow> False)"
| "Equal (JObj a) b =
     (case b of
        JObj b' \<Rightarrow> length a = length b' \<and>
          list_all (\<lambda>kv. case map_of b' (fst kv) of None \<Rightarrow> False | Some w \<Rightarrow> Equal (snd kv) w) a
      | _ \<Rightarrow> False)"
| "Equal (JArr a) b =
     (case b of
        JArr b' \<Rightarrow> length a = length b' \<and> list_all (\<lambda>i. Equal (a ! i) (b' ! i)) [0..<length a]
      | _ \<Rightarrow> False)"
| "Equal JNull b = (b = JNull)"
| "Equal (JBool x) b = (b = JBool x)"
| "Equal (JStr x) b = (b = JStr x)"
  by pat_completeness auto
termination
proof (relation "measure (\<lambda>(a, b). size a)", goal_cases)
  case (2 a b b' kv w)
  then show ?case
    by (cases kv) (auto simp: less_Suc_eq_le intro!: size_list_estimation')
next
  case (3 a b b' i)
  then show ?case
    by (auto simp: less_Suc_eq_le intro!: size_list_estimation' [OF nth_mem])
qed simp

section \<open>Canonical digit strings\<close>

lemma is_digits_dropWhile [simp]: "is_digits s \<Longrightarrow> is_digits (dropWhile P s)"
  by (induction s) auto

lemma dval_TrimLeft0 [simp]: "dval (TrimLeft0 s) = dval s"
  by (induction s) (auto simp: TrimLeft0_def digit_val_def)

lemma is_digits_TrimLeft0 [simp]: "is_digits s \<Longrightarrow> is_digits (TrimLeft0 s)"
  by (simp add: TrimLeft0_def)

lemma TrimLeft0_hd: "TrimLeft0 s = c # cs \<Longrightarrow> c \<noteq> CHR ''0''"
  by (simp add: TrimLeft0_def dropWhile_eq_Cons_conv)

lemma digits_pos: "is_digit c \<Longrightarrow> c \<noteq> CHR ''0'' \<Longrightarrow> 10 ^ length cs \<le> dval (c # cs)"
  using digit_val_zero [of c] by (cases "digit_val c") auto

lemma nat_digits_0 [simp]: "nat_digits 0 = ''0''"
  by (simp add: nat_digits.simps digit_char_def char_of_eq_iff)

lemma nat_digits_snoc:
  assumes "0 < m" and "d < 10"
  shows "nat_digits (10 * m + d) = nat_digits m @ [digit_char d]"
  using assms by (subst nat_digits.simps) simp

text \<open>A digit string without a leading zero is the decimal representation of its value.\<close>

lemma canonical_digits:
  assumes "is_digits s" and "s \<noteq> []" and "hd s \<noteq> CHR ''0''"
  shows "nat_digits (dval s) = s"
  using assms
proof (induction s rule: rev_induct)
  case (snoc c s)
  show ?case
  proof (cases "s = []")
    case True
    then show ?thesis
      using snoc.prems by (simp add: nat_digits.simps)
  next
    case False
    then obtain x xs where s: "s = x # xs" by (cases s) auto
    have IH: "nat_digits (dval s) = s"
      using snoc False by simp
    have "0 < dval s"
      using digits_pos [of x xs] snoc.prems s by (auto intro: less_le_trans [OF _ digits_pos])
    then show ?thesis
      using nat_digits_snoc [of "dval s" "digit_val c"] IH snoc.prems
      by (simp add: dval_append mult.commute)
  qed
qed simp

lemma TrimLeft0_canonical:
  assumes "is_digits s"
  shows "TrimLeft0 s = (if dval s = 0 then [] else nat_digits (dval s))"
proof (cases "TrimLeft0 s")
  case Nil
  then have "dval s = 0"
    using dval_TrimLeft0 [of s] by simp
  then show ?thesis
    using Nil by simp
next
  case (Cons c cs)
  then have "c \<noteq> CHR ''0''" and "is_digits (c # cs)"
    using TrimLeft0_hd is_digits_TrimLeft0 [OF assms] by metis+
  then have "nat_digits (dval s) = c # cs" and "10 ^ length cs \<le> dval s"
    using canonical_digits [of "c # cs"] digits_pos [of c cs] dval_TrimLeft0 [of s] Cons
    by (auto simp del: dval_TrimLeft0)
  moreover from this(2) have "0 < dval s"
    by (rule less_le_trans [rotated]) simp
  ultimately show ?thesis
    using Cons by simp
qed

lemma dval_inj: "is_digits a \<Longrightarrow> is_digits b \<Longrightarrow> length a = length b \<Longrightarrow> dval a = dval b \<Longrightarrow> a = b"
proof (induction a b rule: rev_induct2)
  case (4 x xs y ys)
  then have "dval xs * 10 + digit_val x = dval ys * 10 + digit_val y"
    by (simp add: dval_append)
  moreover have "digit_val x < 10" "digit_val y < 10"
    using 4 by simp_all
  ultimately have "digit_val x = digit_val y" "dval xs = dval ys"
    by presburger+
  then show ?case
    using 4 digit_val_inj by auto
qed auto

text \<open>On digit strings of one length the byte order is the order of the values.\<close>

lemma less_char_digit: "is_digit c \<Longrightarrow> is_digit d \<Longrightarrow> c < d \<longleftrightarrow> digit_val c < digit_val d"
  by (auto simp: is_digit_of_char digit_val_def less_char_def)

lemma less_dval:
  assumes "length a = length b" and "is_digits a" and "is_digits b"
  shows "a < b \<longleftrightarrow> dval a < dval b"
  using assms
proof (induction a b rule: list_induct2)
  case (Cons x xs y ys)
  have xs: "dval xs < 10 ^ length ys" and ys: "dval ys < 10 ^ length ys"
    using Cons dval_less by (metis is_digits_simps(2))+
  have step: "u * B + p < v * B + q" if "u < v" "p < B" for u v p q B :: nat
  proof -
    have "u * B + p < (u + 1) * B" using that by simp
    also have "\<dots> \<le> v * B" using that by (intro mult_le_mono1) simp
    finally show ?thesis by simp
  qed
  consider "digit_val x < digit_val y" | "digit_val x = digit_val y" | "digit_val y < digit_val x"
    by linarith
  then show ?case
  proof cases
    case 1
    then show ?thesis
      using step [OF 1 xs, of "dval ys"] Cons by (simp add: less_char_digit)
  next
    case 2
    then show ?thesis
      using Cons digit_val_inj by (auto simp: less_char_digit)
  next
    case 3
    then show ?thesis
      using step [OF 3 ys, of "dval xs"] Cons by (auto simp: less_char_digit)
  qed
qed simp

lemma digit_char_nonzero: "0 < n \<Longrightarrow> n < 10 \<Longrightarrow> digit_char n \<noteq> CHR ''0''"
  using digit_val_zero [of "digit_char n"] by auto

lemma nat_digits_hd: "0 < n \<Longrightarrow> hd (nat_digits n) \<noteq> CHR ''0''"
proof (induction n rule: nat_digits.induct)
  case (1 n)
  then show ?case
    by (subst nat_digits.simps) (auto simp: digit_char_nonzero)
qed

lemma nat_digits_bounds:
  assumes "0 < n"
  shows "10 ^ (length (nat_digits n) - 1) \<le> n" and "n < 10 ^ length (nat_digits n)"
proof -
  obtain c cs where c: "nat_digits n = c # cs"
    by (cases "nat_digits n") auto
  then show "10 ^ (length (nat_digits n) - 1) \<le> n"
    using digits_pos [of c cs] nat_digits_hd [OF assms] nat_digits_digits [of n] dval_nat_digits [of n]
    by simp
  show "n < 10 ^ length (nat_digits n)"
    using dval_less [OF nat_digits_digits, of n] by simp
qed

text \<open>Shorter first, then bytewise: the order of canonical decimal strings.\<close>

lemma nat_digits_less:
  "length (nat_digits m) < length (nat_digits n)
     \<or> length (nat_digits m) = length (nat_digits n) \<and> nat_digits m < nat_digits n \<longleftrightarrow> m < n"
proof -
  have short: "a < b" if l: "length (nat_digits a) < length (nat_digits b)" for a b
  proof -
    have b: "0 < b"
      using l by (cases "b = 0") (auto simp: less_Suc_eq)
    have "a < 10 ^ length (nat_digits a)"
      using dval_less [OF nat_digits_digits, of a] by simp
    also have "\<dots> \<le> 10 ^ (length (nat_digits b) - 1)"
      using l by (intro power_increasing) auto
    also have "\<dots> \<le> b"
      using nat_digits_bounds [OF b] by simp
    finally show ?thesis .
  qed
  have eq: "nat_digits m < nat_digits n \<longleftrightarrow> m < n"
    if "length (nat_digits m) = length (nat_digits n)"
    using less_dval [OF that] nat_digits_digits by simp
  show ?thesis
    using short [of m n] short [of n m] eq
    by (metis less_asym' linorder_neqE_nat not_less_iff_gr_or_eq)
qed


section \<open>Addition and subtraction of digit strings\<close>

lemma dval_take_last:
  "0 < i \<Longrightarrow> i \<le> length a \<Longrightarrow> dval (take i a) = 10 * dval (take (i - 1) a) + digit_val (a ! (i - 1))"
  using take_Suc_conv_app_nth [of "i - 1" a] by (simp add: dval_append)

lemma is_digits_nth: "is_digits a \<Longrightarrow> i < length a \<Longrightarrow> is_digit (a ! i)"
  by (simp add: is_digits_def list_all_length)

lemma addDigits_loop_digits:
  "is_digits out \<Longrightarrow> is_digits (addDigits_loop a b i j c k out)"
  by (induction a b i j c k out rule: addDigits_loop.induct) (simp_all add: Let_def)

lemma addDigits_loop_value:
  assumes "i \<le> length a" and "j \<le> length b" and "is_digits out"
  shows "dval (addDigits_loop a b i j c k out)
         = (dval out + 10 ^ length out * (c + dval (take i a) + dval (take j b))) mod 10 ^ (length out + k)"
  using assms
proof (induction a b i j c k out rule: addDigits_loop.induct)
  case (1 a b i j c out)
  then show ?case
    using dval_less [of out] by simp
next
  case (2 a b i j c k out)
  define v where "v = c + (if i > 0 then digit_val (a ! (i - 1)) else 0)
                        + (if j > 0 then digit_val (b ! (j - 1)) else 0)"
  have sum: "c + dval (take i a) + dval (take j b)
             = v + 10 * (dval (take (i - 1) a) + dval (take (j - 1) b))"
    using dval_take_last [of i a] dval_take_last [of j b] 2(2,3) by (auto simp: v_def)
  have digits: "is_digits (digit_char (v mod 10) # out)"
    using 2(4) by simp
  have alg: "r * B + p + 10 * B * (q + x + y) = p + B * (r + 10 * q + 10 * (x + y))"
    for r q x y B p :: nat
    by (simp add: algebra_simps)
  have "dval (addDigits_loop a b i j c (Suc k) out)
        = (dval (digit_char (v mod 10) # out) + 10 ^ Suc (length out) *
            (v div 10 + dval (take (i - 1) a) + dval (take (j - 1) b))) mod 10 ^ (length out + Suc k)"
    using 2(1) [OF v_def _ _ digits] 2(2,3) by (simp add: Let_def v_def)
  also have "dval (digit_char (v mod 10) # out) + 10 ^ Suc (length out) *
            (v div 10 + dval (take (i - 1) a) + dval (take (j - 1) b))
        = dval out + 10 ^ length out * (v mod 10 + 10 * (v div 10) + 10 * (dval (take (i - 1) a) + dval (take (j - 1) b)))"
    using alg [of "v mod 10"] by simp
  also have "v mod 10 + 10 * (v div 10) = v"
    by simp
  finally show ?case
    unfolding sum .
qed

lemma addDigits_value:
  assumes "is_digits a" and "is_digits b" and "0 < dval a + dval b"
  shows "addDigits a b = nat_digits (dval a + dval b)"
proof -
  let ?n = "max (length a) (length b)"
  have "dval a < 10 ^ ?n" "dval b < 10 ^ ?n"
    using dval_less [OF assms(1)] dval_less [OF assms(2)]
    by (meson less_le_trans max.cobounded1 max.cobounded2 one_le_numeral power_increasing)+
  then have "dval a + dval b < 10 ^ Suc ?n"
    by simp
  then have "dval (addDigits_loop a b (length a) (length b) 0 (Suc ?n) []) = dval a + dval b"
    using addDigits_loop_value [of "length a" a "length b" b "[]" 0 "Suc ?n"]
    by (simp del: addDigits_loop.simps)
  then show ?thesis
    using TrimLeft0_canonical [OF addDigits_loop_digits [of "[]" a b "length a" "length b" 0 "Suc ?n"]]
      assms(3)
    by (auto simp: addDigits_def simp del: addDigits_loop.simps)
qed

lemma subtractDigits_loop_digits:
  assumes "is_digits out" and "is_digits a" and "is_digits b" and "i \<le> length a" and "j \<le> length b"
    and "borrow \<in> {0, 1}"
  shows "is_digits (subtractDigits_loop a b i j borrow out)"
  using assms
proof (induction a b i j borrow out rule: subtractDigits_loop.induct)
  case (2 a b i j borrow out)
  define v where "v = int (digit_val (a ! i)) - borrow - (if j > 0 then int (digit_val (b ! (j - 1))) else 0)"
  have "digit_val (a ! i) < 10" and "j > 0 \<Longrightarrow> digit_val (b ! (j - 1)) < 10"
    using 2(4,5,6,7) by (auto intro!: digit_val_less is_digits_nth)
  then have "v < 10" and "- 10 \<le> v"
    using 2(8) by (auto simp: v_def)
  then show ?case
    using 2(1) [OF v_def] 2(2) [OF v_def] 2(3-8)
    by (cases "v < 0") (simp_all add: Let_def v_def [symmetric] del: One_nat_def)
qed simp

lemma subtractDigits_loop_value:
  assumes "is_digits out" and "is_digits a" and "is_digits b" and "i \<le> length a" and "j \<le> length b"
    and "j \<le> i" and "borrow \<in> {0, 1}"
  shows "int (dval (subtractDigits_loop a b i j borrow out))
         = (int (dval out) + 10 ^ length out * (int (dval (take i a)) - borrow - int (dval (take j b))))
           mod 10 ^ (length out + i)"
  using assms
proof (induction a b i j borrow out rule: subtractDigits_loop.induct)
  case (1 a b j borrow out)
  then have "int (dval out) < 10 ^ length out"
    using dval_less [of out] by (metis of_nat_less_iff of_nat_numeral of_nat_power)
  moreover have "(int (dval out) + 10 ^ length out * - borrow) mod 10 ^ length out = int (dval out) mod 10 ^ length out"
    by (simp only: mod_mult_self2)
  ultimately show ?case
    using 1 by simp
next
  case (2 a b i j borrow out)
  define v where "v = int (digit_val (a ! i)) - borrow - (if j > 0 then int (digit_val (b ! (j - 1))) else 0)"
  define d where "d = (if v < 0 then v + 10 else v)"
  define bo :: int where "bo = (if v < 0 then 1 else 0)"
  have "digit_val (a ! i) < 10" and "j > 0 \<Longrightarrow> digit_val (b ! (j - 1)) < 10"
    using 2(4,5,6,7) by (auto intro!: digit_val_less is_digits_nth)
  then have v: "v < 10" "- 10 \<le> v"
    using 2(9) by (auto simp: v_def)
  then have d: "0 \<le> d" "d < 10"
    by (auto simp: d_def)
  have digits: "is_digits (digit_char (nat d) # out)"
    using 2(3) d by simp
  have a: "int (dval (take (Suc i) a)) = 10 * int (dval (take i a)) + int (digit_val (a ! i))"
    using dval_take_last [of "Suc i" a] 2(6) by simp
  have b: "int (dval (take j b)) = 10 * int (dval (take (j - 1) b)) + (if j > 0 then int (digit_val (b ! (j - 1))) else 0)"
    using dval_take_last [of j b] 2(7) by (cases "j > 0") auto
  have sum: "int (dval (take (Suc i) a)) - borrow - int (dval (take j b))
             = d + 10 * (int (dval (take i a)) - bo - int (dval (take (j - 1) b)))"
    unfolding a b d_def bo_def v_def by auto
  have alg: "r * B + p + 10 * B * x = p + B * (r + 10 * x)" for r B p x :: int
    by (simp add: algebra_simps)
  have loop: "subtractDigits_loop a b (Suc i) j borrow out
              = subtractDigits_loop a b i (j - 1) bo (digit_char (nat d) # out)"
    by (simp add: v_def d_def bo_def Let_def)
  have IH: "int (dval (subtractDigits_loop a b i (j - 1) bo (digit_char (nat d) # out)))
         = (int (dval (digit_char (nat d) # out)) + 10 ^ length (digit_char (nat d) # out) *
             (int (dval (take i a)) - bo - int (dval (take (j - 1) b))))
           mod 10 ^ (length (digit_char (nat d) # out) + i)"
  proof (cases "v < 0")
    case True
    then show ?thesis
      using 2(1) [OF v_def True] digits 2(4,5,6,7,8) by (simp add: d_def bo_def)
  next
    case False
    then show ?thesis
      using 2(2) [OF v_def False] digits 2(4,5,6,7,8) by (simp add: d_def bo_def)
  qed
  have "int (dval (digit_char (nat d) # out)) + 10 ^ length (digit_char (nat d) # out) *
             (int (dval (take i a)) - bo - int (dval (take (j - 1) b)))
        = int (dval out) + 10 ^ length out * (d + 10 * (int (dval (take i a)) - bo - int (dval (take (j - 1) b))))"
    using d alg [of d] by simp
  moreover have "length (digit_char (nat d) # out) + i = length out + Suc i"
    by simp
  ultimately show ?case
    unfolding loop IH sum by (simp only:)
qed

lemma subtractDigits_value:
  assumes "is_digits a" and "is_digits b" and "dval b \<le> dval a" and "length b \<le> length a"
  shows "subtractDigits a b = nat_digits (dval a - dval b)"
proof -
  let ?r = "subtractDigits_loop a b (length a) (length b) 0 []"
  have "int (dval a) - int (dval b) < 10 ^ length a"
  proof -
    have "int (dval a) < int (10 ^ length a)"
      using dval_less [OF assms(1)] by (simp only: of_nat_less_iff)
    then show ?thesis
      by (simp only: of_nat_power of_nat_numeral)
  qed
  then have "int (dval ?r) = int (dval a) - int (dval b)"
    using subtractDigits_loop_value [of "[]" a b "length a" "length b" 0] assms by simp
  then have v: "dval ?r = dval a - dval b"
    using assms(3) by simp
  have "is_digits ?r"
    using assms by (intro subtractDigits_loop_digits) auto
  from TrimLeft0_canonical [OF this] show ?thesis
    unfolding v subtractDigits_def by (auto simp: Let_def)
qed


section \<open>Exponents\<close>

text \<open>The integer that an exponent text denotes.\<close>

fun sval :: "string \<Rightarrow> int" where
  "sval [] = 0"
| "sval (c # cs) = (if c = CHR ''-'' then - int (dval cs)
                    else if c = CHR ''+'' then int (dval cs) else int (dval (c # cs)))"

definition exponent_text :: "string \<Rightarrow> bool" where
  "exponent_text q \<longleftrightarrow>
     q \<noteq> [] \<and> (let ds = (if hd q = CHR ''-'' \<or> hd q = CHR ''+'' then tl q else q)
                in ds \<noteq> [] \<and> is_digits ds)"

lemma Itoa_pos [simp]: "0 \<le> n \<Longrightarrow> Itoa n = nat_digits (nat n)"
  by (simp add: Itoa_def)

lemma nat_digits_is_zero: "nat_digits n = ''0'' \<longleftrightarrow> n = 0"
  using nat_digits_inj [of n 0] by simp

lemma Itoa_signed:
  "(if nat_digits n = ''0'' then ''0'' else if neg then CHR ''-'' # nat_digits n else nat_digits n)
   = Itoa (if neg then - int n else int n)"
  by (auto simp: Itoa_def nat_digits_is_zero)

text \<open>The digit arithmetic computes the decimal representation of the shifted exponent.\<close>

lemma shiftExponent_correct:
  assumes "exponent_text q"
  shows "shiftExponent q n = Itoa (sval q + n)"
proof -
  define neg where "neg = (hd q = CHR ''-'')"
  define ds where "ds = (if hd q = CHR ''-'' \<or> hd q = CHR ''+'' then tl q else q)"
  have ds: "is_digits ds"
    using assms by (simp add: exponent_text_def ds_def Let_def)
  have sq: "sval q = (if neg then - int (dval ds) else int (dval ds))"
    using assms by (cases q) (auto simp: exponent_text_def neg_def ds_def)
  show ?thesis
  proof (cases "dval ds = 0")
    case True
    then have "TrimLeft0 ds = []"
      using TrimLeft0_canonical [OF ds] by simp
    then show ?thesis
      using True sq by (simp add: shiftExponent_def ds_def [symmetric])
  next
    case False
    define m where "m = dval ds"
    define k where "k = nat \<bar>n\<bar>"
    have t: "TrimLeft0 ds = nat_digits m" and m: "0 < m"
      using TrimLeft0_canonical [OF ds] False by (simp_all add: m_def)
    have t': "TrimLeft0 (if neg \<or> hd q = CHR ''+'' then tl q else q) = nat_digits m"
      using t by (simp add: ds_def neg_def)
    have mag: "Itoa \<bar>n\<bar> = nat_digits k"
      by (simp add: k_def)
    have add: "addDigits (nat_digits m) (nat_digits k) = nat_digits (m + k)"
      using addDigits_value [OF nat_digits_digits nat_digits_digits, of m k] m by simp
    have sub: "subtractDigits (nat_digits x) (nat_digits y) = nat_digits (x - y)" if "y \<le> x" for x y
    proof -
      have "length (nat_digits y) \<le> length (nat_digits x)"
        using nat_digits_less [of x y] that by (meson leD not_le_imp_less)
      then show ?thesis
        using subtractDigits_value [OF nat_digits_digits nat_digits_digits, of y x] that by simp
    qed
    have cmp: "length (nat_digits m) > length (nat_digits k)
               \<or> length (nat_digits m) = length (nat_digits k) \<and> nat_digits m \<ge> nat_digits k \<longleftrightarrow> k \<le> m"
      using nat_digits_less [of m k] by (auto simp: not_less)
    have res: "shiftExponent q n =
       (let (ex2, neg2) =
          (if n \<noteq> 0 then
             if neg = (n < 0) then (nat_digits (m + k), neg)
             else if k \<le> m then (nat_digits (m - k), neg) else (nat_digits (k - m), n < 0)
           else (nat_digits m, neg))
        in if ex2 = ''0'' then ''0'' else if neg2 then CHR ''-'' # ex2 else ex2)"
      unfolding shiftExponent_def neg_def [symmetric] Let_def t' mag add cmp
      by (cases "n = 0"; cases "neg = (n < 0)"; cases "k \<le> m") (simp_all add: sub)
    have nk: "n = (if n < 0 then - int k else int k)"
      by (simp add: k_def)
    consider "n = 0" | "n \<noteq> 0" "neg = (n < 0)" | "n \<noteq> 0" "neg \<noteq> (n < 0)" "k \<le> m"
      | "n \<noteq> 0" "neg \<noteq> (n < 0)" "m < k"
      by linarith
    then show ?thesis
    proof cases
      case 1
      have "shiftExponent q n = (if nat_digits (m) = ''0'' then ''0''
              else if neg then CHR ''-'' # nat_digits (m) else nat_digits (m))"
        using 1 unfolding res by simp
      also have "\<dots> = Itoa (if neg then - int (m) else int (m))"
        by (rule Itoa_signed)
      also have "(if neg then - int (m) else int (m)) = sval q + n"
        using nk sq m_def 1 by (cases "n < 0"; cases neg) (simp_all add: of_nat_diff)
      finally show ?thesis .
    next
      case 2
      have "shiftExponent q n = (if nat_digits (m + k) = ''0'' then ''0''
              else if neg then CHR ''-'' # nat_digits (m + k) else nat_digits (m + k))"
        using 2 unfolding res by simp
      also have "\<dots> = Itoa (if neg then - int (m + k) else int (m + k))"
        by (rule Itoa_signed)
      also have "(if neg then - int (m + k) else int (m + k)) = sval q + n"
        using nk sq m_def 2 by (cases "n < 0"; cases neg) (simp_all add: of_nat_diff)
      finally show ?thesis .
    next
      case 3
      have "shiftExponent q n = (if nat_digits (m - k) = ''0'' then ''0''
              else if neg then CHR ''-'' # nat_digits (m - k) else nat_digits (m - k))"
        using 3 unfolding res by simp
      also have "\<dots> = Itoa (if neg then - int (m - k) else int (m - k))"
        by (rule Itoa_signed)
      also have "(if neg then - int (m - k) else int (m - k)) = sval q + n"
        using nk sq m_def 3 by (cases "n < 0"; cases neg) (simp_all add: of_nat_diff)
      finally show ?thesis .
    next
      case 4
      have "shiftExponent q n = (if nat_digits (k - m) = ''0'' then ''0''
              else if n < 0 then CHR ''-'' # nat_digits (k - m) else nat_digits (k - m))"
        using 4 unfolding res by simp
      also have "\<dots> = Itoa (if n < 0 then - int (k - m) else int (k - m))"
        by (rule Itoa_signed)
      also have "(if n < 0 then - int (k - m) else int (k - m)) = sval q + n"
        using nk sq m_def 4 by (cases "n < 0"; cases neg) (simp_all add: of_nat_diff)
      finally show ?thesis .
    qed
  qed
qed

lemma sval_Itoa [simp]: "sval (Itoa n) = n"
proof (cases "n < 0")
  case False
  obtain c cs where c: "nat_digits (nat n) = c # cs" and d: "is_digit c"
    using nat_digits_digits [of "nat n"] by (cases "nat_digits (nat n)") auto
  then have "c \<noteq> CHR ''-''" "c \<noteq> CHR ''+''" by auto
  then show ?thesis
    using c False dval_nat_digits [of "nat n"] by (simp add: Itoa_def)
qed (simp add: Itoa_def)

lemma exponent_text_Itoa [simp]: "exponent_text (Itoa n)"
proof (cases "n < 0")
  case False
  obtain c cs where c: "nat_digits (nat n) = c # cs" and d: "is_digit c" "is_digits cs"
    using nat_digits_digits [of "nat n"] by (cases "nat_digits (nat n)") auto
  then show ?thesis
    using False by (auto simp: Itoa_def exponent_text_def)
qed (simp add: Itoa_def exponent_text_def nat_digits_digits)

lemma compareExponent_correct: "compareExponent (Itoa m) (Itoa n) = sgn (m - n)"
proof -
  define M :: "string \<Rightarrow> string \<Rightarrow> int" where
    "M = (\<lambda>a b. if length a > length b \<or> length a = length b \<and> a > b then 1
               else if length a < length b \<or> length a = length b \<and> a < b then -1 else 0)"
  have unf: "compareExponent a b =
      (if (hd a = CHR ''-'') \<noteq> (hd b = CHR ''-'') then (if hd a = CHR ''-'' then -1 else 1)
       else if hd a = CHR ''-'' then - M (tl a) (tl b) else M a b)" for a b
    by (cases "hd a = CHR ''-''"; cases "hd b = CHR ''-''")
       (simp_all add: compareExponent_def M_def Let_def split del: if_split)
  have swap: "(length (nat_digits x) = length (nat_digits y) \<and> nat_digits y < nat_digits x)
      = (length (nat_digits y) = length (nat_digits x) \<and> nat_digits y < nat_digits x)" for x y
    by auto
  have mag: "M (nat_digits x) (nat_digits y) = sgn (int x - int y)" for x y
    unfolding M_def swap [of x y] nat_digits_less by (simp add: sgn_if)
  have hd: "hd (nat_digits k) \<noteq> CHR ''-''" for k
    using nat_digits_digits [of k] by (cases "nat_digits k") auto
  consider "m < 0" "n < 0" | "m < 0" "0 \<le> n" | "0 \<le> m" "n < 0" | "0 \<le> m" "0 \<le> n"
    by linarith
  then show ?thesis
  proof cases
    case 1
    then show ?thesis
      by (simp add: unf Itoa_def mag sgn_if)
  qed (simp_all add: unf Itoa_def mag hd sgn_if)
qed


section \<open>The value of a number token\<close>

definition num_valid :: "string \<Rightarrow> bool" where
  "num_valid s \<longleftrightarrow> split_number s \<noteq> None"

text \<open>The rational number that a token denotes, read off the grammar.\<close>

definition num_value :: "string \<Rightarrow> rat" where
  "num_value s =
     (case split_number s of
        Some (neg, ip, fp, ex) \<Rightarrow>
          (if neg then -1 else 1) * of_nat (dval (ip @ fp)) * 10 powi (sval ex - int (length fp))
      | None \<Rightarrow> 0)"

lemma is_digits_takeWhile [simp]: "is_digits (takeWhile is_digit s)"
  by (induction s) auto

lemma split_exponent_Some:
  assumes "split_exponent r = Some ex"
  obtains "r = []" "ex = []" | e where "e = CHR ''e'' \<or> e = CHR ''E''" "r = e # ex" "exponent_text ex"
  using assms by (cases r) (auto simp: split_exponent_def exponent_text_def Let_def split: if_splits list.splits)

lemma split_sign_eq: "split_sign s = (neg, r) \<Longrightarrow> s = (if neg then ''-'' else []) @ r"
  by (cases s) (auto split: if_splits)

lemma split_fraction_Some:
  "split_fraction r = Some (fp, r2) \<Longrightarrow>
     r = (if fp = [] then [] else CHR ''.'' # fp) @ r2 \<and> is_digits fp"
  by (cases r) (auto split: if_splits)

lemma split_number_Some:
  assumes "split_number s = Some (neg, ip, fp, ex)"
  obtains r2 where "s = (if neg then ''-'' else []) @ ip @ (if fp = [] then [] else CHR ''.'' # fp) @ r2"
    and "split_exponent r2 = Some ex" and "is_digits ip" and "is_digits fp" and "ip \<noteq> []"
proof -
  obtain ng r where r: "split_sign s = (ng, r)" by fastforce
  define i where "i = takeWhile is_digit r"
  from assms r have i: "i \<noteq> []" "ip = i" "ng = neg"
    and "\<exists>r2. split_fraction (dropWhile is_digit r) = Some (fp, r2) \<and> split_exponent r2 = Some ex"
    by (auto simp: split_number_def Let_def i_def split: if_splits option.splits)
  then obtain r2 where f: "split_fraction (dropWhile is_digit r) = Some (fp, r2)"
    and e: "split_exponent r2 = Some ex" by blast
  have "r = ip @ (if fp = [] then [] else CHR ''.'' # fp) @ r2" and "is_digits fp"
    using split_fraction_Some [OF f] i i_def by (metis takeWhile_dropWhile_id)+
  then show ?thesis
    using that [of r2] split_sign_eq [OF r] e i i_def by simp
qed

subsection \<open>Tokens that normalisation accepts\<close>

definition num_char :: "char \<Rightarrow> bool" where
  "num_char c \<longleftrightarrow> is_digit c \<or> c \<in> {CHR ''-'', CHR ''+'', CHR ''.'', CHR ''e'', CHR ''E''}"

lemma num_char_visible: "num_char c \<Longrightarrow> visible c \<and> \<not> json_ws c"
  by (auto simp: num_char_def is_digit_of_char visible_def json_ws_def)

lemma is_digits_num_char: "is_digits s \<Longrightarrow> c \<in> set s \<Longrightarrow> num_char c"
  by (auto simp: is_digits_def list_all_iff num_char_def)

lemma exponent_text_num_char: "exponent_text q \<Longrightarrow> c \<in> set q \<Longrightarrow> num_char c"
  by (cases q) (auto simp: exponent_text_def num_char_def is_digits_def list_all_iff Let_def split: if_splits)

lemma split_exponent_num_char: "split_exponent r = Some ex \<Longrightarrow> c \<in> set r \<Longrightarrow> num_char c"
  by (erule split_exponent_Some) (auto simp: num_char_def [of "CHR ''e''"] num_char_def [of "CHR ''E''"]
      dest: exponent_text_num_char)

lemma num_valid_chars:
  assumes "num_valid s"
  shows "s \<noteq> []" and "\<And>c. c \<in> set s \<Longrightarrow> num_char c"
proof -
  obtain neg ip fp ex where s: "split_number s = Some (neg, ip, fp, ex)"
    using assms by (auto simp: num_valid_def)
  obtain r2 where r: "s = (if neg then ''-'' else []) @ ip @ (if fp = [] then [] else CHR ''.'' # fp) @ r2"
    "split_exponent r2 = Some ex" "is_digits ip" "is_digits fp" "ip \<noteq> []"
    using split_number_Some [OF s] by blast
  show "s \<noteq> []"
    using r(1,5) by simp
  show "num_char c" if "c \<in> set s" for c
    using that r(1) is_digits_num_char [OF r(3)] is_digits_num_char [OF r(4)] split_exponent_num_char [OF r(2)]
    by (auto simp: num_char_def split: if_splits)
qed

lemma TrimSpace_fixed_last:
  assumes "TrimSpace s = s" and "s \<noteq> []"
  shows "\<not> json_ws (last s)"
proof
  assume ws: "json_ws (last s)"
  have "rev s = strip_left (map rev space_runes) (rev (strip_left space_runes s))"
    using arg_cong [OF assms(1), of rev] by (simp add: TrimSpace_def)
  then have "stripped (map rev space_runes) (rev s)"
    using strip_left_stripped by metis
  moreover have "[last s] \<in> set (map rev space_runes)"
    using ws by (auto simp: json_ws_def space_runes_def)
  moreover have "HasPrefix (rev s) [last s]"
    using assms(2) by (cases s rule: rev_cases) (simp_all add: HasPrefix_def)
  ultimately show False
    by (auto simp: stripped_def list_all_iff)
qed

lemma numberParts_accepts:
  "(raw = [] \<or> TrimSpace raw \<noteq> raw \<or> \<not> json_valid_number raw
    \<or> (hd raw \<noteq> CHR ''-'' \<and> (hd raw < CHR ''0'' \<or> hd raw > CHR ''9''))) \<longleftrightarrow> \<not> num_valid raw"
proof (cases "raw = []")
  case True
  then show ?thesis
    by (simp add: num_valid_def split_number_def)
next
  case False
  have keep: "rev (dropWhile json_ws (rev raw)) = raw" if "\<not> json_ws (last raw)"
    using that False by (cases raw rule: rev_cases) simp_all
  have hd: "hd raw = CHR ''-'' \<or> is_digit (hd raw)" if v: "num_valid raw"
  proof -
    obtain neg ip fp ex where s: "split_number raw = Some (neg, ip, fp, ex)"
      using v by (auto simp: num_valid_def)
    show ?thesis
      by (rule split_number_Some [OF s]) (auto simp: hd_append neq_Nil_conv split: if_splits)
  qed
  have trim: "TrimSpace raw = raw \<and> \<not> json_ws (last raw)" if "num_valid raw"
    using num_char_visible num_valid_chars [OF that] False by (simp add: num_char_visible)
  show ?thesis
    using False hd trim TrimSpace_fixed_last [of raw] keep
    unfolding json_valid_number_def num_valid_def [symmetric] is_digit_def
    by (auto simp: not_less)
qed

lemma takeWhile_append_stop:
  "(\<And>c. c \<in> set xs \<Longrightarrow> P c) \<Longrightarrow> \<not> P y \<Longrightarrow> takeWhile P (xs @ y # ys) = xs \<and> dropWhile P (xs @ y # ys) = y # ys"
  by (induction xs) auto

lemma IndexByte_append: "c \<notin> set xs \<Longrightarrow> IndexByte (xs @ c # ys) c = Some (length xs)"
  by (induction xs) auto

lemma numberParts_split:
  assumes "split_number s = Some (neg, ip, fp, ex)"
  shows "numberParts s =
    (if TrimLeft0 (ip @ fp) = [] then Some (False, ''0'', ''0'')
     else Some (neg, TrimRight0 (TrimLeft0 (ip @ fp)),
           shiftExponent (if ex = [] then ''0'' else ex)
             (int (length (TrimLeft0 (ip @ fp))) - int (length (TrimRight0 (TrimLeft0 (ip @ fp)))) - int (length fp))))"
proof -
  obtain r2 where r: "s = (if neg then ''-'' else []) @ ip @ (if fp = [] then [] else CHR ''.'' # fp) @ r2"
    "split_exponent r2 = Some ex" "is_digits ip" "is_digits fp" "ip \<noteq> []"
    using split_number_Some [OF assms] by blast
  define m where "m = ip @ (if fp = [] then [] else CHR ''.'' # fp)"
  let ?e = "\<lambda>c. c = CHR ''e'' \<or> c = CHR ''E''"
  have noe: "\<not> ?e c" if "c \<in> set m" for c
    using that r(3,4) by (auto simp: m_def is_digits_def list_all_iff is_digit_of_char split: if_splits)
  have neg: "(hd s = CHR ''-'') = neg" and tl: "(if neg then tl s else s) = m @ r2"
    using r(1,3,5) by (cases ip; auto simp: m_def)+
  have ex: "(if list_ex ?e (m @ r2)
              then (tl (dropWhile (\<lambda>c. c \<noteq> CHR ''e'' \<and> c \<noteq> CHR ''E'') (m @ r2)),
                    takeWhile (\<lambda>c. c \<noteq> CHR ''e'' \<and> c \<noteq> CHR ''E'') (m @ r2))
              else (''0'', m @ r2)) = (if ex = [] then ''0'' else ex, m)"
    using r(2)
  proof (rule split_exponent_Some)
    assume "r2 = []" "ex = []"
    then show ?thesis
      using noe by (auto simp: list_ex_iff)
  next
    fix e assume e: "?e e" "r2 = e # ex" "exponent_text ex"
    then show ?thesis
      using takeWhile_append_stop [of m "\<lambda>c. c \<noteq> CHR ''e'' \<and> c \<noteq> CHR ''E''" e ex] noe
      by (auto simp: exponent_text_def)
  qed
  have nodot: "CHR ''.'' \<notin> set ip"
    using is_digits_notin [OF r(3)] by simp
  have frac: "(case IndexByte m (CHR ''.'') of
                 Some pos \<Rightarrow> (length m - pos - 1, take pos m @ drop (pos + 1) m)
               | None \<Rightarrow> (0, m)) = (length fp, ip @ fp)"
    using nodot IndexByte_append [OF nodot, of fp] IndexByte_None [of ip "CHR ''.''"]
    by (auto simp: m_def)
  have "num_valid s"
    using assms by (simp add: num_valid_def)
  then show ?thesis
    unfolding numberParts_def numberParts_accepts
    unfolding Let_def neg tl ex frac prod.case by simp
qed


text \<open>The normal form: no leading or trailing zero digit, an exponent in canonical decimal form,
  and the value of the token unchanged.\<close>

definition normal_parts :: "bool \<Rightarrow> string \<Rightarrow> int \<Rightarrow> bool" where
  "normal_parts neg c e \<longleftrightarrow>
     is_digits c \<and> c \<noteq> [] \<and> (c = ''0'' \<and> \<not> neg \<and> e = 0 \<or> hd c \<noteq> CHR ''0'' \<and> last c \<noteq> CHR ''0'')"

definition parts_value :: "bool \<Rightarrow> string \<Rightarrow> int \<Rightarrow> rat" where
  "parts_value neg c e = (if neg then -1 else 1) * of_nat (dval c) * 10 powi e"

lemma TrimRight0_split: "\<exists>n. s = TrimRight0 s @ replicate n (CHR ''0'')"
proof -
  have "rev s = takeWhile (\<lambda>c. c = CHR ''0'') (rev s) @ dropWhile (\<lambda>c. c = CHR ''0'') (rev s)"
    by simp
  moreover have "takeWhile (\<lambda>c. c = CHR ''0'') (rev s)
      = replicate (length (takeWhile (\<lambda>c. c = CHR ''0'') (rev s))) (CHR ''0'')"
    by (intro replicate_eqI) (auto dest: set_takeWhileD)
  ultimately have "s = TrimRight0 s @ replicate (length (takeWhile (\<lambda>c. c = CHR ''0'') (rev s))) (CHR ''0'')"
    unfolding TrimRight0_def by (metis rev_append rev_replicate rev_rev_ident)
  then show ?thesis ..
qed

lemma TrimRight0_last: "TrimRight0 s \<noteq> [] \<Longrightarrow> last (TrimRight0 s) \<noteq> CHR ''0''"
  unfolding TrimRight0_def using hd_dropWhile [of "\<lambda>c. c = CHR ''0''" "rev s"]
  by (auto simp: last_rev)

lemma numberParts_value:
  assumes "num_valid s"
  obtains neg c e where "numberParts s = Some (neg, c, Itoa e)" and "normal_parts neg c e"
    and "num_value s = parts_value neg c e"
proof -
  obtain neg ip fp ex where s: "split_number s = Some (neg, ip, fp, ex)"
    using assms by (auto simp: num_valid_def)
  obtain r2 where r: "split_exponent r2 = Some ex" "is_digits ip" "is_digits fp"
    using split_number_Some [OF s] by blast
  have digits: "is_digits (ip @ fp)"
    using r by simp
  have val: "num_value s = (if neg then -1 else 1) * of_nat (dval (ip @ fp)) * 10 powi (sval ex - int (length fp))"
    by (simp add: num_value_def s)
  have ext: "exponent_text (if ex = [] then ''0'' else ex)" "sval (if ex = [] then ''0'' else ex) = sval ex"
    using r(1) by (rule split_exponent_Some;
      auto simp: exponent_text_def is_digit_of_char digit_val_def)+
  show ?thesis
  proof (cases "TrimLeft0 (ip @ fp) = []")
    case True
    then have "dval (ip @ fp) = 0"
      using dval_TrimLeft0 [of "ip @ fp"] by simp
    then show ?thesis
      using that [of False "''0''" 0] True
      by (simp add: numberParts_split [OF s] val parts_value_def normal_parts_def is_digit_of_char digit_val_def)
  next
    case False
    define c where "c = TrimLeft0 (ip @ fp)"
    define t where "t = TrimRight0 c"
    obtain n where n: "c = t @ replicate n (CHR ''0'')"
      using TrimRight0_split t_def by blast
    have hd: "hd c \<noteq> CHR ''0''" "c \<noteq> []"
      using False TrimLeft0_hd [of "ip @ fp"] by (cases c; auto simp: c_def)+
    have t: "t \<noteq> []"
      using hd n by (cases n) auto
    have "hd t \<noteq> CHR ''0''" "is_digits t"
      using n hd t is_digits_TrimLeft0 [OF digits] by (auto simp: c_def [symmetric])
    then have normal: "normal_parts neg t (sval ex + (int (length c) - int (length t) - int (length fp)))"
      using t TrimRight0_last [of c] by (simp add: normal_parts_def t_def)
    have "dval (ip @ fp) = dval t * 10 ^ n"
      using dval_TrimLeft0 [of "ip @ fp"] n by (simp add: c_def [symmetric] dval_append)
    then have "num_value s = parts_value neg t (sval ex + (int (length c) - int (length t) - int (length fp)))"
      using n by (simp add: val parts_value_def power_int_add power_int_diff)
    then show ?thesis
      using that [OF _ normal] False shiftExponent_correct [OF ext(1)] ext(2)
      by (simp add: numberParts_split [OF s] c_def [symmetric] t_def [symmetric])
  qed
qed

lemma numberParts_None: "numberParts s = None \<longleftrightarrow> \<not> num_valid s"
proof
  assume "numberParts s = None"
  then show "\<not> num_valid s"
    by (metis numberParts_value option.distinct(1))
next
  assume "\<not> num_valid s"
  then show "numberParts s = None"
    unfolding numberParts_def numberParts_accepts by simp
qed

section \<open>Comparison is exact\<close>

text \<open>A coefficient read as the decimal fraction 0.c.\<close>

definition dfrac :: "string \<Rightarrow> rat" where
  "dfrac s = of_nat (dval s) / 10 ^ length s"

lemma dfrac_Nil [simp]: "dfrac [] = 0"
  by (simp add: dfrac_def)

lemma dfrac_Cons: "dfrac (x # xs) = (of_nat (digit_val x) + dfrac xs) / 10"
  by (simp add: dfrac_def field_simps)

lemma dfrac_nonneg: "0 \<le> dfrac s"
  by (simp add: dfrac_def)

lemma dfrac_less: "is_digits s \<Longrightarrow> dfrac s < 1"
proof -
  assume "is_digits s"
  then have "of_nat (dval s) < (of_nat (10 ^ length s) :: rat)"
    using dval_less by (simp only: of_nat_less_iff)
  then show ?thesis
    by (simp add: dfrac_def)
qed

lemma dfrac_hd_tl: "dfrac s = (of_nat (digit_val (case s of [] \<Rightarrow> CHR ''0'' | c # _ \<Rightarrow> c)) + dfrac (tl s)) / 10"
  by (cases s) (simp_all add: dfrac_Cons digit_val_def)

lemma dfrac_step_less:
  assumes "is_digits xs" and "u < (v :: nat)"
  shows "(of_nat u + dfrac xs) / 10 < (of_nat v + dfrac ys) / 10"
proof -
  have "of_nat u + 1 \<le> (of_nat v :: rat)"
    using assms(2) by (metis Suc_leI of_nat_Suc of_nat_le_iff add.commute)
  then show ?thesis
    using dfrac_less [OF assms(1)] dfrac_nonneg [of ys] by simp
qed

lemma compareDigits_correct:
  assumes "is_digits a" and "is_digits b"
  shows "compareDigits a b = (if dfrac a < dfrac b then -1 else if dfrac b < dfrac a then 1 else 0)"
  using assms
proof (induction a b rule: compareDigits.induct)
  case 1
  then show ?case by simp
next
  case (2 x xs ys)
  define bd where "bd = (case ys of [] \<Rightarrow> CHR ''0'' | y # _ \<Rightarrow> y)"
  have d: "is_digit x" "is_digits xs" "is_digit bd" "is_digits (tl ys)"
    using 2(2,3) by (cases ys; auto simp: bd_def is_digit_of_char)+
  have ys: "dfrac ys = (of_nat (digit_val bd) + dfrac (tl ys)) / 10"
    unfolding bd_def by (rule dfrac_hd_tl)
  consider "x < bd" | "x > bd" | "x = bd"
    by (rule linorder_cases)
  then show ?case
  proof cases
    case 1
    then have "dfrac (x # xs) < dfrac ys"
      unfolding ys dfrac_Cons using d less_char_digit by (intro dfrac_step_less) auto
    then show ?thesis
      using 1 by (simp add: bd_def [symmetric])
  next
    case 2
    then have "dfrac ys < dfrac (x # xs)"
      unfolding ys dfrac_Cons using d less_char_digit by (intro dfrac_step_less) auto
    then show ?thesis
      using 2 by (simp add: bd_def [symmetric])
  next
    case 3
    then show ?thesis
      using 2(1) [OF bd_def] d by (simp add: bd_def [symmetric] ys dfrac_Cons divide_less_cancel)
  qed
next
  case (3 y ys)
  then have "is_digit y" by simp
  then have "y < CHR ''0'' \<longleftrightarrow> False" and "CHR ''0'' < y \<longleftrightarrow> 0 < digit_val y"
    by (auto simp: is_digit_of_char less_char_def digit_val_def)
  moreover have "dfrac [] < dfrac (y # ys)" if "0 < digit_val y"
    using dfrac_step_less [of "[]" 0 "digit_val y" ys] that by (simp add: dfrac_Cons)
  moreover have "0 \<le> dfrac (y # ys)" by (rule dfrac_nonneg)
  ultimately show ?case
    using 3 by (cases "digit_val y = 0") (auto simp: dfrac_Cons)
qed

lemma parts_value_dfrac:
  "parts_value neg c e = (if neg then -1 else 1) * (dfrac c * 10 powi (e + int (length c)))"
  by (simp add: parts_value_def dfrac_def power_int_add)

lemma dfrac_tenth:
  assumes "is_digits c" and "c \<noteq> []" and "hd c \<noteq> CHR ''0''"
  shows "1 / 10 \<le> dfrac c"
proof -
  obtain x xs where c: "c = x # xs" using assms by (cases c) auto
  then have "1 \<le> digit_val x"
    using assms by (cases "digit_val x") auto
  then have "(1 :: rat) \<le> of_nat (digit_val x)"
    by (simp add: Suc_le_eq)
  then show ?thesis
    using dfrac_nonneg [of xs] by (simp add: c dfrac_Cons)
qed

lemma magnitude_less:
  assumes "is_digits a" and "1 / 10 \<le> dfrac b" and "m < n"
  shows "dfrac a * 10 powi m < dfrac b * 10 powi n"
proof -
  have "dfrac a * 10 powi m < 1 * 10 powi m"
    using dfrac_less [OF assms(1)] by (intro mult_strict_right_mono) simp_all
  also have "\<dots> \<le> 10 powi (n - 1)"
    using assms(3) by (simp add: power_int_increasing)
  also have "\<dots> = 1 / 10 * 10 powi n"
    by (simp add: power_int_diff)
  also have "\<dots> \<le> dfrac b * 10 powi n"
    using assms(2) by (intro mult_right_mono) simp_all
  finally show ?thesis .
qed

lemma magnitude_compare:
  assumes "is_digits a" "1 / 10 \<le> dfrac a" "is_digits b" "1 / 10 \<le> dfrac b"
  shows "(let o1 = sgn (m - n) in if o1 = 0 then compareDigits a b else o1)
         = (if dfrac a * 10 powi m < dfrac b * 10 powi n then -1
            else if dfrac b * 10 powi n < dfrac a * 10 powi m then 1 else 0)"
proof -
  consider "m < n" | "n < m" | "m = n" by linarith
  then show ?thesis
  proof cases
    case 1
    then show ?thesis
      using magnitude_less [OF assms(1,4) 1] by simp
  next
    case 2
    then show ?thesis
      using magnitude_less [OF assms(3,2) 2] by simp
  next
    case 3
    then show ?thesis
      using compareDigits_correct [OF assms(1,3)] by simp
  qed
qed

lemma CompareNumbers_correct:
  "CompareNumbers a b =
     (if num_valid a \<and> num_valid b
      then Some (if num_value a < num_value b then -1 else if num_value b < num_value a then 1 else 0)
      else None)"
proof (cases "num_valid a \<and> num_valid b")
  case False
  then show ?thesis
    using numberParts_None [of a] numberParts_None [of b]
    by (auto simp: CompareNumbers_def split: option.splits)
next
  case True
  obtain an ac ae where a: "numberParts a = Some (an, ac, Itoa ae)" "normal_parts an ac ae"
    "num_value a = parts_value an ac ae"
    using True numberParts_value by blast
  obtain bn bc be where b: "numberParts b = Some (bn, bc, Itoa be)" "normal_parts bn bc be"
    "num_value b = parts_value bn bc be"
    using True numberParts_value by blast
  define A where "A = dfrac ac * 10 powi (ae + int (length ac))"
  define B where "B = dfrac bc * 10 powi (be + int (length bc))"
  have va: "num_value a = (if an then - A else A)" and vb: "num_value b = (if bn then - B else B)"
    by (simp_all add: a b parts_value_dfrac A_def B_def)
  have zero: "dfrac ''0'' = 0"
    by (simp add: dfrac_def digit_val_def)
  have apos: "1 / 10 \<le> dfrac ac \<and> 0 < A" if "ac \<noteq> ''0''"
    using a(2) that dfrac_tenth [of ac] by (auto simp: normal_parts_def A_def)
  have bpos: "1 / 10 \<le> dfrac bc \<and> 0 < B" if "bc \<noteq> ''0''"
    using b(2) that dfrac_tenth [of bc] by (auto simp: normal_parts_def B_def)
  have a0: "A = 0 \<and> \<not> an" if "ac = ''0''"
    using that a(2) zero by (auto simp: A_def normal_parts_def)
  have b0: "B = 0 \<and> \<not> bn" if "bc = ''0''"
    using that b(2) zero by (auto simp: B_def normal_parts_def)
  have order: "(let o1 = compareExponent (shiftExponent (Itoa ae) (int (length ac)))
                                         (shiftExponent (Itoa be) (int (length bc)))
                in if o1 = 0 then compareDigits ac bc else o1)
      = (if A < B then -1 else if B < A then 1 else 0)" if "ac \<noteq> ''0''" "bc \<noteq> ''0''"
    unfolding shiftExponent_correct [OF exponent_text_Itoa] sval_Itoa compareExponent_correct A_def B_def
    using apos bpos that a(2) b(2) by (intro magnitude_compare) (auto simp: normal_parts_def)
  consider "ac = ''0''" "bc = ''0''" | "ac = ''0''" "bc \<noteq> ''0''" | "ac \<noteq> ''0''" "bc = ''0''"
    | "ac \<noteq> ''0''" "bc \<noteq> ''0''" by blast
  then show ?thesis
  proof cases
    case 1
    then show ?thesis
      using True a0 b0 by (simp add: CompareNumbers_def a(1) b(1) va vb)
  next
    case 2
    then show ?thesis
      using True a0 bpos by (simp add: CompareNumbers_def a(1) b(1) va vb)
  next
    case 3
    then show ?thesis
      using True b0 apos by (simp add: CompareNumbers_def a(1) b(1) va vb)
  next
    case 4
    have "CompareNumbers a b = (if an \<noteq> bn then (if an then Some (-1) else Some 1)
        else Some (if an then - (if A < B then -1 else if B < A then 1 else 0)
                   else (if A < B then -1 else if B < A then 1 else 0)))"
      unfolding order [OF 4, symmetric] using 4 by (simp add: CompareNumbers_def a(1) b(1) Let_def)
    then show ?thesis
      using True apos bpos 4 by (auto simp: va vb)
  qed
qed


section \<open>Equality and canonical form\<close>

lemma dval_last: "c \<noteq> [] \<Longrightarrow> dval c mod 10 = digit_val (last c) mod 10"
  by (cases c rule: rev_cases) (simp_all add: dval_append)

lemma dfrac_inj_aux:
  assumes "is_digits a" "is_digits b" "b \<noteq> []" "last b \<noteq> CHR ''0''"
    "length a \<le> length b" "dfrac a = dfrac b"
  shows "a = b"
proof -
  obtain k where k: "length b = length a + k"
    using assms(5) le_Suc_ex by blast
  have "of_nat (dval a * 10 ^ (length b - length a)) = (of_nat (dval b) :: rat)"
    using assms(6) by (simp add: dfrac_def k power_add field_simps)
  then have eq: "dval a * 10 ^ (length b - length a) = dval b"
    by (simp only: of_nat_eq_iff)
  have "is_digit (last b)"
    using assms(2,3) by (cases b rule: rev_cases) simp_all
  then have "digit_val (last b) mod 10 \<noteq> 0"
    using assms(4) by simp
  then have nz: "dval b mod 10 \<noteq> 0"
    using dval_last [OF assms(3)] by simp
  have "length b - length a = 0"
  proof (cases "length b - length a")
    case (Suc j)
    then have "dval b = 10 * (dval a * 10 ^ j)"
      using eq by simp
    then show ?thesis
      using nz by (metis mod_mult_self1_is_0)
  qed
  then have "length a = length b" "dval a = dval b"
    using eq assms(5) by simp_all
  then show ?thesis
    by (rule dval_inj [OF assms(1,2)])
qed

lemma normal_parts_inj:
  assumes "normal_parts an ac ae" and "normal_parts bn bc be"
    and "parts_value an ac ae = parts_value bn bc be"
  shows "an = bn \<and> ac = bc \<and> ae = be"
proof -
  have zero: "dfrac ''0'' = 0"
    by (simp add: dfrac_def digit_val_def)
  have pos: "0 < dfrac c * 10 powi (e + int (length c))" if "normal_parts n c e" "c \<noteq> ''0''" for n c e
    using dfrac_tenth [of c] that by (auto simp: normal_parts_def)
  show ?thesis
  proof (cases "ac = ''0'' \<or> bc = ''0''")
    case True
    have "parts_value n c e = 0 \<longleftrightarrow> c = ''0''" if "normal_parts n c e" for n c e
      using pos [OF that] zero by (cases "c = ''0''") (auto simp: parts_value_dfrac)
    then have "ac = ''0''" "bc = ''0''"
      using True assms by (metis (full_types))+
    then show ?thesis
      using assms by (auto simp: normal_parts_def)
  next
    case False
    then have n: "1 / 10 \<le> dfrac ac" "1 / 10 \<le> dfrac bc" "is_digits ac" "is_digits bc"
      "ac \<noteq> []" "bc \<noteq> []" "last ac \<noteq> CHR ''0''" "last bc \<noteq> CHR ''0''"
      using assms dfrac_tenth by (auto simp: normal_parts_def)
    have eq: "an = bn" "dfrac ac * 10 powi (ae + int (length ac)) = dfrac bc * 10 powi (be + int (length bc))"
      using assms(3) pos [OF assms(1)] pos [OF assms(2)] False
      by (auto simp: parts_value_dfrac split: if_splits)
    have e: "ae + int (length ac) = be + int (length bc)"
      using magnitude_less [OF n(3,2)] magnitude_less [OF n(4,1)] eq(2)
      by (metis less_irrefl linorder_neqE)
    then have f: "dfrac ac = dfrac bc"
      using eq(2) by simp
    have "ac = bc"
    proof (cases "length ac \<le> length bc")
      case True
      show ?thesis
        by (rule dfrac_inj_aux [OF n(3,4,6,8) True f])
    next
      case False
      then show ?thesis
        using dfrac_inj_aux [OF n(4,3,5,7) _ f [symmetric]] by simp
    qed
    then show ?thesis
      using e eq by simp
  qed
qed

lemma EqualNumbers_correct:
  "EqualNumbers a b \<longleftrightarrow> num_valid a \<and> num_valid b \<and> num_value a = num_value b"
proof (cases "num_valid a \<and> num_valid b")
  case False
  then show ?thesis
    using numberParts_None [of a] numberParts_None [of b]
    by (auto simp: EqualNumbers_def split: option.splits)
next
  case True
  obtain an ac ae where a: "numberParts a = Some (an, ac, Itoa ae)" "normal_parts an ac ae"
    "num_value a = parts_value an ac ae"
    using True numberParts_value by blast
  obtain bn bc be where b: "numberParts b = Some (bn, bc, Itoa be)" "normal_parts bn bc be"
    "num_value b = parts_value bn bc be"
    using True numberParts_value by blast
  show ?thesis
    using True normal_parts_inj [OF a(2) b(2)] by (auto simp: EqualNumbers_def a b Itoa_inj)
qed

lemma split_number_render:
  assumes "normal_parts neg c e"
  shows "split_number ((if neg then CHR ''-'' # c else c) @ (if Itoa e \<noteq> ''0'' then CHR ''e'' # Itoa e else []))
         = Some (neg, c, [], if Itoa e \<noteq> ''0'' then Itoa e else [])"
proof -
  define r where "r = (if Itoa e \<noteq> ''0'' then CHR ''e'' # Itoa e else [])"
  have c: "is_digits c" "c \<noteq> []" "c = ''0'' \<or> hd c \<noteq> CHR ''0''"
    using assms by (auto simp: normal_parts_def)
  have sign: "split_sign ((if neg then CHR ''-'' # c else c) @ r) = (neg, c @ r)"
    using c by (cases c) auto
  have noe: "\<not> is_digit (CHR ''e'')"
    by (simp add: is_digit_of_char)
  have tw: "takeWhile is_digit (c @ r) = c" "dropWhile is_digit (c @ r) = r"
    using c(1) noe takeWhile_append_stop [of c is_digit "CHR ''e''" "Itoa e"]
    by (auto simp: r_def is_digits_def list_all_iff)
  have fr: "split_fraction r = Some ([], r)"
    by (simp add: r_def)
  have ex: "split_exponent r = Some (if Itoa e \<noteq> ''0'' then Itoa e else [])"
    using exponent_text_Itoa [of e]
    by (cases "Itoa e") (auto simp: r_def split_exponent_def exponent_text_def Let_def)
  show ?thesis
    unfolding r_def [symmetric] split_number_def sign Let_def prod.case tw fr option.case ex
    using c by (cases c) auto
qed

lemma CanonicalNumber_value:
  assumes "num_valid n"
  obtains s where "CanonicalNumber n = Some s" and "num_valid s" and "num_value s = num_value n"
proof -
  obtain neg c e where p: "numberParts n = Some (neg, c, Itoa e)" "normal_parts neg c e"
    "num_value n = parts_value neg c e"
    using assms numberParts_value by blast
  have z: "e = 0" if "Itoa e = ''0''"
    using Itoa_inj [of e 0] that by simp
  have ev: "sval (if Itoa e \<noteq> ''0'' then Itoa e else []) = e"
    using z by auto
  let ?s = "(if neg then CHR ''-'' # c else c) @ (if Itoa e \<noteq> ''0'' then CHR ''e'' # Itoa e else [])"
  have "CanonicalNumber n = Some ?s"
    unfolding CanonicalNumber_def p(1) by simp
  moreover have "num_valid ?s" "num_value ?s = num_value n"
    unfolding num_valid_def num_value_def [of ?s] split_number_render [OF p(2)] p(3) option.case prod.case
    by (simp_all add: ev parts_value_def del: Itoa_pos)
  ultimately show ?thesis
    by (rule that)
qed

lemma CanonicalNumber_eq:
  assumes "num_valid a" and "num_valid b"
  shows "CanonicalNumber a = CanonicalNumber b \<longleftrightarrow> num_value a = num_value b"
proof
  assume "CanonicalNumber a = CanonicalNumber b"
  then show "num_value a = num_value b"
    using CanonicalNumber_value [OF assms(1)] CanonicalNumber_value [OF assms(2)]
    by (metis option.inject)
next
  assume "num_value a = num_value b"
  then have "EqualNumbers a b"
    using assms by (simp add: EqualNumbers_correct)
  then show "CanonicalNumber a = CanonicalNumber b"
    by (auto simp: EqualNumbers_def CanonicalNumber_def split: option.splits)
qed

section \<open>Properties\<close>

text \<open>C23: Comparing two JSON number tokens gives the order of the rational numbers they denote,
  exactly, for every length and every exponent; a token that is not a JSON number gives no order.\<close>

theorem CompareNumbers_exact:
  "CompareNumbers a b =
     (if num_valid a \<and> num_valid b
      then Some (if num_value a < num_value b then -1 else if num_value b < num_value a then 1 else 0)
      else None)"
  by (rule CompareNumbers_correct)

text \<open>Two JSON number tokens are equal for the policy engine exactly when both are valid and
  denote the same rational number, whatever their spelling.\<close>

theorem EqualNumbers_exact:
  "EqualNumbers a b = (num_valid a \<and> num_valid b \<and> num_value a = num_value b)"
  by (rule EqualNumbers_correct)

text \<open>The canonical form of a JSON number is a valid token of the same value, and two numbers
  have the same canonical form exactly when they have the same value: the argument digest does not
  depend on the spelling and never identifies two different numbers.\<close>

theorem CanonicalNumber_normal_form:
  assumes "num_valid a" and "num_valid b"
  shows "(\<exists>s. CanonicalNumber a = Some s \<and> num_valid s \<and> num_value s = num_value a)
         \<and> (CanonicalNumber a = CanonicalNumber b \<longleftrightarrow> num_value a = num_value b)"
  using CanonicalNumber_value [OF assms(1)] CanonicalNumber_eq [OF assms] by metis

theorem CanonicalNumber_normal_form_witness:
  "num_valid ''1.50'' \<and> num_valid ''15e-1'' \<and> CanonicalNumber ''1.50'' = CanonicalNumber ''15e-1''"
proof -
  have s: "split_number ''1.50'' = Some (False, ''1'', ''50'', [])" "split_number ''15e-1'' = Some (False, ''15'', [], ''-1'')"
    by (simp_all add: split_number_def split_exponent_def is_digit_of_char)
  then have v: "num_valid ''1.50''" "num_valid ''15e-1''"
    by (simp_all add: num_valid_def)
  have "num_value ''1.50'' = num_value ''15e-1''"
    by (simp add: num_value_def s digit_val_def power_int_minus)
  then show ?thesis
    using CanonicalNumber_normal_form [OF v] v by simp
qed

text \<open>Moving the exponent of a normalised number is exact integer arithmetic on its decimal text:
  the digit-by-digit addition and subtraction give the decimal representation of the sum.\<close>

theorem shiftExponent_exact:
  assumes "exponent_text q"
  shows "shiftExponent q n = Itoa (sval q + n)"
  using assms by (rule shiftExponent_correct)

theorem shiftExponent_exact_witness: "shiftExponent ''-098'' 100 = Itoa 2"
  using shiftExponent_exact [of "''-098''" 100]
  by (simp add: exponent_text_def is_digit_of_char digit_val_def)

end
