(* ===== verification/Run_Store.thy ===== *)
theory Run_Store
  imports Json_Value
begin

text \<open>
  The durable run store: tenant contexts (src/internal/tenant), the completion fence
  (src/internal/state/completion.go), and the SQL transactions that begin an attempt, commit a
  completion, create a run under admission caps, claim and release a thread, and write framework
  checkpoints bound to an attempt (src/internal/state/sqlcompletion, src/internal/state/sqlite).

  A table is the list of its rows; a statement \<open>UPDATE t SET .. WHERE p\<close> maps over it, and a
  \<open>SELECT .. WHERE p\<close> on a primary key is \<open>find\<close>. A transaction is one function from the store to
  a result and the store it commits; when it returns without a commit the store is unchanged,
  which is what the deferred rollback does. SQLite serialises writers (BEGIN IMMEDIATE) and the
  other backends lock the run row, so concurrent transactions are sequences of these functions.
\<close>

section \<open>Tenant contexts\<close>

record ctx =
  ctx_tenant :: "string option"
  ctx_system :: bool

definition DefaultTenant :: string where
  "DefaultTenant = ''default''"

definition FromContext :: "ctx \<Rightarrow> string" where
  "FromContext c = (case ctx_tenant c of Some v \<Rightarrow> if v \<noteq> [] then v else DefaultTenant
                    | None \<Rightarrow> DefaultTenant)"

definition WithContext :: "ctx \<Rightarrow> string \<Rightarrow> ctx" where
  "WithContext c tenantID = (if tenantID = [] then c else c\<lparr>ctx_tenant := Some tenantID\<rparr>)"

definition SystemContext :: "ctx \<Rightarrow> ctx" where
  "SystemContext c = c\<lparr>ctx_system := True\<rparr>"

definition IsSystem :: "ctx \<Rightarrow> bool" where
  "IsSystem c = ctx_system c"

section \<open>Rows\<close>

datatype RunStatus =
    RunStatusPending | RunStatusRunning | RunStatusError | RunStatusSuccess
  | RunStatusTimeout | RunStatusInterrupted | RunStatusOther string

datatype ThreadStatus =
    ThreadStatusIdle | ThreadStatusBusy | ThreadStatusInterrupted | ThreadStatusError
  | ThreadStatusOther string

definition TerminalRunStatus :: "RunStatus \<Rightarrow> bool" where
  "TerminalRunStatus s \<longleftrightarrow>
     (case s of RunStatusSuccess \<Rightarrow> True | RunStatusError \<Rightarrow> True
      | RunStatusInterrupted \<Rightarrow> True | RunStatusTimeout \<Rightarrow> True | _ \<Rightarrow> False)"

text \<open>The SQL predicate \<open>status IN ('pending','running')\<close>.\<close>

definition active_status :: "RunStatus \<Rightarrow> bool" where
  "active_status s \<longleftrightarrow> s = RunStatusPending \<or> s = RunStatusRunning"

type_synonym vals = "string \<rightharpoonup> json"

text \<open>Run metadata as the JSON column holds it: the two reserved generation fields, which only
  the store transactions write, and the rest, which they carry along unread.\<close>

record run_meta =
  rm_attempt :: "int64 option"
  rm_completion :: "int64 option"
  rm_simulation :: bool
  rm_user :: vals

record run_row =
  run_id :: string
  run_tenant :: string
  run_thread :: string
  run_agent :: string
  run_status :: RunStatus
  run_meta :: run_meta
  run_output :: "vals option"
  run_error :: string
  run_created :: int

record thread_row =
  thr_id :: string
  thr_tenant :: string
  thr_status :: ThreadStatus
  thr_values :: vals
  thr_version :: nat

record checkpoint_row =
  cp_id :: string
  cp_tenant :: string
  cp_thread :: string
  cp_parent :: "string option"
  cp_values :: vals
  cp_created :: string

record opaque_row =
  op_tenant :: string
  op_thread :: string
  op_id :: string
  op_framework :: string
  op_data :: string
  op_version :: int64

record store =
  st_runs :: "run_row list"
  st_threads :: "thread_row list"
  st_checkpoints :: "checkpoint_row list"
  st_opaque :: "opaque_row list"

definition sql_update :: "('a \<Rightarrow> bool) \<Rightarrow> ('a \<Rightarrow> 'a) \<Rightarrow> 'a list \<Rightarrow> 'a list" where
  "sql_update p f rows = map (\<lambda>r. if p r then f r else r) rows"

definition sql_delete :: "('a \<Rightarrow> bool) \<Rightarrow> 'a list \<Rightarrow> 'a list" where
  "sql_delete p rows = filter (\<lambda>r. \<not> p r) rows"

definition sql_count :: "('a \<Rightarrow> bool) \<Rightarrow> 'a list \<Rightarrow> nat" where
  "sql_count p rows = length (filter p rows)"

text \<open>The clause \<open>AND tenant_id = ?\<close>, which a system context leaves out.\<close>

definition tenant_scope :: "ctx \<Rightarrow> string \<Rightarrow> bool" where
  "tenant_scope c t \<longleftrightarrow> IsSystem c \<or> t = FromContext c"

section \<open>The completion fence\<close>

definition AttemptGenerationKey :: string where
  "AttemptGenerationKey = ''_runkite_attempt_generation''"

definition CompletionGenerationKey :: string where
  "CompletionGenerationKey = ''_runkite_completion_generation''"

text \<open>The dynamic types that \<open>MetadataGeneration\<close> distinguishes; a float64 is given by the integer
  that \<open>int64(f)\<close> yields.\<close>

datatype gval =
    GInt64 int64
  | GInt int64
  | GFloat64 int64
  | GNumber string
  | GString string
  | GOther json

text \<open>The value \<open>strconv.ParseInt\<close> returns next to its error: 0 for a syntax error, the nearest
  bound for a number out of range.\<close>

definition parse_int64 :: "string \<Rightarrow> int64" where
  "parse_int64 s =
     (let (neg, ds) =
        (case s of
           c # cs \<Rightarrow> if c = CHR ''-'' then (True, cs)
                     else if c = CHR ''+'' then (False, cs) else (False, s)
         | [] \<Rightarrow> (False, s))
      in if ds = [] \<or> \<not> is_digits ds then 0
         else if neg then max (- (2 ^ 63)) (- int (dval ds)) else min max_int64 (int (dval ds)))"

definition MetadataGeneration :: "(string \<rightharpoonup> gval) \<Rightarrow> string \<Rightarrow> int64" where
  "MetadataGeneration metadata key =
     (case metadata key of
        Some (GInt64 n) \<Rightarrow> n
      | Some (GInt n) \<Rightarrow> n
      | Some (GFloat64 n) \<Rightarrow> n
      | Some (GNumber s) \<Rightarrow> parse_int64 s
      | Some (GString s) \<Rightarrow> parse_int64 s
      | _ \<Rightarrow> 0)"

record RunCompletion =
  c_CancelCurrentAttempt :: bool
  c_CancelUsage :: "(string \<times> json) list option"
  c_RunnerKind :: string
  c_ReplayOnly :: bool
  c_RunID :: string
  c_Generation :: int64
  c_Status :: RunStatus
  c_Error :: string
  c_Values :: "vals option"

record CompletionResult =
  Accepted :: bool
  Applied :: bool

definition no_result :: CompletionResult where
  "no_result = \<lparr>Accepted = False, Applied = False\<rparr>"

definition CheckCompletion :: "(string \<rightharpoonup> gval) \<Rightarrow> RunStatus \<Rightarrow> RunCompletion \<Rightarrow> CompletionResult" where
  "CheckCompletion metadata status c =
     (if \<not> TerminalRunStatus (c_Status c) then no_result
      else if c_Generation c \<noteq> MetadataGeneration metadata AttemptGenerationKey then no_result
      else if metadata CompletionGenerationKey \<noteq> None then
        \<lparr>Accepted = (MetadataGeneration metadata CompletionGenerationKey = c_Generation c
                     \<and> status = c_Status c), Applied = False\<rparr>
      else if TerminalRunStatus status then no_result
      else \<lparr>Accepted = True, Applied = True\<rparr>)"

definition ResolveCompletion :: "(string \<rightharpoonup> gval) \<Rightarrow> RunCompletion \<Rightarrow> RunCompletion" where
  "ResolveCompletion metadata c =
     (if \<not> c_CancelCurrentAttempt c
         \<or> (c_Status c \<noteq> RunStatusInterrupted \<and> c_Status c \<noteq> RunStatusTimeout) then c
      else
        let g = MetadataGeneration metadata AttemptGenerationKey in
        c\<lparr>c_Generation := g,
          c_Values := (case c_CancelUsage c of
                         Some u \<Rightarrow> if c_Generation c = g then Some [''usage'' \<mapsto> JObj u] else None
                       | None \<Rightarrow> None)\<rparr>)"

section \<open>Loading a run\<close>

text \<open>The metadata column is decoded by \<open>json.Unmarshal\<close>, so an integer comes back as a float64:
  exactly up to 53 bits, rounded to the nearest even mantissa above that.\<close>

fun bit_width :: "nat \<Rightarrow> nat" where
  "bit_width n = (if n = 0 then 0 else Suc (bit_width (n div 2)))"

declare bit_width.simps [simp del]

definition float64_int :: "int \<Rightarrow> int" where
  "float64_int n =
     (let a = nat \<bar>n\<bar>; w = bit_width a
      in if w \<le> 53 then n
         else
           let s = w - 53; q = a div 2 ^ s; r = a mod 2 ^ s; h = 2 ^ (s - 1);
               q' = (if r > h \<or> r = h \<and> odd q then q + 1 else q)
           in sgn n * int (q' * 2 ^ s))"

text \<open>\<open>int64(f)\<close>; a float64 out of range gives the least int64 on amd64.\<close>

definition int64_of_float :: "int \<Rightarrow> int64" where
  "int64_of_float n = (if is_int64 n then n else - (2 ^ 63))"

definition reload_meta :: "run_meta \<Rightarrow> run_meta" where
  "reload_meta m =
     m\<lparr>rm_attempt := map_option (\<lambda>n. int64_of_float (float64_int n)) (rm_attempt m),
       rm_completion := map_option (\<lambda>n. int64_of_float (float64_int n)) (rm_completion m)\<rparr>"

text \<open>The decoded \<open>map[string]interface{}\<close>.\<close>

definition meta_map :: "run_meta \<Rightarrow> (string \<rightharpoonup> gval)" where
  "meta_map m k =
     (if k = AttemptGenerationKey then map_option GFloat64 (rm_attempt m)
      else if k = CompletionGenerationKey then map_option GFloat64 (rm_completion m)
      else map_option GOther (rm_user m k))"

datatype store_error =
    ErrNoRows
  | ErrNotFound string string
  | ErrConflict string string string
  | ErrRunCheckpointFence string
  | ErrAdmissionLimitExceeded string string int nat
  | ErrConstraint string
  | ErrOther string

definition load :: "ctx \<Rightarrow> store \<Rightarrow> string \<Rightarrow> store_error + (string \<times> string \<times> RunStatus \<times> run_meta)" where
  "load c st runID =
     (case find (\<lambda>r. run_id r = runID \<and> tenant_scope c (run_tenant r)) (st_runs st) of
        None \<Rightarrow> Inl ErrNoRows
      | Some r \<Rightarrow> Inr (run_tenant r, run_thread r, run_status r, reload_meta (run_meta r)))"

definition GetRun :: "ctx \<Rightarrow> store \<Rightarrow> string \<Rightarrow> store_error + run_row" where
  "GetRun c st runID =
     (case find (\<lambda>r. run_id r = runID \<and> tenant_scope c (run_tenant r)) (st_runs st) of
        None \<Rightarrow> Inl (ErrNotFound ''run'' runID)
      | Some r \<Rightarrow> Inr (r\<lparr>run_meta := reload_meta (run_meta r)\<rparr>))"

section \<open>Attempts and completions\<close>

definition BeginRunAttempt :: "ctx \<Rightarrow> store \<Rightarrow> string \<Rightarrow> int64 \<Rightarrow> (store_error + bool) \<times> store" where
  "BeginRunAttempt c st runID generation =
     (case load c st runID of
        Inl e \<Rightarrow> (Inl e, st)
      | Inr (tid, _, status, meta) \<Rightarrow>
          if TerminalRunStatus status
             \<or> MetadataGeneration (meta_map meta) AttemptGenerationKey > generation
          then (Inr False, st)
          else
            (Inr True,
             st\<lparr>st_runs := sql_update (\<lambda>r. run_id r = runID \<and> run_tenant r = tid)
                   (\<lambda>r. r\<lparr>run_meta := meta\<lparr>rm_attempt := Some generation\<rparr>,
                         run_status := RunStatusRunning\<rparr>) (st_runs st)\<rparr>))"

text \<open>\<open>SELECT checkpoint_id .. ORDER BY created_at DESC LIMIT 1\<close>: the greatest text timestamp,
  the first of them on a tie.\<close>

fun latest_checkpoint :: "checkpoint_row list \<Rightarrow> checkpoint_row option" where
  "latest_checkpoint [] = None"
| "latest_checkpoint (r # rs) =
     (case latest_checkpoint rs of
        None \<Rightarrow> Some r
      | Some q \<Rightarrow> if cp_created q > cp_created r then Some q else Some r)"

text \<open>The thread half of a completion with values: merge, bump the version, append the
  checkpoint \<open>completion:<run>\<close>. \<open>validate\<close> is the driver's \<open>ValidateValues\<close>, absent for SQLite;
  \<open>now\<close> is the formatted timestamp.\<close>

definition append_completion_checkpoint ::
  "(vals \<Rightarrow> bool) option \<Rightarrow> string \<Rightarrow> string \<Rightarrow> string \<Rightarrow> RunCompletion \<Rightarrow> vals \<Rightarrow> store \<Rightarrow> store_error + store" where
  "append_completion_checkpoint validate now tid threadID c values st =
     (case find (\<lambda>t. thr_id t = threadID \<and> thr_tenant t = tid) (st_threads st) of
        None \<Rightarrow> Inl ErrNoRows
      | Some t \<Rightarrow>
          let merged = thr_values t ++ values in
          if (case validate of Some v \<Rightarrow> \<not> v merged | None \<Rightarrow> False) then Inl (ErrOther ''invalid values'')
          else
            let parent = map_option cp_id
                  (latest_checkpoint (filter (\<lambda>p. cp_thread p = threadID \<and> cp_tenant p = tid) (st_checkpoints st)));
                cp = \<lparr>cp_id = ''completion:'' @ c_RunID c, cp_tenant = tid, cp_thread = threadID,
                      cp_parent = parent, cp_values = merged, cp_created = now\<rparr>
            in if list_ex (\<lambda>p. cp_id p = cp_id cp) (st_checkpoints st)
               then Inl (ErrConstraint ''thread_checkpoints.checkpoint_id'')
               else Inr (st\<lparr>st_threads := sql_update (\<lambda>t. thr_id t = threadID \<and> thr_tenant t = tid)
                               (\<lambda>t. t\<lparr>thr_values := merged, thr_version := thr_version t + 1\<rparr>) (st_threads st),
                            st_checkpoints := st_checkpoints st @ [cp]\<rparr>))"

text \<open>The last part: release the thread unless another of its runs is active.\<close>

definition release_completed_thread :: "string \<Rightarrow> string \<Rightarrow> RunCompletion \<Rightarrow> store \<Rightarrow> store_error + store" where
  "release_completed_thread tid threadID c st =
     (let threadStatus = (if c_Status c = RunStatusInterrupted then ThreadStatusInterrupted
                          else ThreadStatusIdle)
      in if \<not> list_ex (\<lambda>t. thr_id t = threadID \<and> thr_tenant t = tid) (st_threads st) then Inl ErrNoRows
         else
           let active = sql_count (\<lambda>r. run_thread r = threadID \<and> run_tenant r = tid
                                      \<and> active_status (run_status r) \<and> run_id r \<noteq> c_RunID c) (st_runs st)
           in Inr (if active = 0
                   then st\<lparr>st_threads := sql_update
                            (\<lambda>t. thr_id t = threadID \<and> thr_tenant t = tid \<and> thr_status t = ThreadStatusBusy)
                            (\<lambda>t. t\<lparr>thr_status := threadStatus\<rparr>) (st_threads st)\<rparr>
                   else st))"

definition CompleteRunInTx ::
  "(vals \<Rightarrow> bool) option \<Rightarrow> string \<Rightarrow> ctx \<Rightarrow> store \<Rightarrow> RunCompletion \<Rightarrow> store_error + (CompletionResult \<times> store)" where
  "CompleteRunInTx validate now cx st c0 =
     (case load cx st (c_RunID c0) of
        Inl e \<Rightarrow> Inl e
      | Inr (tid, threadID, status, meta) \<Rightarrow>
          let c = ResolveCompletion (meta_map meta) c0;
              result = CheckCompletion (meta_map meta) status c
          in if \<not> Applied result then Inr (result, st)
             else
               let meta' = meta\<lparr>rm_completion := Some (c_Generation c)\<rparr>;
                   invalid = (case (c_Values c, validate) of
                                (Some v, Some ok) \<Rightarrow> \<not> ok v | _ \<Rightarrow> False)
               in if invalid then Inl (ErrOther ''invalid values'')
                  else
                    case (case c_Values c of
                            Some v \<Rightarrow> if c_CancelCurrentAttempt c then Inr st
                                      else append_completion_checkpoint validate now tid threadID c v st
                          | None \<Rightarrow> Inr st) of
                      Inl e \<Rightarrow> Inl e
                    | Inr st1 \<Rightarrow>
                        let st2 = st1\<lparr>st_runs := sql_update (\<lambda>r. run_id r = c_RunID c \<and> run_tenant r = tid)
                                (\<lambda>r. r\<lparr>run_meta := meta', run_status := c_Status c,
                                      run_output := c_Values c, run_error := c_Error c\<rparr>) (st_runs st1)\<rparr>
                        in (case release_completed_thread tid threadID c st2 of
                              Inl e \<Rightarrow> Inl e
                            | Inr st3 \<Rightarrow> Inr (result, st3)))"

text \<open>An error or a result that is not applied rolls the transaction back.\<close>

definition CompleteRun ::
  "(vals \<Rightarrow> bool) option \<Rightarrow> string \<Rightarrow> ctx \<Rightarrow> store \<Rightarrow> RunCompletion \<Rightarrow> (store_error + CompletionResult) \<times> store" where
  "CompleteRun validate now cx st c =
     (case CompleteRunInTx validate now cx st c of
        Inl e \<Rightarrow> (Inl e, st)
      | Inr (result, st') \<Rightarrow> if Applied result then (Inr result, st') else (Inr result, st))"

section \<open>Threads\<close>

definition LockThread :: "ctx \<Rightarrow> store \<Rightarrow> string \<Rightarrow> store_error + ThreadStatus" where
  "LockThread cx st threadID =
     (case find (\<lambda>t. thr_id t = threadID \<and> thr_tenant t = FromContext cx) (st_threads st) of
        None \<Rightarrow> Inl (ErrNotFound ''thread'' threadID)
      | Some t \<Rightarrow> Inr (thr_status t))"

definition SetThreadStatus :: "ctx \<Rightarrow> store \<Rightarrow> string \<Rightarrow> ThreadStatus \<Rightarrow> store" where
  "SetThreadStatus cx st threadID status =
     st\<lparr>st_threads := sql_update (\<lambda>t. thr_id t = threadID \<and> tenant_scope cx (thr_tenant t))
          (\<lambda>t. t\<lparr>thr_status := status\<rparr>) (st_threads st)\<rparr>"

definition TryClaimThread :: "ctx \<Rightarrow> store \<Rightarrow> string \<Rightarrow> bool \<times> store" where
  "TryClaimThread cx st threadID =
     (let p = (\<lambda>t. thr_id t = threadID \<and> thr_status t \<noteq> ThreadStatusBusy \<and> tenant_scope cx (thr_tenant t))
      in (sql_count p (st_threads st) > 0,
          st\<lparr>st_threads := sql_update p (\<lambda>t. t\<lparr>thr_status := ThreadStatusBusy\<rparr>) (st_threads st)\<rparr>))"

definition ReleaseThreadIfNoOtherActive ::
  "ctx \<Rightarrow> store \<Rightarrow> string \<Rightarrow> string \<Rightarrow> ThreadStatus \<Rightarrow> bool \<times> store" where
  "ReleaseThreadIfNoOtherActive cx st threadID excludeRunID status =
     (let p = (\<lambda>t. thr_id t = threadID \<and> thr_status t = ThreadStatusBusy
                   \<and> \<not> list_ex (\<lambda>r. run_thread r = thr_id t \<and> active_status (run_status r)
                                    \<and> run_id r \<noteq> excludeRunID) (st_runs st)
                   \<and> tenant_scope cx (thr_tenant t))
      in (sql_count p (st_threads st) > 0,
          st\<lparr>st_threads := sql_update p (\<lambda>t. t\<lparr>thr_status := status\<rparr>) (st_threads st)\<rparr>))"

text \<open>Foreign keys are on: the rows that refer to the thread go with it.\<close>

definition DeleteThread :: "ctx \<Rightarrow> store \<Rightarrow> string \<Rightarrow> store_error option \<times> store" where
  "DeleteThread cx st threadID =
     (let p = (\<lambda>t. thr_id t = threadID \<and> tenant_scope cx (thr_tenant t)) in
      if sql_count p (st_threads st) = 0 then (Some (ErrNotFound ''thread'' threadID), st)
      else (None, st\<lparr>st_threads := sql_delete p (st_threads st),
                     st_runs := sql_delete (\<lambda>r. run_thread r = threadID) (st_runs st),
                     st_checkpoints := sql_delete (\<lambda>c. cp_thread c = threadID) (st_checkpoints st),
                     st_opaque := sql_delete (\<lambda>c. op_thread c = threadID) (st_opaque st)\<rparr>))"

definition UpdateRunStatus ::
  "ctx \<Rightarrow> store \<Rightarrow> string \<Rightarrow> RunStatus \<Rightarrow> vals option \<Rightarrow> string \<Rightarrow> store" where
  "UpdateRunStatus cx st runID status output errMsg =
     st\<lparr>st_runs := sql_update (\<lambda>r. run_id r = runID \<and> tenant_scope cx (run_tenant r))
          (\<lambda>r. r\<lparr>run_status := status, run_output := output, run_error := errMsg\<rparr>) (st_runs st)\<rparr>"

definition TryMarkRunTimeout :: "ctx \<Rightarrow> store \<Rightarrow> string \<Rightarrow> string \<Rightarrow> bool \<times> store" where
  "TryMarkRunTimeout cx st runID errMsg =
     (let p = (\<lambda>r. run_id r = runID \<and> active_status (run_status r) \<and> tenant_scope cx (run_tenant r))
      in (sql_count p (st_runs st) > 0,
          st\<lparr>st_runs := sql_update p (\<lambda>r. r\<lparr>run_status := RunStatusTimeout, run_error := errMsg\<rparr>) (st_runs st)\<rparr>))"

definition DeleteRun :: "ctx \<Rightarrow> store \<Rightarrow> string \<Rightarrow> store_error option \<times> store" where
  "DeleteRun cx st runID =
     (let p = (\<lambda>r. run_id r = runID \<and> tenant_scope cx (run_tenant r)) in
      (if sql_count p (st_runs st) = 0 then Some (ErrNotFound ''run'' runID) else None,
       st\<lparr>st_runs := sql_delete p (st_runs st)\<rparr>))"

text \<open>\<open>older\<close> says for which rows the column updated_at, which nothing else reads, is before the cutoff.\<close>

definition PruneRuns :: "ctx \<Rightarrow> store \<Rightarrow> (run_row \<Rightarrow> bool) \<Rightarrow> nat \<times> store" where
  "PruneRuns cx st older =
     (let p = (\<lambda>r. run_status r \<in> {RunStatusSuccess, RunStatusError, RunStatusInterrupted, RunStatusTimeout} \<and> older r
                 \<and> tenant_scope cx (run_tenant r)) in
      (sql_count p (st_runs st), st\<lparr>st_runs := sql_delete p (st_runs st)\<rparr>))"

section \<open>Admission and creation\<close>

record RunAdmissionCaps =
  TenantConcurrent :: int
  TenantDaily :: int
  AgentConcurrent :: int
  AgentDaily :: int
  caps_now :: int

text \<open>Times are seconds since the epoch; \<open>DayStart\<close> is the UTC midnight.\<close>

definition DayStart :: "RunAdmissionCaps \<Rightarrow> int" where
  "DayStart caps = caps_now caps - caps_now caps mod 86400"

definition caps_Enabled :: "RunAdmissionCaps option \<Rightarrow> bool" where
  "caps_Enabled caps =
     (case caps of None \<Rightarrow> False
      | Some c \<Rightarrow> TenantConcurrent c > 0 \<or> TenantDaily c > 0 \<or> AgentConcurrent c > 0 \<or> AgentDaily c > 0)"

definition EvaluateRunAdmission ::
  "RunAdmissionCaps option \<Rightarrow> string \<Rightarrow> (string \<Rightarrow> nat) \<Rightarrow> (int \<Rightarrow> string \<Rightarrow> nat) \<Rightarrow> store_error option" where
  "EvaluateRunAdmission caps agentID countActive countSince =
     (case caps of
        None \<Rightarrow> None
      | Some c \<Rightarrow>
          if \<not> caps_Enabled caps then None
          else if TenantConcurrent c > 0 \<and> int (countActive []) \<ge> TenantConcurrent c then
            Some (ErrAdmissionLimitExceeded ''tenant'' ''concurrent'' (TenantConcurrent c) (countActive []))
          else if AgentConcurrent c > 0 \<and> int (countActive agentID) \<ge> AgentConcurrent c then
            Some (ErrAdmissionLimitExceeded ''agent'' ''concurrent'' (AgentConcurrent c) (countActive agentID))
          else if TenantDaily c > 0 \<and> int (countSince (DayStart c) []) \<ge> TenantDaily c then
            Some (ErrAdmissionLimitExceeded ''tenant'' ''daily'' (TenantDaily c) (countSince (DayStart c) []))
          else if AgentDaily c > 0 \<and> int (countSince (DayStart c) agentID) \<ge> AgentDaily c then
            Some (ErrAdmissionLimitExceeded ''agent'' ''daily'' (AgentDaily c) (countSince (DayStart c) agentID))
          else None)"

definition countActive :: "string \<Rightarrow> store \<Rightarrow> string \<Rightarrow> nat" where
  "countActive tid st agentID =
     sql_count (\<lambda>r. active_status (run_status r) \<and> run_tenant r = tid
                   \<and> (agentID \<noteq> [] \<longrightarrow> run_agent r = agentID)) (st_runs st)"

definition countSince :: "string \<Rightarrow> store \<Rightarrow> int \<Rightarrow> string \<Rightarrow> nat" where
  "countSince tid st since agentID =
     sql_count (\<lambda>r. run_created r \<ge> since \<and> run_tenant r = tid \<and> \<not> rm_simulation (run_meta r)
                   \<and> (agentID \<noteq> [] \<longrightarrow> run_agent r = agentID)) (st_runs st)"

text \<open>\<open>createRun\<close>: lock the thread, optionally claim it, check the caps, insert the row, then the
  continuation inside the same transaction.\<close>

definition createRun_tx ::
  "ctx \<Rightarrow> store \<Rightarrow> run_row \<Rightarrow> RunAdmissionCaps option \<Rightarrow> bool
     \<Rightarrow> (store \<Rightarrow> store_error + store) \<Rightarrow> store_error + store" where
  "createRun_tx cx st run caps claim afterInsert =
     (let tid = FromContext cx in
      case LockThread cx st (run_thread run) of
        Inl e \<Rightarrow> Inl e
      | Inr status \<Rightarrow>
          if claim \<and> status = ThreadStatusBusy then Inl (ErrConflict ''thread'' (run_thread run) ''is busy'')
          else
            let st1 = (if claim
                       then st\<lparr>st_threads := sql_update (\<lambda>t. thr_id t = run_thread run \<and> thr_tenant t = tid)
                                (\<lambda>t. t\<lparr>thr_status := ThreadStatusBusy\<rparr>) (st_threads st)\<rparr>
                       else st)
            in (case EvaluateRunAdmission caps (run_agent run) (countActive tid st1) (countSince tid st1) of
                  Some e \<Rightarrow> Inl e
                | None \<Rightarrow>
                    if list_ex (\<lambda>r. run_id r = run_id run) (st_runs st1)
                    then Inl (ErrConflict ''run'' (run_id run) [])
                    else afterInsert
                      (st1\<lparr>st_runs := st_runs st1 @ [run\<lparr>run_tenant := tid, run_output := None, run_error := []\<rparr>]\<rparr>)))"

definition commit_or_rollback :: "store \<Rightarrow> store_error + store \<Rightarrow> store_error option \<times> store" where
  "commit_or_rollback st r = (case r of Inl e \<Rightarrow> (Some e, st) | Inr st' \<Rightarrow> (None, st'))"

definition CreateRunAdmitted ::
  "ctx \<Rightarrow> store \<Rightarrow> run_row \<Rightarrow> RunAdmissionCaps option \<Rightarrow> store_error option \<times> store" where
  "CreateRunAdmitted cx st run caps = commit_or_rollback st (createRun_tx cx st run caps False Inr)"

text \<open>\<open>PrepareCachedRun\<close>: the run of a cache hit, as a pending row and its completion at
  generation zero. The decoded output is a parameter of the run: None when it is not a JSON
  object.\<close>

definition PrepareCachedRun :: "run_row \<Rightarrow> store_error + (run_row \<times> RunCompletion)" where
  "PrepareCachedRun run =
     (if run_status run \<noteq> RunStatusSuccess then Inl (ErrOther ''cached creation requires a successful result'')
      else case run_output run of
        None \<Rightarrow> Inl (ErrOther ''cached result must be a JSON object'')
      | Some values \<Rightarrow>
          Inr (run\<lparr>run_status := RunStatusPending, run_output := None,
                   run_meta := (run_meta run)\<lparr>rm_attempt := None, rm_completion := None\<rparr>\<rparr>,
               \<lparr>c_CancelCurrentAttempt = False, c_CancelUsage = None, c_RunnerKind = [], c_ReplayOnly = False,
                c_RunID = run_id run, c_Generation = 0, c_Status = RunStatusSuccess, c_Error = [],
                c_Values = Some values\<rparr>))"

definition CreateCachedRun ::
  "string \<Rightarrow> ctx \<Rightarrow> store \<Rightarrow> run_row \<Rightarrow> RunAdmissionCaps option \<Rightarrow> store_error option \<times> store" where
  "CreateCachedRun now cx st run caps =
     (case PrepareCachedRun run of
        Inl e \<Rightarrow> (Some e, st)
      | Inr (pending, completion) \<Rightarrow>
          commit_or_rollback st (createRun_tx cx st pending caps True
            (\<lambda>st'. case CompleteRunInTx None now cx st' completion of
                     Inl e \<Rightarrow> Inl e
                   | Inr (result, st'') \<Rightarrow>
                       if Applied result then Inr st''
                       else Inl (ErrOther ''cache completion was not applied''))))"

section \<open>Framework checkpoints bound to an attempt\<close>

record RunCheckpointBinding =
  b_RunID :: string
  b_Generation :: int64
  b_ThreadID :: string

definition CheckRunCheckpointBinding ::
  "string \<Rightarrow> RunStatus \<Rightarrow> run_meta \<Rightarrow> RunCheckpointBinding \<Rightarrow> store_error option" where
  "CheckRunCheckpointBinding threadID status meta binding =
     (if TerminalRunStatus status then Some (ErrRunCheckpointFence ''run_not_inflight'')
      else if threadID \<noteq> b_ThreadID binding then Some (ErrRunCheckpointFence ''run_thread_mismatch'')
      else if MetadataGeneration (meta_map meta) AttemptGenerationKey \<noteq> b_Generation binding
      then Some (ErrRunCheckpointFence ''run_generation_mismatch'')
      else None)"

definition LockRunCheckpoint :: "ctx \<Rightarrow> store \<Rightarrow> RunCheckpointBinding \<Rightarrow> store_error option" where
  "LockRunCheckpoint cx st binding =
     (case load cx st (b_RunID binding) of
        Inl e \<Rightarrow> Some (if e = ErrNoRows then ErrRunCheckpointFence ''run_not_inflight'' else e)
      | Inr (_, threadID, status, meta) \<Rightarrow>
          (case CheckRunCheckpointBinding threadID status meta binding of
             Some e \<Rightarrow> Some e
           | None \<Rightarrow> (case LockThread cx st threadID of Inl e \<Rightarrow> Some e | Inr _ \<Rightarrow> None)))"

definition MaxOpaqueCheckpointBytes :: nat where
  "MaxOpaqueCheckpointBytes = 16777216"

definition OpaqueCreateOnly :: int64 where
  "OpaqueCreateOnly = 0"

definition op_key :: "string \<Rightarrow> string \<Rightarrow> string \<Rightarrow> opaque_row \<Rightarrow> bool" where
  "op_key tid threadID checkpointID r \<longleftrightarrow>
     op_tenant r = tid \<and> op_thread r = threadID \<and> op_id r = checkpointID"

text \<open>\<open>putOpaqueCheckpoint\<close>: create only, compare and swap on the version, or upsert.\<close>

definition putOpaqueCheckpoint ::
  "ctx \<Rightarrow> store \<Rightarrow> string \<Rightarrow> string \<Rightarrow> string \<Rightarrow> string \<Rightarrow> int64 option \<Rightarrow> store_error + (int64 \<times> store)" where
  "putOpaqueCheckpoint cx st threadID checkpointID dat framework ifMatch =
     (if length dat > MaxOpaqueCheckpointBytes then Inl (ErrOther ''opaque checkpoint exceeds max size'')
      else
        let tid = FromContext cx;
            old = find (op_key tid threadID checkpointID) (st_opaque st);
            new = \<lparr>op_tenant = tid, op_thread = threadID, op_id = checkpointID, op_framework = framework,
                   op_data = dat, op_version = 1\<rparr>;
            overwrite = (\<lambda>r. r\<lparr>op_framework := framework, op_data := dat, op_version := op_version r + 1\<rparr>)
        in (case (ifMatch, old) of
              (None, None) \<Rightarrow> Inr (1, st\<lparr>st_opaque := st_opaque st @ [new]\<rparr>)
            | (None, Some r) \<Rightarrow>
                Inr (op_version r + 1, st\<lparr>st_opaque := sql_update (op_key tid threadID checkpointID) overwrite (st_opaque st)\<rparr>)
            | (Some v, old) \<Rightarrow>
                if v = OpaqueCreateOnly then
                  (case old of
                     None \<Rightarrow> Inr (1, st\<lparr>st_opaque := st_opaque st @ [new]\<rparr>)
                   | Some _ \<Rightarrow> Inl (ErrConflict ''opaque_checkpoint'' checkpointID ''already exists''))
                else
                  (case old of
                     Some r \<Rightarrow>
                       if op_version r = v then
                         Inr (v + 1, st\<lparr>st_opaque := sql_update (op_key tid threadID checkpointID) overwrite (st_opaque st)\<rparr>)
                       else Inl (ErrConflict ''opaque_checkpoint'' checkpointID ''version mismatch'')
                   | None \<Rightarrow> Inl (ErrConflict ''opaque_checkpoint'' checkpointID ''version mismatch''))))"

definition PutBoundOpaqueCheckpoint ::
  "ctx \<Rightarrow> store \<Rightarrow> RunCheckpointBinding \<Rightarrow> string \<Rightarrow> string \<Rightarrow> string \<Rightarrow> int64 option \<Rightarrow> (store_error + int64) \<times> store" where
  "PutBoundOpaqueCheckpoint cx st binding checkpointID dat framework ifMatch =
     (case LockRunCheckpoint cx st binding of
        Some e \<Rightarrow> (Inl e, st)
      | None \<Rightarrow>
          (case putOpaqueCheckpoint cx st (b_ThreadID binding) checkpointID dat framework ifMatch of
             Inl e \<Rightarrow> (Inl e, st)
           | Inr (v, st') \<Rightarrow> (Inr v, st')))"

definition DeleteBoundOpaqueCheckpoint ::
  "ctx \<Rightarrow> store \<Rightarrow> RunCheckpointBinding \<Rightarrow> string \<Rightarrow> store_error option \<times> store" where
  "DeleteBoundOpaqueCheckpoint cx st binding checkpointID =
     (case LockRunCheckpoint cx st binding of
        Some e \<Rightarrow> (Some e, st)
      | None \<Rightarrow>
          let p = op_key (FromContext cx) (b_ThreadID binding) checkpointID
          in if list_ex p (st_opaque st)
             then (None, st\<lparr>st_opaque := filter (\<lambda>r. \<not> p r) (st_opaque st)\<rparr>)
             else (Some (ErrNotFound ''opaque_checkpoint'' checkpointID), st))"

section \<open>Rows by primary key\<close>

definition run_of :: "store \<Rightarrow> string \<Rightarrow> run_row option" where
  "run_of st i = find (\<lambda>r. run_id r = i) (st_runs st)"

definition keys_ok :: "store \<Rightarrow> bool" where
  "keys_ok st \<longleftrightarrow> distinct (map run_id (st_runs st)) \<and> distinct (map thr_id (st_threads st))"

lemma find_sql_update:
  "(\<And>r. p (f r) = p r) \<Longrightarrow>
   find p (sql_update q f rows) = map_option (\<lambda>r. if q r then f r else r) (find p rows)"
  by (induction rows) (auto simp: sql_update_def)

lemma map_sql_update: "(\<And>r. k (f r) = k r) \<Longrightarrow> map k (sql_update q f rows) = map k rows"
  by (auto simp: sql_update_def)

lemma find_key:
  assumes "distinct (map k rows)"
  shows "find (\<lambda>r. k r = i \<and> P r) rows
         = (case find (\<lambda>r. k r = i) rows of Some r \<Rightarrow> if P r then Some r else None | None \<Rightarrow> None)"
proof -
  have "find (\<lambda>r. k r = i \<and> P r) rows = None" if "i \<notin> set (map k rows)" for rows
    using that by (auto simp: find_None_iff)
  with assms show ?thesis
    by (induction rows) (auto split: option.splits)
qed

lemma find_append: "find p (xs @ ys) = (case find p xs of Some r \<Rightarrow> Some r | None \<Rightarrow> find p ys)"
  by (induction xs) auto

lemma find_key_Some: "find (\<lambda>r. k r = i) rows = Some r \<Longrightarrow> k r = i \<and> r \<in> set rows"
  by (auto simp: find_Some_iff)

lemma find_key_None: "find (\<lambda>r. k r = i) rows = None \<longleftrightarrow> i \<notin> set (map k rows)"
  by (auto simp: find_None_iff)

section \<open>Reading the generation fields\<close>

lemma keys_distinct [simp]:
  "AttemptGenerationKey \<noteq> CompletionGenerationKey" "CompletionGenerationKey \<noteq> AttemptGenerationKey"
  by (simp_all add: AttemptGenerationKey_def CompletionGenerationKey_def)

definition gen_of :: "int64 option \<Rightarrow> int64" where
  "gen_of o1 = (case o1 of Some n \<Rightarrow> n | None \<Rightarrow> 0)"

lemma MetadataGeneration_attempt [simp]:
  "MetadataGeneration (meta_map m) AttemptGenerationKey = gen_of (rm_attempt m)"
  by (simp add: MetadataGeneration_def meta_map_def gen_of_def split: option.splits)

lemma MetadataGeneration_completion [simp]:
  "MetadataGeneration (meta_map m) CompletionGenerationKey = gen_of (rm_completion m)"
  by (simp add: MetadataGeneration_def meta_map_def gen_of_def split: option.splits)

lemma meta_map_completion [simp]: "meta_map m CompletionGenerationKey = None \<longleftrightarrow> rm_completion m = None"
  by (simp add: meta_map_def)

lemma bit_width_le: "n < 2 ^ k \<Longrightarrow> bit_width n \<le> k"
proof (induction k arbitrary: n)
  case 0
  then show ?case by (simp add: bit_width.simps)
next
  case (Suc k)
  then have "n div 2 < 2 ^ k" by simp
  then show ?case
    using Suc.IH [of "n div 2"] by (subst bit_width.simps) simp
qed

text \<open>Generations up to 53 bits survive the round trip through the metadata column.\<close>

definition small_gen :: "int64 \<Rightarrow> bool" where
  "small_gen g \<longleftrightarrow> \<bar>g\<bar> < 2 ^ 53"

lemma reload_small [simp]: "small_gen g \<Longrightarrow> int64_of_float (float64_int g) = g"
proof -
  assume g: "small_gen g"
  then have "nat \<bar>g\<bar> < 2 ^ 53"
    by (simp add: small_gen_def nat_less_iff)
  then have "float64_int g = g"
    using bit_width_le [of "nat \<bar>g\<bar>" 53] by (simp add: float64_int_def)
  then show ?thesis
    using g by (auto simp: int64_of_float_def is_int64_def small_gen_def abs_less_iff)
qed

definition small_meta :: "run_meta \<Rightarrow> bool" where
  "small_meta m \<longleftrightarrow> (\<forall>g. rm_attempt m = Some g \<or> rm_completion m = Some g \<longrightarrow> small_gen g)"

lemma reload_meta_small: "small_meta m \<Longrightarrow> reload_meta m = m"
  by (cases "rm_attempt m"; cases "rm_completion m") (auto simp: reload_meta_def small_meta_def)

lemma reload_completion_None [simp]: "rm_completion (reload_meta m) = None \<longleftrightarrow> rm_completion m = None"
  by (simp add: reload_meta_def)

section \<open>What a transaction does to one run\<close>

definition row_meta :: "run_row \<Rightarrow> run_meta" where
  "row_meta r = reload_meta (run_meta r)"

definition attempt_gen :: "run_row \<Rightarrow> int64" where
  "attempt_gen r = gen_of (rm_attempt (row_meta r))"

definition begin_row :: "int64 \<Rightarrow> run_row \<Rightarrow> run_row" where
  "begin_row g r =
     (if TerminalRunStatus (run_status r) \<or> attempt_gen r > g then r
      else r\<lparr>run_meta := (row_meta r)\<lparr>rm_attempt := Some g\<rparr>, run_status := RunStatusRunning\<rparr>)"

definition resolve_row :: "run_row \<Rightarrow> RunCompletion \<Rightarrow> RunCompletion" where
  "resolve_row r c = ResolveCompletion (meta_map (row_meta r)) c"

definition check_row :: "run_row \<Rightarrow> RunCompletion \<Rightarrow> CompletionResult" where
  "check_row r c = CheckCompletion (meta_map (row_meta r)) (run_status r) (resolve_row r c)"

definition completed_row :: "RunCompletion \<Rightarrow> run_row \<Rightarrow> run_row" where
  "completed_row c r =
     r\<lparr>run_meta := (row_meta r)\<lparr>rm_completion := Some (c_Generation (resolve_row r c))\<rparr>,
       run_status := c_Status c, run_output := c_Values (resolve_row r c), run_error := c_Error c\<rparr>"

lemma resolve_row_simps [simp]:
  "c_RunID (resolve_row r c) = c_RunID c" "c_Status (resolve_row r c) = c_Status c"
  "c_Error (resolve_row r c) = c_Error c" "c_CancelCurrentAttempt (resolve_row r c) = c_CancelCurrentAttempt c"
  by (simp_all add: resolve_row_def ResolveCompletion_def Let_def)

lemma load_run_of:
  assumes "keys_ok st"
  shows "load cx st i =
     (case run_of st i of
        Some r \<Rightarrow> if tenant_scope cx (run_tenant r)
                  then Inr (run_tenant r, run_thread r, run_status r, row_meta r) else Inl ErrNoRows
      | None \<Rightarrow> Inl ErrNoRows)"
  using assms find_key [of run_id "st_runs st" i "\<lambda>r. tenant_scope cx (run_tenant r)"]
  by (auto simp: load_def run_of_def keys_ok_def row_meta_def split: option.splits)

lemma run_of_update:
  assumes "\<And>r. run_id (f r) = run_id r"
  shows "run_of (st\<lparr>st_runs := sql_update q f (st_runs st)\<rparr>) j
         = map_option (\<lambda>r. if q r then f r else r) (run_of st j)"
  unfolding run_of_def using assms by (simp add: find_sql_update)

lemma keys_ok_update_runs:
  assumes "keys_ok st" and "\<And>r. run_id (f r) = run_id r"
  shows "keys_ok (st\<lparr>st_runs := sql_update q f (st_runs st)\<rparr>)"
  using assms by (simp add: keys_ok_def map_sql_update)

lemma keys_ok_update_threads:
  assumes "keys_ok st" and "\<And>t. thr_id (f t) = thr_id t"
  shows "keys_ok (st\<lparr>st_threads := sql_update q f (st_threads st)\<rparr>)"
  using assms by (simp add: keys_ok_def map_sql_update)

lemma run_of_id: "run_of st i = Some r \<Longrightarrow> run_id r = i"
  unfolding run_of_def by (drule find_key_Some) simp

lemma run_of_cong: "st_runs st = st_runs st' \<Longrightarrow> run_of st = run_of st'"
  by (rule ext) (simp add: run_of_def)

lemma BeginRunAttempt_run_of:
  assumes "keys_ok st"
  shows "run_of (snd (BeginRunAttempt cx st i g)) j =
     (if j = i then map_option (\<lambda>r. if tenant_scope cx (run_tenant r) then begin_row g r else r) (run_of st i)
      else run_of st j)"
proof (cases "run_of st i")
  case None
  then show ?thesis
    by (auto simp: BeginRunAttempt_def load_run_of [OF assms])
next
  case (Some r)
  then show ?thesis
    using run_of_id [OF Some] run_of_id [of st j]
    by (cases "run_of st j")
       (auto simp: BeginRunAttempt_def load_run_of [OF assms] run_of_update begin_row_def attempt_gen_def)
qed

lemma BeginRunAttempt_keys: "keys_ok st \<Longrightarrow> keys_ok (snd (BeginRunAttempt cx st i g))"
  by (auto simp: BeginRunAttempt_def load_run_of intro!: keys_ok_update_runs split: option.splits)

lemma release_completed_thread_frame:
  assumes "release_completed_thread tid threadID c st = Inr st'"
  shows "st_runs st' = st_runs st \<and> st_checkpoints st' = st_checkpoints st \<and> st_opaque st' = st_opaque st
         \<and> map thr_id (st_threads st') = map thr_id (st_threads st)"
  using assms by (auto simp: release_completed_thread_def Let_def map_sql_update split: if_splits)

lemma append_completion_checkpoint_frame:
  assumes "append_completion_checkpoint v now tid threadID c vs st = Inr st'"
  shows "st_runs st' = st_runs st \<and> st_opaque st' = st_opaque st
         \<and> map thr_id (st_threads st') = map thr_id (st_threads st)"
  using assms
  by (auto simp: append_completion_checkpoint_def Let_def map_sql_update split: option.splits if_splits)

text \<open>A committed completion, taken apart.\<close>

lemma CompleteRunInTx_Applied:
  assumes "CompleteRunInTx v now cx st c = Inr (res, st')" and "Applied res" and "keys_ok st"
  obtains r st1 where "run_of st (c_RunID c) = Some r" and "tenant_scope cx (run_tenant r)"
    and "check_row r c = res"
    and "(case c_Values (resolve_row r c) of
            Some vs \<Rightarrow> if c_CancelCurrentAttempt c then Inr st
                       else append_completion_checkpoint v now (run_tenant r) (run_thread r) (resolve_row r c) vs st
          | None \<Rightarrow> Inr st) = Inr st1"
    and "release_completed_thread (run_tenant r) (run_thread r) (resolve_row r c)
           (st1\<lparr>st_runs := sql_update (\<lambda>q. run_id q = c_RunID c \<and> run_tenant q = run_tenant r)
                  (\<lambda>q. q\<lparr>run_meta := (row_meta r)\<lparr>rm_completion := Some (c_Generation (resolve_row r c))\<rparr>,
                        run_status := c_Status c, run_output := c_Values (resolve_row r c),
                        run_error := c_Error c\<rparr>) (st_runs st1)\<rparr>) = Inr st'"
proof -
  obtain r where r: "run_of st (c_RunID c) = Some r" "tenant_scope cx (run_tenant r)"
    using assms(1) by (auto simp: CompleteRunInTx_def load_run_of [OF assms(3)] split: option.splits if_splits)
  then have ld: "load cx st (c_RunID c) = Inr (run_tenant r, run_thread r, run_status r, row_meta r)"
    by (simp add: load_run_of [OF assms(3)])
  note u = assms(1) [unfolded CompleteRunInTx_def ld sum.case prod.case Let_def,
      folded resolve_row_def, folded check_row_def, unfolded resolve_row_simps]
  have res: "check_row r c = res"
    using u assms(2) by (auto split: if_splits sum.splits)
  then have "Applied (check_row r c)"
    using assms(2) by simp
  then obtain st1 where "(case c_Values (resolve_row r c) of
            Some vs \<Rightarrow> if c_CancelCurrentAttempt c then Inr st
                       else append_completion_checkpoint v now (run_tenant r) (run_thread r) (resolve_row r c) vs st
          | None \<Rightarrow> Inr st) = Inr st1"
    "release_completed_thread (run_tenant r) (run_thread r) (resolve_row r c)
           (st1\<lparr>st_runs := sql_update (\<lambda>q. run_id q = c_RunID c \<and> run_tenant q = run_tenant r)
                  (\<lambda>q. q\<lparr>run_meta := (row_meta r)\<lparr>rm_completion := Some (c_Generation (resolve_row r c))\<rparr>,
                        run_status := c_Status c, run_output := c_Values (resolve_row r c),
                        run_error := c_Error c\<rparr>) (st_runs st1)\<rparr>) = Inr st'"
    using u by (auto split: if_splits sum.splits)
  with that r res show ?thesis by blast
qed

lemma CompleteRunInTx_effect:
  assumes "CompleteRunInTx v now cx st c = Inr (res, st')" and "Applied res" and "keys_ok st"
  obtains r where "run_of st (c_RunID c) = Some r" and "tenant_scope cx (run_tenant r)"
    and "check_row r c = res" and "keys_ok st'"
    and "\<And>j. run_of st' j = (if j = c_RunID c then Some (completed_row c r) else run_of st j)"
  using assms
proof (rule CompleteRunInTx_Applied)
  fix r st1
  let ?f = "\<lambda>q. q\<lparr>run_meta := (row_meta r)\<lparr>rm_completion := Some (c_Generation (resolve_row r c))\<rparr>,
                        run_status := c_Status c, run_output := c_Values (resolve_row r c),
                        run_error := c_Error c\<rparr>"
  let ?q = "\<lambda>q. run_id q = c_RunID c \<and> run_tenant q = run_tenant r"
  assume r: "run_of st (c_RunID c) = Some r" "tenant_scope cx (run_tenant r)" "check_row r c = res"
    and st1: "(case c_Values (resolve_row r c) of
            Some vs \<Rightarrow> if c_CancelCurrentAttempt c then Inr st
                       else append_completion_checkpoint v now (run_tenant r) (run_thread r) (resolve_row r c) vs st
          | None \<Rightarrow> Inr st) = Inr st1"
    and rel: "release_completed_thread (run_tenant r) (run_thread r) (resolve_row r c)
           (st1\<lparr>st_runs := sql_update ?q ?f (st_runs st1)\<rparr>) = Inr st'"
  have f1: "st_runs st1 = st_runs st \<and> map thr_id (st_threads st1) = map thr_id (st_threads st)"
    using st1 append_completion_checkpoint_frame by (fastforce split: option.splits if_splits)
  have f2: "st_runs st' = sql_update ?q ?f (st_runs st) \<and> map thr_id (st_threads st') = map thr_id (st_threads st)"
    using release_completed_thread_frame [OF rel] f1 by simp
  have "keys_ok st'"
    using assms(3) f2 by (simp add: keys_ok_def map_sql_update)
  moreover have "run_of st' j = (if j = c_RunID c then Some (completed_row c r) else run_of st j)" for j
  proof -
    have "run_of st' j = map_option (\<lambda>x. if ?q x then ?f x else x) (run_of st j)"
      using f2 by (simp add: run_of_def find_sql_update)
    then show ?thesis
      using r(1) run_of_id [of st j] run_of_id [OF r(1)]
      by (cases "run_of st j") (auto simp: completed_row_def)
  qed
  ultimately show thesis
    using that r by blast
qed

lemma CompleteRun_effect:
  assumes "CompleteRun v now cx st c = (res, st')" and "keys_ok st"
  obtains "st' = st" "\<And>x. res = Inr x \<Longrightarrow> \<not> Applied x"
  | r where "run_of st (c_RunID c) = Some r" and "tenant_scope cx (run_tenant r)"
      and "res = Inr (check_row r c)" and "Applied (check_row r c)" and "keys_ok st'"
      and "\<And>j. run_of st' j = (if j = c_RunID c then Some (completed_row c r) else run_of st j)"
proof (cases "CompleteRunInTx v now cx st c")
  case (Inl e)
  then have "res = Inl e" "st' = st"
    using assms(1) by (simp_all add: CompleteRun_def)
  then show ?thesis
    using that(1) by simp
next
  case (Inr p)
  obtain result stx where p: "p = (result, stx)" by fastforce
  show ?thesis
  proof (cases "Applied result")
    case False
    then have "res = Inr result" "st' = st"
      using assms(1) Inr p by (simp_all add: CompleteRun_def)
    then show ?thesis
      using that(1) False by simp
  next
    case True
    then have "res = Inr result" "st' = stx"
      using assms(1) Inr p by (simp_all add: CompleteRun_def)
    then show ?thesis
      using CompleteRunInTx_effect [OF _ True assms(2)] Inr p True that(2) by blast
  qed
qed

lemma check_row_Applied:
  "Applied (check_row r c) \<longleftrightarrow>
     TerminalRunStatus (c_Status c) \<and> c_Generation (resolve_row r c) = attempt_gen r
     \<and> rm_completion (run_meta r) = None \<and> \<not> TerminalRunStatus (run_status r)"
  by (simp add: check_row_def CheckCompletion_def no_result_def attempt_gen_def row_meta_def)

lemma Applied_Accepted: "Applied (check_row r c) \<Longrightarrow> Accepted (check_row r c)"
  by (auto simp: check_row_def CheckCompletion_def no_result_def split: if_splits)

lemma createRun_tx_admitted:
  assumes "createRun_tx cx st run caps claim k = Inr st'"
  obtains st1 where "st_runs st1 = st_runs st" and "map thr_id (st_threads st1) = map thr_id (st_threads st)"
    and "EvaluateRunAdmission caps (run_agent run) (countActive (FromContext cx) st1) (countSince (FromContext cx) st1) = None"
    and "run_id run \<notin> set (map run_id (st_runs st))"
    and "k (st1\<lparr>st_runs := st_runs st1 @ [run\<lparr>run_tenant := FromContext cx, run_output := None, run_error := []\<rparr>]\<rparr>) = Inr st'"
proof -
  define st1 where "st1 = (if claim
     then st\<lparr>st_threads := sql_update (\<lambda>t. thr_id t = run_thread run \<and> thr_tenant t = FromContext cx)
                                (\<lambda>t. t\<lparr>thr_status := ThreadStatusBusy\<rparr>) (st_threads st)\<rparr> else st)"
  have frame: "st_runs st1 = st_runs st" "map thr_id (st_threads st1) = map thr_id (st_threads st)"
    by (simp_all add: st1_def map_sql_update)
  have "EvaluateRunAdmission caps (run_agent run) (countActive (FromContext cx) st1) (countSince (FromContext cx) st1) = None
     \<and> \<not> list_ex (\<lambda>r. run_id r = run_id run) (st_runs st1)
     \<and> k (st1\<lparr>st_runs := st_runs st1 @ [run\<lparr>run_tenant := FromContext cx, run_output := None, run_error := []\<rparr>]\<rparr>) = Inr st'"
    using assms unfolding createRun_tx_def Let_def st1_def [symmetric]
    by (auto split: sum.splits if_splits option.splits)
  moreover from this frame(1) have "run_id run \<notin> set (map run_id (st_runs st))"
    by (auto simp: list_ex_iff)
  ultimately show ?thesis
    using that [of st1] frame by blast
qed

lemma createRun_tx_insert:
  assumes "createRun_tx cx st run caps claim k = Inr st'"
  obtains st1 where "st_runs st1 = st_runs st"
    and "map thr_id (st_threads st1) = map thr_id (st_threads st)"
    and "run_id run \<notin> set (map run_id (st_runs st))"
    and "k (st1\<lparr>st_runs := st_runs st1 @ [run\<lparr>run_tenant := FromContext cx, run_output := None, run_error := []\<rparr>]\<rparr>) = Inr st'"
  using assms by (rule createRun_tx_admitted) (rule that)

lemma run_of_insert:
  assumes "run_id run \<notin> set (map run_id (st_runs st))" and "keys_ok st"
  shows "run_of (st\<lparr>st_runs := st_runs st @ [run]\<rparr>) j = (if j = run_id run then Some run else run_of st j)"
    and "keys_ok (st\<lparr>st_runs := st_runs st @ [run]\<rparr>)"
proof -
  have "find (\<lambda>r. run_id r = run_id run) (st_runs st) = None"
    using assms(1) by (simp only: find_key_None) simp
  then show "run_of (st\<lparr>st_runs := st_runs st @ [run]\<rparr>) j = (if j = run_id run then Some run else run_of st j)"
    by (auto simp: run_of_def find_append split: option.splits)
  show "keys_ok (st\<lparr>st_runs := st_runs st @ [run]\<rparr>)"
    using assms by (auto simp: keys_ok_def)
qed

end
