(* ===== verification/Run_History.thy ===== *)
theory Run_History
  imports Run_Store
begin

text \<open>
  Histories of the run store: every transaction of Run_Store as one operation, the step relation
  in which an operation commits or aborts, and what holds along every sequence of steps whatever
  the interleaving of runners, reclaim, cancellation and timeouts: a completion is applied at most
  once, a completed run is frozen until its row is deleted, attempts only advance, tenants cannot touch
  each other's rows, and the admission caps bound the active runs. The statements that delete rows are
  operations of the histories with deletions.
\<close>

section \<open>Histories of transactions\<close>

datatype store_op =
    OpBegin ctx string int64
  | OpComplete "(vals \<Rightarrow> bool) option" string ctx RunCompletion
  | OpClaim ctx string
  | OpRelease ctx string string ThreadStatus
  | OpSetThread ctx string ThreadStatus
  | OpUpdateStatus ctx string RunStatus "vals option" string
  | OpTimeout ctx string string
  | OpCreate ctx run_row "RunAdmissionCaps option"
  | OpCreateCached string ctx run_row "RunAdmissionCaps option"
  | OpPutOpaque ctx RunCheckpointBinding string string string "int64 option"
  | OpDeleteOpaque ctx RunCheckpointBinding string

fun exec_op :: "store_op \<Rightarrow> store \<Rightarrow> store" where
  "exec_op (OpBegin cx i g) st = snd (BeginRunAttempt cx st i g)"
| "exec_op (OpComplete v now cx c) st = snd (CompleteRun v now cx st c)"
| "exec_op (OpClaim cx t) st = snd (TryClaimThread cx st t)"
| "exec_op (OpRelease cx t i s) st = snd (ReleaseThreadIfNoOtherActive cx st t i s)"
| "exec_op (OpSetThread cx t s) st = SetThreadStatus cx st t s"
| "exec_op (OpUpdateStatus cx i s vs e) st = UpdateRunStatus cx st i s vs e"
| "exec_op (OpTimeout cx i e) st = snd (TryMarkRunTimeout cx st i e)"
| "exec_op (OpCreate cx run caps) st = snd (CreateRunAdmitted cx st run caps)"
| "exec_op (OpCreateCached now cx run caps) st = snd (CreateCachedRun now cx st run caps)"
| "exec_op (OpPutOpaque cx b i d f m) st = snd (PutBoundOpaqueCheckpoint cx st b i d f m)"
| "exec_op (OpDeleteOpaque cx b i) st = snd (DeleteBoundOpaqueCheckpoint cx st b i)"

text \<open>What the callers guarantee: dispatch generations fit in 53 bits, the
  unconditional status update is used with a terminal status only, and a run is created
  pending, with the reserved metadata fields removed (createRunCtx deletes them).\<close>

definition op_ok :: "store_op \<Rightarrow> bool" where
  "op_ok op =
     (case op of
        OpBegin _ _ g \<Rightarrow> small_gen g
      | OpUpdateStatus _ _ s _ _ \<Rightarrow> TerminalRunStatus s
      | OpCreate _ run _ \<Rightarrow> run_status run = RunStatusPending
                            \<and> rm_attempt (run_meta run) = None \<and> rm_completion (run_meta run) = None
      | _ \<Rightarrow> True)"

text \<open>A transaction commits, or fails and leaves the store as it was; a commit whose
  acknowledgement is lost is a commit.\<close>

inductive store_step :: "store \<Rightarrow> store_op \<Rightarrow> store \<Rightarrow> bool" where
  commit: "op_ok op \<Longrightarrow> store_step st op (exec_op op st)"
| abort: "store_step st op st"

inductive_cases store_stepE: "store_step st op st'"

inductive store_trace :: "store \<Rightarrow> (store \<times> store_op \<times> store) list \<Rightarrow> store \<Rightarrow> bool" where
  trace_Nil: "store_trace st [] st"
| trace_snoc: "store_trace st tr st1 \<Longrightarrow> store_step st1 op st2 \<Longrightarrow> store_trace st (tr @ [(st1, op, st2)]) st2"

definition store_inv :: "store \<Rightarrow> bool" where
  "store_inv st \<longleftrightarrow> keys_ok st \<and>
     (\<forall>i r. run_of st i = Some r \<longrightarrow>
        small_meta (run_meta r) \<and> (rm_completion (run_meta r) \<noteq> None \<longrightarrow> TerminalRunStatus (run_status r)))"


text \<open>How one step may change a run row that exists: identity fields stay, a recorded completion
  stays, and the attempt generation does not decrease.\<close>

definition row_step :: "run_row \<Rightarrow> run_row \<Rightarrow> bool" where
  "row_step r r' \<longleftrightarrow>
     run_id r' = run_id r \<and> run_tenant r' = run_tenant r \<and> run_thread r' = run_thread r
     \<and> run_agent r' = run_agent r \<and> run_created r' = run_created r
     \<and> small_meta (run_meta r')
     \<and> (rm_completion (run_meta r') \<noteq> None \<longrightarrow> TerminalRunStatus (run_status r'))
     \<and> (rm_completion (run_meta r) \<noteq> None \<longrightarrow> run_meta r' = run_meta r)
     \<and> gen_of (rm_attempt (run_meta r)) \<le> gen_of (rm_attempt (run_meta r'))"

definition row_inv :: "run_row \<Rightarrow> bool" where
  "row_inv r \<longleftrightarrow> small_meta (run_meta r)
     \<and> (rm_completion (run_meta r) \<noteq> None \<longrightarrow> TerminalRunStatus (run_status r))"

lemma row_step_refl: "row_inv r \<Longrightarrow> row_step r r"
  by (simp add: row_step_def row_inv_def)

lemma row_inv_meta: "row_inv r \<Longrightarrow> row_meta r = run_meta r"
  by (simp add: row_inv_def row_meta_def reload_meta_small)

lemma attempt_gen_inv: "row_inv r \<Longrightarrow> attempt_gen r = gen_of (rm_attempt (run_meta r))"
  by (simp add: attempt_gen_def row_inv_meta)

lemma attempt_gen_small: "row_inv r \<Longrightarrow> small_gen (attempt_gen r)"
  by (cases "rm_attempt (run_meta r)")
     (auto simp: attempt_gen_inv gen_of_def row_inv_def small_meta_def small_gen_def)

lemma begin_row_step: "row_inv r \<Longrightarrow> small_gen g \<Longrightarrow> row_step r (begin_row g r)"
  by (auto simp: begin_row_def row_inv_meta attempt_gen_inv row_step_def small_meta_def gen_of_def
      row_inv_def)

lemma completed_row_step:
  assumes "row_inv r" and "Applied (check_row r c)"
  shows "row_step r (completed_row c r)" and "rm_completion (run_meta (completed_row c r)) = Some (attempt_gen r)"
proof -
  have c: "TerminalRunStatus (c_Status c)" "c_Generation (resolve_row r c) = attempt_gen r"
    "rm_completion (run_meta r) = None"
    using assms(2) by (auto simp: check_row_Applied)
  then show "rm_completion (run_meta (completed_row c r)) = Some (attempt_gen r)"
    by (simp add: completed_row_def)
  show "row_step r (completed_row c r)"
    using c assms(1) attempt_gen_small [OF assms(1)]
    by (auto simp: row_step_def completed_row_def row_inv_meta small_meta_def row_inv_def)
qed

lemma store_inv_alt: "store_inv st \<longleftrightarrow> keys_ok st \<and> (\<forall>i r. run_of st i = Some r \<longrightarrow> row_inv r)"
  by (simp add: store_inv_def row_inv_def)

lemma small_meta_None: "rm_attempt m = None \<Longrightarrow> rm_completion m = None \<Longrightarrow> small_meta m"
  by (simp add: small_meta_def)


text \<open>How a transaction may change the table of runs.\<close>

definition rows_step :: "store \<Rightarrow> store \<Rightarrow> bool" where
  "rows_step st st' \<longleftrightarrow> keys_ok st'
     \<and> (\<forall>i r. run_of st i = Some r \<longrightarrow> (\<exists>r'. run_of st' i = Some r' \<and> row_step r r'))
     \<and> (\<forall>i r'. run_of st i = None \<longrightarrow> run_of st' i = Some r' \<longrightarrow> row_inv r')"

lemma rows_step_same:
  assumes "store_inv st" and "st_runs st' = st_runs st" and "map thr_id (st_threads st') = map thr_id (st_threads st)"
  shows "rows_step st st'"
proof -
  have "run_of st' = run_of st"
    using assms(2) by (simp add: run_of_def fun_eq_iff)
  then show ?thesis
    using assms by (auto simp: rows_step_def store_inv_alt keys_ok_def intro: row_step_refl)
qed

lemma rows_step_refl: "store_inv st \<Longrightarrow> rows_step st st"
  by (rule rows_step_same) simp_all

lemma BeginRunAttempt_rows:
  assumes "store_inv st" and "small_gen g"
  shows "rows_step st (snd (BeginRunAttempt cx st i g))"
proof -
  have "keys_ok st" and inv: "\<And>j r. run_of st j = Some r \<Longrightarrow> row_inv r"
    using assms(1) by (auto simp: store_inv_alt)
  then show ?thesis
    using assms(2)
    by (auto simp: rows_step_def BeginRunAttempt_keys BeginRunAttempt_run_of
        intro: begin_row_step row_step_refl)
qed

lemma CompleteRun_rows:
  assumes "store_inv st"
  shows "rows_step st (snd (CompleteRun v now cx st c))"
proof -
  obtain res st' where c: "CompleteRun v now cx st c = (res, st')" by fastforce
  have keys: "keys_ok st" and inv: "\<And>j r. run_of st j = Some r \<Longrightarrow> row_inv r"
    using assms by (auto simp: store_inv_alt)
  from c keys have "rows_step st st'"
  proof (cases rule: CompleteRun_effect)
    case 1
    then show ?thesis
      using assms rows_step_refl by simp
  next
    case (2 r)
    then show ?thesis
      using inv completed_row_step(1) by (auto simp: rows_step_def intro: row_step_refl)
  qed
  then show ?thesis
    by (simp add: c)
qed

lemma UpdateRunStatus_rows:
  assumes "store_inv st" and "TerminalRunStatus s"
  shows "rows_step st (UpdateRunStatus cx st i s vs e)"
proof -
  have keys: "keys_ok st" and inv: "\<And>j r. run_of st j = Some r \<Longrightarrow> row_inv r"
    using assms by (auto simp: store_inv_alt)
  show ?thesis
    using inv keys assms(2)
    by (auto simp: rows_step_def UpdateRunStatus_def run_of_update row_step_def row_inv_def
        intro!: keys_ok_update_runs)
qed

lemma TryMarkRunTimeout_rows:
  assumes "store_inv st"
  shows "rows_step st (snd (TryMarkRunTimeout cx st i e))"
proof -
  have keys: "keys_ok st" and inv: "\<And>j r. run_of st j = Some r \<Longrightarrow> row_inv r"
    using assms by (auto simp: store_inv_alt)
  show ?thesis
    using inv keys
    by (auto simp: rows_step_def TryMarkRunTimeout_def Let_def run_of_update row_step_def row_inv_def
        TerminalRunStatus_def [of RunStatusTimeout] intro!: keys_ok_update_runs)
qed

lemma insert_rows:
  assumes "store_inv st" and "st_runs st1 = st_runs st" and "map thr_id (st_threads st1) = map thr_id (st_threads st)"
    and "run_id run \<notin> set (map run_id (st_runs st))"
    and "rm_attempt (run_meta run) = None" and "rm_completion (run_meta run) = None"
  shows "rows_step st (st1\<lparr>st_runs := st_runs st1 @ [run]\<rparr>)"
    and "keys_ok (st1\<lparr>st_runs := st_runs st1 @ [run]\<rparr>)"
    and "run_of (st1\<lparr>st_runs := st_runs st1 @ [run]\<rparr>) j = (if j = run_id run then Some run else run_of st j)"
    and "run_of st (run_id run) = None"
proof -
  have keys: "keys_ok st1" and inv: "\<And>j r. run_of st j = Some r \<Longrightarrow> row_inv r"
    using assms(1,2,3) by (auto simp: store_inv_alt keys_ok_def)
  have same: "run_of st1 = run_of st"
    using assms(2) by (simp add: run_of_def fun_eq_iff)
  show k: "keys_ok (st1\<lparr>st_runs := st_runs st1 @ [run]\<rparr>)"
    and o: "run_of (st1\<lparr>st_runs := st_runs st1 @ [run]\<rparr>) j = (if j = run_id run then Some run else run_of st j)" for j
    using run_of_insert [of run st1] assms(2,4) keys same by simp_all
  show n: "run_of st (run_id run) = None"
    using assms(4) unfolding run_of_def by (simp only: find_key_None) simp
  have "row_inv run"
    using assms(5,6) by (simp add: row_inv_def small_meta_None)
  then show "rows_step st (st1\<lparr>st_runs := st_runs st1 @ [run]\<rparr>)"
    using k o n inv by (auto simp: rows_step_def intro: row_step_refl)
qed

lemma CreateRunAdmitted_rows:
  assumes "store_inv st" and "rm_attempt (run_meta run) = None" and "rm_completion (run_meta run) = None"
  shows "rows_step st (snd (CreateRunAdmitted cx st run caps))"
proof (cases "createRun_tx cx st run caps False Inr")
  case (Inl e)
  then show ?thesis
    using assms(1) rows_step_refl by (simp add: CreateRunAdmitted_def commit_or_rollback_def)
next
  case (Inr st')
  then obtain st1 where "st_runs st1 = st_runs st" "map thr_id (st_threads st1) = map thr_id (st_threads st)"
    "run_id run \<notin> set (map run_id (st_runs st))"
    "st1\<lparr>st_runs := st_runs st1 @ [run\<lparr>run_tenant := FromContext cx, run_output := None, run_error := []\<rparr>]\<rparr> = st'"
    by (elim createRun_tx_insert) simp
  then show ?thesis
    using insert_rows(1) [OF assms(1), of st1 "run\<lparr>run_tenant := FromContext cx, run_output := None, run_error := []\<rparr>"]
      assms(2,3) Inr
    by (simp add: CreateRunAdmitted_def commit_or_rollback_def)
qed

lemma row_step_inv: "row_step r r' \<Longrightarrow> row_inv r'"
  by (simp add: row_step_def row_inv_def)

lemma row_step_trans: "row_step a b \<Longrightarrow> row_step b c \<Longrightarrow> row_step a c"
  by (auto simp: row_step_def)

lemma rows_step_Some:
  "rows_step st st' \<Longrightarrow> run_of st i = Some r \<Longrightarrow> \<exists>r'. run_of st' i = Some r' \<and> row_step r r'"
  by (simp add: rows_step_def)

lemma rows_step_inv:
  assumes "rows_step st st'"
  shows "store_inv st'"
proof -
  have "row_inv r'" if r': "run_of st' i = Some r'" for i r'
  proof (cases "run_of st i")
    case None
    then show ?thesis
      using assms r' by (simp add: rows_step_def)
  next
    case (Some r)
    then show ?thesis
      using rows_step_Some [OF assms Some] r' row_step_inv by auto
  qed
  then show ?thesis
    using assms by (simp add: store_inv_alt rows_step_def)
qed

lemma rows_step_trans:
  assumes "rows_step st st1" and "rows_step st1 st2"
  shows "rows_step st st2"
proof -
  have "\<exists>r'. run_of st2 i = Some r' \<and> row_step r r'" if "run_of st i = Some r" for i r
    using rows_step_Some [OF assms(1) that] rows_step_Some [OF assms(2)] row_step_trans by blast
  moreover have "row_inv r'" if "run_of st2 i = Some r'" for i r'
    using rows_step_inv [OF assms(2)] that by (simp add: store_inv_alt)
  ultimately show ?thesis
    using assms(2) by (simp add: rows_step_def)
qed

lemma CreateCachedRun_effect:
  assumes "CreateCachedRun now cx st run caps = (None, st')" and "store_inv st"
  obtains r where "run_of st (run_id run) = None" and "run_of st' (run_id run) = Some r"
    and "rm_completion (run_meta r) = Some 0" and "rows_step st st'"
    and "\<And>j. j \<noteq> run_id run \<Longrightarrow> run_of st' j = run_of st j"
proof -
  obtain pending completion where p: "PrepareCachedRun run = Inr (pending, completion)"
    using assms(1) by (cases "PrepareCachedRun run") (auto simp: CreateCachedRun_def)
  have pend: "run_id pending = run_id run" "rm_attempt (run_meta pending) = None"
    "rm_completion (run_meta pending) = None" "c_RunID completion = run_id run" "c_Generation completion = 0"
    "\<not> c_CancelCurrentAttempt completion"
    using p by (auto simp: PrepareCachedRun_def split: if_splits option.splits)
  let ?row = "pending\<lparr>run_tenant := FromContext cx, run_output := None, run_error := []\<rparr>"
  define k where "k = (\<lambda>s. case CompleteRunInTx None now cx s completion of
                     Inl e \<Rightarrow> Inl e
                   | Inr (result, st'') \<Rightarrow>
                       if Applied result then Inr st''
                       else Inl (ErrOther ''cache completion was not applied''))"
  have tx: "createRun_tx cx st pending caps True k = Inr st'"
    using assms(1) p by (auto simp: CreateCachedRun_def commit_or_rollback_def k_def split: sum.splits)
  then obtain st1 where st1: "st_runs st1 = st_runs st" "map thr_id (st_threads st1) = map thr_id (st_threads st)"
    "run_id pending \<notin> set (map run_id (st_runs st))" "k (st1\<lparr>st_runs := st_runs st1 @ [?row]\<rparr>) = Inr st'"
    by (rule createRun_tx_insert)
  let ?st2 = "st1\<lparr>st_runs := st_runs st1 @ [?row]\<rparr>"
  note ins = insert_rows [OF assms(2) st1(1,2), of ?row]
  have rows: "rows_step st ?st2" "keys_ok ?st2" "\<And>j. run_of ?st2 j = (if j = run_id run then Some ?row else run_of st j)"
    "run_of st (run_id run) = None"
    using ins st1(3) pend by simp_all
  obtain result where c: "CompleteRunInTx None now cx ?st2 completion = Inr (result, st')" "Applied result"
    using st1(4) by (auto simp: k_def split: sum.splits if_splits)
  have comp: "CompleteRun None now cx ?st2 completion = (Inr result, st')"
    using c by (simp add: CompleteRun_def)
  obtain r where r: "run_of ?st2 (run_id run) = Some r" "check_row r completion = result"
    "\<And>j. run_of st' j = (if j = run_id run then Some (completed_row completion r) else run_of ?st2 j)"
    using CompleteRunInTx_effect [OF c rows(2)] pend(4) by metis
  have "row_inv r"
    using rows_step_inv [OF rows(1)] r(1) unfolding store_inv_alt by blast
  then have "rm_completion (run_meta (completed_row completion r)) = Some (attempt_gen r)"
    using completed_row_step(2) r(2) c(2) by simp
  moreover have "attempt_gen r = 0"
  proof -
    have "r = ?row"
      using r(1) rows(3) by simp
    then show ?thesis
      using pend(2) by (simp add: attempt_gen_def row_meta_def reload_meta_def gen_of_def)
  qed
  moreover have "rows_step st st'"
    using rows_step_trans [OF rows(1)] CompleteRun_rows [OF rows_step_inv [OF rows(1)], of None now cx completion] comp
    by simp
  ultimately show ?thesis
    using that rows(3,4) r(3) by simp
qed

lemma CreateCachedRun_rows:
  assumes "store_inv st"
  shows "rows_step st (snd (CreateCachedRun now cx st run caps))"
proof (cases "fst (CreateCachedRun now cx st run caps)")
  case None
  then show ?thesis
    using CreateCachedRun_effect [of now cx st run caps "snd (CreateCachedRun now cx st run caps)"] assms
    by (metis prod.collapse)
next
  case (Some e)
  then have "snd (CreateCachedRun now cx st run caps) = st"
    by (auto simp: CreateCachedRun_def commit_or_rollback_def split: sum.splits)
  then show ?thesis
    using assms rows_step_refl by simp
qed

lemma putOpaqueCheckpoint_frame:
  "putOpaqueCheckpoint cx st t i d f m = Inr (v, st') \<Longrightarrow>
     st_runs st' = st_runs st \<and> st_threads st' = st_threads st \<and> st_checkpoints st' = st_checkpoints st"
  by (auto simp: putOpaqueCheckpoint_def Let_def split: if_splits option.splits)

lemma thread_ops_frame [frame_simps]:
  "st_runs (snd (TryClaimThread cx st t)) = st_runs st"
  "map thr_id (st_threads (snd (TryClaimThread cx st t))) = map thr_id (st_threads st)"
  "st_runs (snd (ReleaseThreadIfNoOtherActive cx st t i s)) = st_runs st"
  "map thr_id (st_threads (snd (ReleaseThreadIfNoOtherActive cx st t i s))) = map thr_id (st_threads st)"
  "st_runs (SetThreadStatus cx st t s) = st_runs st"
  "map thr_id (st_threads (SetThreadStatus cx st t s)) = map thr_id (st_threads st)"
  by (simp_all add: TryClaimThread_def ReleaseThreadIfNoOtherActive_def SetThreadStatus_def Let_def map_sql_update)

lemma opaque_ops_frame [frame_simps]:
  "st_runs (snd (PutBoundOpaqueCheckpoint cx st b i d f m)) = st_runs st"
  "st_threads (snd (PutBoundOpaqueCheckpoint cx st b i d f m)) = st_threads st"
  "st_runs (snd (DeleteBoundOpaqueCheckpoint cx st b i)) = st_runs st"
  "st_threads (snd (DeleteBoundOpaqueCheckpoint cx st b i)) = st_threads st"
  by (auto simp: PutBoundOpaqueCheckpoint_def DeleteBoundOpaqueCheckpoint_def Let_def
      dest: putOpaqueCheckpoint_frame split: option.splits sum.splits)

lemma exec_op_rows:
  assumes "store_inv st" and "op_ok op"
  shows "rows_step st (exec_op op st)"
  using assms
  by (cases op)
     (auto simp: op_ok_def frame_simps BeginRunAttempt_rows CompleteRun_rows UpdateRunStatus_rows
        TryMarkRunTimeout_rows CreateRunAdmitted_rows CreateCachedRun_rows intro!: rows_step_same)

lemma store_step_rows: "store_step st op st' \<Longrightarrow> store_inv st \<Longrightarrow> rows_step st st'"
  by (erule store_stepE) (auto intro: exec_op_rows rows_step_refl)

lemma store_step_inv: "store_step st op st' \<Longrightarrow> store_inv st \<Longrightarrow> store_inv st'"
  by (blast intro: rows_step_inv store_step_rows)

lemma store_trace_inv: "store_trace st tr st' \<Longrightarrow> store_inv st \<Longrightarrow> store_inv st'"
  by (induction rule: store_trace.induct) (auto intro: store_step_inv)

lemma store_trace_rows: "store_trace st tr st' \<Longrightarrow> store_inv st \<Longrightarrow> rows_step st st'"
proof (induction rule: store_trace.induct)
  case (trace_Nil st)
  then show ?case by (rule rows_step_refl)
next
  case (trace_snoc st tr st1 op st2)
  then show ?case
    using store_trace_inv store_step_rows rows_step_trans by blast
qed

text \<open>The step applied a completion of run \<open>i\<close>: the transaction reported Applied, or the run was
  created together with its completion.\<close>

definition completes :: "string \<Rightarrow> store \<times> store_op \<times> store \<Rightarrow> bool" where
  "completes i = (\<lambda>(st, op, st').
     case op of
       OpComplete v now cx c \<Rightarrow> c_RunID c = i \<and>
         (case CompleteRun v now cx st c of (Inr res, st2) \<Rightarrow> Applied res \<and> st2 = st' | _ \<Rightarrow> False)
     | OpCreateCached now cx run caps \<Rightarrow> run_id run = i \<and> CreateCachedRun now cx st run caps = (None, st')
     | _ \<Rightarrow> False)"

definition completion_recorded :: "string \<Rightarrow> store \<Rightarrow> bool" where
  "completion_recorded i st \<longleftrightarrow> (case run_of st i of Some r \<Rightarrow> rm_completion (run_meta r) \<noteq> None | None \<Rightarrow> False)"

lemma completes_records:
  assumes "store_inv st" and "completes i (st, op, st')"
  shows "\<not> completion_recorded i st \<and> completion_recorded i st'"
proof (cases op)
  case (OpComplete v now cx c)
  then obtain res where c: "CompleteRun v now cx st c = (Inr res, st')" "Applied res" "c_RunID c = i"
    using assms(2) by (cases "CompleteRun v now cx st c"; cases "fst (CompleteRun v now cx st c)")
      (auto simp: completes_def)
  have keys: "keys_ok st"
    using assms(1) by (simp add: store_inv_alt)
  from c(1) keys show ?thesis
  proof (cases rule: CompleteRun_effect)
    case 1
    then show ?thesis using c(2) by simp
  next
    case (2 r)
    then show ?thesis
      using c(3) by (auto simp: completion_recorded_def check_row_Applied completed_row_def)
  qed
next
  case (OpCreateCached now cx run caps)
  then have e: "CreateCachedRun now cx st run caps = (None, st')" "run_id run = i"
    using assms(2) by (simp_all add: completes_def)
  from e(1) assms(1) show ?thesis
    by (rule CreateCachedRun_effect) (simp add: completion_recorded_def e(2))
qed (use assms in \<open>simp_all add: completes_def\<close>)

lemma rows_step_recorded:
  assumes "rows_step st st'" and "completion_recorded i st"
  shows "completion_recorded i st'"
proof -
  obtain r where r: "run_of st i = Some r" "rm_completion (run_meta r) \<noteq> None"
    using assms(2) by (cases "run_of st i") (simp_all add: completion_recorded_def)
  obtain r' where "run_of st' i = Some r'" "row_step r r'"
    using rows_step_Some [OF assms(1) r(1)] by blast
  then show ?thesis
    using r(2) by (simp add: completion_recorded_def row_step_def)
qed

lemma at_most_one_completion:
  assumes "store_trace st tr st'" and "store_inv st"
  shows "length (filter (completes i) tr) \<le> (if completion_recorded i st' then 1 else 0)"
  using assms
proof (induction rule: store_trace.induct)
  case (trace_snoc st tr st1 op st2)
  have inv: "store_inv st1"
    using trace_snoc store_trace_inv by blast
  have keep: "completion_recorded i st1 \<Longrightarrow> completion_recorded i st2"
    using store_step_rows [OF trace_snoc(2) inv] by (rule rows_step_recorded)
  show ?case
    using trace_snoc.IH trace_snoc.prems keep completes_records [OF inv, of i op st2]
    by (cases "completes i (st1, op, st2)"; cases "completion_recorded i st1") auto
qed simp

section \<open>A completed run is frozen\<close>

lemma active_not_terminal: "active_status s \<Longrightarrow> \<not> TerminalRunStatus s"
  by (auto simp: active_status_def TerminalRunStatus_def)

lemma exec_op_frozen:
  assumes "store_inv st" and "run_of st i = Some r" and "rm_completion (run_meta r) \<noteq> None"
    and "\<And>cx j s vs e. op \<noteq> OpUpdateStatus cx j s vs e"
  shows "run_of (exec_op op st) i = Some r"
proof -
  have keys: "keys_ok st" and trm: "TerminalRunStatus (run_status r)"
    using assms(1,2,3) by (auto simp: store_inv_def)
  have id: "run_id r = i"
    using run_of_id assms(2) by blast
  have same: "run_of st' i = Some r" if "st_runs st' = st_runs st" for st'
    using that assms(2) by (simp add: run_of_def)
  show ?thesis
  proof (cases op)
    case (OpBegin cx j g)
    then show ?thesis
      using assms(2) trm by (auto simp: BeginRunAttempt_run_of [OF keys] begin_row_def)
  next
    case (OpComplete v now cx c)
    obtain res st' where c: "CompleteRun v now cx st c = (res, st')" by fastforce
    from c keys have "run_of st' i = Some r"
      by (cases rule: CompleteRun_effect) (use assms(2,3) in \<open>auto simp: check_row_Applied\<close>)
    then show ?thesis
      using OpComplete c by simp
  next
    case (OpTimeout cx j e)
    then show ?thesis
      using assms(2) trm active_not_terminal
      by (auto simp: TryMarkRunTimeout_def Let_def run_of_update)
  next
    case (OpCreate cx run caps)
    show ?thesis
    proof (cases "createRun_tx cx st run caps False Inr")
      case (Inl e)
      then show ?thesis
        using OpCreate assms(2) by (simp add: CreateRunAdmitted_def commit_or_rollback_def)
    next
      case (Inr st')
      then show ?thesis
      proof (rule createRun_tx_insert)
        fix st1
        assume a: "st_runs st1 = st_runs st" "Inr (st1\<lparr>st_runs := st_runs st1 @
            [run\<lparr>run_tenant := FromContext cx, run_output := None, run_error := []\<rparr>]\<rparr>) = Inr st'"
        then have "run_of st' i = Some r"
          using assms(2) by (auto simp: run_of_def find_append)
        then show ?thesis
          using OpCreate Inr by (simp add: CreateRunAdmitted_def commit_or_rollback_def)
      qed
    qed
  next
    case (OpCreateCached now cx run caps)
    show ?thesis
    proof (cases "fst (CreateCachedRun now cx st run caps)")
      case None
      then have "CreateCachedRun now cx st run caps = (None, snd (CreateCachedRun now cx st run caps))"
        by (metis prod.collapse)
      from this assms(1) show ?thesis
        by (rule CreateCachedRun_effect) (use assms(2) OpCreateCached in \<open>cases "i = run_id run"; simp\<close>)
    next
      case (Some e)
      then have "snd (CreateCachedRun now cx st run caps) = st"
        by (auto simp: CreateCachedRun_def commit_or_rollback_def split: sum.splits)
      then show ?thesis
        using OpCreateCached assms(2) by simp
    qed
  qed (use assms(4) same in \<open>auto simp: frame_simps\<close>)
qed

definition is_status_update :: "store_op \<Rightarrow> bool" where
  "is_status_update op = (case op of OpUpdateStatus _ _ _ _ _ \<Rightarrow> True | _ \<Rightarrow> False)"

section \<open>Histories with deletions\<close>

text \<open>The transactions of a run's life together with the statements that remove rows: a client deletes a
  run or a thread, retention prunes old runs.\<close>

datatype life_op =
    Txn store_op
  | OpDeleteRun ctx string
  | OpPruneRuns ctx "run_row \<Rightarrow> bool"
  | OpDeleteThread ctx string

fun life_exec :: "life_op \<Rightarrow> store \<Rightarrow> store" where
  "life_exec (Txn op) st = exec_op op st"
| "life_exec (OpDeleteRun cx i) st = snd (DeleteRun cx st i)"
| "life_exec (OpPruneRuns cx older) st = snd (PruneRuns cx st older)"
| "life_exec (OpDeleteThread cx t) st = snd (DeleteThread cx st t)"

fun life_ok :: "life_op \<Rightarrow> bool" where
  "life_ok (Txn op) = op_ok op"
| "life_ok _ = True"

text \<open>The deletions that reach a row.\<close>

fun removes :: "life_op \<Rightarrow> run_row \<Rightarrow> bool" where
  "removes (Txn op) r = False"
| "removes (OpDeleteRun cx i) r = (run_id r = i \<and> tenant_scope cx (run_tenant r))"
| "removes (OpPruneRuns cx older) r = (TerminalRunStatus (run_status r) \<and> older r \<and> tenant_scope cx (run_tenant r))"
| "removes (OpDeleteThread cx t) r = (run_thread r = t)"

inductive life_trace :: "store \<Rightarrow> (store \<times> life_op \<times> store) list \<Rightarrow> store \<Rightarrow> bool" where
  life_Nil: "life_trace st [] st"
| life_commit: "life_trace st tr st1 \<Longrightarrow> life_ok op \<Longrightarrow> life_trace st (tr @ [(st1, op, life_exec op st1)]) (life_exec op st1)"
| life_abort: "life_trace st tr st1 \<Longrightarrow> life_trace st (tr @ [(st1, op, st1)]) st1"

lemma distinct_map_delete: "distinct (map f rows) \<Longrightarrow> distinct (map f (sql_delete p rows))"
  by (simp add: sql_delete_def distinct_map_filter)

lemma find_delete:
  assumes "distinct (map run_id rows)"
  shows "find (\<lambda>r. run_id r = i) (sql_delete p rows) =
    (case find (\<lambda>r. run_id r = i) rows of Some r \<Rightarrow> if p r then None else Some r | None \<Rightarrow> None)"
  using assms by (induction rows) (auto simp: sql_delete_def find_None_iff dest!: find_key_Some split: option.splits)

lemma deletion_rows:
  assumes "keys_ok st" "\<forall>op'. op \<noteq> Txn op'"
  shows "keys_ok (life_exec op st)"
    and "run_of (life_exec op st) i = run_of st i \<or> (\<exists>r. run_of st i = Some r \<and> removes op r \<and> run_of (life_exec op st) i = None)"
proof -
  have "keys_ok (life_exec op st) \<and>
    (run_of (life_exec op st) i = run_of st i \<or> (\<exists>r. run_of st i = Some r \<and> removes op r \<and> run_of (life_exec op st) i = None))"
    using assms
    by (cases op) (auto simp: DeleteRun_def PruneRuns_def DeleteThread_def Let_def keys_ok_def run_of_def distinct_map_delete find_delete
        TerminalRunStatus_def split: option.splits)
  then show "keys_ok (life_exec op st)"
    and "run_of (life_exec op st) i = run_of st i \<or> (\<exists>r. run_of st i = Some r \<and> removes op r \<and> run_of (life_exec op st) i = None)" by blast+
qed

lemma life_exec_inv: "store_inv st \<Longrightarrow> life_ok op \<Longrightarrow> store_inv (life_exec op st)"
proof (cases "\<exists>op'. op = Txn op'")
  case True
  assume "store_inv st" "life_ok op"
  then show ?thesis using True store_step_inv [OF commit] by auto
next
  case False
  assume inv: "store_inv st"
  then have "keys_ok st" by (simp add: store_inv_alt)
  note d = deletion_rows [OF this, of op]
  show ?thesis unfolding store_inv_alt
  proof (intro conjI allI impI)
    show "keys_ok (life_exec op st)" using d(1) False by blast
    fix i r assume "run_of (life_exec op st) i = Some r"
    then have "run_of st i = Some r" using d(2) [of i] False by auto
    then show "row_inv r" using inv by (simp add: store_inv_alt)
  qed
qed

lemma life_trace_inv: "life_trace st tr st' \<Longrightarrow> store_inv st \<Longrightarrow> store_inv st'"
  by (induction rule: life_trace.induct) (auto intro: life_exec_inv)

definition is_rollback :: "life_op \<Rightarrow> bool" where
  "is_rollback op = (case op of Txn op' \<Rightarrow> is_status_update op' | _ \<Rightarrow> False)"

lemma life_exec_frozen:
  assumes "store_inv st" "run_of st i = Some r" "rm_completion (run_meta r) \<noteq> None" "\<not> is_rollback op"
  shows "run_of (life_exec op st) i = Some r \<or> removes op r \<and> run_of (life_exec op st) i = None"
proof (cases "\<exists>op'. op = Txn op'")
  case True
  then obtain op' where op: "op = Txn op'" by blast
  then have "op' \<noteq> OpUpdateStatus cx j s vs e" for cx j s vs e using assms(4) by (auto simp: is_rollback_def is_status_update_def)
  then show ?thesis using exec_op_frozen [OF assms(1-3)] op by simp
next
  case False
  then show ?thesis using deletion_rows(2) [of st op i] assms(1,2) by (auto simp: store_inv_alt)
qed

lemma life_trace_frozen:
  assumes "life_trace st tr st'" "store_inv st" "run_of st i = Some r" "rm_completion (run_meta r) \<noteq> None"
    and "list_all (\<lambda>(_, op, _). \<not> is_rollback op) tr"
  shows "run_of st' i = Some r \<or> (\<exists>xs s1 op s2 ys. tr = xs @ (s1, op, s2) # ys \<and> removes op r \<and> run_of s1 i = Some r \<and> run_of s2 i = None)"
  using assms
proof (induction rule: life_trace.induct)
  case (life_commit st tr st1 op)
  have inv: "store_inv st1" using life_trace_inv [OF life_commit.hyps(1) life_commit.prems(1)] .
  have no: "\<not> is_rollback op" "list_all (\<lambda>(_, op, _). \<not> is_rollback op) tr" using life_commit.prems(4) by simp_all
  from life_commit.IH [OF life_commit.prems(1-3) no(2)] show ?case
  proof (elim disjE exE conjE)
    assume r: "run_of st1 i = Some r"
    from life_exec_frozen [OF inv r life_commit.prems(3) no(1)] show ?thesis
    proof
      assume "removes op r \<and> run_of (life_exec op st1) i = None"
      then show ?thesis using r by (intro disjI2 exI [of _ tr] exI [of _ st1] exI [of _ op] exI [of _ "life_exec op st1"] exI [of _ "[]"]) simp
    qed blast
  next
    fix xs s1 op' s2 ys
    assume "tr = xs @ (s1, op', s2) # ys" "removes op' r" "run_of s1 i = Some r" "run_of s2 i = None"
    then show ?thesis by (intro disjI2 exI [of _ xs] exI [of _ s1] exI [of _ op'] exI [of _ s2] exI [of _ "ys @ [(st1, op, life_exec op st1)]"]) simp
  qed
next
  case (life_abort st tr st1 op)
  have "list_all (\<lambda>(_, op, _). \<not> is_rollback op) tr" using life_abort.prems(4) by simp
  from life_abort.IH [OF life_abort.prems(1-3) this] show ?case
  proof (elim disjE exE conjE)
    fix xs s1 op' s2 ys
    assume "tr = xs @ (s1, op', s2) # ys" "removes op' r" "run_of s1 i = Some r" "run_of s2 i = None"
    then show ?thesis by (intro disjI2 exI [of _ xs] exI [of _ s1] exI [of _ op'] exI [of _ s2] exI [of _ "ys @ [(st1, op, st1)]"]) simp
  qed blast
qed simp

section \<open>Retrying a committed completion\<close>

lemma completed_row_check:
  assumes "row_inv r" and "Applied (check_row r c)"
  shows "check_row (completed_row c r) c = \<lparr>Accepted = True, Applied = False\<rparr>"
proof -
  have inv: "row_inv (completed_row c r)"
    using completed_row_step(1) [OF assms] by (rule row_step_inv)
  have a: "attempt_gen (completed_row c r) = attempt_gen r"
    using attempt_gen_inv [OF inv] attempt_gen_inv [OF assms(1)] row_inv_meta [OF assms(1)]
    by (simp add: completed_row_def)
  have c: "TerminalRunStatus (c_Status c)" "c_Generation (resolve_row r c) = attempt_gen r"
    using assms(2) by (auto simp: check_row_Applied)
  have g: "c_Generation (resolve_row (completed_row c r) c) = attempt_gen r"
    using c(2) a by (auto simp: resolve_row_def ResolveCompletion_def attempt_gen_def Let_def split: if_splits)
  have m: "rm_completion (row_meta (completed_row c r)) = Some (attempt_gen r)"
    using completed_row_step(2) [OF assms] row_inv_meta [OF inv] by simp
  have "run_status (completed_row c r) = c_Status c"
    by (simp add: completed_row_def)
  then show ?thesis
    using c(1) g m a
    by (simp add: check_row_def CheckCompletion_def attempt_gen_def gen_of_def)
qed

lemma CompleteRun_not_applied:
  assumes "keys_ok st" and "run_of st (c_RunID c) = Some r" and "tenant_scope cx (run_tenant r)"
    and "\<not> Applied (check_row r c)"
  shows "CompleteRun v now cx st c = (Inr (check_row r c), st)"
  using assms
  by (simp add: CompleteRun_def CompleteRunInTx_def load_run_of check_row_def resolve_row_def Let_def)

lemma CompleteRun_retry:
  assumes "store_inv st" and "CompleteRun v now cx st c = (Inr res, st')" and "Applied res"
  shows "CompleteRun v' now' cx st' c = (Inr \<lparr>Accepted = True, Applied = False\<rparr>, st')"
proof -
  have keys: "keys_ok st"
    using assms(1) by (simp add: store_inv_alt)
  from assms(2) keys show ?thesis
  proof (cases rule: CompleteRun_effect)
    case 1
    then show ?thesis using assms(3) by simp
  next
    case (2 r)
    then have "row_inv r"
      using assms(1) by (simp add: store_inv_alt)
    then have chk: "check_row (completed_row c r) c = \<lparr>Accepted = True, Applied = False\<rparr>"
      using 2(4) by (rule completed_row_check)
    have "run_of st' (c_RunID c) = Some (completed_row c r)" "tenant_scope cx (run_tenant (completed_row c r))"
      using 2(2,6) by (simp_all add: completed_row_def)
    from CompleteRun_not_applied [OF 2(5) this] chk show ?thesis
      by simp
  qed
qed

text \<open>A completion that does not carry the current attempt generation has no effect.\<close>

lemma CompleteRun_stale:
  assumes "keys_ok st" and "run_of st (c_RunID c) = Some r"
    and "\<not> c_CancelCurrentAttempt c" and "c_Generation c \<noteq> attempt_gen r"
  shows "snd (CompleteRun v now cx st c) = st
         \<and> (\<forall>res. fst (CompleteRun v now cx st c) = Inr res \<longrightarrow> \<not> Accepted res)"
proof (cases "tenant_scope cx (run_tenant r)")
  case False
  then show ?thesis
    using assms by (simp add: CompleteRun_def CompleteRunInTx_def load_run_of)
next
  case True
  have "check_row r c = no_result"
    using assms(3,4)
    by (simp add: check_row_def CheckCompletion_def resolve_row_def ResolveCompletion_def attempt_gen_def)
  then show ?thesis
    using CompleteRun_not_applied [OF assms(1,2) True] by (simp add: no_result_def)
qed

section \<open>Tenant isolation\<close>

text \<open>The rows of the store that do not belong to tenant \<open>t\<close>.\<close>

definition foreign ::
  "string \<Rightarrow> store \<Rightarrow> run_row list \<times> thread_row list \<times> checkpoint_row list \<times> opaque_row list" where
  "foreign t st =
     (filter (\<lambda>r. run_tenant r \<noteq> t) (st_runs st), filter (\<lambda>x. thr_tenant x \<noteq> t) (st_threads st),
      filter (\<lambda>p. cp_tenant p \<noteq> t) (st_checkpoints st), filter (\<lambda>o1. op_tenant o1 \<noteq> t) (st_opaque st))"

fun op_ctx :: "store_op \<Rightarrow> ctx" where
  "op_ctx (OpBegin cx _ _) = cx"
| "op_ctx (OpComplete _ _ cx _) = cx"
| "op_ctx (OpClaim cx _) = cx"
| "op_ctx (OpRelease cx _ _ _) = cx"
| "op_ctx (OpSetThread cx _ _) = cx"
| "op_ctx (OpUpdateStatus cx _ _ _ _) = cx"
| "op_ctx (OpTimeout cx _ _) = cx"
| "op_ctx (OpCreate cx _ _) = cx"
| "op_ctx (OpCreateCached _ cx _ _) = cx"
| "op_ctx (OpPutOpaque cx _ _ _ _ _) = cx"
| "op_ctx (OpDeleteOpaque cx _ _) = cx"

lemma filter_sql_update:
  assumes "\<And>r. q r \<Longrightarrow> \<not> P r \<and> \<not> P (f r)"
  shows "filter P (sql_update q f rows) = filter P rows"
  using assms by (induction rows) (auto simp: sql_update_def)

lemma load_tenant:
  assumes "load cx st i = Inr (tid, t, s, m)" and "\<not> IsSystem cx"
  shows "tid = FromContext cx"
proof -
  obtain r where "find (\<lambda>r. run_id r = i \<and> tenant_scope cx (run_tenant r)) (st_runs st) = Some r"
    and t: "tid = run_tenant r"
    using assms(1) by (auto simp: load_def split: option.splits)
  then have "tenant_scope cx (run_tenant r)"
    by (auto simp: find_Some_iff)
  then show ?thesis
    using t assms(2) by (simp add: tenant_scope_def)
qed

lemma foreign_update_runs:
  assumes "\<And>r. q r \<Longrightarrow> run_tenant r = t" and "\<And>r. run_tenant (f r) = run_tenant r"
  shows "foreign t (st\<lparr>st_runs := sql_update q f (st_runs st)\<rparr>) = foreign t st"
  using assms by (simp add: foreign_def filter_sql_update)

lemma foreign_update_threads:
  assumes "\<And>r. q r \<Longrightarrow> thr_tenant r = t" and "\<And>r. thr_tenant (f r) = thr_tenant r"
  shows "foreign t (st\<lparr>st_threads := sql_update q f (st_threads st)\<rparr>) = foreign t st"
  using assms by (simp add: foreign_def filter_sql_update)

lemma append_completion_checkpoint_foreign:
  "append_completion_checkpoint v now t threadID c vs st = Inr st' \<Longrightarrow> foreign t st' = foreign t st"
  by (auto simp: append_completion_checkpoint_def Let_def foreign_def
      intro!: filter_sql_update split: option.splits if_splits)

lemma release_completed_thread_foreign:
  "release_completed_thread t threadID c st = Inr st' \<Longrightarrow> foreign t st' = foreign t st"
  by (auto simp: release_completed_thread_def Let_def intro!: foreign_update_threads split: if_splits)

lemma CompleteRunInTx_foreign:
  assumes "CompleteRunInTx v now cx st c0 = Inr (res, st')" and "\<not> IsSystem cx"
  shows "foreign (FromContext cx) st' = foreign (FromContext cx) st"
proof (cases "load cx st (c_RunID c0)")
  case (Inl e)
  then show ?thesis
    using assms(1) by (simp add: CompleteRunInTx_def)
next
  case (Inr p)
  obtain tid t s m where p: "p = (tid, t, s, m)" by (cases p) auto
  have tid: "tid = FromContext cx"
    using load_tenant Inr p assms(2) by blast
  define c where "c = ResolveCompletion (meta_map m) c0"
  define result where "result = CheckCompletion (meta_map m) s c"
  show ?thesis
  proof (cases "Applied result")
    case False
    then show ?thesis
      using assms(1) Inr p by (simp add: CompleteRunInTx_def Let_def c_def result_def)
  next
    case True
    define upd where "upd = (\<lambda>st1 :: store. st1\<lparr>st_runs := sql_update (\<lambda>r. run_id r = c_RunID c \<and> run_tenant r = tid)
        (\<lambda>r. r\<lparr>run_meta := m\<lparr>rm_completion := Some (c_Generation c)\<rparr>, run_status := c_Status c,
              run_output := c_Values c, run_error := c_Error c\<rparr>) (st_runs st1)\<rparr>)"
    obtain st1 where s1: "(case c_Values c of
            Some vs \<Rightarrow> if c_CancelCurrentAttempt c then Inr st
                      else append_completion_checkpoint v now tid t c vs st
          | None \<Rightarrow> Inr st) = Inr st1"
      and s2: "release_completed_thread tid t c (upd st1) = Inr st'"
      using assms(1) True unfolding CompleteRunInTx_def Inr p sum.case prod.case Let_def c_def [symmetric]
        result_def [symmetric] upd_def [symmetric]
      by (auto simp: upd_def split: if_splits sum.splits)
    have "foreign tid st1 = foreign tid st"
      using s1 append_completion_checkpoint_foreign by (auto split: option.splits if_splits)
    moreover have "foreign tid (upd st1) = foreign tid st1"
      unfolding upd_def by (rule foreign_update_runs) auto
    ultimately show ?thesis
      using release_completed_thread_foreign [OF s2] tid by simp
  qed
qed

lemma createRun_tx_foreign:
  assumes "createRun_tx cx st run caps claim k = Inr st'"
    and "\<And>s s'. k s = Inr s' \<Longrightarrow> foreign (FromContext cx) s' = foreign (FromContext cx) s"
  shows "foreign (FromContext cx) st' = foreign (FromContext cx) st"
proof -
  define st1 where "st1 = (if claim
     then st\<lparr>st_threads := sql_update (\<lambda>t. thr_id t = run_thread run \<and> thr_tenant t = FromContext cx)
                                (\<lambda>t. t\<lparr>thr_status := ThreadStatusBusy\<rparr>) (st_threads st)\<rparr> else st)"
  have "foreign (FromContext cx) st1 = foreign (FromContext cx) st"
    by (auto simp: st1_def intro!: foreign_update_threads)
  moreover have "k (st1\<lparr>st_runs := st_runs st1 @ [run\<lparr>run_tenant := FromContext cx, run_output := None, run_error := []\<rparr>]\<rparr>) = Inr st'"
    using assms(1) unfolding createRun_tx_def Let_def st1_def [symmetric]
    by (auto split: sum.splits if_splits option.splits)
  ultimately show ?thesis
    using assms(2) by (fastforce simp: foreign_def)
qed

lemma putOpaqueCheckpoint_foreign:
  "putOpaqueCheckpoint cx st t i d f m = Inr (v, st') \<Longrightarrow> foreign (FromContext cx) st' = foreign (FromContext cx) st"
  by (auto simp: putOpaqueCheckpoint_def Let_def foreign_def op_key_def
      intro!: filter_sql_update split: if_splits option.splits)

lemma exec_op_foreign:
  assumes "\<not> IsSystem (op_ctx op)"
  shows "foreign (FromContext (op_ctx op)) (exec_op op st) = foreign (FromContext (op_ctx op)) st"
proof (cases op)
  case (OpBegin cx i g)
  then show ?thesis
    using assms load_tenant [of cx st i]
    by (auto simp: BeginRunAttempt_def intro!: foreign_update_runs split: sum.splits)
next
  case (OpComplete v now cx c)
  then show ?thesis
    using assms CompleteRunInTx_foreign [of v now cx st c]
    by (auto simp: CompleteRun_def split: sum.splits)
next
  case (OpCreate cx run caps)
  then show ?thesis
    using createRun_tx_foreign [of cx st run caps False Inr]
    by (auto simp: CreateRunAdmitted_def commit_or_rollback_def split: sum.splits)
next
  case (OpCreateCached now cx run caps)
  show ?thesis
  proof (cases "PrepareCachedRun run")
    case (Inl e)
    then show ?thesis
      using OpCreateCached by (simp add: CreateCachedRun_def)
  next
    case (Inr p)
    obtain pending completion where p: "p = (pending, completion)" by fastforce
    have "foreign (FromContext cx) s' = foreign (FromContext cx) s"
      if "(case CompleteRunInTx None now cx s completion of Inl e \<Rightarrow> Inl e
           | Inr (result, st'') \<Rightarrow> if Applied result then Inr st''
               else Inl (ErrOther ''cache completion was not applied'')) = Inr s'" for s s'
      using that assms OpCreateCached CompleteRunInTx_foreign [of None now cx s completion]
      by (auto split: sum.splits if_splits)
    from createRun_tx_foreign [OF _ this] show ?thesis
      using OpCreateCached Inr p
      by (auto simp: CreateCachedRun_def commit_or_rollback_def split: sum.splits)
  qed
next
  case (OpPutOpaque cx b i d f m)
  then show ?thesis
    using putOpaqueCheckpoint_foreign
    by (auto simp: PutBoundOpaqueCheckpoint_def split: option.splits sum.splits)
next
  case (OpDeleteOpaque cx b i)
  then show ?thesis
    by (auto simp: DeleteBoundOpaqueCheckpoint_def Let_def foreign_def op_key_def conj_commute
        intro!: filter_cong split: option.splits)
qed (use assms in \<open>auto simp: TryClaimThread_def ReleaseThreadIfNoOtherActive_def SetThreadStatus_def
      UpdateRunStatus_def TryMarkRunTimeout_def Let_def tenant_scope_def
      intro!: foreign_update_threads foreign_update_runs\<close>)

section \<open>What a completion does to its thread\<close>

definition thread_of :: "store \<Rightarrow> string \<Rightarrow> thread_row option" where
  "thread_of st t = find (\<lambda>x. thr_id x = t) (st_threads st)"

definition other_active :: "store \<Rightarrow> run_row \<Rightarrow> bool" where
  "other_active st r =
     list_ex (\<lambda>q. run_thread q = run_thread r \<and> run_tenant q = run_tenant r
                 \<and> active_status (run_status q) \<and> run_id q \<noteq> run_id r) (st_runs st)"

text \<open>The values that a completion merges into the thread: none for a trusted cancellation.\<close>

definition thread_update :: "run_row \<Rightarrow> RunCompletion \<Rightarrow> vals option" where
  "thread_update r c = (if c_CancelCurrentAttempt c then None else c_Values (resolve_row r c))"

definition merged_thread :: "run_row \<Rightarrow> RunCompletion \<Rightarrow> thread_row \<Rightarrow> thread_row" where
  "merged_thread r c t =
     (case thread_update r c of
        None \<Rightarrow> t
      | Some vs \<Rightarrow> t\<lparr>thr_values := thr_values t ++ vs, thr_version := thr_version t + 1\<rparr>)"

definition released_thread :: "bool \<Rightarrow> RunStatus \<Rightarrow> thread_row \<Rightarrow> thread_row" where
  "released_thread busy status t =
     (if \<not> busy \<and> thr_status t = ThreadStatusBusy
      then t\<lparr>thr_status := (if status = RunStatusInterrupted then ThreadStatusInterrupted else ThreadStatusIdle)\<rparr>
      else t)"

definition completion_checkpoints :: "string \<Rightarrow> store \<Rightarrow> run_row \<Rightarrow> RunCompletion \<Rightarrow> thread_row \<Rightarrow> checkpoint_row list" where
  "completion_checkpoints now st r c t =
     (case thread_update r c of
        None \<Rightarrow> []
      | Some vs \<Rightarrow>
          [\<lparr>cp_id = ''completion:'' @ c_RunID c, cp_tenant = run_tenant r, cp_thread = run_thread r,
            cp_parent = map_option cp_id (latest_checkpoint
              (filter (\<lambda>p. cp_thread p = run_thread r \<and> cp_tenant p = run_tenant r) (st_checkpoints st))),
            cp_values = thr_values t ++ vs, cp_created = now\<rparr>])"

lemma thread_of_update:
  assumes "\<And>t. thr_id (f t) = thr_id t"
  shows "thread_of (st\<lparr>st_threads := sql_update q f (st_threads st)\<rparr>) i
         = map_option (\<lambda>t. if q t then f t else t) (thread_of st i)"
  unfolding thread_of_def using assms by (simp add: find_sql_update)

lemma append_completion_checkpoint_effect:
  assumes "append_completion_checkpoint v now (run_tenant r) (run_thread r) c' vs st = Inr st1"
    and "keys_ok st" and "c_RunID c' = c_RunID c" and "thread_update r c = Some vs"
    and "thread_of st (run_thread r) = Some t"
  shows "thr_tenant t = run_tenant r" and "thread_of st1 (run_thread r) = Some (merged_thread r c t)"
    and "st_checkpoints st1 = st_checkpoints st @ completion_checkpoints now st r c t"
proof -
  have id: "thr_id t = run_thread r"
    using assms(5) find_key_Some unfolding thread_of_def by fastforce
  have f: "find (\<lambda>x. thr_id x = run_thread r \<and> thr_tenant x = run_tenant r) (st_threads st)
           = (if thr_tenant t = run_tenant r then Some t else None)"
    using find_key [of thr_id "st_threads st" "run_thread r" "\<lambda>x. thr_tenant x = run_tenant r"]
      assms(2,5) by (simp add: keys_ok_def thread_of_def)
  show tn: "thr_tenant t = run_tenant r"
    using assms(1) by (auto simp: append_completion_checkpoint_def f split: if_splits)
  show "st_checkpoints st1 = st_checkpoints st @ completion_checkpoints now st r c t"
    using assms(1) tn
    by (auto simp: append_completion_checkpoint_def f Let_def completion_checkpoints_def assms(3,4)
        split: if_splits)
  have "st_threads st1 = sql_update (\<lambda>x. thr_id x = run_thread r \<and> thr_tenant x = run_tenant r)
      (\<lambda>x. x\<lparr>thr_values := thr_values t ++ vs, thr_version := thr_version x + 1\<rparr>) (st_threads st)"
    using assms(1) tn by (auto simp: append_completion_checkpoint_def f Let_def split: if_splits)
  then show "thread_of st1 (run_thread r) = Some (merged_thread r c t)"
    using assms(5) id tn unfolding thread_of_def
    by (simp add: find_sql_update merged_thread_def assms(4))
qed

lemma release_completed_thread_effect:
  assumes "release_completed_thread (run_tenant r) (run_thread r) c' st = Inr st'"
    and "thread_of st (run_thread r) = Some t" and "thr_tenant t = run_tenant r"
    and "c_RunID c' = run_id r"
  shows "thread_of st' (run_thread r) = Some (released_thread (other_active st r) (c_Status c') t)"
proof -
  have id: "thr_id t = run_thread r"
    using assms(2) find_key_Some unfolding thread_of_def by fastforce
  have cnt: "sql_count (\<lambda>q. run_thread q = run_thread r \<and> run_tenant q = run_tenant r
             \<and> active_status (run_status q) \<and> run_id q \<noteq> c_RunID c') (st_runs st) = 0 \<longleftrightarrow> \<not> other_active st r"
    by (auto simp: sql_count_def filter_empty_conv other_active_def list_ex_iff assms(4))
  show ?thesis
    using assms(1,2,3) id
    by (auto simp: release_completed_thread_def Let_def cnt released_thread_def thread_of_update
        split: if_splits)
qed

lemma CompleteRun_thread:
  assumes "store_inv st" and "CompleteRun v now cx st c = (Inr res, st')" and "Applied res"
    and "run_of st (c_RunID c) = Some r" and "thread_of st (run_thread r) = Some t"
    and "thr_tenant t = run_tenant r"
  shows "thread_of st' (run_thread r) = Some (released_thread (other_active st r) (c_Status c) (merged_thread r c t))"
    and "st_checkpoints st' = st_checkpoints st @ completion_checkpoints now st r c t"
proof -
  have keys: "keys_ok st"
    using assms(1) by (simp add: store_inv_alt)
  have tx: "CompleteRunInTx v now cx st c = Inr (res, st')"
    using assms(2,3) by (auto simp: CompleteRun_def split: sum.splits if_splits)
  have "thread_of st' (run_thread r) = Some (released_thread (other_active st r) (c_Status c) (merged_thread r c t))
     \<and> st_checkpoints st' = st_checkpoints st @ completion_checkpoints now st r c t"
    using tx assms(3) keys
  proof (rule CompleteRunInTx_Applied)
    fix q :: run_row and st1 :: store
    let ?f = "\<lambda>x :: run_row. x\<lparr>run_meta := (row_meta q)\<lparr>rm_completion := Some (c_Generation (resolve_row q c))\<rparr>,
                        run_status := c_Status c, run_output := c_Values (resolve_row q c),
                        run_error := c_Error c\<rparr>"
    let ?p = "\<lambda>x. run_id x = c_RunID c \<and> run_tenant x = run_tenant q"
    let ?st2 = "st1\<lparr>st_runs := sql_update ?p ?f (st_runs st1)\<rparr>"
    assume q: "run_of st (c_RunID c) = Some q"
      and st1: "(case c_Values (resolve_row q c) of
            Some vs \<Rightarrow> if c_CancelCurrentAttempt c then Inr st
                       else append_completion_checkpoint v now (run_tenant q) (run_thread q) (resolve_row q c) vs st
          | None \<Rightarrow> Inr st) = Inr st1"
      and rel: "release_completed_thread (run_tenant q) (run_thread q) (resolve_row q c) ?st2 = Inr st'"
    have qr: "q = r" and id: "run_id r = c_RunID c"
      using q assms(4) run_of_id by auto
    have "thread_of st1 (run_thread r) = Some (merged_thread r c t)
       \<and> st_checkpoints st1 = st_checkpoints st @ completion_checkpoints now st r c t \<and> st_runs st1 = st_runs st"
    proof (cases "thread_update r c")
      case None
      then have "st1 = st"
        using st1 qr by (auto simp: thread_update_def split: if_splits option.splits)
      then show ?thesis
        using None assms(5) by (simp add: merged_thread_def completion_checkpoints_def)
    next
      case (Some vs)
      then have ap: "append_completion_checkpoint v now (run_tenant r) (run_thread r) (resolve_row r c) vs st = Inr st1"
        using st1 qr by (auto simp: thread_update_def split: if_splits)
      show ?thesis
        using append_completion_checkpoint_effect [OF ap keys _ Some assms(5)]
          append_completion_checkpoint_frame [OF ap] by simp
    qed
    then have s: "thread_of ?st2 (run_thread r) = Some (merged_thread r c t)"
      "st_checkpoints ?st2 = st_checkpoints st @ completion_checkpoints now st r c t" "st_runs st1 = st_runs st"
      by (simp_all add: thread_of_def)
    have oa: "other_active ?st2 r = other_active st r"
      using id qr s(3) by (auto simp: other_active_def sql_update_def list_ex_iff)
    have "thr_tenant (merged_thread r c t) = run_tenant r"
      using assms(6) by (simp add: merged_thread_def split: option.splits)
    then show ?thesis
      using release_completed_thread_effect [OF rel [unfolded qr] s(1) [unfolded qr]] id oa qr s(2)
        release_completed_thread_frame [OF rel] by simp
  qed
  then show "thread_of st' (run_thread r) = Some (released_thread (other_active st r) (c_Status c) (merged_thread r c t))"
    and "st_checkpoints st' = st_checkpoints st @ completion_checkpoints now st r c t" by simp_all
qed

section \<open>Admission caps bound the active runs\<close>

definition tenant_active :: "string \<Rightarrow> run_row \<Rightarrow> bool" where
  "tenant_active t r \<longleftrightarrow> active_status (run_status r) \<and> run_tenant r = t"

lemma countActive_tenant: "countActive t st [] = sql_count (tenant_active t) (st_runs st)"
  by (simp add: countActive_def tenant_active_def [abs_def])

lemma sql_count_update_le:
  assumes "\<And>r. r \<in> set rows \<Longrightarrow> q r \<Longrightarrow> P (f r) \<Longrightarrow> P r"
  shows "sql_count P (sql_update q f rows) \<le> sql_count P rows"
  using assms
proof (induction rows)
  case (Cons r rows)
  then have "sql_count P (sql_update q f rows) \<le> sql_count P rows" by simp
  then show ?case
    using Cons.prems [of r] by (auto simp: sql_count_def sql_update_def)
qed (simp add: sql_count_def sql_update_def)

text \<open>Every status is one of the six of the protocol.\<close>

definition known_status :: "store \<Rightarrow> bool" where
  "known_status st \<longleftrightarrow> list_all (\<lambda>r. active_status (run_status r) \<or> TerminalRunStatus (run_status r)) (st_runs st)"

lemma known_update:
  assumes "known_status st" and "\<And>r. active_status (run_status (f r)) \<or> TerminalRunStatus (run_status (f r))"
  shows "known_status (st\<lparr>st_runs := sql_update q f (st_runs st)\<rparr>)"
  using assms by (auto simp: known_status_def sql_update_def list_all_iff)

lemma terminal_not_active: "TerminalRunStatus s \<Longrightarrow> \<not> active_status s"
  using active_not_terminal by blast

lemma BeginRunAttempt_active:
  assumes "keys_ok st" and "known_status st"
  shows "countActive t (snd (BeginRunAttempt cx st i g)) [] \<le> countActive t st []
         \<and> known_status (snd (BeginRunAttempt cx st i g))"
proof (cases "load cx st i")
  case (Inl e)
  then show ?thesis
    using assms(2) by (simp add: BeginRunAttempt_def)
next
  case (Inr p)
  obtain tid th s m where p: "p = (tid, th, s, m)" by (cases p) auto
  obtain r where r: "run_of st i = Some r" "s = run_status r" "tid = run_tenant r"
    using Inr p assms(1) by (auto simp: load_run_of split: option.splits if_splits)
  have uniq: "q = r" if "q \<in> set (st_runs st)" "run_id q = i" for q
    using that r(1) assms(1) find_key_Some [of run_id i "st_runs st" r]
    by (auto simp: run_of_def keys_ok_def distinct_map inj_on_def)
  show ?thesis
  proof (cases "TerminalRunStatus s")
    case True
    then show ?thesis
      using assms(2) Inr p by (simp add: BeginRunAttempt_def)
  next
    case False
    have "r \<in> set (st_runs st)"
      using r(1) by (auto simp: run_of_def dest: find_key_Some)
    then have "active_status (run_status r)"
      using assms(2) False r(2) by (auto simp: known_status_def list_all_iff)
    then have "tenant_active t x" if "x \<in> set (st_runs st)" "run_id x = i" "run_tenant x = t" for x
      using uniq [OF that(1,2)] that(3) by (simp add: tenant_active_def)
    then have "sql_count (tenant_active t) (sql_update (\<lambda>q. run_id q = i \<and> run_tenant q = tid)
        (\<lambda>q. q\<lparr>run_meta := m\<lparr>rm_attempt := Some g\<rparr>, run_status := RunStatusRunning\<rparr>) (st_runs st))
        \<le> sql_count (tenant_active t) (st_runs st)"
      by (intro sql_count_update_le) (simp add: tenant_active_def)
    moreover have "known_status (st\<lparr>st_runs := sql_update (\<lambda>q. run_id q = i \<and> run_tenant q = tid)
        (\<lambda>q. q\<lparr>run_meta := m\<lparr>rm_attempt := Some g\<rparr>, run_status := RunStatusRunning\<rparr>) (st_runs st)\<rparr>)"
      using assms(2) by (rule known_update) (simp add: active_status_def)
    ultimately show ?thesis
      using assms(2) Inr p by (simp add: BeginRunAttempt_def countActive_tenant)
  qed
qed

lemma complete_active:
  assumes "CompleteRunInTx v now cx st c = Inr (res, st')" and "Applied res" and "keys_ok st" and "known_status st"
  shows "countActive t st' [] \<le> sql_count (\<lambda>r. tenant_active t r \<and> run_id r \<noteq> c_RunID c) (st_runs st)
         \<and> known_status st'"
  using assms(1-3)
proof (rule CompleteRunInTx_Applied)
  fix r :: run_row and st1 :: store
  let ?f = "\<lambda>x :: run_row. x\<lparr>run_meta := (row_meta r)\<lparr>rm_completion := Some (c_Generation (resolve_row r c))\<rparr>,
                        run_status := c_Status c, run_output := c_Values (resolve_row r c),
                        run_error := c_Error c\<rparr>"
  let ?p = "\<lambda>x. run_id x = c_RunID c \<and> run_tenant x = run_tenant r"
  assume r: "run_of st (c_RunID c) = Some r" "check_row r c = res"
    and st1: "(case c_Values (resolve_row r c) of
            Some vs \<Rightarrow> if c_CancelCurrentAttempt c then Inr st
                       else append_completion_checkpoint v now (run_tenant r) (run_thread r) (resolve_row r c) vs st
          | None \<Rightarrow> Inr st) = Inr st1"
    and rel: "release_completed_thread (run_tenant r) (run_thread r) (resolve_row r c)
           (st1\<lparr>st_runs := sql_update ?p ?f (st_runs st1)\<rparr>) = Inr st'"
  have "st_runs st1 = st_runs st"
    using st1 append_completion_checkpoint_frame by (fastforce split: option.splits if_splits)
  then have runs: "st_runs st' = sql_update ?p ?f (st_runs st)"
    using release_completed_thread_frame [OF rel] by simp
  have trm: "TerminalRunStatus (c_Status c)"
    using assms(2) r(2) check_row_Applied by blast
  have uniq: "run_tenant q = run_tenant r" if "q \<in> set (st_runs st)" "run_id q = c_RunID c" for q
    using that r(1) assms(3) find_key_Some [of run_id "c_RunID c" "st_runs st" r]
    by (auto simp: run_of_def keys_ok_def distinct_map inj_on_def)
  have "filter (tenant_active t) (st_runs st') = filter (\<lambda>r. tenant_active t r \<and> run_id r \<noteq> c_RunID c) (st_runs st)"
  proof -
    have "filter (tenant_active t) (sql_update ?p ?f rows)
          = filter (\<lambda>r. tenant_active t r \<and> run_id r \<noteq> c_RunID c) rows" if "set rows \<subseteq> set (st_runs st)" for rows
      using that
    proof (induction rows)
      case (Cons q rows)
      then show ?case
        using uniq [of q] terminal_not_active [OF trm] by (auto simp: sql_update_def tenant_active_def)
    qed (simp add: sql_update_def)
    then show ?thesis
      by (simp add: runs)
  qed
  moreover have "known_status st'"
    using assms(4) trm by (auto simp: known_status_def runs sql_update_def list_all_iff)
  ultimately show ?thesis
    by (simp add: countActive_tenant sql_count_def)
qed

lemma sql_count_mono: "(\<And>r. P r \<Longrightarrow> Q r) \<Longrightarrow> sql_count P rows \<le> sql_count Q rows"
  by (induction rows) (auto simp: sql_count_def)

lemma EvaluateRunAdmission_tenant:
  "EvaluateRunAdmission (Some caps) a ca cs = None \<Longrightarrow> TenantConcurrent caps > 0 \<Longrightarrow> int (ca []) < TenantConcurrent caps"
  by (auto simp: EvaluateRunAdmission_def caps_Enabled_def split: if_splits)

lemma CreateRunAdmitted_active:
  assumes "known_status st" and "run_status run = RunStatusPending"
    and "FromContext cx = t \<Longrightarrow> \<exists>c. caps = Some c \<and> TenantConcurrent c = n \<and> n > 0"
    and "int (countActive t st []) \<le> n"
  shows "int (countActive t (snd (CreateRunAdmitted cx st run caps)) []) \<le> n
         \<and> known_status (snd (CreateRunAdmitted cx st run caps))"
proof (cases "createRun_tx cx st run caps False Inr")
  case (Inl e)
  then show ?thesis
    using assms(1,4) by (simp add: CreateRunAdmitted_def commit_or_rollback_def)
next
  case (Inr st')
  then obtain st1 where s: "st_runs st1 = st_runs st"
    "EvaluateRunAdmission caps (run_agent run) (countActive (FromContext cx) st1) (countSince (FromContext cx) st1) = None"
    "st1\<lparr>st_runs := st_runs st1 @ [run\<lparr>run_tenant := FromContext cx, run_output := None, run_error := []\<rparr>]\<rparr> = st'"
    by (elim createRun_tx_admitted) simp
  have cnt: "countActive t st1 [] = countActive t st []"
    using s(1) by (simp add: countActive_def)
  have "int (countActive t st' []) \<le> n"
  proof (cases "FromContext cx = t")
    case True
    then have "int (countActive t st []) < n"
      using assms(3) s(2) EvaluateRunAdmission_tenant cnt by fastforce
    then show ?thesis
      using s by (auto simp: countActive_tenant sql_count_def)
  next
    case False
    then show ?thesis
      using s assms(4) by (auto simp: countActive_tenant sql_count_def tenant_active_def)
  qed
  moreover have "known_status st'"
    using assms(1,2) s by (auto simp: known_status_def active_status_def)
  ultimately show ?thesis
    using Inr by (simp add: CreateRunAdmitted_def commit_or_rollback_def)
qed

lemma CreateCachedRun_active:
  assumes "store_inv st" and "known_status st"
  shows "countActive t (snd (CreateCachedRun now cx st run caps)) [] \<le> countActive t st []
         \<and> known_status (snd (CreateCachedRun now cx st run caps))"
proof (cases "CreateCachedRun now cx st run caps")
  case (Pair e st')
  show ?thesis
  proof (cases e)
    case (Some x)
    then have "st' = st"
      using Pair by (auto simp: CreateCachedRun_def commit_or_rollback_def split: sum.splits)
    then show ?thesis
      using Pair assms(2) by simp
  next
    case None
    obtain pending completion where p: "PrepareCachedRun run = Inr (pending, completion)"
      using Pair None by (cases "PrepareCachedRun run") (auto simp: CreateCachedRun_def)
    have pend: "run_id pending = run_id run" "c_RunID completion = run_id run" "run_status pending = RunStatusPending"
      using p by (auto simp: PrepareCachedRun_def split: if_splits option.splits)
    let ?row = "pending\<lparr>run_tenant := FromContext cx, run_output := None, run_error := []\<rparr>"
    obtain st1 where st1: "st_runs st1 = st_runs st" "map thr_id (st_threads st1) = map thr_id (st_threads st)"
      "run_id pending \<notin> set (map run_id (st_runs st))"
      "(case CompleteRunInTx None now cx (st1\<lparr>st_runs := st_runs st1 @ [?row]\<rparr>) completion of
          Inl e \<Rightarrow> Inl e
        | Inr (result, st'') \<Rightarrow> if Applied result then Inr st''
            else Inl (ErrOther ''cache completion was not applied'')) = Inr st'"
    proof -
      have "createRun_tx cx st pending caps True (\<lambda>s. case CompleteRunInTx None now cx s completion of
          Inl e \<Rightarrow> Inl e
        | Inr (result, st'') \<Rightarrow> if Applied result then Inr st''
            else Inl (ErrOther ''cache completion was not applied'')) = Inr st'"
        using Pair None p by (simp add: CreateCachedRun_def commit_or_rollback_def split: sum.splits)
      then show thesis
        by (rule createRun_tx_insert) (rule that)
    qed
    let ?st2 = "st1\<lparr>st_runs := st_runs st1 @ [?row]\<rparr>"
    obtain result where c: "CompleteRunInTx None now cx ?st2 completion = Inr (result, st')" "Applied result"
      using st1(4) by (auto split: sum.splits if_splits)
    have keys: "keys_ok ?st2"
      using assms(1) st1 by (auto simp: store_inv_alt keys_ok_def)
    have known: "known_status ?st2"
      using assms(2) st1(1) pend(3) by (auto simp: known_status_def active_status_def)
    have le: "sql_count (\<lambda>r. tenant_active t r \<and> run_id r \<noteq> c_RunID completion) (st_runs ?st2) \<le> countActive t st []"
    proof -
      have "sql_count (\<lambda>r. tenant_active t r \<and> run_id r \<noteq> c_RunID completion) (st_runs ?st2)
            = sql_count (\<lambda>r. tenant_active t r \<and> run_id r \<noteq> c_RunID completion) (st_runs st)"
        using st1(1) pend by (simp add: sql_count_def)
      also have "\<dots> \<le> countActive t st []"
        unfolding countActive_tenant by (rule sql_count_mono) simp
      finally show ?thesis .
    qed
    show ?thesis
      using complete_active [OF c keys known, of t] le Pair by simp
  qed
qed

definition capped :: "string \<Rightarrow> int \<Rightarrow> store_op \<Rightarrow> bool" where
  "capped t n op =
     (case op of
        OpCreate cx run caps \<Rightarrow>
          FromContext cx = t \<longrightarrow> (case caps of Some c \<Rightarrow> TenantConcurrent c = n | None \<Rightarrow> False)
      | _ \<Rightarrow> True)"

lemma update_terminal_active:
  assumes "known_status st" and "\<And>r. TerminalRunStatus (run_status (f r))"
  shows "countActive t (st\<lparr>st_runs := sql_update q f (st_runs st)\<rparr>) [] \<le> countActive t st []
         \<and> known_status (st\<lparr>st_runs := sql_update q f (st_runs st)\<rparr>)"
  using assms terminal_not_active
  by (auto simp: countActive_tenant tenant_active_def intro!: sql_count_update_le known_update)

lemma exec_op_active:
  assumes "store_inv st" and "known_status st" and "op_ok op" and "capped t n op" and "n > 0"
    and "int (countActive t st []) \<le> n"
  shows "int (countActive t (exec_op op st) []) \<le> n \<and> known_status (exec_op op st)"
proof -
  have keys: "keys_ok st"
    using assms(1) by (simp add: store_inv_alt)
  have same: "int (countActive t st' []) \<le> n \<and> known_status st'" if "st_runs st' = st_runs st" for st'
    using that assms(2,6) by (simp add: countActive_def known_status_def)
  show ?thesis
  proof (cases op)
    case (OpBegin cx i g)
    then show ?thesis
      using BeginRunAttempt_active [OF keys assms(2), of t cx i g] assms(6) by simp
  next
    case (OpComplete v now cx c)
    show ?thesis
    proof (cases "\<exists>res st'. CompleteRunInTx v now cx st c = Inr (res, st') \<and> Applied res")
      case True
      then obtain res st' where c: "CompleteRunInTx v now cx st c = Inr (res, st')" "Applied res" by blast
      have "sql_count (\<lambda>r. tenant_active t r \<and> run_id r \<noteq> c_RunID c) (st_runs st) \<le> countActive t st []"
        unfolding countActive_tenant by (rule sql_count_mono) simp
      then show ?thesis
        using complete_active [OF c keys assms(2), of t] c OpComplete assms(6) by (simp add: CompleteRun_def)
    next
      case False
      then have "snd (CompleteRun v now cx st c) = st"
        by (auto simp: CompleteRun_def split: sum.splits)
      then show ?thesis
        using OpComplete assms(2,6) by simp
    qed
  next
    case (OpUpdateStatus cx i s vs e)
    then have "countActive t (exec_op op st) [] \<le> countActive t st [] \<and> known_status (exec_op op st)"
      using assms(3) by (auto simp: op_ok_def UpdateRunStatus_def intro!: update_terminal_active [OF assms(2), THEN conjunct1]
          update_terminal_active [OF assms(2), THEN conjunct2])
    then show ?thesis
      using assms(6) by simp
  next
    case (OpTimeout cx i e)
    then have "countActive t (exec_op op st) [] \<le> countActive t st [] \<and> known_status (exec_op op st)"
      by (auto simp: TryMarkRunTimeout_def Let_def TerminalRunStatus_def intro!: update_terminal_active [OF assms(2), THEN conjunct1]
          update_terminal_active [OF assms(2), THEN conjunct2])
    then show ?thesis
      using assms(6) by simp
  next
    case (OpCreate cx run caps)
    have "\<exists>c. caps = Some c \<and> TenantConcurrent c = n \<and> n > 0" if "FromContext cx = t"
      using assms(4,5) that OpCreate by (auto simp: capped_def split: option.splits)
    then show ?thesis
      using CreateRunAdmitted_active [OF assms(2) _ _ assms(6), of run cx caps] assms(3) OpCreate
      by (simp add: op_ok_def)
  next
    case (OpCreateCached now cx run caps)
    then show ?thesis
      using CreateCachedRun_active [OF assms(1,2), of t now cx run caps] assms(6) by simp
  qed (use same in \<open>simp_all add: frame_simps\<close>)
qed

lemma store_trace_active:
  assumes "store_trace st tr st'" and "store_inv st" and "known_status st" and "n > 0"
    and "int (countActive t st []) \<le> n" and "list_all (\<lambda>(_, op, _). capped t n op) tr"
  shows "int (countActive t st' []) \<le> n \<and> known_status st'"
  using assms
proof (induction rule: store_trace.induct)
  case (trace_snoc st tr st1 op st2)
  have IH: "int (countActive t st1 []) \<le> n" "known_status st1" "store_inv st1"
    using trace_snoc store_trace_inv by auto
  have cap: "capped t n op"
    using trace_snoc.prems(5) by simp
  from trace_snoc.hyps(2) show ?case
    by (rule store_stepE) (use IH cap trace_snoc.prems(3) exec_op_active in auto)
qed simp

section \<open>Checkpoint writes of a superseded attempt\<close>

lemma LockRunCheckpoint_current:
  assumes "LockRunCheckpoint cx st b = None" and "keys_ok st"
  obtains r where "run_of st (b_RunID b) = Some r" and "\<not> TerminalRunStatus (run_status r)"
    and "run_thread r = b_ThreadID b" and "attempt_gen r = b_Generation b"
    and "tenant_scope cx (run_tenant r)"
  using assms
  by (auto simp: LockRunCheckpoint_def load_run_of CheckRunCheckpointBinding_def attempt_gen_def
      split: option.splits if_splits)

lemma putOpaqueCheckpoint_version:
  assumes "putOpaqueCheckpoint cx st t i d f m = Inr (v, st')"
  shows "(case find (op_key (FromContext cx) t i) (st_opaque st) of
            None \<Rightarrow> v = 1 \<and> (m = None \<or> m = Some OpaqueCreateOnly)
          | Some r \<Rightarrow> v = op_version r + 1 \<and> (m = None \<or> m = Some (op_version r)))"
    and "\<exists>r'. find (op_key (FromContext cx) t i) (st_opaque st') = Some r' \<and> op_data r' = d \<and> op_version r' = v"
proof -
  show "(case find (op_key (FromContext cx) t i) (st_opaque st) of
            None \<Rightarrow> v = 1 \<and> (m = None \<or> m = Some OpaqueCreateOnly)
          | Some r \<Rightarrow> v = op_version r + 1 \<and> (m = None \<or> m = Some (op_version r)))"
    using assms by (auto simp: putOpaqueCheckpoint_def Let_def split: if_splits option.splits)
  show "\<exists>r'. find (op_key (FromContext cx) t i) (st_opaque st') = Some r' \<and> op_data r' = d \<and> op_version r' = v"
  proof (cases "find (op_key (FromContext cx) t i) (st_opaque st)")
    case None
    then show ?thesis
      using assms by (auto simp: putOpaqueCheckpoint_def Let_def find_append op_key_def
          split: if_splits option.splits)
  next
    case (Some r)
    have k: "op_key (FromContext cx) t i r"
      using Some by (auto simp: find_Some_iff)
    have "st_opaque st' = sql_update (op_key (FromContext cx) t i)
        (\<lambda>r. r\<lparr>op_framework := f, op_data := d, op_version := op_version r + 1\<rparr>) (st_opaque st)"
      and "v = op_version r + 1"
      using assms Some by (auto simp: putOpaqueCheckpoint_def Let_def split: if_splits option.splits)
    then show ?thesis
      using Some k by (simp add: find_sql_update op_key_def)
  qed
qed

section \<open>Text timestamps\<close>

text \<open>The fraction that RFC3339Nano prints: nine digits without trailing zeros, nothing for zero.
  \<open>prefix\<close> is the date and the time of day down to the second.\<close>

definition rfc3339nano :: "string \<Rightarrow> nat \<Rightarrow> string" where
  "rfc3339nano prfx nanos =
     prfx @ (if nanos = 0 then [] else CHR ''.'' # TrimRight0 (replicate (9 - length (nat_digits nanos)) (CHR ''0'') @ nat_digits nanos))
          @ ''Z''"

lemma append_less_append: "(p @ x < p @ y) = (x < (y :: string))"
  by (induction p) simp_all

definition pad9 :: "nat \<Rightarrow> string" where
  "pad9 n = replicate (9 - length (nat_digits n)) (CHR ''0'') @ nat_digits n"

lemma nat_digits_length9: "n < 10 ^ 9 \<Longrightarrow> length (nat_digits n) \<le> 9"
proof (cases "n = 0")
  case False
  assume n: "n < 10 ^ 9"
  show ?thesis
  proof (rule ccontr)
    assume "\<not> length (nat_digits n) \<le> 9"
    then have "(10::nat) ^ 9 \<le> 10 ^ (length (nat_digits n) - 1)" by (intro power_increasing) auto
    also have "\<dots> \<le> n" using nat_digits_bounds [of n] False by simp
    finally show False using n by simp
  qed
qed (simp add: nat_digits.simps)

lemma pad9_props: "n < 10 ^ 9 \<Longrightarrow> length (pad9 n) = 9" "dval (pad9 n) = n" "is_digits (pad9 n)"
  using nat_digits_length9 nat_digits_digits [of n]
  by (auto simp: pad9_def dval_append is_digits_def list_all_iff is_digit_def)

lemma is_digits_append: "is_digits (a @ b) \<longleftrightarrow> is_digits a \<and> is_digits b"
  by (auto simp: is_digits_def)

text \<open>Two fractions with the same leading digits, of which the smaller one has zeros from there on.\<close>

lemma pad9_split:
  assumes "m < 10 ^ 9" "10 ^ k dvd n" "n < m" "m < n + 10 ^ k" "k \<le> 9"
  obtains u w where "pad9 n = u @ replicate k (CHR ''0'')" "pad9 m = u @ w" "dval w \<noteq> 0"
proof -
  have n9: "n < 10 ^ 9" using assms(1,3) by simp
  let ?un = "take (9 - k) (pad9 n)" and ?zn = "drop (9 - k) (pad9 n)"
  let ?um = "take (9 - k) (pad9 m)" and ?zm = "drop (9 - k) (pad9 m)"
  have len: "length ?un = 9 - k" "length ?zn = k" "length ?um = 9 - k" "length ?zm = k"
    using pad9_props(1) [OF n9] pad9_props(1) [OF assms(1)] assms(5) by simp_all
  have dig: "is_digits ?un" "is_digits ?zn" "is_digits ?um" "is_digits ?zm"
    using pad9_props(3) is_digits_append by (metis append_take_drop_id)+
  have n: "n = dval ?un * 10 ^ k + dval ?zn" and m: "m = dval ?um * 10 ^ k + dval ?zm"
    using dval_append [of ?un ?zn] dval_append [of ?um ?zm] pad9_props(2) len by simp_all
  have lt: "dval ?zn < 10 ^ k" "dval ?zm < 10 ^ k" using dval_less dig(2,4) len by metis+
  have "dval ?zn = n mod 10 ^ k" using lt(1) by (subst n) simp
  then have z0: "dval ?zn = 0" using assms(2) by simp
  have "dval ?um = m div 10 ^ k" using lt(2) by (subst m) simp
  also have "\<dots> = n div 10 ^ k"
    using assms(2-4) by (auto elim!: dvdE simp: div_nat_eqI algebra_simps intro!: div_nat_eqI)
  also have "\<dots> = dval ?un" using z0 by (subst n) simp
  finally have u: "?um = ?un" using dval_inj [OF dig(3,1)] len by simp
  have "?zn = replicate k (CHR ''0'')"
    using dval_inj [OF dig(2), of "replicate k (CHR ''0'')"] z0 len by (simp add: is_digits_def list_all_iff is_digit_def)
  moreover have "dval ?zm \<noteq> 0" using n m z0 u assms(3) by auto
  ultimately show thesis using that [of ?un ?zm] u by (metis append_take_drop_id)
qed

lemma TrimRight0_zeros: "TrimRight0 (u @ replicate k (CHR ''0'')) = TrimRight0 u"
proof -
  have "dropWhile (\<lambda>c. c = CHR ''0'') (replicate k (CHR ''0'') @ xs) = dropWhile (\<lambda>c. c = CHR ''0'') xs" for xs
    by (induction k) simp_all
  then show ?thesis by (simp add: TrimRight0_def)
qed

lemma TrimRight0_append: "dval w \<noteq> 0 \<Longrightarrow> TrimRight0 (u @ w) = u @ TrimRight0 w \<and> TrimRight0 w \<noteq> []"
proof
  assume w: "dval w \<noteq> 0"
  show ne: "TrimRight0 w \<noteq> []"
  proof
    assume "TrimRight0 w = []"
    then obtain k where "w = replicate k (CHR ''0'')" using TrimRight0_split [of w] by auto
    then show False using w by simp
  qed
  then obtain c where "c \<in> set w" "c \<noteq> CHR ''0''" by (auto simp: TrimRight0_def dropWhile_eq_Nil_conv)
  then show "TrimRight0 (u @ w) = u @ TrimRight0 w" by (auto simp: TrimRight0_def)
qed

lemma digit_before_Z: "is_digits (c # cs) \<Longrightarrow> c < CHR ''Z''"
  by (auto simp: is_digits_def is_digit_def intro: le_less_trans)

lemma rfc3339nano_inverts:
  assumes "n < m" "m < 10 ^ 9" "10 ^ k dvd n" "m < n + 10 ^ k" "k \<le> 9"
  shows "rfc3339nano p m < rfc3339nano p n"
proof -
  obtain u w where uw: "pad9 n = u @ replicate k (CHR ''0'')" "pad9 m = u @ w" "dval w \<noteq> 0"
    using pad9_split assms by metis
  obtain j where j: "u = TrimRight0 u @ replicate j (CHR ''0'')" using TrimRight0_split by blast
  define x where "x = replicate j (CHR ''0'') @ TrimRight0 w"
  have tm: "TrimRight0 (pad9 m) = TrimRight0 u @ x" and x: "x \<noteq> []"
    using TrimRight0_append [OF uw(3), of u] uw(2) arg_cong [OF j, of "\<lambda>s. s @ TrimRight0 w"] by (simp_all add: x_def)
  have "is_digits (TrimRight0 u @ x)"
  proof -
    obtain i where "pad9 m = TrimRight0 (pad9 m) @ replicate i (CHR ''0'')" using TrimRight0_split by blast
    then show ?thesis using pad9_props(3) [of m] is_digits_append tm by metis
  qed
  then have dx: "is_digits x" by (simp add: is_digits_append)
  then obtain c cs where c: "x = c # cs" "c < CHR ''Z''" using x digit_before_Z by (cases x) auto
  have m: "rfc3339nano p m = p @ ''.'' @ (TrimRight0 u @ c # cs) @ ''Z''"
    using assms(1) tm c(1) by (simp add: rfc3339nano_def pad9_def)
  show ?thesis
  proof (cases "n = 0")
    case True
    then show ?thesis unfolding m by (simp add: rfc3339nano_def append_less_append)
  next
    case False
    have "TrimRight0 (pad9 n) = TrimRight0 u" by (simp add: uw(1) TrimRight0_zeros)
    then have n: "rfc3339nano p n = p @ ''.'' @ TrimRight0 u @ ''Z''" using False by (simp add: rfc3339nano_def pad9_def)
    show ?thesis unfolding m n using c(2) by (simp add: append_less_append)
  qed
qed

lemma latest_checkpoint_None: "latest_checkpoint cps = None \<longleftrightarrow> cps = []"
  by (cases cps) (auto split: option.splits)

lemma latest_checkpoint_max:
  "latest_checkpoint cps = Some q \<Longrightarrow> q \<in> set cps \<and> (\<forall>c\<in>set cps. cp_created c \<le> cp_created q)"
  by (induction cps arbitrary: q) (auto simp: latest_checkpoint_None split: option.splits if_splits dest: less_imp_le order_trans)

lemma newest_not_latest:
  assumes "old \<in> set cps" "cp_created new < cp_created old"
  obtains q where "latest_checkpoint cps = Some q" "q \<in> set cps" "cp_created old \<le> cp_created q" "q \<noteq> new"
proof -
  obtain q where q: "latest_checkpoint cps = Some q" using assms(1) latest_checkpoint_None [of cps] by fastforce
  then show thesis using that latest_checkpoint_max [OF q] assms by fastforce
qed

section \<open>Properties\<close>

text \<open>A store with one thread and one pending run, on which the properties are instantiated.\<close>

definition sample_ctx :: ctx where
  "sample_ctx = \<lparr>ctx_tenant = Some ''acme'', ctx_system = False\<rparr>"

definition sample_run :: run_row where
  "sample_run = \<lparr>run_id = ''r1'', run_tenant = ''acme'', run_thread = ''t1'', run_agent = ''a1'',
     run_status = RunStatusPending,
     run_meta = \<lparr>rm_attempt = None, rm_completion = None, rm_simulation = False, rm_user = Map.empty\<rparr>,
     run_output = None, run_error = [], run_created = 0\<rparr>"

definition sample_thread :: thread_row where
  "sample_thread = \<lparr>thr_id = ''t1'', thr_tenant = ''acme'', thr_status = ThreadStatusBusy,
     thr_values = Map.empty, thr_version = 1\<rparr>"

definition sample_store :: store where
  "sample_store = \<lparr>st_runs = [sample_run], st_threads = [sample_thread], st_checkpoints = [], st_opaque = []\<rparr>"

definition sample_completion :: RunCompletion where
  "sample_completion = \<lparr>c_CancelCurrentAttempt = False, c_CancelUsage = None, c_RunnerKind = [], c_ReplayOnly = False,
     c_RunID = ''r1'', c_Generation = 2, c_Status = RunStatusSuccess, c_Error = [],
     c_Values = Some [''answer'' \<mapsto> JNum ''42'']\<rparr>"

definition sample_begun :: store where
  "sample_begun = exec_op (OpBegin sample_ctx ''r1'' 2) sample_store"

definition sample_done :: store where
  "sample_done = exec_op (OpComplete None ''2026-01-01T00:00:00Z'' sample_ctx sample_completion) sample_begun"

lemmas sample_defs = sample_ctx_def sample_run_def sample_thread_def sample_store_def sample_completion_def

lemma sample_inv: "store_inv sample_store"
  by (simp add: store_inv_def keys_ok_def run_of_def sample_defs small_meta_def)

lemma sample_float: "int64_of_float (float64_int 2) = 2" "int64_of_float (float64_int 1) = 1"
  by (simp_all add: small_gen_def)

lemma sample_begun_eq:
  "sample_begun = sample_store\<lparr>st_runs := [sample_run\<lparr>run_status := RunStatusRunning,
     run_meta := (run_meta sample_run)\<lparr>rm_attempt := Some 2\<rparr>\<rparr>]\<rparr>"
  by (simp add: sample_begun_def BeginRunAttempt_def load_def sample_defs tenant_scope_def IsSystem_def
      FromContext_def TerminalRunStatus_def reload_meta_def gen_of_def sql_update_def)

lemma sample_complete:
  "CompleteRun None ''2026-01-01T00:00:00Z'' sample_ctx sample_begun sample_completion
   = (Inr \<lparr>Accepted = True, Applied = True\<rparr>, sample_done)"
  by (simp add: sample_done_def sample_begun_eq CompleteRun_def CompleteRunInTx_def load_def sample_defs
      tenant_scope_def IsSystem_def FromContext_def reload_meta_def sample_float ResolveCompletion_def
      CheckCompletion_def TerminalRunStatus_def gen_of_def append_completion_checkpoint_def
      release_completed_thread_def Let_def sql_update_def)

lemma sample_begun_inv: "store_inv sample_begun"
proof -
  have "rows_step sample_store sample_begun"
    unfolding sample_begun_def by (rule exec_op_rows [OF sample_inv]) (simp add: op_ok_def small_gen_def)
  then show ?thesis
    by (rule rows_step_inv)
qed

definition sample_history :: "(store \<times> store_op \<times> store) list" where
  "sample_history =
     [(sample_store, OpBegin sample_ctx ''r1'' 2, sample_begun),
      (sample_begun, OpComplete None ''2026-01-01T00:00:00Z'' sample_ctx sample_completion, sample_done),
      (sample_done, OpComplete None ''2026-01-01T00:00:00Z'' sample_ctx sample_completion, sample_done)]"

lemma sample_trace: "store_trace sample_store sample_history sample_done"
proof -
  have s1: "store_trace sample_store ([] @ [(sample_store, OpBegin sample_ctx ''r1'' 2, sample_begun)]) sample_begun"
    unfolding sample_begun_def
    by (intro trace_snoc trace_Nil commit) (simp add: op_ok_def small_gen_def)
  have s2: "store_trace sample_store
      (([] @ [(sample_store, OpBegin sample_ctx ''r1'' 2, sample_begun)])
        @ [(sample_begun, OpComplete None ''2026-01-01T00:00:00Z'' sample_ctx sample_completion, sample_done)]) sample_done"
    using s1 unfolding sample_done_def by (rule trace_snoc) (rule commit, simp add: op_ok_def)
  have retry: "exec_op (OpComplete None ''2026-01-01T00:00:00Z'' sample_ctx sample_completion) sample_done = sample_done"
    using CompleteRun_retry [OF sample_begun_inv sample_complete] by simp
  have "store_step sample_done (OpComplete None ''2026-01-01T00:00:00Z'' sample_ctx sample_completion) sample_done"
    using commit [of "OpComplete None ''2026-01-01T00:00:00Z'' sample_ctx sample_completion" sample_done] retry
    by (simp add: op_ok_def)
  with s2 have "store_trace sample_store
      ((([] @ [(sample_store, OpBegin sample_ctx ''r1'' 2, sample_begun)])
        @ [(sample_begun, OpComplete None ''2026-01-01T00:00:00Z'' sample_ctx sample_completion, sample_done)])
        @ [(sample_done, OpComplete None ''2026-01-01T00:00:00Z'' sample_ctx sample_completion, sample_done)]) sample_done"
    by (rule trace_snoc)
  then show ?thesis
    by (simp add: sample_history_def)
qed

text \<open>C3: In every history of the run store -- attempts, completions by any caller, cancellations,
  timeouts, creations, retries after lost acknowledgements, in any order, but no deletion of rows --
  the writes of a completion are applied to a run at most once.\<close>

theorem completion_applied_at_most_once:
  assumes "store_trace st tr st'" and "store_inv st"
  shows "length (filter (completes i) tr) \<le> 1"
  using at_most_one_completion [OF assms, of i] by (simp split: if_splits)

theorem completion_applied_at_most_once_witness:
  "length (filter (completes ''r1'') sample_history) \<le> 1
   \<and> completes ''r1'' (sample_begun, OpComplete None ''2026-01-01T00:00:00Z'' sample_ctx sample_completion, sample_done)"
  using completion_applied_at_most_once [OF sample_trace sample_inv, of "''r1''"]
  by (simp add: completes_def sample_complete) (simp add: sample_completion_def)

text \<open>C20: Once a completion is recorded for a run, its row stays as it is until it is deleted. Whatever
  transactions follow, by any caller -- a new attempt, another completion, a timeout, a cancellation, writes to
  other runs -- the run's status, output, error and metadata are unchanged, or a deletion has removed the
  row in the state that the completion left: of this run by a caller of its tenant or the system, of its
  thread, or of old ended runs by retention. Only the unconditional status update of the enqueue
  rollback is excepted.\<close>

theorem completed_run_is_frozen:
  assumes "life_trace st tr st'" and "store_inv st" and "run_of st i = Some r"
    and "rm_completion (run_meta r) \<noteq> None"
    and "list_all (\<lambda>(_, op, _). \<not> is_rollback op) tr"
  shows "run_of st' i = Some r
    \<or> (\<exists>xs s1 op s2 ys. tr = xs @ (s1, op, s2) # ys \<and> removes op r \<and> run_of s1 i = Some r \<and> run_of s2 i = None)"
  using assms by (rule life_trace_frozen)

lemma sample_done_inv: "store_inv sample_done"
proof -
  have "rows_step sample_begun sample_done"
    unfolding sample_done_def by (rule exec_op_rows [OF sample_begun_inv]) (simp add: op_ok_def)
  then show ?thesis
    by (rule rows_step_inv)
qed

lemma sample_done_run: "\<exists>r. run_of sample_done ''r1'' = Some r \<and> rm_completion (run_meta r) = Some 2"
proof -
  have keys: "keys_ok sample_begun"
    using sample_begun_inv by (simp add: store_inv_alt)
  from sample_complete keys show ?thesis
  proof (cases rule: CompleteRun_effect)
    case 1
    then show ?thesis by simp
  next
    case (2 r)
    have id: "c_RunID sample_completion = ''r1''"
      by (simp add: sample_completion_def)
    have "row_inv r"
      using 2(1) sample_begun_inv by (simp add: store_inv_alt)
    moreover have "attempt_gen r = 2"
      using 2(1) by (auto simp: run_of_def sample_begun_eq sample_defs attempt_gen_def row_meta_def
          reload_meta_def sample_float gen_of_def split: if_splits)
    ultimately show ?thesis
      using completed_row_step(2) [of r sample_completion] 2(4,6) id by simp
  qed
qed

theorem completed_run_is_frozen_witness:
  "\<exists>r. run_of sample_done ''r1'' = Some r \<and> rm_completion (run_meta r) = Some 2
     \<and> run_of (snd (PruneRuns sample_ctx (exec_op (OpBegin sample_ctx ''r1'' 3) sample_done) (\<lambda>r. run_id r = ''r0''))) ''r1'' = Some r"
proof -
  obtain r where r: "run_of sample_done ''r1'' = Some r" "rm_completion (run_meta r) = Some 2"
    using sample_done_run by blast
  let ?b = "Txn (OpBegin sample_ctx ''r1'' 3)" and ?p = "OpPruneRuns sample_ctx (\<lambda>r. run_id r = ''r0'')"
  let ?s = "life_exec ?b sample_done"
  have "life_trace sample_done (([] @ [(sample_done, ?b, ?s)]) @ [(?s, ?p, life_exec ?p ?s)]) (life_exec ?p ?s)"
    by (intro life_commit life_Nil) (simp_all add: op_ok_def small_gen_def)
  from completed_run_is_frozen [OF this sample_done_inv r(1)] r run_of_id [OF r(1)] show ?thesis
    by (auto simp: is_rollback_def is_status_update_def Cons_eq_append_conv)
qed

text \<open>Retrying a completion that was committed -- the runner never saw the answer -- is accepted,
  applies nothing, and leaves the store exactly as it was.\<close>

theorem committed_completion_retry:
  assumes "store_inv st" and "CompleteRun v now cx st c = (Inr res, st')" and "Applied res"
  shows "CompleteRun v' now' cx st' c = (Inr \<lparr>Accepted = True, Applied = False\<rparr>, st')"
  using assms by (rule CompleteRun_retry)

theorem committed_completion_retry_witness:
  "CompleteRun None ''later'' sample_ctx sample_done sample_completion
   = (Inr \<lparr>Accepted = True, Applied = False\<rparr>, sample_done)"
  using committed_completion_retry [OF sample_begun_inv sample_complete] by simp

text \<open>A completion that carries another generation than the run's current attempt -- a runner
  whose lease was reclaimed, or one that guesses -- is not accepted and changes nothing; only the
  trusted cancellation is bound to the current attempt by the store itself.\<close>

theorem stale_completion_rejected:
  assumes "keys_ok st" and "run_of st (c_RunID c) = Some r"
    and "\<not> c_CancelCurrentAttempt c" and "c_Generation c \<noteq> attempt_gen r"
    and "CompleteRun v now cx st c = (answer, st')"
  shows "st' = st \<and> (case answer of Inl _ \<Rightarrow> True | Inr res \<Rightarrow> \<not> Accepted res \<and> \<not> Applied res)"
proof -
  have "\<not> Applied res" if "answer = Inr res" for res
    using assms(5,1) by (cases rule: CompleteRun_effect)
      (use that assms(2,3,4) in \<open>auto simp: check_row_Applied resolve_row_def ResolveCompletion_def\<close>)
  then show ?thesis
    using CompleteRun_stale [OF assms(1-4), of v now cx] assms(5) by (auto split: sum.splits)
qed

lemma sample_begun_run:
  "\<exists>r. run_of sample_begun ''r1'' = Some r \<and> attempt_gen r = 2"
  by (simp add: run_of_def sample_begun_eq sample_defs attempt_gen_def row_meta_def reload_meta_def
      sample_float gen_of_def)

theorem stale_completion_rejected_witness:
  "snd (CompleteRun None ''now'' sample_ctx sample_begun (sample_completion\<lparr>c_Generation := 1\<rparr>)) = sample_begun"
proof -
  obtain r where r: "run_of sample_begun ''r1'' = Some r" "attempt_gen r = 2"
    using sample_begun_run by blast
  obtain answer st' where a: "CompleteRun None ''now'' sample_ctx sample_begun (sample_completion\<lparr>c_Generation := 1\<rparr>) = (answer, st')"
    by fastforce
  have "keys_ok sample_begun"
    using sample_begun_inv by (simp add: store_inv_alt)
  from stale_completion_rejected [OF this _ _ _ a, of r] r have "st' = sample_begun"
    by (simp add: sample_completion_def)
  then show ?thesis
    by (simp add: a)
qed

text \<open>Along every history the attempt generation of a run never decreases, and the run keeps its
  tenant, thread and agent.\<close>

theorem attempt_generation_monotone:
  assumes "store_trace st tr st'" and "store_inv st" and "run_of st i = Some r"
  shows "\<exists>r'. run_of st' i = Some r' \<and> gen_of (rm_attempt (run_meta r)) \<le> gen_of (rm_attempt (run_meta r'))
           \<and> run_tenant r' = run_tenant r \<and> run_thread r' = run_thread r \<and> run_agent r' = run_agent r"
  using rows_step_Some [OF store_trace_rows [OF assms(1,2)] assms(3)] by (auto simp: row_step_def)

theorem attempt_generation_monotone_witness:
  "\<exists>r'. run_of sample_done ''r1'' = Some r' \<and> 0 \<le> gen_of (rm_attempt (run_meta r'))"
  using attempt_generation_monotone [OF sample_trace sample_inv, of "''r1''" sample_run]
  by (auto simp: run_of_def sample_store_def) (auto simp: sample_run_def gen_of_def)

text \<open>C21: The transaction that applies a completion also settles the thread: the final values are
  merged into it, with one more version and one checkpoint \<open>completion:<run>\<close> whose parent is the
  latest one (a trusted cancellation merges nothing), and a busy thread becomes idle or interrupted
  exactly when no other run of it is active.\<close>

theorem completion_settles_thread:
  assumes "store_inv st" and "CompleteRun v now cx st c = (Inr res, st')" and "Applied res"
    and "run_of st (c_RunID c) = Some r" and "thread_of st (run_thread r) = Some t"
    and "thr_tenant t = run_tenant r"
  shows "thread_of st' (run_thread r) = Some (released_thread (other_active st r) (c_Status c) (merged_thread r c t))
         \<and> st_checkpoints st' = st_checkpoints st @ completion_checkpoints now st r c t"
  using CompleteRun_thread [OF assms] by blast

theorem completion_settles_thread_witness:
  "\<exists>t. thread_of sample_done ''t1'' = Some t \<and> thr_status t = ThreadStatusIdle
     \<and> thr_values t ''answer'' = Some (JNum ''42'') \<and> thr_version t = 2"
proof -
  obtain r where r: "run_of sample_begun ''r1'' = Some r" "run_id r = ''r1''" "run_thread r = ''t1''" "run_tenant r = ''acme''"
    by (simp add: run_of_def sample_begun_eq sample_defs)
  have th: "thread_of sample_begun ''t1'' = Some sample_thread"
    by (simp add: thread_of_def sample_begun_eq sample_defs)
  have na: "\<not> other_active sample_begun r"
    using r by (simp add: other_active_def sample_begun_eq sample_defs)
  have vs: "thread_update r sample_completion = Some [''answer'' \<mapsto> JNum ''42'']"
    by (simp add: thread_update_def resolve_row_def ResolveCompletion_def sample_completion_def)
  have "thread_of sample_done ''t1''
      = Some (released_thread (other_active sample_begun r) RunStatusSuccess (merged_thread r sample_completion sample_thread))"
    using completion_settles_thread [OF sample_begun_inv sample_complete, of r sample_thread] r th
    by (simp add: sample_completion_def) (simp add: sample_thread_def)
  then show ?thesis
    using na vs by (simp add: released_thread_def merged_thread_def sample_thread_def)
qed

text \<open>C16: A transaction of the life of runs, threads and checkpoints (deletions, which C20 covers, apart) under
  a tenant's own context -- not the control plane's system context -- leaves every run, thread, checkpoint and framework checkpoint of every other tenant unchanged.\<close>

theorem tenant_isolation:
  assumes "\<not> IsSystem (op_ctx op)"
  shows "foreign (FromContext (op_ctx op)) (exec_op op st) = foreign (FromContext (op_ctx op)) st"
  using assms by (rule exec_op_foreign)

theorem tenant_isolation_witness:
  "foreign ''evil'' (exec_op (OpBegin \<lparr>ctx_tenant = Some ''evil'', ctx_system = False\<rparr> ''r1'' 9) sample_store)
   = foreign ''evil'' sample_store \<and> fst (foreign ''evil'' sample_store) = [sample_run]"
  using tenant_isolation [of "OpBegin \<lparr>ctx_tenant = Some ''evil'', ctx_system = False\<rparr> ''r1'' 9" sample_store]
  by (simp add: IsSystem_def FromContext_def foreign_def sample_defs del: exec_op.simps)

text \<open>C13: When every run of a tenant is created with the same concurrency cap, the number of its
  active runs never exceeds the cap, whatever creations, attempts, completions and timeouts
  interleave: the count and the insert are one transaction.\<close>

theorem tenant_concurrency_cap:
  assumes "store_trace st tr st'" and "store_inv st" and "known_status st" and "n > 0"
    and "int (countActive t st []) \<le> n" and "list_all (\<lambda>(_, op, _). capped t n op) tr"
  shows "int (countActive t st' []) \<le> n"
  using store_trace_active [OF assms] by simp

definition sample_caps :: RunAdmissionCaps where
  "sample_caps = \<lparr>TenantConcurrent = 1, TenantDaily = 0, AgentConcurrent = 0, AgentDaily = 0, caps_now = 0\<rparr>"

theorem tenant_concurrency_cap_witness:
  "int (countActive ''acme'' (exec_op (OpCreate sample_ctx (sample_run\<lparr>run_id := ''r2''\<rparr>) (Some sample_caps)) sample_store) []) \<le> 1
   \<and> countActive ''acme'' sample_store [] = 1"
proof -
  let ?op = "OpCreate sample_ctx (sample_run\<lparr>run_id := ''r2''\<rparr>) (Some sample_caps)"
  have c: "countActive ''acme'' sample_store [] = 1"
    by (simp add: countActive_def sql_count_def sample_defs active_status_def)
  have "store_trace sample_store ([] @ [(sample_store, ?op, exec_op ?op sample_store)]) (exec_op ?op sample_store)"
    by (intro trace_snoc trace_Nil commit) (simp add: op_ok_def sample_run_def)
  from tenant_concurrency_cap [OF this sample_inv, of 1 "''acme''"] c show ?thesis
    by (simp add: known_status_def sample_defs active_status_def capped_def sample_caps_def)
qed

text \<open>C22: A framework checkpoint is written through the bound store only by the current attempt of a
  run that is still in flight, on the run's own thread. With an If-Match version it is written only over
  exactly that version, or as a new row for the create-only version, so that a conditional write never
  overwrites one it has not seen; without If-Match it replaces whatever version there is. The write is
  what is read afterwards, one version after the replaced one.\<close>

theorem bound_checkpoint_write_is_current:
  assumes "keys_ok st" and "PutBoundOpaqueCheckpoint cx st b i d f m = (Inr v, st')"
  shows "(\<exists>r. run_of st (b_RunID b) = Some r \<and> \<not> TerminalRunStatus (run_status r)
            \<and> run_thread r = b_ThreadID b \<and> attempt_gen r = b_Generation b)
         \<and> (case find (op_key (FromContext cx) (b_ThreadID b) i) (st_opaque st) of
              None \<Rightarrow> v = 1 \<and> (m = None \<or> m = Some OpaqueCreateOnly)
            | Some old \<Rightarrow> v = op_version old + 1 \<and> (m = None \<or> m = Some (op_version old)))
         \<and> (\<exists>new. find (op_key (FromContext cx) (b_ThreadID b) i) (st_opaque st') = Some new
              \<and> op_data new = d \<and> op_version new = v)"
proof -
  have l: "LockRunCheckpoint cx st b = None"
    and p: "putOpaqueCheckpoint cx st (b_ThreadID b) i d f m = Inr (v, st')"
    using assms(2) by (auto simp: PutBoundOpaqueCheckpoint_def split: option.splits sum.splits)
  from l assms(1) have "\<exists>r. run_of st (b_RunID b) = Some r \<and> \<not> TerminalRunStatus (run_status r)
      \<and> run_thread r = b_ThreadID b \<and> attempt_gen r = b_Generation b"
    by (rule LockRunCheckpoint_current) blast
  then show ?thesis
    using putOpaqueCheckpoint_version [OF p] by blast
qed

theorem bound_checkpoint_write_is_current_witness:
  "\<exists>st'. PutBoundOpaqueCheckpoint sample_ctx sample_begun \<lparr>b_RunID = ''r1'', b_Generation = 2, b_ThreadID = ''t1''\<rparr>
       ''cp'' ''blob'' ''langgraph'' None = (Inr 1, st')
     \<and> (\<exists>new. find (op_key ''acme'' ''t1'' ''cp'') (st_opaque st') = Some new \<and> op_data new = ''blob'')"
proof -
  let ?b = "\<lparr>b_RunID = ''r1'', b_Generation = 2, b_ThreadID = ''t1''\<rparr>"
  have "\<exists>st'. PutBoundOpaqueCheckpoint sample_ctx sample_begun ?b ''cp'' ''blob'' ''langgraph'' None = (Inr 1, st')"
    by (simp add: PutBoundOpaqueCheckpoint_def LockRunCheckpoint_def load_def sample_begun_eq sample_defs
        tenant_scope_def IsSystem_def FromContext_def CheckRunCheckpointBinding_def TerminalRunStatus_def
        reload_meta_def sample_float gen_of_def LockThread_def putOpaqueCheckpoint_def
        MaxOpaqueCheckpointBytes_def)
  then obtain st' where p: "PutBoundOpaqueCheckpoint sample_ctx sample_begun ?b ''cp'' ''blob'' ''langgraph'' None = (Inr 1, st')"
    by blast
  have "keys_ok sample_begun"
    using sample_begun_inv by (simp add: store_inv_alt)
  from bound_checkpoint_write_is_current [OF this p] p show ?thesis
    by (auto simp: sample_ctx_def FromContext_def)
qed

text \<open>C24: The latest checkpoint of a thread need not be its newest one. SQLite orders by the RFC3339Nano
  texts of the times, which drop trailing zeros of the fraction. Let two checkpoints of a thread be written
  within one second, the first at a fraction whose last \<open>k\<close> of nine digits are zeros and the second later but
  with the same digits before these. Then the first counts as the later one: a completion that is applied
  appends a checkpoint whose parent is not the second one but one whose text is at least that of the first.\<close>

theorem latest_checkpoint_not_chronological:
  assumes "n < m" "m < 10 ^ 9" "10 ^ k dvd n" "m < n + 10 ^ k" "k \<le> 9"
    and "{old, new} \<subseteq> set (filter (\<lambda>p. cp_thread p = run_thread r \<and> cp_tenant p = run_tenant r) (st_checkpoints st))"
    and "cp_created old = rfc3339nano p n" "cp_created new = rfc3339nano p m" "distinct (map cp_id (st_checkpoints st))"
    and "store_inv st" "CompleteRun v now cx st c = (Inr res, st')" "Applied res"
    and "run_of st (c_RunID c) = Some r" "thread_of st (run_thread r) = Some t" "thr_tenant t = run_tenant r"
    and "thread_update r c = Some vs"
  shows "\<exists>cp q. st_checkpoints st' = st_checkpoints st @ [cp] \<and> cp_thread cp = run_thread r \<and> q \<in> set (st_checkpoints st)
    \<and> cp_parent cp = Some (cp_id q) \<and> cp_id q \<noteq> cp_id new \<and> cp_created old \<le> cp_created q"
proof -
  let ?cps = "filter (\<lambda>p. cp_thread p = run_thread r \<and> cp_tenant p = run_tenant r) (st_checkpoints st)"
  have lt: "cp_created new < cp_created old" using rfc3339nano_inverts [OF assms(1-5)] assms(7,8) by simp
  have "old \<in> set ?cps" using assms(6) by simp
  from newest_not_latest [OF this lt] obtain q where q: "latest_checkpoint ?cps = Some q" "q \<in> set ?cps" "cp_created old \<le> cp_created q" "q \<noteq> new" .
  have "cp_id q \<noteq> cp_id new" using q(2,4) assms(6,9) by (auto simp: distinct_map dest: inj_onD)
  then show ?thesis
    using CompleteRun_thread(2) [OF assms(10-15)] q assms(16) by (auto simp: completion_checkpoints_def)
qed

definition sample_checkpoint :: "string \<Rightarrow> nat \<Rightarrow> checkpoint_row" where
  "sample_checkpoint i n = \<lparr>cp_id = i, cp_tenant = ''acme'', cp_thread = ''t1'', cp_parent = None, cp_values = Map.empty,
     cp_created = rfc3339nano ''2026-01-01T00:00:00'' n\<rparr>"

theorem latest_checkpoint_not_chronological_witness:
  "\<exists>st' cp. CompleteRun None ''2026-01-01T00:00:01Z'' sample_ctx
       (sample_begun\<lparr>st_checkpoints := [sample_checkpoint ''old'' 120000000, sample_checkpoint ''new'' 123000000]\<rparr>) sample_completion
       = (Inr \<lparr>Accepted = True, Applied = True\<rparr>, st')
     \<and> cp \<in> set (st_checkpoints st') \<and> cp_id cp = ''completion:r1'' \<and> cp_parent cp = Some ''old''"
proof -
  let ?old = "sample_checkpoint ''old'' 120000000" and ?new = "sample_checkpoint ''new'' 123000000"
  let ?st = "sample_begun\<lparr>st_checkpoints := [?old, ?new]\<rparr>"
  have ids: "cp_id ?old = ''old''" "cp_id ?new = ''new''" by (simp_all add: sample_checkpoint_def)
  have "\<exists>st'. CompleteRun None ''2026-01-01T00:00:01Z'' sample_ctx ?st sample_completion = (Inr \<lparr>Accepted = True, Applied = True\<rparr>, st')"
    by (simp add: sample_begun_eq CompleteRun_def CompleteRunInTx_def load_def sample_defs
      tenant_scope_def IsSystem_def FromContext_def reload_meta_def sample_float ResolveCompletion_def
      CheckCompletion_def TerminalRunStatus_def gen_of_def append_completion_checkpoint_def ids
      release_completed_thread_def Let_def sql_update_def)
  then obtain st' where c: "CompleteRun None ''2026-01-01T00:00:01Z'' sample_ctx ?st sample_completion = (Inr \<lparr>Accepted = True, Applied = True\<rparr>, st')"
    by blast
  obtain r where r: "run_of ?st (c_RunID sample_completion) = Some r" "run_thread r = ''t1''" "run_tenant r = ''acme''"
    by (simp add: run_of_def sample_begun_eq sample_defs)
  have t: "thread_of ?st (run_thread r) = Some sample_thread" "thr_tenant sample_thread = run_tenant r"
    using r by (simp_all add: thread_of_def sample_begun_eq sample_defs)
  have u: "thread_update r sample_completion = Some [''answer'' \<mapsto> JNum ''42'']"
    by (simp add: thread_update_def resolve_row_def ResolveCompletion_def sample_completion_def)
  have inv: "store_inv ?st" using sample_begun_inv by (simp add: store_inv_def keys_ok_def run_of_def)
  have "\<exists>cp q. st_checkpoints st' = st_checkpoints ?st @ [cp] \<and> cp_thread cp = run_thread r \<and> q \<in> set (st_checkpoints ?st)
      \<and> cp_parent cp = Some (cp_id q) \<and> cp_id q \<noteq> cp_id ?new \<and> cp_created ?old \<le> cp_created q"
    by (rule latest_checkpoint_not_chronological [where k = 7 and n = 120000000 and m = 123000000 and p = "''2026-01-01T00:00:00''",
          OF _ _ _ _ _ _ _ _ _ inv c _ r(1) t u])
      (simp_all add: r sample_checkpoint_def)
  then obtain cp q where k: "st_checkpoints st' = st_checkpoints ?st @ [cp]" "q \<in> set (st_checkpoints ?st)" "cp_parent cp = Some (cp_id q)"
    "cp_id q \<noteq> cp_id ?new" by blast
  have "completion_checkpoints ''2026-01-01T00:00:01Z'' ?st r sample_completion sample_thread = [cp]"
    using CompleteRun_thread(2) [OF inv c _ r(1) t] k(1) by simp
  then have "cp_id cp = ''completion:'' @ c_RunID sample_completion" unfolding completion_checkpoints_def u option.case by force
  moreover have "c_RunID sample_completion = ''r1''" by (simp add: sample_completion_def)
  moreover have "cp_id q = ''old''" using k(2,4) ids by auto
  ultimately show ?thesis using c k(1,3) by (intro exI [of _ st'] exI [of _ cp]) simp
qed

end
