(* ===== verification/User_Context.thy ===== *)
theory User_Context
  imports Json_Value
begin

text \<open>
  The identity that travels with a run assignment (UserContext of src/internal/transport/types.go).
  MarshalJSON flattens the extra claims into the object of the identity, UnmarshalJSON takes them apart
  again. A JSON object is the map of its members here; the text layer is encoding/json's.
\<close>

section \<open>Definitions\<close>

record UserContext =
  uc_Identity :: string
  uc_DisplayName :: string
  uc_IsAuthenticated :: bool
  uc_Permissions :: "string list"
  uc_Extra :: "string \<rightharpoonup> json"

definition no_user :: UserContext where
  "no_user = \<lparr>uc_Identity = [], uc_DisplayName = [], uc_IsAuthenticated = False, uc_Permissions = [], uc_Extra = Map.empty\<rparr>"

definition user_members :: "UserContext \<Rightarrow> (string \<rightharpoonup> json)" where
  "user_members u =
     (let m = [''identity'' \<mapsto> JStr (uc_Identity u), ''is_authenticated'' \<mapsto> JBool (uc_IsAuthenticated u)];
          m = (if uc_DisplayName u \<noteq> [] then m(''display_name'' \<mapsto> JStr (uc_DisplayName u)) else m)
      in if uc_Permissions u \<noteq> [] then m(''permissions'' \<mapsto> JArr (map JStr (uc_Permissions u))) else m)"

text \<open>An extra claim never replaces a member that is already there.\<close>

definition MarshalJSON :: "UserContext \<Rightarrow> (string \<rightharpoonup> json)" where
  "MarshalJSON u = uc_Extra u ++ user_members u"

text \<open>encoding/json decodes a number into a float64; \<open>num\<close> is the token of the nearest one.\<close>

fun as_interface :: "(string \<Rightarrow> string) \<Rightarrow> json \<Rightarrow> json" where
  "as_interface num (JNum t) = JNum (num t)"
| "as_interface num (JArr xs) = JArr (map (as_interface num) xs)"
| "as_interface num (JObj kvs) = JObj (map (\<lambda>(k, v). (k, as_interface num v)) kvs)"
| "as_interface num v = v"

fun string_items :: "json list \<Rightarrow> string list" where
  "string_items [] = []"
| "string_items (JStr s # xs) = s # string_items xs"
| "string_items (_ # xs) = string_items xs"

definition reserved_members :: "string list" where
  "reserved_members = [''identity'', ''display_name'', ''is_authenticated'', ''permissions'', ''extra'']"

text \<open>The members of the document as UnmarshalJSON reads them into a fresh UserContext.\<close>

definition UnmarshalJSON :: "(string \<Rightarrow> string) \<Rightarrow> (string \<rightharpoonup> json) \<Rightarrow> UserContext" where
  "UnmarshalJSON num doc =
     (let m = (\<lambda>k. map_option (as_interface num) (doc k));
          nested = (case m ''extra'' of Some (JObj kvs) \<Rightarrow> map_of kvs | _ \<Rightarrow> Map.empty)
      in \<lparr>uc_Identity = (case m ''identity'' of Some (JStr s) \<Rightarrow> s | _ \<Rightarrow> []),
          uc_DisplayName = (case m ''display_name'' of Some (JStr s) \<Rightarrow> s | _ \<Rightarrow> []),
          uc_IsAuthenticated = (case m ''is_authenticated'' of Some (JBool b) \<Rightarrow> b | _ \<Rightarrow> False),
          uc_Permissions = (case m ''permissions'' of Some (JArr xs) \<Rightarrow> string_items xs | _ \<Rightarrow> []),
          uc_Extra = (\<lambda>k. if k \<notin> set reserved_members \<and> m k \<noteq> None then m k else nested k)\<rparr>)"

section \<open>Lemmas\<close>

lemma string_items_strings [simp]: "string_items (map JStr ps) = ps"
  by (induction ps) simp_all

lemma as_interface_strings [simp]: "map (as_interface num \<circ> JStr) ps = map JStr ps"
  by (induction ps) simp_all

lemma user_members_none: "k \<notin> set reserved_members \<Longrightarrow> user_members u k = None"
  by (auto simp: user_members_def reserved_members_def Let_def)

lemma MarshalJSON_own:
  "MarshalJSON u ''identity'' = Some (JStr (uc_Identity u))"
  "MarshalJSON u ''is_authenticated'' = Some (JBool (uc_IsAuthenticated u))"
  "MarshalJSON u ''display_name'' =
     (if uc_DisplayName u \<noteq> [] then Some (JStr (uc_DisplayName u)) else uc_Extra u ''display_name'')"
  "MarshalJSON u ''permissions'' =
     (if uc_Permissions u \<noteq> [] then Some (JArr (map JStr (uc_Permissions u))) else uc_Extra u ''permissions'')"
  "MarshalJSON u ''extra'' = uc_Extra u ''extra''"
  by (simp_all add: MarshalJSON_def user_members_def Let_def map_add_def)

section \<open>Properties\<close>

text \<open>An identity survives its journey through a queue. Decoding the encoded user gives back the
  user, with its permissions and extra claims, when no extra claim uses one of the reserved member names
  and the numbers among the claims are ones that a float64 holds.\<close>

theorem user_context_roundtrip:
  assumes "\<forall>k \<in> set reserved_members. uc_Extra u k = None"
    and "\<forall>k v. uc_Extra u k = Some v \<longrightarrow> as_interface num v = v"
  shows "UnmarshalJSON num (MarshalJSON u) = u"
proof -
  have free: "uc_Extra u ''display_name'' = None" "uc_Extra u ''permissions'' = None" "uc_Extra u ''extra'' = None"
    using assms(1) by (simp_all add: reserved_members_def)
  have extra: "(if k \<notin> set reserved_members \<and> map_option (as_interface num) (MarshalJSON u k) \<noteq> None
      then map_option (as_interface num) (MarshalJSON u k) else None) = uc_Extra u k" for k
    using assms user_members_none [of k u] by (cases "uc_Extra u k") (auto simp: MarshalJSON_def map_add_def split: option.splits)
  have "uc_Extra (UnmarshalJSON num (MarshalJSON u)) = uc_Extra u"
    by (rule ext) (subst extra [symmetric], simp add: UnmarshalJSON_def Let_def MarshalJSON_own free)
  moreover have "uc_Identity (UnmarshalJSON num (MarshalJSON u)) = uc_Identity u"
    "uc_DisplayName (UnmarshalJSON num (MarshalJSON u)) = uc_DisplayName u"
    "uc_IsAuthenticated (UnmarshalJSON num (MarshalJSON u)) = uc_IsAuthenticated u"
    "uc_Permissions (UnmarshalJSON num (MarshalJSON u)) = uc_Permissions u"
    by (simp_all add: UnmarshalJSON_def Let_def MarshalJSON_own free)
  ultimately show ?thesis by simp
qed

definition sample_user :: UserContext where
  "sample_user = \<lparr>uc_Identity = ''ann'', uc_DisplayName = [], uc_IsAuthenticated = True, uc_Permissions = [''read''],
     uc_Extra = [''email'' \<mapsto> JStr ''a@b.c'']\<rparr>"

theorem user_context_roundtrip_witness: "UnmarshalJSON id (MarshalJSON sample_user) = sample_user"
  by (rule user_context_roundtrip) (auto simp: sample_user_def reserved_members_def)

text \<open>An extra claim can become a grant on the way. For a user without permissions, an extra claim
  named permissions is flattened into the member of that name, and decoding reads it as the user's
  permissions.\<close>

theorem extra_claim_becomes_permissions:
  assumes "uc_Permissions u = []" "uc_Extra u ''permissions'' = Some (JArr (map JStr ps))"
  shows "uc_Permissions (UnmarshalJSON num (MarshalJSON u)) = ps"
  using assms by (simp add: UnmarshalJSON_def Let_def MarshalJSON_own)

theorem extra_claim_becomes_permissions_witness:
  "uc_Permissions (UnmarshalJSON id (MarshalJSON
     (sample_user\<lparr>uc_Permissions := [], uc_Extra := [''permissions'' \<mapsto> JArr [JStr ''admin'']]\<rparr>))) = [''admin'']"
  using extra_claim_becomes_permissions [of "sample_user\<lparr>uc_Permissions := [], uc_Extra := [''permissions'' \<mapsto> JArr [JStr ''admin'']]\<rparr>"
      "[''admin'']" id] by simp

end
