(* ===== verification/Job_Queue.thy ===== *)
theory Job_Queue
  imports User_Context "HOL-Library.Multiset"
begin

text \<open>
  The in-process job queue (src/internal/transport/inprocess/inprocess.go, Queue) and the assignment
  type of src/internal/transport/types.go. The operations are the code's, each under the queue's
  mutex; the two places where the code leaves the mutex between a check and an effect (Enqueue before
  its channel send, Dequeue after its channel receive) are separate steps of the interleaving
  relation. Go's random map iteration order in ReclaimStale is an argument.
\<close>

section \<open>Assignments and queue state\<close>

record RunAssignment =
  RunID :: string
  ThreadID :: string
  RunnerKind :: string
  GraphID :: string
  RunInput :: string
  RunConfig :: string
  CheckpointRef :: "string option"
  ResumeCommand :: string
  StreamModes :: "string list"
  ConnectorNeeds :: "string list"
  User :: "UserContext option"
  AssignTenantID :: string
  AllowedTools :: "string list option"
  Generation :: int64
  RunManifest :: string

record PoisonPill =
  pp_RunID :: string
  pp_Generation :: int64
  pp_AgentID :: string
  pp_TenantID :: string

text \<open>The ready channels by runner kind (an association list: Len iterates it), the canceled run IDs
  and the in-flight entries with the time of their last touch.\<close>

record Queue =
  jobs :: "(string \<times> RunAssignment list) list"
  canceled :: "string \<Rightarrow> bool"
  inflight :: "string \<rightharpoonup> RunAssignment \<times> int"

definition NewQueue :: Queue where
  "NewQueue = \<lparr>jobs = [], canceled = (\<lambda>_. False), inflight = Map.empty\<rparr>"

definition channel_capacity :: nat where "channel_capacity = 1000"

definition channel :: "string \<Rightarrow> Queue \<Rightarrow> RunAssignment list" where
  "channel kind q = (case map_of (jobs q) kind of None \<Rightarrow> [] | Some ch \<Rightarrow> ch)"

fun put_channel :: "string \<Rightarrow> 'a list \<Rightarrow> (string \<times> 'a list) list \<Rightarrow> (string \<times> 'a list) list" where
  "put_channel kind ch [] = [(kind, ch)]"
| "put_channel kind ch ((k, c) # rest) = (if k = kind then (k, ch) # rest else (k, c) # put_channel kind ch rest)"

definition set_channel :: "string \<Rightarrow> RunAssignment list \<Rightarrow> Queue \<Rightarrow> Queue" where
  "set_channel kind ch q = q\<lparr>jobs := put_channel kind ch (jobs q)\<rparr>"

section \<open>Operations\<close>

text \<open>A channel send: None when the channel is full (the sender blocks).\<close>

definition send_ready :: "RunAssignment \<Rightarrow> Queue \<Rightarrow> Queue option" where
  "send_ready job q =
     (if length (channel (RunnerKind job) q) < channel_capacity
      then Some (set_channel (RunnerKind job) (channel (RunnerKind job) q @ [job]) q) else None)"

definition receive_ready :: "string \<Rightarrow> Queue \<Rightarrow> (RunAssignment \<times> Queue) option" where
  "receive_ready kind q =
     (case channel kind q of [] \<Rightarrow> None | job # rest \<Rightarrow> Some (job, set_channel kind rest q))"

text \<open>\<open>Enqueue\<close> while no other call interferes: a canceled job is dropped without an error; the
  error is the context's when the channel is full until the context ends.\<close>

datatype queue_error = ContextDone | ReadyQueueFull

definition Enqueue :: "RunAssignment \<Rightarrow> Queue \<Rightarrow> queue_error + Queue" where
  "Enqueue job q =
     (if canceled q (RunID job) then Inr q
      else case send_ready job q of Some q' \<Rightarrow> Inr q' | None \<Rightarrow> Inl ContextDone)"

definition claim :: "int \<Rightarrow> RunAssignment \<Rightarrow> Queue \<Rightarrow> RunAssignment option \<times> Queue" where
  "claim now job q =
     (if canceled q (RunID job) then (None, q)
      else (Some job, q\<lparr>inflight := (inflight q)(RunID job \<mapsto> (job, now))\<rparr>))"

lemma put_channel_lookup: "map_of (put_channel kind ch js) = (map_of js)(kind \<mapsto> ch)"
  by (induction js) (auto simp: fun_eq_iff)

lemma channel_set_channel: "channel k (set_channel kind ch q) = (if k = kind then ch else channel k q)"
  by (simp add: channel_def set_channel_def put_channel_lookup)

text \<open>\<open>Dequeue\<close> while no other call interferes: canceled jobs are discarded, an empty channel is
  the timeout.\<close>

function Dequeue :: "int \<Rightarrow> string \<Rightarrow> Queue \<Rightarrow> RunAssignment option \<times> Queue" where
  "Dequeue now kind q =
     (case receive_ready kind q of
        None \<Rightarrow> (None, q)
      | Some (job, q') \<Rightarrow>
          (case claim now job q' of
             (None, q'') \<Rightarrow> Dequeue now kind q''
           | (Some a, q'') \<Rightarrow> (Some a, q'')))"
  by pat_completeness auto
termination
  by (relation "measure (\<lambda>(now, kind, q). length (channel kind q))")
    (auto simp: receive_ready_def claim_def channel_set_channel split: list.splits if_splits)

declare Dequeue.simps [simp del]

definition generationMatches :: "RunAssignment \<times> int \<Rightarrow> int64 \<Rightarrow> bool" where
  "generationMatches entry generation \<longleftrightarrow> Generation (fst entry) = generation"

definition Ack :: "string \<Rightarrow> int64 \<Rightarrow> Queue \<Rightarrow> bool \<times> Queue" where
  "Ack runID generation q =
     (case inflight q runID of
        None \<Rightarrow> (False, q)
      | Some entry \<Rightarrow>
          if \<not> generationMatches entry generation then (False, q)
          else (True, q\<lparr>inflight := (inflight q)(runID := None)\<rparr>))"

definition Renew :: "int \<Rightarrow> string \<Rightarrow> int64 \<Rightarrow> Queue \<Rightarrow> bool \<times> Queue" where
  "Renew now runID generation q =
     (case inflight q runID of
        None \<Rightarrow> (False, q)
      | Some entry \<Rightarrow>
          if \<not> generationMatches entry generation then (False, q)
          else (True, q\<lparr>inflight := (inflight q)(runID \<mapsto> (fst entry, now))\<rparr>))"

definition LookupInflight :: "string \<Rightarrow> Queue \<Rightarrow> RunAssignment option" where
  "LookupInflight runID q = map_option fst (inflight q runID)"

definition enqueueReadyLocked :: "bool \<Rightarrow> RunAssignment \<Rightarrow> Queue \<Rightarrow> queue_error + Queue" where
  "enqueueReadyLocked ctxDone job q =
     (if ctxDone then Inl ContextDone
      else if canceled q (RunID job) then Inr q
      else case send_ready job q of Some q' \<Rightarrow> Inr q' | None \<Rightarrow> Inl ReadyQueueFull)"

definition Nack :: "bool \<Rightarrow> string \<Rightarrow> int64 \<Rightarrow> Queue \<Rightarrow> queue_error option \<times> Queue" where
  "Nack ctxDone runID generation q =
     (case inflight q runID of
        None \<Rightarrow> (None, q)
      | Some entry \<Rightarrow>
          if \<not> generationMatches entry generation then (None, q)
          else (case enqueueReadyLocked ctxDone (fst entry) q of
                  Inl err \<Rightarrow> (Some err, q)
                | Inr q' \<Rightarrow> (None, q'\<lparr>inflight := (inflight q')(runID := None)\<rparr>)))"

definition Cancel :: "string \<Rightarrow> Queue \<Rightarrow> Queue" where
  "Cancel runID q = q\<lparr>canceled := (canceled q)(runID := True), inflight := (inflight q)(runID := None)\<rparr>"

definition Len :: "Queue \<Rightarrow> nat" where
  "Len q = sum_list (map (\<lambda>kc. length (snd kc)) (jobs q))"

text \<open>The loop of \<open>ReclaimStale\<close> over the in-flight run IDs in iteration order.\<close>

fun reclaim_loop ::
  "bool \<Rightarrow> int \<Rightarrow> int \<Rightarrow> Queue \<Rightarrow> string list \<Rightarrow> nat \<Rightarrow> PoisonPill list
     \<Rightarrow> nat \<times> PoisonPill list \<times> queue_error option \<times> Queue" where
  "reclaim_loop ctxDone cutoff maxRetries q [] reclaimed dead = (reclaimed, dead, None, q)"
| "reclaim_loop ctxDone cutoff maxRetries q (runID # order) reclaimed dead =
     (case inflight q runID of
        None \<Rightarrow> reclaim_loop ctxDone cutoff maxRetries q order reclaimed dead
      | Some (job, dequeuedAt) \<Rightarrow>
          if dequeuedAt < cutoff then
            (let newGen = i64 (Generation job + 1) in
             if maxRetries > 0 \<and> newGen > maxRetries then
               reclaim_loop ctxDone cutoff maxRetries q order reclaimed
                 (dead @ [\<lparr>pp_RunID = runID, pp_Generation = newGen, pp_AgentID = GraphID job,
                           pp_TenantID = AssignTenantID job\<rparr>])
             else
               (case enqueueReadyLocked ctxDone (job\<lparr>Generation := newGen\<rparr>) q of
                  Inl err \<Rightarrow> (reclaimed, dead, Some err, q)
                | Inr q' \<Rightarrow>
                    reclaim_loop ctxDone cutoff maxRetries
                      (q'\<lparr>inflight := (inflight q')(runID := None)\<rparr>) order (reclaimed + 1) dead))
          else reclaim_loop ctxDone cutoff maxRetries q order reclaimed dead)"

definition ReclaimStale ::
  "bool \<Rightarrow> int \<Rightarrow> int \<Rightarrow> int \<Rightarrow> string list \<Rightarrow> Queue
     \<Rightarrow> nat \<times> PoisonPill list \<times> queue_error option \<times> Queue" where
  "ReclaimStale ctxDone now maxAge maxRetries order q =
     reclaim_loop ctxDone (now - maxAge) maxRetries q order 0 []"

section \<open>Interleaved executions\<close>

text \<open>Enqueue calls that passed the cancel check and wait to send, and jobs that a Dequeue received
  and has not claimed yet, are part of the state.\<close>

record QState =
  queue :: Queue
  sending :: "RunAssignment list"
  hands :: "RunAssignment list"

definition q_init :: QState where
  "q_init = \<lparr>queue = NewQueue, sending = [], hands = []\<rparr>"

datatype q_event =
    EnqueueCheck RunAssignment
  | EnqueueSend nat
  | EnqueueAbort nat
  | Receive string
  | Claim nat int
  | EvAck string int64
  | EvRenew int string int64
  | EvNack bool string int64
  | EvCancel string
  | EvReclaim bool int int int "string list"

definition remove_nth :: "nat \<Rightarrow> 'a list \<Rightarrow> 'a list" where
  "remove_nth i xs = take i xs @ drop (Suc i) xs"

fun q_exec :: "q_event \<Rightarrow> QState \<Rightarrow> QState option" where
  "q_exec (EnqueueCheck job) s =
     (if canceled (queue s) (RunID job) then Some s else Some (s\<lparr>sending := sending s @ [job]\<rparr>))"
| "q_exec (EnqueueSend i) s =
     (if i < length (sending s) then
        map_option (\<lambda>q. s\<lparr>queue := q, sending := remove_nth i (sending s)\<rparr>) (send_ready (sending s ! i) (queue s))
      else None)"
| "q_exec (EnqueueAbort i) s =
     (if i < length (sending s) then Some (s\<lparr>sending := remove_nth i (sending s)\<rparr>) else None)"
| "q_exec (Receive kind) s =
     map_option (\<lambda>(job, q). s\<lparr>queue := q, hands := hands s @ [job]\<rparr>) (receive_ready kind (queue s))"
| "q_exec (Claim i now) s =
     (if i < length (hands s) then
        Some (s\<lparr>queue := snd (claim now (hands s ! i) (queue s)), hands := remove_nth i (hands s)\<rparr>)
      else None)"
| "q_exec (EvAck r g) s = Some (s\<lparr>queue := snd (Ack r g (queue s))\<rparr>)"
| "q_exec (EvRenew now r g) s = Some (s\<lparr>queue := snd (Renew now r g (queue s))\<rparr>)"
| "q_exec (EvNack c r g) s = Some (s\<lparr>queue := snd (Nack c r g (queue s))\<rparr>)"
| "q_exec (EvCancel r) s = Some (s\<lparr>queue := Cancel r (queue s)\<rparr>)"
| "q_exec (EvReclaim c now age mr order) s =
     Some (s\<lparr>queue := snd (snd (snd (ReclaimStale c now age mr order (queue s))))\<rparr>)"

fun q_run :: "q_event list \<Rightarrow> QState \<Rightarrow> QState option" where
  "q_run [] s = Some s"
| "q_run (ev # evs) s = (case q_exec ev s of None \<Rightarrow> None | Some s' \<Rightarrow> q_run evs s')"

lemma q_run_append:
  "q_run (evs @ evs') s = (case q_run evs s of None \<Rightarrow> None | Some s' \<Rightarrow> q_run evs' s')"
  by (induction evs arbitrary: s) (auto split: option.splits)

section \<open>Where the copies of a run are\<close>

definition of_run :: "string \<Rightarrow> RunAssignment list \<Rightarrow> RunAssignment multiset" where
  "of_run r js = filter_mset (\<lambda>j. RunID j = r) (mset js)"

definition ready_copies :: "string \<Rightarrow> Queue \<Rightarrow> RunAssignment multiset" where
  "ready_copies r q = of_run r (concat (map snd (jobs q)))"

definition leased :: "string \<Rightarrow> Queue \<Rightarrow> RunAssignment multiset" where
  "leased r q = (case inflight q r of None \<Rightarrow> {#} | Some e \<Rightarrow> {#fst e#})"

definition copies :: "string \<Rightarrow> QState \<Rightarrow> RunAssignment multiset" where
  "copies r s = ready_copies r (queue s) + leased r (queue s) + of_run r (sending s) + of_run r (hands s)"

lemma of_run_simps [simp]:
  "of_run r [] = {#}" "of_run r (xs @ ys) = of_run r xs + of_run r ys"
  "of_run r (j # js) = (if RunID j = r then add_mset j (of_run r js) else of_run r js)"
  by (simp_all add: of_run_def)

lemma of_run_remove_nth:
  "i < length xs \<Longrightarrow> of_run r xs = of_run r [xs ! i] + of_run r (remove_nth i xs)"
  by (subst id_take_nth_drop [of i xs]) (auto simp: remove_nth_def simp del: append_take_drop_id)

lemma ready_copies_put:
  "of_run r (concat (map snd (put_channel k ch js))) + of_run r (case map_of js k of None \<Rightarrow> [] | Some c \<Rightarrow> c)
     = of_run r (concat (map snd js)) + of_run r ch"
  by (induction js) (auto simp: ac_simps)

lemma ready_copies_set_channel:
  "ready_copies r (set_channel k ch q) + of_run r (channel k q) = ready_copies r q + of_run r ch"
  using ready_copies_put [of r k ch "jobs q"] by (simp add: ready_copies_def set_channel_def channel_def)

lemma send_ready_copies:
  assumes "send_ready job q = Some q'"
  shows "ready_copies r q' = ready_copies r q + of_run r [job]"
    and "inflight q' = inflight q" and "canceled q' = canceled q"
proof -
  let ?k = "RunnerKind job"
  have q': "q' = set_channel ?k (channel ?k q @ [job]) q"
    using assms by (simp add: send_ready_def split: if_splits)
  then show "inflight q' = inflight q" "canceled q' = canceled q"
    by (simp_all add: set_channel_def)
  have "ready_copies r q' + of_run r (channel ?k q) = ready_copies r q + of_run r (channel ?k q @ [job])"
    unfolding q' by (rule ready_copies_set_channel)
  then show "ready_copies r q' = ready_copies r q + of_run r [job]"
    by (simp add: ac_simps split: if_splits)
qed

lemma receive_ready_copies:
  assumes "receive_ready k q = Some (job, q')"
  shows "ready_copies r q = ready_copies r q' + of_run r [job]"
    and "inflight q' = inflight q" and "canceled q' = canceled q"
proof -
  obtain rest where c: "channel k q = job # rest" and q': "q' = set_channel k rest q"
    using assms by (auto simp: receive_ready_def split: list.splits)
  from q' show "inflight q' = inflight q" "canceled q' = canceled q"
    by (simp_all add: set_channel_def)
  show "ready_copies r q = ready_copies r q' + of_run r [job]"
    using ready_copies_set_channel [of r k rest q] c q' by (simp add: ac_simps split: if_splits)
qed

text \<open>Consistency: an entry is filed under its own run and no canceled run is in flight.\<close>

definition q_wf :: "Queue \<Rightarrow> bool" where
  "q_wf q \<longleftrightarrow> (\<forall>r e. inflight q r = Some e \<longrightarrow> RunID (fst e) = r \<and> \<not> canceled q r)"

lemma q_wf_ops:
  "q_wf NewQueue"
  "q_wf q \<Longrightarrow> q_wf (snd (claim now job q))"
  "q_wf q \<Longrightarrow> q_wf (snd (Ack r g q))"
  "q_wf q \<Longrightarrow> q_wf (snd (Renew now r g q))"
  "q_wf q \<Longrightarrow> q_wf (Cancel r q)"
  by (auto simp: q_wf_def NewQueue_def claim_def Ack_def Renew_def Cancel_def split: option.splits if_splits)

lemma enqueueReadyLocked_wf:
  assumes "enqueueReadyLocked c job q = Inr q'" "q_wf q"
  shows "inflight q' = inflight q" "canceled q' = canceled q" "q_wf q'"
    "\<not> canceled q (RunID job) \<Longrightarrow> ready_copies r q' = ready_copies r q + of_run r [job]"
proof -
  have cases: "canceled q (RunID job) \<and> q' = q \<or> \<not> canceled q (RunID job) \<and> send_ready job q = Some q'"
    using assms(1) by (auto simp: enqueueReadyLocked_def split: if_splits option.splits)
  show f: "inflight q' = inflight q" and c: "canceled q' = canceled q"
    using cases send_ready_copies(2,3) [of job q q'] by auto
  show "q_wf q'" using assms(2) f c by (simp add: q_wf_def)
  show "ready_copies r q' = ready_copies r q + of_run r [job]" if "\<not> canceled q (RunID job)"
    using cases that send_ready_copies(1) [of job q q' r] by simp
qed

lemma q_wf_drop: "q_wf q \<Longrightarrow> q_wf (q\<lparr>inflight := (inflight q)(r := None)\<rparr>)"
  by (auto simp: q_wf_def)

lemma ready_copies_inflight [simp]: "ready_copies r (q\<lparr>inflight := m\<rparr>) = ready_copies r q"
  by (simp add: ready_copies_def)

text \<open>A requeue moves the leased copy back to ready; the flag says whether the generation is raised.\<close>

lemma requeue_copies:
  assumes "q_wf q" "inflight q x = Some (job, t)" "enqueueReadyLocked c (job\<lparr>Generation := g\<rparr>) q = Inr q'"
    and "q'' = q'\<lparr>inflight := (inflight q')(x := None)\<rparr>"
  shows "q_wf q''" and "inflight q'' = (inflight q)(x := None)"
    and "ready_copies r q'' + leased r q''
      = (if r = x then ready_copies r q + {#job\<lparr>Generation := g\<rparr>#} else ready_copies r q + leased r q)"
proof -
  have x: "RunID job = x" "\<not> canceled q x"
    using assms(1,2) by (auto simp: q_wf_def)
  note e = enqueueReadyLocked_wf [OF assms(3,1)]
  show "q_wf q''" using q_wf_drop [OF e(3)] assms(4) by simp
  show f: "inflight q'' = (inflight q)(x := None)" using e(1) assms(4) by simp
  show "ready_copies r q'' + leased r q''
      = (if r = x then ready_copies r q + {#job\<lparr>Generation := g\<rparr>#} else ready_copies r q + leased r q)"
    using e(4) [of r] x assms(4) f by (simp add: leased_def)
qed


text \<open>What ReclaimStale does at one run ID: it moves on, with or without a poison pill, stops with
  an error, or requeues the lease with the next generation.\<close>

lemma reclaim_loop_Cons:
  assumes "reclaim_loop c cutoff mr q (x # order) n dead = (n', dead', err, q')"
  obtains (skip) dead1 where "reclaim_loop c cutoff mr q order n dead1 = (n', dead', err, q')"
      and "dead1 = dead \<or> (\<exists>job t. inflight q x = Some (job, t) \<and> mr > 0 \<and> i64 (Generation job + 1) > mr
        \<and> dead1 = dead @ [\<lparr>pp_RunID = x, pp_Generation = i64 (Generation job + 1), pp_AgentID = GraphID job,
                            pp_TenantID = AssignTenantID job\<rparr>])"
  | (stop) "q' = q" "dead' = dead"
  | (requeue) job t q1 where "inflight q x = Some (job, t)"
      and "enqueueReadyLocked c (job\<lparr>Generation := i64 (Generation job + 1)\<rparr>) q = Inr q1"
      and "mr > 0 \<longrightarrow> i64 (Generation job + 1) \<le> mr"
      and "reclaim_loop c cutoff mr (q1\<lparr>inflight := (inflight q1)(x := None)\<rparr>) order (n + 1) dead = (n', dead', err, q')"
proof (cases "inflight q x")
  case None
  then show thesis using assms skip [of dead] by simp
next
  case (Some e)
  obtain job t where e: "e = (job, t)" by (cases e)
  let ?g = "i64 (Generation job + 1)"
  consider "\<not> t < cutoff" | "t < cutoff" "mr > 0 \<and> ?g > mr" | "t < cutoff" "\<not> (mr > 0 \<and> ?g > mr)" by blast
  then show thesis
  proof cases
    case 1
    then show thesis using assms Some e skip [of dead] by simp
  next
    case 2
    let ?p = "\<lparr>pp_RunID = x, pp_Generation = ?g, pp_AgentID = GraphID job, pp_TenantID = AssignTenantID job\<rparr>"
    have "reclaim_loop c cutoff mr q order n (dead @ [?p]) = (n', dead', err, q')"
      using assms Some e 2 by (simp add: Let_def)
    then show thesis by (rule skip) (use Some e 2 in blast)
  next
    case 3
    then show thesis
      using assms Some e stop requeue [of job t]
      by (cases "enqueueReadyLocked c (job\<lparr>Generation := ?g\<rparr>) q") (auto simp: Let_def)
  qed
qed

lemma reclaim_loop_absent:
  assumes "q_wf q" "inflight q r = None"
    and "reclaim_loop c cutoff mr q order n dead = (n', dead', err, q')"
  shows "q_wf q' \<and> inflight q' r = None \<and> ready_copies r q' = ready_copies r q"
  using assms
proof (induction order arbitrary: q n dead)
  case (Cons x order)
  from Cons.prems(3) show ?case
  proof (cases rule: reclaim_loop_Cons)
    case (skip dead1)
    then show ?thesis using Cons.IH [OF Cons.prems(1,2) skip(1)] by blast
  next
    case stop
    then show ?thesis using Cons.prems by simp
  next
    case (requeue job t q1)
    define q2 where "q2 = q1\<lparr>inflight := (inflight q1)(x := None)\<rparr>"
    note rq = requeue_copies [OF Cons.prems(1) requeue(1,2) q2_def]
    have q2: "inflight q2 r = None" using rq(2) Cons.prems(2) by simp
    have "r \<noteq> x" using requeue(1) Cons.prems(2) by auto
    then have "ready_copies r q2 = ready_copies r q"
      using rq(3) [of r] Cons.prems(2) q2 by (simp add: leased_def)
    then show ?thesis
      using Cons.IH [OF rq(1) q2 requeue(4) [folded q2_def]] by simp
  qed
qed simp

lemma reclaim_loop_copies:
  assumes "q_wf q" "reclaim_loop c cutoff mr q order n dead = (n', dead', err, q')"
  shows "q_wf q' \<and>
    (inflight q' r = inflight q r \<and> ready_copies r q' = ready_copies r q
     \<or> (\<exists>job t. inflight q r = Some (job, t) \<and> inflight q' r = None
          \<and> ready_copies r q' = ready_copies r q + {#job\<lparr>Generation := i64 (Generation job + 1)\<rparr>#}
          \<and> (mr > 0 \<longrightarrow> i64 (Generation job + 1) \<le> mr)))"
  using assms
proof (induction order arbitrary: q n dead)
  case (Cons x order)
  from Cons.prems(2) show ?case
  proof (cases rule: reclaim_loop_Cons)
    case (skip dead1)
    then show ?thesis using Cons.IH [OF Cons.prems(1) skip(1)] by blast
  next
    case stop
    then show ?thesis using Cons.prems by simp
  next
    case (requeue job t q1)
    define q2 where "q2 = q1\<lparr>inflight := (inflight q1)(x := None)\<rparr>"
    note rq = requeue_copies [OF Cons.prems(1) requeue(1,2) q2_def]
    show ?thesis
    proof (cases "r = x")
      case True
      have "inflight q2 r = None" using rq(2) True by simp
      from reclaim_loop_absent [OF rq(1) this requeue(4) [folded q2_def]]
      have "q_wf q'" "inflight q' r = None" "ready_copies r q' = ready_copies r q2" by simp_all
      then show ?thesis
        using rq(3) [of r] True requeue(1,3) \<open>inflight q2 r = None\<close> by (auto simp: leased_def)
    next
      case False
      then have "inflight q2 r = inflight q r" using rq(2) by simp
      then have "ready_copies r q2 = ready_copies r q"
        using rq(3) [of r] False by (simp add: leased_def)
      then show ?thesis
        using Cons.IH [OF rq(1) requeue(4) [folded q2_def]] \<open>inflight q2 r = inflight q r\<close> by simp
    qed
  qed
qed simp

lemma ReclaimStale_copies:
  assumes "q_wf q" "q' = snd (snd (snd (ReclaimStale c now age mr order q)))"
  shows "q_wf q'"
    and "inflight q' r = inflight q r \<and> ready_copies r q' = ready_copies r q
     \<or> (\<exists>job t. inflight q r = Some (job, t) \<and> inflight q' r = None
          \<and> ready_copies r q' = ready_copies r q + {#job\<lparr>Generation := i64 (Generation job + 1)\<rparr>#}
          \<and> (mr > 0 \<longrightarrow> i64 (Generation job + 1) \<le> mr))"
proof -
  obtain n' dead' err q'' where l: "reclaim_loop c (now - age) mr q order 0 [] = (n', dead', err, q'')"
    by (metis prod_cases4)
  then have "q' = q''" using assms(2) by (simp add: ReclaimStale_def)
  then show "q_wf q'"
    and "inflight q' r = inflight q r \<and> ready_copies r q' = ready_copies r q
     \<or> (\<exists>job t. inflight q r = Some (job, t) \<and> inflight q' r = None
          \<and> ready_copies r q' = ready_copies r q + {#job\<lparr>Generation := i64 (Generation job + 1)\<rparr>#}
          \<and> (mr > 0 \<longrightarrow> i64 (Generation job + 1) \<le> mr))"
    using reclaim_loop_copies [OF assms(1) l, of r] by simp_all
qed


section \<open>How events change the copies of a run\<close>

fun q_in :: "string \<Rightarrow> q_event \<Rightarrow> QState \<Rightarrow> bool" where
  "q_in r (EnqueueCheck job) s = (RunID job = r \<and> \<not> canceled (queue s) r)"
| "q_in r _ s = False"

text \<open>Events that end a run's stay in the queue: an accepted Ack, a Cancel, the discarding of a
  canceled job, an Enqueue whose context ended.\<close>

fun q_out :: "string \<Rightarrow> q_event \<Rightarrow> QState \<Rightarrow> bool" where
  "q_out r (EnqueueAbort i) s = (i < length (sending s) \<and> RunID (sending s ! i) = r)"
| "q_out r (Claim i now) s = (i < length (hands s) \<and> RunID (hands s ! i) = r \<and> canceled (queue s) r)"
| "q_out r (EvAck x g) s = (x = r \<and> fst (Ack x g (queue s)))"
| "q_out r (EvCancel x) s = (x = r)"
| "q_out r _ s = False"

fun q_ins :: "string \<Rightarrow> q_event list \<Rightarrow> QState \<Rightarrow> nat" where
  "q_ins r [] s = 0"
| "q_ins r (ev # evs) s =
     (if q_in r ev s then 1 else 0) + (case q_exec ev s of None \<Rightarrow> 0 | Some s' \<Rightarrow> q_ins r evs s')"

fun q_outs :: "string \<Rightarrow> q_event list \<Rightarrow> QState \<Rightarrow> nat" where
  "q_outs r [] s = 0"
| "q_outs r (ev # evs) s =
     (if q_out r ev s then 1 else 0) + (case q_exec ev s of None \<Rightarrow> 0 | Some s' \<Rightarrow> q_outs r evs s')"

definition copies_step :: "string \<Rightarrow> q_event \<Rightarrow> QState \<Rightarrow> QState \<Rightarrow> bool" where
  "copies_step r ev s s' \<longleftrightarrow>
     (\<exists>j. ev = EnqueueCheck j \<and> q_in r ev s \<and> copies r s' = add_mset j (copies r s))
     \<or> \<not> q_in r ev s \<and> copies r s' = copies r s
     \<or> \<not> q_in r ev s \<and> (q_out r ev s \<or> 1 < size (copies r s) \<and> copies r s' \<noteq> {#}) \<and> copies r s' \<subseteq># copies r s
     \<or> (\<exists>c now age mr order job. ev = EvReclaim c now age mr order \<and> job \<in># copies r s
          \<and> (mr > 0 \<longrightarrow> i64 (Generation job + 1) \<le> mr)
          \<and> copies r s' = add_mset (job\<lparr>Generation := i64 (Generation job + 1)\<rparr>) (copies r s - {#job#}))"

lemma claim_copies:
  assumes "q_wf q"
  shows "ready_copies r (snd (claim now job q)) = ready_copies r q"
    and "leased r (snd (claim now job q)) = (if RunID job = r \<and> \<not> canceled q r then {#job#} else leased r q)"
  by (simp_all add: claim_def leased_def ready_copies_def)

lemma Ack_copies:
  "ready_copies r (snd (Ack x g q)) = ready_copies r q"
  "leased r (snd (Ack x g q)) = (if x = r \<and> fst (Ack x g q) then {#} else leased r q)"
  by (auto simp: Ack_def leased_def split: option.splits)

lemma Renew_copies:
  "ready_copies r (snd (Renew now x g q)) = ready_copies r q"
  "leased r (snd (Renew now x g q)) = leased r q"
  by (auto simp: Renew_def leased_def split: option.splits)

lemma Nack_copies:
  assumes "q_wf q"
  shows "q_wf (snd (Nack c x g q))"
    and "ready_copies r (snd (Nack c x g q)) + leased r (snd (Nack c x g q)) = ready_copies r q + leased r q"
proof -
  have "q_wf (snd (Nack c x g q)) \<and>
    ready_copies r (snd (Nack c x g q)) + leased r (snd (Nack c x g q)) = ready_copies r q + leased r q"
  proof (cases "inflight q x")
    case None
    then show ?thesis using assms by (simp add: Nack_def)
  next
    case (Some e)
    obtain job t where e: "e = (job, t)" by (cases e)
    show ?thesis
    proof (cases "generationMatches e g")
      case False
      then show ?thesis using assms Some by (simp add: Nack_def)
    next
      case True
      show ?thesis
      proof (cases "enqueueReadyLocked c job q")
        case (Inl er)
        then show ?thesis using assms Some True e by (simp add: Nack_def)
      next
        case (Inr q1)
        have "enqueueReadyLocked c (job\<lparr>Generation := Generation job\<rparr>) q = Inr q1" using Inr by simp
        from requeue_copies [OF assms Some [unfolded e] this refl]
        show ?thesis using Some True e Inr by (auto simp: Nack_def leased_def)
      qed
    qed
  qed
  then show "q_wf (snd (Nack c x g q))"
    and "ready_copies r (snd (Nack c x g q)) + leased r (snd (Nack c x g q)) = ready_copies r q + leased r q"
    by simp_all
qed

lemma Cancel_copies:
  "ready_copies r (Cancel x q) = ready_copies r q"
  "leased r (Cancel x q) = (if x = r then {#} else leased r q)"
  by (simp_all add: Cancel_def leased_def ready_copies_def)

lemma q_exec_wf:
  assumes "q_wf (queue s)" "q_exec ev s = Some s'"
  shows "q_wf (queue s')"
proof (cases ev)
  case (EnqueueSend i)
  then obtain q where "send_ready (sending s ! i) (queue s) = Some q" "queue s' = q"
    using assms(2) by (auto split: if_splits)
  then show ?thesis using assms(1) send_ready_copies(2,3) by (metis q_wf_def)
next
  case (Receive k)
  then obtain j q where "receive_ready k (queue s) = Some (j, q)" "queue s' = q"
    using assms(2) by auto
  then show ?thesis using assms(1) receive_ready_copies(2,3) by (metis q_wf_def)
next
  case (EvReclaim c now age mr order)
  then show ?thesis using assms ReclaimStale_copies(1) by auto
qed (use assms q_wf_ops Nack_copies(1) in \<open>auto split: if_splits\<close>)

lemma q_exec_copies:
  assumes wf: "q_wf (queue s)" and ex: "q_exec ev s = Some s'"
  shows "copies_step r ev s s'"
proof (cases ev)
  case (EnqueueCheck job)
  then have "copies r s' = (if q_in r ev s then add_mset job (copies r s) else copies r s)"
    using ex by (auto simp: copies_def split: if_splits)
  with EnqueueCheck show ?thesis by (auto simp: copies_step_def)
next
  case (EnqueueSend i)
  then obtain q where q: "i < length (sending s)" "send_ready (sending s ! i) (queue s) = Some q"
    "s' = s\<lparr>queue := q, sending := remove_nth i (sending s)\<rparr>"
    using ex by (auto split: if_splits)
  have "leased r q = leased r (queue s)"
    using send_ready_copies(2) [OF q(2)] by (simp add: leased_def)
  then have "copies r s' = copies r s"
    using send_ready_copies(1) [OF q(2), of r] of_run_remove_nth [OF q(1), of r] q(3) by (simp add: copies_def ac_simps)
  with EnqueueSend show ?thesis by (simp add: copies_step_def)
next
  case (EnqueueAbort i)
  then have i: "i < length (sending s)" "s' = s\<lparr>sending := remove_nth i (sending s)\<rparr>"
    using ex by (auto split: if_splits)
  have c: "copies r s = copies r s' + of_run r [sending s ! i]"
    using of_run_remove_nth [OF i(1), of r] i(2) by (simp add: copies_def ac_simps)
  show ?thesis
  proof (cases "RunID (sending s ! i) = r")
    case True
    then show ?thesis using c EnqueueAbort i(1) by (simp add: copies_step_def)
  next
    case False
    then show ?thesis using c EnqueueAbort by (simp add: copies_step_def)
  qed
next
  case (Receive k)
  then obtain j q where q: "receive_ready k (queue s) = Some (j, q)" "s' = s\<lparr>queue := q, hands := hands s @ [j]\<rparr>"
    using ex by auto
  have "leased r q = leased r (queue s)"
    using receive_ready_copies(2) [OF q(1)] by (simp add: leased_def)
  then have "copies r s' = copies r s"
    using receive_ready_copies(1) [OF q(1), of r] q(2) by (simp add: copies_def ac_simps)
  with Receive show ?thesis by (simp add: copies_step_def)
next
  case (Claim i now)
  let ?j = "hands s ! i"
  have i: "i < length (hands s)" "s' = s\<lparr>queue := snd (claim now ?j (queue s)), hands := remove_nth i (hands s)\<rparr>"
    using ex Claim by (auto split: if_splits)
  note c = claim_copies [OF wf, of r now ?j] of_run_remove_nth [OF i(1), of r]
  show ?thesis
  proof (cases "RunID ?j = r")
    case False
    then have "copies r s' = copies r s" using c i(2) by (simp add: copies_def)
    with Claim show ?thesis by (simp add: copies_step_def)
  next
    case True
    show ?thesis
    proof (cases "canceled (queue s) r")
      case True': True
      then have "copies r s' \<subseteq># copies r s" "q_out r ev s"
        using c i True Claim by (simp_all add: copies_def)
      with Claim show ?thesis by (simp add: copies_step_def)
    next
      case False
      show ?thesis
      proof (cases "leased r (queue s) = {#}")
        case True': True
        then have "copies r s' = copies r s" using c i(2) True False by (simp add: copies_def)
        with Claim show ?thesis by (simp add: copies_step_def)
      next
        case False': False
        then have "1 < size (copies r s)"
          using c(3) True by (simp add: copies_def) (metis add_gr_0 nonempty_has_size zero_less_Suc)
        moreover have "copies r s' \<subseteq># copies r s" "copies r s' \<noteq> {#}"
          using c i(2) True False by (simp_all add: copies_def)
        ultimately show ?thesis using Claim by (simp add: copies_step_def)
      qed
    qed
  qed
next
  case (EvAck x g)
  then have "copies r s' = (if q_out r ev s then copies r s - leased r (queue s) else copies r s)"
    using ex Ack_copies [of r x g "queue s"] by (auto simp: copies_def)
  with EvAck show ?thesis by (auto simp: copies_step_def)
next
  case (EvRenew now x g)
  then have "copies r s' = copies r s"
    using ex Renew_copies [of r now x g "queue s"] by (auto simp: copies_def)
  with EvRenew show ?thesis by (simp add: copies_step_def)
next
  case (EvNack c x g)
  then have "copies r s' = copies r s"
    using ex Nack_copies(2) [OF wf, of r c x g] by (auto simp: copies_def)
  with EvNack show ?thesis by (simp add: copies_step_def)
next
  case (EvCancel x)
  then have "copies r s' = (if q_out r ev s then copies r s - leased r (queue s) else copies r s)"
    using ex Cancel_copies [of r x "queue s"] by (auto simp: copies_def)
  with EvCancel show ?thesis by (auto simp: copies_step_def)
next
  case (EvReclaim c now age mr order)
  define q' where "q' = snd (snd (snd (ReclaimStale c now age mr order (queue s))))"
  have s': "s' = s\<lparr>queue := q'\<rparr>" using ex EvReclaim by (simp add: q'_def)
  from ReclaimStale_copies(2) [OF wf q'_def, of r] show ?thesis
  proof
    assume "inflight q' r = inflight (queue s) r \<and> ready_copies r q' = ready_copies r (queue s)"
    then have "copies r s' = copies r s" using s' by (simp add: copies_def leased_def)
    with EvReclaim show ?thesis by (simp add: copies_step_def)
  next
    assume "\<exists>job t. inflight (queue s) r = Some (job, t) \<and> inflight q' r = None
          \<and> ready_copies r q' = ready_copies r (queue s) + {#job\<lparr>Generation := i64 (Generation job + 1)\<rparr>#}
          \<and> (mr > 0 \<longrightarrow> i64 (Generation job + 1) \<le> mr)"
    then obtain job t where j: "inflight (queue s) r = Some (job, t)" "inflight q' r = None"
      "ready_copies r q' = ready_copies r (queue s) + {#job\<lparr>Generation := i64 (Generation job + 1)\<rparr>#}"
      "mr > 0 \<longrightarrow> i64 (Generation job + 1) \<le> mr" by blast
    have "job \<in># copies r s"
      "copies r s' = add_mset (job\<lparr>Generation := i64 (Generation job + 1)\<rparr>) (copies r s - {#job#})"
      using j s' by (simp_all add: copies_def leased_def)
    with EvReclaim j(4) show ?thesis by (auto simp: copies_step_def)
  qed
qed

section \<open>Conservation and generations along an execution\<close>

lemma copies_step_size:
  assumes "copies_step r ev s s'"
  shows "size (copies r s') \<le> size (copies r s) + (if q_in r ev s then 1 else 0)"
    and "\<not> q_out r ev s \<Longrightarrow> q_in r ev s \<or> copies r s \<noteq> {#} \<Longrightarrow> copies r s' \<noteq> {#}"
    and "\<not> q_out r ev s \<Longrightarrow> size (copies r s) + (if q_in r ev s then 1 else 0) \<le> 1 \<Longrightarrow>
      size (copies r s') = size (copies r s) + (if q_in r ev s then 1 else 0)"
proof -
  have sub: "\<And>A B. A \<subseteq># B \<Longrightarrow> size A \<le> size B" by (rule size_mset_mono)
  have dec: "size (add_mset y (M - {#x#})) = size M" if "x \<in># M" for x y and M :: "RunAssignment multiset"
    using that by (simp add: size_Diff_singleton) (metis Suc_pred nonempty_has_size empty_iff set_mset_empty)
  show "size (copies r s') \<le> size (copies r s) + (if q_in r ev s then 1 else 0)"
    using assms(1) sub dec unfolding copies_step_def by (elim disjE exE conjE) (force+)
  assume out: "\<not> q_out r ev s"
  show "copies r s' \<noteq> {#}" if "q_in r ev s \<or> copies r s \<noteq> {#}"
    using assms out that unfolding copies_step_def by (elim disjE exE conjE) auto
  show "size (copies r s') = size (copies r s) + (if q_in r ev s then 1 else 0)"
    if "size (copies r s) + (if q_in r ev s then 1 else 0) \<le> 1"
    using assms out that dec unfolding copies_step_def by (elim disjE exE conjE) (force+)
qed

text \<open>For any number of enqueues: copies come from enqueues only, and the last one goes only with an
  event that ends the stay of the run.\<close>

lemma copies_bounds:
  assumes "q_wf (queue s)" "q_run evs s = Some s'"
  shows "size (copies r s') \<le> size (copies r s) + q_ins r evs s"
    and "q_outs r evs s = 0 \<Longrightarrow> copies r s \<noteq> {#} \<or> 0 < q_ins r evs s \<Longrightarrow> copies r s' \<noteq> {#}"
proof -
  have "size (copies r s') \<le> size (copies r s) + q_ins r evs s
      \<and> (q_outs r evs s = 0 \<longrightarrow> copies r s \<noteq> {#} \<or> 0 < q_ins r evs s \<longrightarrow> copies r s' \<noteq> {#})"
    using assms
  proof (induction evs arbitrary: s)
    case (Cons ev evs)
    obtain s1 where s1: "q_exec ev s = Some s1" "q_run evs s1 = Some s'"
      using Cons.prems(2) by (auto split: option.splits)
    note sz = copies_step_size [OF q_exec_copies [OF Cons.prems(1) s1(1), of r]]
    from Cons.IH [OF q_exec_wf [OF Cons.prems(1) s1(1)] s1(2)] show ?case
      using sz(1,2) s1(1) by (auto split: if_splits)
  qed simp
  then show "size (copies r s') \<le> size (copies r s) + q_ins r evs s"
    and "q_outs r evs s = 0 \<Longrightarrow> copies r s \<noteq> {#} \<or> 0 < q_ins r evs s \<Longrightarrow> copies r s' \<noteq> {#}" by blast+
qed

lemma conservation:
  assumes "q_wf (queue s)" "q_run evs s = Some s'" "size (copies r s) + q_ins r evs s \<le> 1"
  shows "q_wf (queue s') \<and> size (copies r s') \<le> size (copies r s) + q_ins r evs s
    \<and> (q_outs r evs s = 0 \<longrightarrow> size (copies r s') = size (copies r s) + q_ins r evs s)"
  using assms
proof (induction evs arbitrary: s)
  case (Cons ev evs)
  obtain s1 where s1: "q_exec ev s = Some s1" "q_run evs s1 = Some s'"
    using Cons.prems(2) by (auto split: option.splits)
  have wf: "q_wf (queue s1)" by (rule q_exec_wf [OF Cons.prems(1) s1(1)])
  note st = q_exec_copies [OF Cons.prems(1) s1(1), of r]
  have b: "size (copies r s) + (if q_in r ev s then 1 else 0) \<le> 1"
    using Cons.prems(3) s1(1) by simp
  note sz = copies_step_size(1) [OF st] copies_step_size(3) [OF st _ b]
  have "size (copies r s1) + q_ins r evs s1 \<le> 1"
    using Cons.prems(3) s1(1) sz(1) by simp
  from Cons.IH [OF wf s1(2) this] show ?case
    using sz s1(1) by (auto split: if_splits)
qed simp


text \<open>Generations stay within a bound that the configured retry ceiling and the enqueued jobs respect,
  so the next generation never wraps.\<close>

fun q_ok :: "int \<Rightarrow> q_event \<Rightarrow> bool" where
  "q_ok m (EnqueueCheck job) = (0 \<le> Generation job \<and> Generation job \<le> m)"
| "q_ok m (EvReclaim c now age mr order) = (0 < mr \<and> mr \<le> m)"
| "q_ok m _ = True"

definition gens_ok :: "int \<Rightarrow> string \<Rightarrow> QState \<Rightarrow> bool" where
  "gens_ok m r s \<longleftrightarrow> (\<forall>j\<in>#copies r s. 0 \<le> Generation j \<and> Generation j \<le> m)"

definition gens_above :: "int \<Rightarrow> string \<Rightarrow> QState \<Rightarrow> bool" where
  "gens_above g r s \<longleftrightarrow> (\<forall>j\<in>#copies r s. g < Generation j)"

lemma next_generation: "0 \<le> g \<Longrightarrow> g \<le> m \<Longrightarrow> m < max_int64 \<Longrightarrow> i64 (g + 1) = g + 1"
  by (rule i64_id) (simp add: is_int64_def)

lemma copies_step_gens:
  assumes "copies_step r ev s s'" "q_ok m ev" "m < max_int64" "gens_ok m r s"
  shows "gens_ok m r s'" and "\<not> q_in r ev s \<Longrightarrow> gens_above g r s \<Longrightarrow> gens_above g r s'"
proof -
  have step: "gens_ok m r s' \<and> (\<not> q_in r ev s \<longrightarrow> gens_above g r s \<longrightarrow> gens_above g r s')"
    using assms(1) unfolding copies_step_def
  proof (elim disjE exE conjE)
    fix j assume "ev = EnqueueCheck j" "q_in r ev s" "copies r s' = add_mset j (copies r s)"
    then show ?thesis using assms(2,4) by (auto simp: gens_ok_def)
  next
    assume "copies r s' = copies r s"
    then show ?thesis using assms(4) by (simp add: gens_ok_def gens_above_def)
  next
    assume "copies r s' \<subseteq># copies r s"
    then show ?thesis using assms(4) by (auto simp: gens_ok_def gens_above_def dest: mset_subset_eqD)
  next
    assume "copies r s' \<subseteq># copies r s" "1 < size (copies r s)"
    then show ?thesis using assms(4) by (auto simp: gens_ok_def gens_above_def dest: mset_subset_eqD)
  next
    fix c now age mr order job
    assume a: "ev = EvReclaim c now age mr order" "job \<in># copies r s" "0 < mr \<longrightarrow> i64 (Generation job + 1) \<le> mr"
      "copies r s' = add_mset (job\<lparr>Generation := i64 (Generation job + 1)\<rparr>) (copies r s - {#job#})"
    have "i64 (Generation job + 1) = Generation job + 1"
      using next_generation assms(3,4) a(2) by (auto simp: gens_ok_def)
    then show ?thesis
      using a assms(2,4) by (auto simp: gens_ok_def gens_above_def dest!: in_diffD)
  qed
  then show "gens_ok m r s'" and "\<not> q_in r ev s \<Longrightarrow> gens_above g r s \<Longrightarrow> gens_above g r s'"
    by blast+
qed

lemma gens_run:
  assumes "q_wf (queue s)" "q_run evs s = Some s'" "\<forall>ev\<in>set evs. q_ok m ev" "m < max_int64" "gens_ok m r s"
  shows "gens_ok m r s' \<and> (q_ins r evs s = 0 \<longrightarrow> gens_above g r s \<longrightarrow> gens_above g r s')"
  using assms
proof (induction evs arbitrary: s)
  case (Cons ev evs)
  obtain s1 where s1: "q_exec ev s = Some s1" "q_run evs s1 = Some s'"
    using Cons.prems(2) by (auto split: option.splits)
  have wf: "q_wf (queue s1)" by (rule q_exec_wf [OF Cons.prems(1) s1(1)])
  have ok: "q_ok m ev" "\<forall>ev\<in>set evs. q_ok m ev" using Cons.prems(3) by simp_all
  note st = copies_step_gens [OF q_exec_copies [OF Cons.prems(1) s1(1)] ok(1) Cons.prems(4,5)]
  show ?case
    using Cons.IH [OF wf s1(2) ok(2) Cons.prems(4) st(1)] st(2) s1(1) by (auto split: if_splits)
qed simp

lemma leased_copy: "inflight (queue s) r = Some (job, t) \<Longrightarrow> job \<in># copies r s"
  by (simp add: copies_def leased_def)

lemma fenced_ops:
  assumes "gens_above g r s"
  shows "Ack r g (queue s) = (False, queue s)" and "Renew now r g (queue s) = (False, queue s)"
    and "Nack c r g (queue s) = (None, queue s)"
proof -
  have "\<not> generationMatches e g" if "inflight (queue s) r = Some e" for e
    using leased_copy [of s r "fst e" "snd e"] that assms by (auto simp: gens_above_def generationMatches_def)
  then show "Ack r g (queue s) = (False, queue s)" and "Renew now r g (queue s) = (False, queue s)"
    and "Nack c r g (queue s) = (None, queue s)"
    by (auto simp: Ack_def Renew_def Nack_def split: option.splits)
qed

lemma q_init_copies [simp]: "copies r q_init = {#}" "q_wf (queue q_init)"
  by (simp_all add: q_init_def copies_def NewQueue_def ready_copies_def leased_def q_wf_def)

lemma q_ins_append:
  "q_run evs s = Some s' \<Longrightarrow> q_ins r (evs @ evs') s = q_ins r evs s + q_ins r evs' s'"
  by (induction evs arbitrary: s) (auto split: option.splits)

text \<open>Canceled runs.\<close>

lemma canceled_ops [simp]:
  "canceled (snd (claim now job q)) = canceled q" "canceled (snd (Ack r g q)) = canceled q"
  "canceled (snd (Renew now r g q)) = canceled q"
  by (auto simp: claim_def Ack_def Renew_def split: option.splits)

lemma enqueueReadyLocked_canceled: "enqueueReadyLocked c job q = Inr q' \<Longrightarrow> canceled q' = canceled q"
  using send_ready_copies(3) [of job q] by (auto simp: enqueueReadyLocked_def split: if_splits option.splits)

lemma Nack_canceled [simp]: "canceled (snd (Nack c r g q)) = canceled q"
  by (auto simp: Nack_def dest: enqueueReadyLocked_canceled split: option.splits sum.splits)

lemma reclaim_loop_canceled:
  "reclaim_loop c cutoff mr q order n dead = (n', dead', err, q') \<Longrightarrow> canceled q' = canceled q"
proof (induction order arbitrary: q n dead)
  case (Cons x order)
  from Cons.prems show ?case
  proof (cases rule: reclaim_loop_Cons)
    case (requeue job t q1)
    then show ?thesis using Cons.IH [OF requeue(4)] enqueueReadyLocked_canceled [OF requeue(2)] by simp
  qed (use Cons.IH in auto)
qed simp

lemma ReclaimStale_canceled: "canceled (snd (snd (snd (ReclaimStale c now age mr order q)))) = canceled q"
  by (metis ReclaimStale_def prod_cases4 reclaim_loop_canceled snd_conv)

lemma q_exec_canceled: "q_exec ev s = Some s' \<Longrightarrow> canceled (queue s) r \<Longrightarrow> canceled (queue s') r"
  using send_ready_copies(3) receive_ready_copies(3)
  by (cases ev) (auto simp: ReclaimStale_canceled Cancel_def split: if_splits dest!: send_ready_copies(3) receive_ready_copies(3))

lemma q_run_canceled: "q_run evs s = Some s' \<Longrightarrow> canceled (queue s) r \<Longrightarrow> canceled (queue s') r"
  by (induction evs arbitrary: s) (auto split: option.splits dest: q_exec_canceled)

lemma q_run_wf: "q_run evs s = Some s' \<Longrightarrow> q_wf (queue s) \<Longrightarrow> q_wf (queue s')"
  by (induction evs arbitrary: s) (auto split: option.splits dest: q_exec_wf)

text \<open>Poison pills keep their lease.\<close>

lemma reclaim_loop_pills:
  assumes "q_wf q" "reclaim_loop c cutoff mr q order n dead = (n', dead', err, q')" "p \<in> set dead'" "p \<notin> set dead"
  shows "\<exists>job t. inflight q' (pp_RunID p) = Some (job, t) \<and> pp_Generation p = i64 (Generation job + 1)"
  using assms
proof (induction order arbitrary: q n dead)
  case (Cons x order)
  from Cons.prems(2) show ?case
  proof (cases rule: reclaim_loop_Cons)
    case (skip dead1)
    show ?thesis
    proof (cases "p \<in> set dead1")
      case False
      then show ?thesis using Cons.IH [OF Cons.prems(1) skip(1) Cons.prems(3)] by blast
    next
      case True
      then obtain job t where e: "inflight q x = Some (job, t)" "pp_RunID p = x"
        "pp_Generation p = i64 (Generation job + 1)" "mr > 0" "i64 (Generation job + 1) > mr"
        using skip(2) Cons.prems(4) by auto
      have "inflight q' x = inflight q x"
        using reclaim_loop_copies [OF Cons.prems(1) skip(1), of x] e(1,4,5) by auto
      with e show ?thesis by simp
    qed
  next
    case stop
    then show ?thesis using Cons.prems(3,4) by simp
  next
    case (requeue job t q1)
    note rq = requeue_copies [OF Cons.prems(1) requeue(1,2) refl]
    show ?thesis
      using Cons.IH [OF rq(1) requeue(4) Cons.prems(3,4)] .
  qed
qed simp

section \<open>Sequential dequeue\<close>

lemma put_channel_twice: "put_channel k c (put_channel k d js) = put_channel k c js"
  by (induction js) auto

lemma set_channel_twice: "set_channel k c (set_channel k d q) = set_channel k c q"
  by (simp add: set_channel_def put_channel_twice)

lemma channel_same: "channel k (set_channel k c q) = c"
  by (simp add: channel_set_channel)

lemma set_channel_frame [simp]:
  "canceled (set_channel k c q) = canceled q" "inflight (set_channel k c q) = inflight q"
  by (simp_all add: set_channel_def)

lemma Dequeue_spec:
  "Dequeue now kind q =
     (case dropWhile (\<lambda>j. canceled q (RunID j)) (channel kind q) of
        [] \<Rightarrow> (None, if channel kind q = [] then q else set_channel kind [] q)
      | job # rest \<Rightarrow>
          (Some job, (set_channel kind rest q)\<lparr>inflight := (inflight q)(RunID job \<mapsto> (job, now))\<rparr>))"
proof (induction now kind q rule: Dequeue.induct)
  case (1 now kind q)
  show ?case
  proof (cases "channel kind q")
    case Nil
    then show ?thesis by (simp add: Dequeue.simps [of now kind q] receive_ready_def)
  next
    case (Cons job rest)
    let ?q = "set_channel kind rest q"
    have r: "receive_ready kind q = Some (job, ?q)"
      using Cons by (simp add: receive_ready_def)
    show ?thesis
    proof (cases "canceled q (RunID job)")
      case False
      then have "claim now job ?q = (Some job, ?q\<lparr>inflight := (inflight q)(RunID job \<mapsto> (job, now))\<rparr>)"
        by (simp add: claim_def set_channel_def)
      then show ?thesis using Cons r False by (simp add: Dequeue.simps [of now kind q])
    next
      case True
      then have c: "claim now job ?q = (None, ?q)"
        by (simp add: claim_def set_channel_def)
      define d where "d = dropWhile (\<lambda>j. canceled q (RunID j)) rest"
      have "Dequeue now kind q = Dequeue now kind ?q"
        using r c by (simp add: Dequeue.simps [of now kind q])
      also have "\<dots> = (case d of
          [] \<Rightarrow> (None, if rest = [] then ?q else set_channel kind [] q)
        | job # rest \<Rightarrow>
            (Some job, (set_channel kind rest q)\<lparr>inflight := (inflight q)(RunID job \<mapsto> (job, now))\<rparr>))"
        using 1 [OF r refl c [symmetric] refl]
        unfolding channel_same set_channel_twice set_channel_frame d_def [symmetric] .
      finally have eq: "Dequeue now kind q = \<dots>" .
      have "dropWhile (\<lambda>j. canceled q (RunID j)) (channel kind q) = d"
        using Cons True by (simp add: d_def)
      then show ?thesis
        using eq Cons by (simp split: list.split)
    qed
  qed
qed

section \<open>The lease contract of a job queue\<close>

text \<open>What the JobQueue interface promises of Ack, Renew and LookupInflight, for any backend; the
  bridge and the reclaimer rely on nothing else.\<close>

locale job_leases =
  fixes ack :: "string \<Rightarrow> int64 \<Rightarrow> 'q \<Rightarrow> bool \<times> 'q"
    and renew :: "int \<Rightarrow> string \<Rightarrow> int64 \<Rightarrow> 'q \<Rightarrow> bool \<times> 'q"
    and lookup :: "string \<Rightarrow> 'q \<Rightarrow> RunAssignment option"
  assumes ack_iff: "fst (ack r g q) \<longleftrightarrow> (\<exists>a. lookup r q = Some a \<and> Generation a = g)"
    and ack_lookup: "fst (ack r g q) \<Longrightarrow> lookup r' (snd (ack r g q)) = (if r' = r then None else lookup r' q)"
    and ack_refused: "\<not> fst (ack r g q) \<Longrightarrow> snd (ack r g q) = q"
    and renew_iff: "fst (renew now r g q) \<longleftrightarrow> (\<exists>a. lookup r q = Some a \<and> Generation a = g)"
    and renew_lookup: "lookup r' (snd (renew now r g q)) = lookup r' q"
begin

lemma ack_at_most_once: "fst (ack r g q) \<Longrightarrow> \<not> fst (ack r g' (snd (ack r g q)))"
  using ack_iff ack_lookup by (metis option.distinct(1))

lemma renew_after_ack: "fst (ack r g q) \<Longrightarrow> \<not> fst (renew now r g' (snd (ack r g q)))"
  using renew_iff ack_lookup by (metis option.distinct(1))

lemma ack_exclusive: "fst (ack r g q) \<Longrightarrow> fst (ack r g' q) \<Longrightarrow> g = g'"
  using ack_iff by (metis option.inject)

lemma renew_keeps_ack: "fst (ack r g (snd (renew now r' g' q))) = fst (ack r g q)"
  by (simp add: ack_iff renew_lookup)

end

interpretation inproc: job_leases Ack Renew LookupInflight
  by unfold_locales
    (auto simp: Ack_def Renew_def LookupInflight_def generationMatches_def split: option.splits if_splits)

section \<open>A sample history\<close>

definition sample_job :: RunAssignment where
  "sample_job = \<lparr>RunID = ''r1'', ThreadID = ''t1'', RunnerKind = ''py'', GraphID = ''bot'', RunInput = [],
     RunConfig = [], CheckpointRef = None, ResumeCommand = [], StreamModes = [], ConnectorNeeds = [],
     User = None, AssignTenantID = ''acme'', AllowedTools = None, Generation = 1, RunManifest = []\<rparr>"

definition sample_events :: "q_event list" where
  "sample_events = [EnqueueCheck sample_job, EnqueueSend 0, Receive ''py'', Claim 0 10]"

definition sample_leased :: QState where
  "sample_leased = \<lparr>queue = \<lparr>jobs = [(''py'', [])], canceled = (\<lambda>_. False), inflight = [''r1'' \<mapsto> (sample_job, 10)]\<rparr>,
     sending = [], hands = []\<rparr>"

lemma sample_run: "q_run sample_events q_init = Some sample_leased" "q_ins ''r1'' sample_events q_init = 1"
  "q_outs ''r1'' sample_events q_init = 0"
  by (simp_all add: sample_events_def sample_leased_def q_init_def NewQueue_def sample_job_def send_ready_def
      receive_ready_def channel_def set_channel_def claim_def remove_nth_def channel_capacity_def)

definition sample_reclaim :: q_event where
  "sample_reclaim = EvReclaim False 100 30 3 [''r1'']"

definition sample_requeued :: QState where
  "sample_requeued = \<lparr>queue = \<lparr>jobs = [(''py'', [sample_job\<lparr>Generation := 2\<rparr>])], canceled = (\<lambda>_. False), inflight = Map.empty\<rparr>,
     sending = [], hands = []\<rparr>"

lemma sample_reclaimed: "q_exec sample_reclaim sample_leased = Some sample_requeued"
proof -
  have "i64 2 = 2" by (rule i64_id) (simp add: is_int64_def)
  then show ?thesis
    by (simp add: sample_reclaim_def sample_leased_def sample_requeued_def ReclaimStale_def sample_job_def
        enqueueReadyLocked_def send_ready_def channel_def set_channel_def channel_capacity_def Let_def fun_eq_iff)
qed

section \<open>Properties\<close>

text \<open>C27: No job is duplicated and none is lost, in every interleaving of queue calls. A run has at most as
  many assignments (waiting to be sent, ready, received or leased) as it was enqueued times. As long as none
  of its assignments was acknowledged, canceled, discarded after a cancel or abandoned by its enqueuer,
  a run that was enqueued has at least one, and exactly one if it was enqueued once; a second enqueue may
  only merge with the first, when one of the two is delivered while the other is leased.\<close>

theorem job_conservation:
  assumes "q_run evs q_init = Some s"
  shows "size (copies r s) \<le> q_ins r evs q_init
    \<and> (q_outs r evs q_init = 0 \<longrightarrow> (0 < q_ins r evs q_init \<longrightarrow> copies r s \<noteq> {#})
         \<and> (q_ins r evs q_init = 1 \<longrightarrow> size (copies r s) = 1))"
  using copies_bounds [of q_init evs s r] conservation [of q_init evs s r] assms by simp

theorem job_conservation_witness: "size (copies ''r1'' sample_leased) = 1"
  using job_conservation [OF sample_run(1), of "''r1''"] sample_run(2,3) by simp

text \<open>C10: Once a lease has been reclaimed, the generation it had is dead: whatever happens afterwards,
  an Ack, Renew or Nack that carries it is refused and changes nothing.\<close>

theorem superseded_generation_rejected:
  assumes "q_run evs1 q_init = Some s1" and "inflight (queue s1) r = Some (job, t)"
    and "q_exec (EvReclaim c now age mr order) s1 = Some s2" and "inflight (queue s2) r = None"
    and "q_run evs2 s2 = Some s3"
    and "q_ins r (evs1 @ EvReclaim c now age mr order # evs2) q_init \<le> 1"
    and "\<forall>ev\<in>set (evs1 @ EvReclaim c now age mr order # evs2). q_ok m ev" and "m < max_int64"
  shows "Ack r (Generation job) (queue s3) = (False, queue s3)
    \<and> Renew now' r (Generation job) (queue s3) = (False, queue s3)
    \<and> Nack c' r (Generation job) (queue s3) = (None, queue s3)"
proof -
  let ?ev = "EvReclaim c now age mr order"
  have run2: "q_run (evs1 @ [?ev]) q_init = Some s2"
    using assms(1,3) by (simp add: q_run_append)
  have wf1: "q_wf (queue s1)" and wf2: "q_wf (queue s2)"
    using q_run_wf [OF assms(1)] q_run_wf [OF run2] by simp_all
  have split: "q_ins r (evs1 @ ?ev # evs2) q_init = q_ins r evs1 q_init + q_ins r evs2 s2"
    using q_ins_append [OF assms(1), of r "?ev # evs2"] assms(3) by simp
  have "size (copies r s1) \<le> q_ins r evs1 q_init"
    using conservation [of q_init evs1 s1 r] assms(1,6) split by simp
  moreover have "job \<in># copies r s1" by (rule leased_copy [OF assms(2)])
  then have "0 < size (copies r s1)" by (metis nonempty_has_size empty_iff set_mset_empty)
  ultimately have "size (copies r s1) = 1" and ins2: "q_ins r evs2 s2 = 0"
    using assms(6) split by linarith+
  then have one: "copies r s1 = {#job#}"
    using \<open>job \<in># copies r s1\<close> by (metis insert_DiffM size_eq_Suc_imp_eq_union size_1_singleton_mset singletonD set_mset_single)
  have ok1: "gens_ok m r s1"
    using gens_run [of q_init evs1 s1 m r] assms(1,7,8) by (simp add: gens_ok_def)
  have g: "i64 (Generation job + 1) = Generation job + 1"
    using next_generation ok1 assms(8) one by (auto simp: gens_ok_def)
  have "q_ok m ?ev" using assms(7) by simp
  then have ok2: "gens_ok m r s2"
    using copies_step_gens(1) [OF q_exec_copies [OF wf1 assms(3)] _ assms(8) ok1] by blast
  have s2: "s2 = s1\<lparr>queue := snd (snd (snd (ReclaimStale c now age mr order (queue s1))))\<rparr>"
    using assms(3) by simp
  have "ready_copies r (queue s2) = ready_copies r (queue s1) + {#job\<lparr>Generation := i64 (Generation job + 1)\<rparr>#}"
    using ReclaimStale_copies(2) [OF wf1 refl, of c now age mr order r] assms(2,4) s2 by auto
  then have "copies r s2 = {#job\<lparr>Generation := Generation job + 1\<rparr>#}"
    using one assms(2,4) s2 g by (simp add: copies_def leased_def)
  then have above: "gens_above (Generation job) r s2" by (simp add: gens_above_def)
  have "\<forall>ev\<in>set evs2. q_ok m ev" using assms(7) by simp
  then have "gens_above (Generation job) r s3"
    using gens_run [OF wf2 assms(5) _ assms(8) ok2] ins2 above by blast
  then show ?thesis using fenced_ops by blast
qed

theorem superseded_generation_rejected_witness:
  "Ack ''r1'' 1 (queue sample_requeued) = (False, queue sample_requeued)"
proof -
  have "inflight (queue sample_leased) ''r1'' = Some (sample_job, 10)" "inflight (queue sample_requeued) ''r1'' = None"
    by (simp_all add: sample_leased_def sample_requeued_def)
  moreover have "q_ins ''r1'' (sample_events @ [sample_reclaim]) q_init \<le> 1"
    using q_ins_append [OF sample_run(1), of "''r1''" "[sample_reclaim]"] sample_run(2) sample_reclaimed
    by (simp add: sample_reclaim_def)
  moreover have "\<forall>ev\<in>set (sample_events @ [sample_reclaim]). q_ok 3 ev"
    by (simp add: sample_events_def sample_reclaim_def sample_job_def)
  ultimately have "Ack ''r1'' (Generation sample_job) (queue sample_requeued) = (False, queue sample_requeued)"
    using superseded_generation_rejected [OF sample_run(1) _ sample_reclaimed [unfolded sample_reclaim_def], of "''r1''" sample_job 10 "[]" sample_requeued 3]
    by (simp add: sample_reclaim_def)
  then show ?thesis by (simp add: sample_job_def)
qed

text \<open>With a retry ceiling, no assignment of the queue ever carries a generation above the ceiling
  (or above the one it was enqueued with), so generations never wrap around.\<close>

theorem generation_within_ceiling:
  assumes "q_run evs q_init = Some s" and "\<forall>ev\<in>set evs. q_ok m ev" and "m < max_int64" and "j \<in># copies r s"
  shows "0 \<le> Generation j \<and> Generation j \<le> m"
  using gens_run [of q_init evs s m r] assms by (simp add: gens_ok_def)

theorem generation_within_ceiling_witness:
  "0 \<le> Generation sample_job \<and> Generation sample_job \<le> 3"
proof (rule generation_within_ceiling [OF sample_run(1)])
  show "\<forall>ev\<in>set sample_events. q_ok 3 ev" by (simp add: sample_events_def sample_job_def)
  show "sample_job \<in># copies ''r1'' sample_leased"
    by (simp add: copies_def leased_def sample_leased_def)
qed simp

text \<open>C12: After a Cancel the run is never leased again: no later call of any interleaving hands it to
  a runner or finds it in flight.\<close>

theorem canceled_run_never_delivered:
  assumes "q_run evs1 q_init = Some s1" and "q_run evs2 (s1\<lparr>queue := Cancel r (queue s1)\<rparr>) = Some s2"
  shows "LookupInflight r (queue s2) = None \<and> (RunID job = r \<longrightarrow> fst (claim now job (queue s2)) = None)"
proof -
  have "q_wf (queue s1)" using q_run_wf [OF assms(1)] by simp
  then have "q_wf (queue s2)"
    using q_run_wf [OF assms(2)] by (simp add: q_wf_ops(5))
  moreover have c: "canceled (queue s2) r"
    using q_run_canceled [OF assms(2)] by (simp add: Cancel_def)
  ultimately have "inflight (queue s2) r = None"
    unfolding q_wf_def by (metis option.exhaust)
  with c show ?thesis
    by (simp add: LookupInflight_def claim_def)
qed

theorem canceled_run_never_delivered_witness:
  "LookupInflight ''r1'' (Cancel ''r1'' (queue sample_leased)) = None"
  using canceled_run_never_delivered [OF sample_run(1), of "[]" "''r1''" _ sample_job 0] by simp

text \<open>A run that ReclaimStale reports as a poison pill keeps its lease, and the reaper's Ack with
  the reported generation minus one is accepted.\<close>

theorem poison_pill_stays_ackable:
  assumes "q_run evs q_init = Some s" and "\<forall>ev\<in>set evs. q_ok m ev" and "m < max_int64"
    and "ReclaimStale c now age mr order (queue s) = (n, dead, err, q')" and "pill \<in> set dead"
  shows "fst (Ack (pp_RunID pill) (pp_Generation pill - 1) q')"
proof -
  have wf: "q_wf (queue s)" using q_run_wf [OF assms(1)] by simp
  have l: "reclaim_loop c (now - age) mr (queue s) order 0 [] = (n, dead, err, q')"
    using assms(4) by (simp add: ReclaimStale_def)
  obtain job t where e: "inflight q' (pp_RunID pill) = Some (job, t)" "pp_Generation pill = i64 (Generation job + 1)"
    using reclaim_loop_pills [OF wf l assms(5)] by auto
  then have "inflight (queue s) (pp_RunID pill) = Some (job, t)"
    using reclaim_loop_copies [OF wf l, of "pp_RunID pill"] by auto
  then have "job \<in># copies (pp_RunID pill) s" by (rule leased_copy)
  then have "0 \<le> Generation job" "Generation job \<le> m"
    using gens_run [of q_init evs s m "pp_RunID pill"] assms(1-3) by (auto simp: gens_ok_def)
  then have "pp_Generation pill - 1 = Generation job"
    using e(2) next_generation assms(3) by simp
  then show ?thesis
    using e(1) by (simp add: inproc.ack_iff LookupInflight_def)
qed

theorem poison_pill_stays_ackable_witness:
  "fst (Ack ''r1'' 1 (queue sample_leased))"
proof -
  have "i64 2 = 2" by (rule i64_id) (simp add: is_int64_def)
  then have r: "ReclaimStale False 100 30 1 [''r1''] (queue sample_leased)
      = (0, [\<lparr>pp_RunID = ''r1'', pp_Generation = 2, pp_AgentID = ''bot'', pp_TenantID = ''acme''\<rparr>], None, queue sample_leased)"
    by (simp add: ReclaimStale_def sample_leased_def sample_job_def Let_def)
  have ok: "\<forall>ev\<in>set sample_events. q_ok 3 ev" by (simp add: sample_events_def sample_job_def)
  show ?thesis
    using poison_pill_stays_ackable [OF sample_run(1) ok _ r, of "\<lparr>pp_RunID = ''r1'', pp_Generation = 2, pp_AgentID = ''bot'', pp_TenantID = ''acme''\<rparr>"]
    by simp
qed

text \<open>A dequeue returns the oldest job of the runner kind that is not canceled, discards only
  canceled jobs, leaves the younger ones in order, and leases what it returns.\<close>

theorem Dequeue_fifo:
  "Dequeue now kind q =
     (case dropWhile (\<lambda>j. canceled q (RunID j)) (channel kind q) of
        [] \<Rightarrow> (None, if channel kind q = [] then q else set_channel kind [] q)
      | job # rest \<Rightarrow>
          (Some job, (set_channel kind rest q)\<lparr>inflight := (inflight q)(RunID job \<mapsto> (job, now))\<rparr>))"
  by (rule Dequeue_spec)

end
