(* ===== verification/Event_Broker.thy ===== *)
theory Event_Broker
  imports Go_Prelude "HOL-Library.Sublist"
begin

text \<open>
  The in-process event broker and cancel bus (src/internal/transport/inprocess/inprocess.go, Broker
  and CancelBus). Go channels are numbered; a channel has a bounded buffer and a closed flag. A send
  on a closed channel and a second close panic in Go: the operations return None there, and the
  invariants show that it never happens.
\<close>

section \<open>Channels\<close>

record 'a chan =
  ch_buf :: "'a list"
  ch_closed :: bool

text \<open>A non-blocking send (\<open>select\<close> with a default): a full channel drops the value.\<close>

definition try_send :: "nat \<Rightarrow> 'a \<Rightarrow> 'a chan \<Rightarrow> 'a chan option" where
  "try_send cap v ch =
     (if ch_closed ch then None
      else Some (if length (ch_buf ch) < cap then ch\<lparr>ch_buf := ch_buf ch @ [v]\<rparr> else ch))"

definition close_chan :: "'a chan \<Rightarrow> 'a chan option" where
  "close_chan ch = (if ch_closed ch then None else Some (ch\<lparr>ch_closed := True\<rparr>))"

text \<open>Apply an operation to each of a list of channels, failing as soon as one panics.\<close>

fun each_chan :: "('c \<Rightarrow> 'c option) \<Rightarrow> nat list \<Rightarrow> (nat \<Rightarrow> 'c) \<Rightarrow> (nat \<Rightarrow> 'c) option" where
  "each_chan f [] cs = Some cs"
| "each_chan f (i # is) cs = (case f (cs i) of None \<Rightarrow> None | Some c \<Rightarrow> each_chan f is (cs(i := c)))"

section \<open>The event broker\<close>

record RunEvent =
  ev_Generation :: int64
  ev_EventID :: string
  ev_Seq :: int64
  ev_Method :: string
  ev_Namespace :: "string list"
  ev_Data :: string
  ev_Ts :: int64

definition IsTerminal :: "RunEvent \<Rightarrow> bool" where
  "IsTerminal e \<longleftrightarrow> ev_Method e = ''end'' \<or> ev_Method e = ''error''"

record Broker =
  subscribers :: "string \<Rightarrow> nat list"
  buffer :: "string \<Rightarrow> RunEvent list"
  closed :: "string \<Rightarrow> bool"
  chans :: "nat \<Rightarrow> RunEvent chan"
  next_chan :: nat

definition NewBroker :: Broker where
  "NewBroker = \<lparr>subscribers = (\<lambda>_. []), buffer = (\<lambda>_. []), closed = (\<lambda>_. False),
     chans = (\<lambda>_. \<lparr>ch_buf = [], ch_closed = False\<rparr>), next_chan = 0\<rparr>"

definition subscriber_capacity :: nat where "subscriber_capacity = 4096"

definition broker_Close :: "string \<Rightarrow> Broker \<Rightarrow> Broker option" where
  "broker_Close runID b =
     map_option (\<lambda>cs. b\<lparr>closed := (closed b)(runID := True), chans := cs,
                        subscribers := (subscribers b)(runID := [])\<rparr>)
       (each_chan close_chan (subscribers b runID) (chans b))"

definition Publish :: "string \<Rightarrow> RunEvent \<Rightarrow> Broker \<Rightarrow> Broker option" where
  "Publish runID event b =
     (let b1 = b\<lparr>buffer := (buffer b)(runID := buffer b runID @ [event])\<rparr> in
      case each_chan (try_send subscriber_capacity event) (subscribers b1 runID) (chans b1) of
        None \<Rightarrow> None
      | Some cs \<Rightarrow>
          let b2 = b1\<lparr>chans := cs\<rparr> in
          if IsTerminal event then broker_Close runID b2 else Some b2)"

definition Subscribe :: "string \<Rightarrow> Broker \<Rightarrow> nat \<times> Broker" where
  "Subscribe runID b =
     (let ch = next_chan b; b1 = b\<lparr>next_chan := Suc ch\<rparr> in
      if closed b runID then (ch, b1\<lparr>chans := (chans b)(ch := \<lparr>ch_buf = [], ch_closed = True\<rparr>)\<rparr>)
      else (ch, b1\<lparr>chans := (chans b)(ch := \<lparr>ch_buf = [], ch_closed = False\<rparr>),
                   subscribers := (subscribers b)(runID := subscribers b runID @ [ch])\<rparr>))"

definition Replay :: "string \<Rightarrow> int64 \<Rightarrow> Broker \<Rightarrow> RunEvent list" where
  "Replay runID sinceSeq b = filter (\<lambda>ev. ev_Seq ev > sinceSeq) (buffer b runID)"

section \<open>The cancel bus\<close>

record CancelBus =
  subs :: "string \<Rightarrow> nat list"
  signals :: "nat \<Rightarrow> unit chan"
  next_sub :: nat

definition NewCancelBus :: CancelBus where
  "NewCancelBus = \<lparr>subs = (\<lambda>_. []), signals = (\<lambda>_. \<lparr>ch_buf = [], ch_closed = False\<rparr>), next_sub = 0\<rparr>"

definition signal_and_close :: "unit chan \<Rightarrow> unit chan option" where
  "signal_and_close ch = Option.bind (try_send 1 () ch) close_chan"

definition PublishCancel :: "string \<Rightarrow> CancelBus \<Rightarrow> CancelBus option" where
  "PublishCancel runID c =
     map_option (\<lambda>cs. c\<lparr>subs := (subs c)(runID := []), signals := cs\<rparr>)
       (each_chan signal_and_close (subs c runID) (signals c))"

definition SubscribeCancel :: "string \<Rightarrow> CancelBus \<Rightarrow> nat \<times> CancelBus" where
  "SubscribeCancel runID c =
     (let ch = next_sub c in
      (ch, c\<lparr>subs := (subs c)(runID := subs c runID @ [ch]),
             signals := (signals c)(ch := \<lparr>ch_buf = [], ch_closed = False\<rparr>), next_sub := Suc ch\<rparr>))"

text \<open>The goroutine that runs when the subscription's context ends.\<close>

definition release_cancel :: "string \<Rightarrow> nat \<Rightarrow> CancelBus \<Rightarrow> CancelBus" where
  "release_cancel runID ch c = c\<lparr>subs := (subs c)(runID := remove1 ch (subs c runID))\<rparr>"

section \<open>Operations on a set of channels\<close>

lemma each_chan_some:
  assumes "distinct is" "\<And>i. i \<in> set is \<Longrightarrow> f (cs i) = Some (g (cs i))"
  shows "each_chan f is cs = Some (\<lambda>j. if j \<in> set is then g (cs j) else cs j)"
  using assms
proof (induction "is" arbitrary: cs)
  case (Cons i "is")
  have "each_chan f is (cs(i := g (cs i))) =
      Some (\<lambda>j. if j \<in> set is then g ((cs(i := g (cs i))) j) else (cs(i := g (cs i))) j)"
    using Cons by (intro Cons.IH) auto
  moreover have "(\<lambda>j. if j \<in> set is then g ((cs(i := g (cs i))) j) else (cs(i := g (cs i))) j)
      = (\<lambda>j. if j \<in> set (i # is) then g (cs j) else cs j)"
    using Cons.prems(1) by (auto simp: fun_eq_iff)
  ultimately show ?case using Cons.prems(2) [of i] by simp
qed simp

section \<open>Invariant of the broker\<close>

text \<open>Registered channels are open, already allocated, and registered once; a closed run has none.\<close>

definition broker_inv :: "Broker \<Rightarrow> bool" where
  "broker_inv b \<longleftrightarrow>
     (\<forall>r. distinct (subscribers b r)
        \<and> (\<forall>i\<in>set (subscribers b r). i < next_chan b \<and> \<not> ch_closed (chans b i))
        \<and> (closed b r \<longrightarrow> subscribers b r = []))
     \<and> (\<forall>r r' i. i \<in> set (subscribers b r) \<longrightarrow> i \<in> set (subscribers b r') \<longrightarrow> r = r')"

lemma broker_inv_New: "broker_inv NewBroker"
  by (simp add: broker_inv_def NewBroker_def)

definition deliver :: "RunEvent \<Rightarrow> RunEvent chan \<Rightarrow> RunEvent chan" where
  "deliver e ch = (if length (ch_buf ch) < subscriber_capacity then ch\<lparr>ch_buf := ch_buf ch @ [e]\<rparr> else ch)"

lemma deliver_closed [simp]: "ch_closed (deliver e ch) = ch_closed ch"
  by (simp add: deliver_def)

lemma broker_Close_result:
  assumes "broker_inv b"
  shows "broker_Close r b = Some (b\<lparr>closed := (closed b)(r := True),
     chans := (\<lambda>j. if j \<in> set (subscribers b r) then (chans b j)\<lparr>ch_closed := True\<rparr> else chans b j),
     subscribers := (subscribers b)(r := [])\<rparr>)"
proof -
  have "each_chan close_chan (subscribers b r) (chans b)
      = Some (\<lambda>j. if j \<in> set (subscribers b r) then (chans b j)\<lparr>ch_closed := True\<rparr> else chans b j)"
    using assms by (intro each_chan_some) (auto simp: broker_inv_def close_chan_def)
  then show ?thesis by (simp add: broker_Close_def)
qed

lemma broker_inv_Close:
  assumes "broker_inv b" "broker_Close r b = Some b'"
  shows "broker_inv b'"
proof -
  have "r' = r" if "i \<in> set (subscribers b r)" "i \<in> set (subscribers b r')" for i r'
    using assms(1) that by (auto simp: broker_inv_def)
  then show ?thesis
    using assms by (auto simp: broker_Close_result [OF assms(1)] broker_inv_def split: if_splits)
qed

definition published :: "string \<Rightarrow> RunEvent \<Rightarrow> Broker \<Rightarrow> Broker" where
  "published r e b = b\<lparr>buffer := (buffer b)(r := buffer b r @ [e]),
     chans := (\<lambda>j. if j \<in> set (subscribers b r) then deliver e (chans b j) else chans b j)\<rparr>"

lemma published_inv: "broker_inv b \<Longrightarrow> broker_inv (published r e b)"
  by (auto simp: broker_inv_def published_def)

lemma Publish_result:
  assumes "broker_inv b"
  shows "Publish r e b = (if IsTerminal e then broker_Close r (published r e b) else Some (published r e b))"
proof -
  have "each_chan (try_send subscriber_capacity e) (subscribers b r) (chans b)
      = Some (\<lambda>j. if j \<in> set (subscribers b r) then deliver e (chans b j) else chans b j)"
    using assms by (intro each_chan_some) (auto simp: broker_inv_def try_send_def deliver_def)
  then show ?thesis by (simp add: Publish_def published_def Let_def)
qed

lemma broker_inv_Publish:
  assumes "broker_inv b" "Publish r e b = Some b'"
  shows "broker_inv b'"
  using assms(2) published_inv [OF assms(1)] broker_inv_Close [of "published r e b"]
  by (auto simp: Publish_result [OF assms(1)] split: if_splits)

lemma broker_inv_Subscribe: "broker_inv b \<Longrightarrow> broker_inv (snd (Subscribe r b))"
  by (fastforce simp: broker_inv_def Subscribe_def Let_def)

section \<open>Streams\<close>

text \<open>A broker together with what each subscriber has taken from its channel so far and where in the
  run's history it subscribed.\<close>

record BState =
  broker :: Broker
  taken :: "nat \<Rightarrow> RunEvent list"
  since :: "nat \<Rightarrow> string \<times> nat"

inductive b_step :: "BState \<Rightarrow> BState \<Rightarrow> bool" where
  publish: "Publish r e (broker s) = Some b \<Longrightarrow> b_step s (s\<lparr>broker := b\<rparr>)"
| subscribe: "Subscribe r (broker s) = (ch, b) \<Longrightarrow>
    b_step s (s\<lparr>broker := b, taken := (taken s)(ch := []), since := (since s)(ch := (r, length (buffer (broker s) r)))\<rparr>)"
| take: "ch < next_chan (broker s) \<Longrightarrow> ch_buf (chans (broker s) ch) = e # rest \<Longrightarrow>
    b_step s (s\<lparr>broker := (broker s)\<lparr>chans := (chans (broker s))(ch := (chans (broker s) ch)\<lparr>ch_buf := rest\<rparr>)\<rparr>,
                taken := (taken s)(ch := taken s ch @ [e])\<rparr>)"
| close: "broker_Close r (broker s) = Some b \<Longrightarrow> b_step s (s\<lparr>broker := b\<rparr>)"

definition b_init :: BState where
  "b_init = \<lparr>broker = NewBroker, taken = (\<lambda>_. []), since = (\<lambda>_. ([], 0))\<rparr>"

inductive b_reach :: "BState \<Rightarrow> bool" where
  init: "b_reach b_init"
| step: "b_reach s \<Longrightarrow> b_step s s' \<Longrightarrow> b_reach s'"

text \<open>What a subscriber has or will take.\<close>

definition stream :: "BState \<Rightarrow> nat \<Rightarrow> RunEvent list" where
  "stream s ch = taken s ch @ ch_buf (chans (broker s) ch)"

definition missed :: "BState \<Rightarrow> nat \<Rightarrow> RunEvent list" where
  "missed s ch = drop (snd (since s ch)) (buffer (broker s) (fst (since s ch)))"

definition stream_ok :: "BState \<Rightarrow> nat \<Rightarrow> bool" where
  "stream_ok s ch \<longleftrightarrow>
     subseq (stream s ch) (missed s ch) \<and> snd (since s ch) \<le> length (buffer (broker s) (fst (since s ch)))
     \<and> (ch \<in> set (subscribers (broker s) (fst (since s ch))) \<longrightarrow> length (missed s ch) \<le> subscriber_capacity \<longrightarrow>
          stream s ch = missed s ch)
     \<and> (\<forall>r. ch \<in> set (subscribers (broker s) r) \<longrightarrow> r = fst (since s ch))"

definition b_inv :: "BState \<Rightarrow> bool" where
  "b_inv s \<longleftrightarrow> broker_inv (broker s) \<and> (\<forall>ch < next_chan (broker s). stream_ok s ch)"

lemma stream_ok_same:
  assumes "stream_ok s ch" "stream s' ch = stream s ch" "since s' ch = since s ch"
    and "buffer (broker s') = buffer (broker s)"
    and "\<And>x. ch \<in> set (subscribers (broker s') x) \<Longrightarrow> ch \<in> set (subscribers (broker s) x)"
  shows "stream_ok s' ch"
proof -
  have "missed s' ch = missed s ch" using assms(3,4) by (simp add: missed_def)
  then show ?thesis
    using assms(1,5) unfolding stream_ok_def assms(2-4) by metis
qed

lemma published_frame [simp]:
  "subscribers (published r e b) = subscribers b" "next_chan (published r e b) = next_chan b"
  "closed (published r e b) = closed b"
  by (simp_all add: published_def)

lemma stream_published:
  assumes "stream_ok s ch" "s' = s\<lparr>broker := published r e (broker s)\<rparr>"
  shows "stream_ok s' ch"
proof -
  let ?b = "broker s" and ?r = "fst (since s ch)" and ?n = "snd (since s ch)"
  have n: "?n \<le> length (buffer ?b ?r)" and sub: "subseq (stream s ch) (missed s ch)"
    and eq: "ch \<in> set (subscribers ?b ?r) \<Longrightarrow> length (missed s ch) \<le> subscriber_capacity \<Longrightarrow> stream s ch = missed s ch"
    and reg: "\<And>x. ch \<in> set (subscribers ?b x) \<Longrightarrow> x = ?r"
    using assms(1) by (simp_all add: stream_ok_def)
  have m: "missed s' ch = (if r = ?r then missed s ch @ [e] else missed s ch)"
    using n by (simp add: missed_def assms(2) published_def)
  have st: "stream s' ch = (if ch \<in> set (subscribers ?b r) \<and> length (ch_buf (chans ?b ch)) < subscriber_capacity
      then stream s ch @ [e] else stream s ch)"
    by (simp add: stream_def assms(2) published_def deliver_def)
  have "subseq (stream s' ch) (missed s' ch)"
  proof (cases "r = ?r")
    case True
    have "subseq (stream s ch @ [e]) (missed s ch @ [e])" "subseq (stream s ch) (missed s ch @ [e])"
      using sub by (simp_all add: list_emb_prefix)
    then show ?thesis using True by (simp add: m st)
  next
    case False
    then have "ch \<notin> set (subscribers ?b r)" using reg [of r] by auto
    then show ?thesis using False sub by (simp add: m st)
  qed
  moreover have "stream s' ch = missed s' ch"
    if "ch \<in> set (subscribers ?b ?r)" "length (missed s' ch) \<le> subscriber_capacity"
  proof (cases "r = ?r")
    case True
    then have "stream s ch = missed s ch" "length (missed s ch) < subscriber_capacity"
      using eq that m by auto
    then have "length (ch_buf (chans ?b ch)) < subscriber_capacity"
      by (metis add_lessD1 add.commute length_append stream_def)
    then show ?thesis using True that(1) \<open>stream s ch = missed s ch\<close> by (simp add: m st)
  next
    case False
    then have "ch \<notin> set (subscribers ?b r)" using reg [of r] by auto
    then show ?thesis using False eq that by (simp add: m st)
  qed
  moreover have f: "since s' ch = since s ch" "subscribers (broker s') = subscribers ?b"
    by (simp_all add: assms(2))
  moreover have "?n \<le> length (buffer (broker s') ?r)"
    using n by (auto simp: assms(2) published_def)
  ultimately show ?thesis
    unfolding stream_ok_def f using reg by blast
qed

lemma stream_close:
  assumes "stream_ok s ch" "broker_inv (broker s)" "broker_Close r (broker s) = Some b"
  shows "stream_ok (s\<lparr>broker := b\<rparr>) ch"
proof -
  let ?s = "s\<lparr>broker := b\<rparr>"
  have same: "stream ?s ch = stream s ch" "since ?s ch = since s ch" "buffer (broker ?s) = buffer (broker s)"
    using assms(3) by (auto simp: broker_Close_result [OF assms(2)] stream_def)
  have reg: "ch \<in> set (subscribers (broker ?s) x) \<Longrightarrow> ch \<in> set (subscribers (broker s) x)" for x
    using assms(3) by (auto simp: broker_Close_result [OF assms(2)] split: if_splits)
  show ?thesis
    by (rule stream_ok_same [OF assms(1) same reg])
qed

lemma Publish_cases:
  assumes "broker_inv b" "Publish r e b = Some b'"
  shows "b' = published r e b \<or> broker_Close r (published r e b) = Some b'"
  using assms(2) by (auto simp: Publish_result [OF assms(1)] split: if_splits)

lemma b_inv_step:
  assumes "b_step s s'" "b_inv s"
  shows "b_inv s'"
  using assms(1)
proof cases
  case (publish r e b)
  have inv: "broker_inv (broker s)" using assms(2) by (simp add: b_inv_def)
  let ?p = "published r e (broker s)"
  have p: "stream_ok (s\<lparr>broker := ?p\<rparr>) ch" if "ch < next_chan (broker s)" for ch
    using stream_published assms(2) that by (simp add: b_inv_def)
  have "broker_inv b" by (rule broker_inv_Publish [OF inv publish(2)])
  moreover have "next_chan b = next_chan (broker s) \<and> (\<forall>ch < next_chan (broker s). stream_ok (s\<lparr>broker := b\<rparr>) ch)"
    using Publish_cases [OF inv publish(2)]
  proof
    assume c: "broker_Close r ?p = Some b"
    have "next_chan b = next_chan (broker s)"
      using c published_inv [OF inv] by (auto simp: broker_Close_result)
    then show ?thesis
      using stream_close [OF p, of _ r b] c published_inv [OF inv] by simp
  qed (use p in simp)
  ultimately show ?thesis by (simp add: b_inv_def publish(1))
next
  case (subscribe r ch b)
  have inv: "broker_inv (broker s)" using assms(2) by (simp add: b_inv_def)
  have ch: "ch = next_chan (broker s)" "next_chan b = Suc ch" "buffer b = buffer (broker s)"
    "chans b = (chans (broker s))(ch := \<lparr>ch_buf = [], ch_closed = closed (broker s) r\<rparr>)"
    "subscribers b = (if closed (broker s) r then subscribers (broker s)
       else (subscribers (broker s))(r := subscribers (broker s) r @ [ch]))"
    using subscribe(2) by (auto simp: Subscribe_def Let_def split: if_splits)
  have "broker_inv b" using broker_inv_Subscribe [OF inv, of r] subscribe(2) by simp
  moreover have "stream_ok s' i" if "i < Suc ch" for i
  proof (cases "i = ch")
    case True
    have "ch \<notin> set (subscribers (broker s) x)" for x
      using inv ch(1) by (auto simp: broker_inv_def)
    then show ?thesis
      using True ch by (auto simp: subscribe(1) stream_ok_def stream_def missed_def split: if_splits)
  next
    case False
    then have "stream_ok s i" using that assms(2) ch(1) by (simp add: b_inv_def)
    then show ?thesis
      by (rule stream_ok_same) (use False ch in \<open>auto simp: subscribe(1) stream_def split: if_splits\<close>)
  qed
  ultimately show ?thesis by (simp add: b_inv_def subscribe(1) ch(2))
next
  case (take ch e rest)
  have "broker_inv (broker s)" using assms(2) by (simp add: b_inv_def)
  then have "broker_inv (broker s')" by (simp add: take(1) broker_inv_def)
  moreover have "stream_ok s' i" if "i < next_chan (broker s)" for i
  proof -
    have "stream_ok s i" using assms(2) that by (simp add: b_inv_def)
    then show ?thesis by (rule stream_ok_same) (use take in \<open>simp_all add: stream_def\<close>)
  qed
  moreover have "next_chan (broker s') = next_chan (broker s)" by (simp add: take(1))
  ultimately show ?thesis by (simp add: b_inv_def)
next
  case (close r b)
  have inv: "broker_inv (broker s)" using assms(2) by (simp add: b_inv_def)
  have "next_chan b = next_chan (broker s)"
    using close(2) by (auto simp: broker_Close_result [OF inv])
  moreover have "stream_ok (s\<lparr>broker := b\<rparr>) i" if "i < next_chan (broker s)" for i
    using stream_close [OF _ inv close(2), of i] assms(2) that by (simp add: b_inv_def)
  ultimately show ?thesis
    using broker_inv_Close [OF inv close(2)] by (simp add: b_inv_def close(1))
qed

lemma b_inv_reach: "b_reach s \<Longrightarrow> b_inv s"
proof (induction rule: b_reach.induct)
  case init
  then show ?case by (simp add: b_inv_def b_init_def broker_inv_New) (simp add: NewBroker_def)
qed (rule b_inv_step)

section \<open>Invariant of the cancel bus\<close>

definition bus_inv :: "CancelBus \<Rightarrow> bool" where
  "bus_inv c \<longleftrightarrow>
     (\<forall>r. distinct (subs c r) \<and> (\<forall>i\<in>set (subs c r). i < next_sub c \<and> signals c i = \<lparr>ch_buf = [], ch_closed = False\<rparr>))
     \<and> (\<forall>r r' i. i \<in> set (subs c r) \<longrightarrow> i \<in> set (subs c r') \<longrightarrow> r = r')"

lemma PublishCancel_result:
  assumes "bus_inv c"
  shows "PublishCancel r c = Some (c\<lparr>subs := (subs c)(r := []),
    signals := (\<lambda>j. if j \<in> set (subs c r) then \<lparr>ch_buf = [()], ch_closed = True\<rparr> else signals c j)\<rparr>)"
proof -
  have "each_chan signal_and_close (subs c r) (signals c)
      = Some (\<lambda>j. if j \<in> set (subs c r) then (\<lambda>_. \<lparr>ch_buf = [()], ch_closed = True\<rparr>) (signals c j) else signals c j)"
    using assms by (intro each_chan_some) (auto simp: bus_inv_def signal_and_close_def try_send_def close_chan_def)
  then show ?thesis by (simp add: PublishCancel_def)
qed

lemma bus_inv_ops:
  "bus_inv NewCancelBus"
  "bus_inv c \<Longrightarrow> bus_inv (snd (SubscribeCancel r c))"
  "bus_inv c \<Longrightarrow> bus_inv (release_cancel r ch c)"
  "bus_inv c \<Longrightarrow> PublishCancel r c = Some c' \<Longrightarrow> bus_inv c'"
proof -
  show "bus_inv NewCancelBus" by (simp add: bus_inv_def NewCancelBus_def)
  show "bus_inv c \<Longrightarrow> bus_inv (snd (SubscribeCancel r c))"
    by (fastforce simp: bus_inv_def SubscribeCancel_def Let_def)
  show "bus_inv c \<Longrightarrow> bus_inv (release_cancel r ch c)"
    by (auto simp: bus_inv_def release_cancel_def dest: notin_set_remove1 split: if_splits)
  assume inv: "bus_inv c" and p: "PublishCancel r c = Some c'"
  have "r' = r" if "i \<in> set (subs c r)" "i \<in> set (subs c r')" for i r'
    using inv that by (auto simp: bus_inv_def)
  then show "bus_inv c'"
    using inv p by (auto simp: PublishCancel_result [OF inv] bus_inv_def split: if_splits)
qed


definition sample_event :: RunEvent where
  "sample_event = \<lparr>ev_Generation = 1, ev_EventID = ''e1'', ev_Seq = 1, ev_Method = ''end'', ev_Namespace = [],
     ev_Data = [], ev_Ts = 0\<rparr>"

lemma Publish_total: "broker_inv b \<Longrightarrow> \<exists>b'. Publish r e b = Some b'"
  by (simp add: Publish_result broker_Close_result published_inv)

inductive bus_reach :: "CancelBus \<Rightarrow> bool" where
  bus_init: "bus_reach NewCancelBus"
| bus_subscribe: "bus_reach c \<Longrightarrow> bus_reach (snd (SubscribeCancel r c))"
| bus_release: "bus_reach c \<Longrightarrow> bus_reach (release_cancel r ch c)"
| bus_publish: "bus_reach c \<Longrightarrow> PublishCancel r c = Some c' \<Longrightarrow> bus_reach c'"

lemma bus_inv_reach: "bus_reach c \<Longrightarrow> bus_inv c"
  by (induction rule: bus_reach.induct) (simp_all add: bus_inv_ops)

section \<open>Properties\<close>

text \<open>In every state the broker can reach, publishing and closing never send on a closed channel
  and never close one twice, so no Publish or Close panics.\<close>

theorem broker_never_panics:
  assumes "b_reach s"
  shows "Publish r e (broker s) \<noteq> None \<and> broker_Close r (broker s) \<noteq> None"
proof -
  have inv: "broker_inv (broker s)" using b_inv_reach [OF assms] by (simp add: b_inv_def)
  show ?thesis
    using Publish_total [OF inv, of r e] by (simp add: broker_Close_result [OF inv])
qed

theorem broker_never_panics_witness:
  "Publish ''r1'' sample_event (broker b_init) \<noteq> None \<and> broker_Close ''r1'' (broker b_init) \<noteq> None"
  by (rule broker_never_panics [OF b_reach.init])

text \<open>A subscriber that has not fallen a full channel behind receives every event of the run since
  it subscribed, in order and without gaps, up to and including the terminal event, whose publication
  closes its channel.\<close>

theorem subscriber_stream_complete:
  assumes "b_reach s" and "ch < next_chan (broker s)" and "ch \<in> set (subscribers (broker s) r)"
    and "length (missed s ch) < subscriber_capacity" and "Publish r e (broker s) = Some b"
  shows "stream (s\<lparr>broker := b\<rparr>) ch = drop (snd (since s ch)) (buffer (broker s) r @ [e])
    \<and> (IsTerminal e \<longrightarrow> ch_closed (chans b ch))"
proof -
  have inv: "broker_inv (broker s)" and ok: "stream_ok s ch"
    using b_inv_reach [OF assms(1)] assms(2) by (simp_all add: b_inv_def)
  have r: "fst (since s ch) = r" and n: "snd (since s ch) \<le> length (buffer (broker s) r)"
    and eq: "stream s ch = missed s ch"
    using ok assms(3,4) by (auto simp: stream_ok_def)
  have "length (ch_buf (chans (broker s) ch)) < subscriber_capacity"
    using assms(4) eq [symmetric] by (simp add: stream_def)
  then have p: "taken s ch @ ch_buf (chans (published r e (broker s)) ch) = missed s ch @ [e]"
    using assms(3) eq by (simp add: published_def deliver_def stream_def)
  have "ch_buf (chans b ch) = ch_buf (chans (published r e (broker s)) ch)"
    and "IsTerminal e \<longrightarrow> ch_closed (chans b ch)"
    using assms(3,5) by (auto simp: Publish_result [OF inv] broker_Close_result [OF published_inv [OF inv]] split: if_splits)
  then show ?thesis
    using p r n by (simp add: stream_def missed_def)
qed

definition sample_subscribed :: BState where
  "sample_subscribed = \<lparr>broker = snd (Subscribe ''r1'' NewBroker), taken = (\<lambda>_. []),
     since = (\<lambda>_. ([], 0))(0 := (''r1'', 0))\<rparr>"

lemma sample_subscribed_reach: "b_reach sample_subscribed"
proof -
  have "b_step b_init sample_subscribed"
    using b_step.subscribe [of "''r1''" b_init 0 "snd (Subscribe ''r1'' NewBroker)"]
    by (simp add: b_init_def sample_subscribed_def Subscribe_def NewBroker_def Let_def fun_upd_idem)
  then show ?thesis by (rule b_reach.step [OF b_reach.init])
qed

theorem subscriber_stream_complete_witness:
  "\<exists>b. Publish ''r1'' sample_event (broker sample_subscribed) = Some b
     \<and> stream (sample_subscribed\<lparr>broker := b\<rparr>) 0 = [sample_event] \<and> ch_closed (chans b 0)"
proof -
  obtain b where b: "Publish ''r1'' sample_event (broker sample_subscribed) = Some b"
    using b_inv_reach [OF sample_subscribed_reach] Publish_total unfolding b_inv_def by blast
  have "0 < next_chan (broker sample_subscribed)" "0 \<in> set (subscribers (broker sample_subscribed) ''r1'')"
    "length (missed sample_subscribed 0) < subscriber_capacity"
    by (simp_all add: sample_subscribed_def Subscribe_def NewBroker_def Let_def missed_def subscriber_capacity_def)
  from subscriber_stream_complete [OF sample_subscribed_reach this b] b show ?thesis
    by (auto simp: IsTerminal_def sample_event_def sample_subscribed_def Subscribe_def NewBroker_def Let_def)
qed

text \<open>Resuming after the last event seen loses and repeats nothing: when a run's sequence numbers
  increase, a replay from an event's number returns exactly the events published after it.\<close>

theorem Replay_resumes:
  assumes "sorted_wrt (<) (map ev_Seq (buffer b r))" and "k < length (buffer b r)"
  shows "Replay r (ev_Seq (buffer b r ! k)) b = drop (Suc k) (buffer b r)"
proof -
  let ?evs = "buffer b r"
  have lt: "ev_Seq (?evs ! i) < ev_Seq (?evs ! j)" if "i < j" "j < length ?evs" for i j
    using assms(1) that by (simp add: sorted_wrt_iff_nth_less)
  have "\<not> ev_Seq ev > ev_Seq (?evs ! k)" if ev: "ev \<in> set (take (Suc k) ?evs)" for ev
  proof -
    obtain i where "i < Suc k" "ev = ?evs ! i"
      using ev assms(2) by (auto simp: in_set_conv_nth)
    then show ?thesis using lt [of i k] assms(2) by (cases "i = k") auto
  qed
  then have "filter (\<lambda>ev. ev_Seq ev > ev_Seq (?evs ! k)) (take (Suc k) ?evs) = []"
    unfolding filter_empty_conv by blast
  moreover have "filter (\<lambda>ev. ev_Seq ev > ev_Seq (?evs ! k)) (drop (Suc k) ?evs) = drop (Suc k) ?evs"
    using lt by (auto simp: filter_id_conv in_set_conv_nth)
  ultimately show ?thesis
    unfolding Replay_def by (metis append_Nil append_take_drop_id filter_append)
qed

theorem Replay_resumes_witness:
  "Replay ''r1'' 1 (NewBroker\<lparr>buffer := (\<lambda>_. [sample_event, sample_event\<lparr>ev_Seq := 2\<rparr>])\<rparr>) = [sample_event\<lparr>ev_Seq := 2\<rparr>]"
  using Replay_resumes [of "NewBroker\<lparr>buffer := (\<lambda>_. [sample_event, sample_event\<lparr>ev_Seq := 2\<rparr>])\<rparr>" "''r1''" 0]
  by (simp add: sample_event_def)

text \<open>A cancel reaches every live subscription exactly once, as one value followed by the close of
  its channel, never panics, and leaves no subscription of the run behind; released subscriptions
  leave no entry either.\<close>

theorem cancel_delivered_once:
  assumes "bus_reach c"
  shows "\<exists>c'. PublishCancel r c = Some c' \<and> subs c' r = []
    \<and> (\<forall>ch\<in>set (subs c r). signals c' ch = \<lparr>ch_buf = [()], ch_closed = True\<rparr>)
    \<and> (\<forall>ch. ch \<notin> set (subs c r) \<longrightarrow> signals c' ch = signals c ch)
    \<and> ch0 \<notin> set (subs (release_cancel r ch0 c) r)"
proof -
  have inv: "bus_inv c" by (rule bus_inv_reach [OF assms])
  then have "distinct (subs c r)" by (simp add: bus_inv_def)
  then show ?thesis
    by (simp add: PublishCancel_result [OF inv] release_cancel_def)
qed

theorem cancel_delivered_once_witness:
  "\<exists>c'. PublishCancel ''r1'' (snd (SubscribeCancel ''r1'' NewCancelBus)) = Some c' \<and> subs c' ''r1'' = []
     \<and> signals c' 0 = \<lparr>ch_buf = [()], ch_closed = True\<rparr>"
  using cancel_delivered_once [OF bus_reach.bus_subscribe [OF bus_reach.bus_init], of "''r1''" "''r1''" 0]
  by (auto simp: SubscribeCancel_def NewCancelBus_def Let_def)

end
