(* ===== verification/Runner_Bridge.thy ===== *)
theory Runner_Bridge
  imports Run_History Job_Queue Event_Broker
begin

text \<open>
  The runner-facing side of the control plane: the gRPC handlers of src/internal/bridge/server.go,
  the durable completion path of src/internal/api/completion.go and the reaper of src/cmd/reclaim.go,
  over the store, the queue, the event broker and the cancel bus of the other theories. The context,
  the clock, JSON decoding of event payloads, agent metadata and the success of the finalization
  writes (usage ledger, result cache, completion hooks) are arguments, collected in \<open>Env\<close>.
\<close>

section \<open>State and environment\<close>

record Plane =
  p_store :: store
  p_queue :: Queue
  p_broker :: Broker
  p_bus :: CancelBus
  p_runDone :: "string \<rightharpoonup> nat"

text \<open>\<open>env_values_of\<close> is None for an undecodable payload and \<open>Some None\<close> for JSON null.\<close>

record Env =
  env_ctx :: ctx
  env_now :: string
  env_validate :: "(vals \<Rightarrow> bool) option"
  env_status_of :: "string \<Rightarrow> (RunStatus \<times> string) option"
  env_values_of :: "string \<Rightarrow> vals option option"
  env_usage_of :: "string \<Rightarrow> (string \<times> json) list option"
  env_replay :: bool
  env_finalized :: "run_row \<Rightarrow> bool \<Rightarrow> bool"
  env_finished :: "run_row \<Rightarrow> bool"
  env_agent_kind :: "string \<Rightarrow> string \<Rightarrow> store_error + string"
  env_marshal :: "RunAssignment \<Rightarrow> bool"

datatype api_error =
    StoreError store_error
  | ReplayFailed
  | DecodeFailed
  | WrongRunnerKind
  | InvalidTerminalStatus
  | InvalidPillGeneration
  | FinalizeFailed

section \<open>Durable completion (api/completion.go)\<close>

definition finalizeCommittedRun :: "Env \<Rightarrow> run_row \<Rightarrow> bool \<Rightarrow> Plane \<Rightarrow> api_error option \<times> Plane" where
  "finalizeCommittedRun env run applied p =
     (if \<not> env_finalized env run applied then (Some FinalizeFailed, p)
      else case broker_Close (run_id run) (p_broker p) of
        None \<Rightarrow> (Some FinalizeFailed, p)
      | Some b \<Rightarrow> (if env_finished env run then None else Some FinalizeFailed, p\<lparr>p_broker := b\<rparr>))"

definition manifest_kind :: "run_row \<Rightarrow> string" where
  "manifest_kind run =
     (case rm_user (run_meta run) ''run_manifest'' of
        Some (JObj m) \<Rightarrow> (case map_of m ''runner_kind'' of Some (JStr k) \<Rightarrow> k | _ \<Rightarrow> [])
      | _ \<Rightarrow> [])"

definition check_runner_kind :: "Env \<Rightarrow> run_row \<Rightarrow> string \<Rightarrow> api_error option" where
  "check_runner_kind env run kind =
     (if kind = [] then None
      else if manifest_kind run \<noteq> [] then (if manifest_kind run \<noteq> kind then Some WrongRunnerKind else None)
      else case env_agent_kind env (run_tenant run) (run_agent run) of
        Inl e \<Rightarrow> Some (StoreError e)
      | Inr k \<Rightarrow> if (if k = [] then ''python-langgraph'' else k) \<noteq> kind then Some WrongRunnerKind else None)"

definition latest_values :: "string \<Rightarrow> int64 \<Rightarrow> Broker \<Rightarrow> RunEvent option" where
  "latest_values runID generation b =
     find (\<lambda>e. ev_Method e = ''values'' \<and> ev_Generation e = generation) (rev (Replay runID 0 b))"

text \<open>A cancellation captures the latest usage that decodes; a failed replay leaves it empty.\<close>

definition capture_usage :: "Env \<Rightarrow> run_row \<Rightarrow> RunCompletion \<Rightarrow> Plane \<Rightarrow> RunCompletion" where
  "capture_usage env run c p =
     (let g = MetadataGeneration (meta_map (run_meta run)) AttemptGenerationKey in
      c\<lparr>c_Generation := g,
        c_CancelUsage :=
          (if env_replay env then
             Option.bind (find (\<lambda>e. ev_Method e = ''values'' \<and> ev_Generation e = g \<and> env_usage_of env (ev_Data e) \<noteq> None)
                                (rev (Replay (c_RunID c) 0 (p_broker p)))) (\<lambda>e. env_usage_of env (ev_Data e))
           else None)\<rparr>)"

definition attach_output :: "Env \<Rightarrow> RunCompletion \<Rightarrow> Plane \<Rightarrow> api_error + RunCompletion" where
  "attach_output env c p =
     (if \<not> env_replay env then Inl ReplayFailed
      else case latest_values (c_RunID c) (c_Generation c) (p_broker p) of
        None \<Rightarrow> Inr c
      | Some e \<Rightarrow>
          (case env_values_of env (ev_Data e) of
             None \<Rightarrow> Inl DecodeFailed
           | Some None \<Rightarrow> Inr (c\<lparr>c_Values := None\<rparr>)
           | Some (Some vs) \<Rightarrow> Inr (c\<lparr>c_Values := Some (case c_Values c of None \<Rightarrow> vs | Some old \<Rightarrow> old ++ vs)\<rparr>)))"

definition commit_completion ::
  "Env \<Rightarrow> ctx \<Rightarrow> RunCompletion \<Rightarrow> Plane \<Rightarrow> (CompletionResult \<times> api_error option) \<times> Plane" where
  "commit_completion env cx c p =
     (case CompleteRun (env_validate env) (env_now env) cx (p_store p) c of
        (Inl e, st') \<Rightarrow> ((no_result, Some (StoreError e)), p\<lparr>p_store := st'\<rparr>)
      | (Inr result, st') \<Rightarrow>
          let p1 = p\<lparr>p_store := st'\<rparr> in
          if \<not> Accepted result then ((result, None), p1)
          else case GetRun cx st' (c_RunID c) of
            Inl e \<Rightarrow> ((result, Some (StoreError e)), p1)
          | Inr committed \<Rightarrow>
              (case finalizeCommittedRun env committed (Applied result) p1 of
                 (err, p2) \<Rightarrow> ((result, err), p2)))"

definition completeRunResult ::
  "Env \<Rightarrow> RunCompletion \<Rightarrow> Plane \<Rightarrow> (CompletionResult \<times> api_error option) \<times> Plane" where
  "completeRunResult env c p =
     (case GetRun (SystemContext (env_ctx env)) (p_store p) (c_RunID c) of
        Inl e \<Rightarrow> ((no_result, Some (StoreError e)), p)
      | Inr run \<Rightarrow>
          (case check_runner_kind env run (c_RunnerKind c) of
             Some e \<Rightarrow> ((no_result, Some e), p)
           | None \<Rightarrow>
               let cx = WithContext (env_ctx env) (run_tenant run); m = meta_map (run_meta run) in
               if c_ReplayOnly c then
                 (if m CompletionGenerationKey = None
                     \<or> MetadataGeneration m CompletionGenerationKey \<noteq> c_Generation c \<or> run_status run \<noteq> c_Status c
                  then ((no_result, None), p)
                  else case finalizeCommittedRun env run False p of
                    (err, p') \<Rightarrow> ((\<lparr>Accepted = True, Applied = False\<rparr>, err), p'))
               else if \<not> TerminalRunStatus (c_Status c) then ((no_result, Some InvalidTerminalStatus), p)
               else if c_CancelCurrentAttempt c then commit_completion env cx (capture_usage env run c p) p
               else
                 let checked = CheckCompletion m (run_status run) c in
                 if \<not> Applied checked then
                   (if \<not> Accepted checked then ((checked, None), p)
                    else case finalizeCommittedRun env run False p of (err, p') \<Rightarrow> ((checked, err), p'))
                 else (case attach_output env c p of
                         Inl e \<Rightarrow> ((no_result, Some e), p)
                       | Inr c' \<Rightarrow> commit_completion env cx c' p)))"

definition api_CompleteRun :: "Env \<Rightarrow> RunCompletion \<Rightarrow> Plane \<Rightarrow> (bool \<times> api_error option) \<times> Plane" where
  "api_CompleteRun env c p =
     (case completeRunResult env c p of ((result, err), p') \<Rightarrow> ((Accepted result, err), p'))"

definition plain_completion :: "string \<Rightarrow> int64 \<Rightarrow> RunStatus \<Rightarrow> string \<Rightarrow> RunCompletion" where
  "plain_completion runID generation status err =
     \<lparr>c_CancelCurrentAttempt = False, c_CancelUsage = None, c_RunnerKind = [], c_ReplayOnly = False,
      c_RunID = runID, c_Generation = generation, c_Status = status, c_Error = err, c_Values = None\<rparr>"

definition delivered_terminal :: "string \<Rightarrow> int64 \<Rightarrow> Broker \<Rightarrow> RunEvent option" where
  "delivered_terminal runID generation b =
     find (\<lambda>e. IsTerminal e \<and> ev_Generation e = generation) (rev (Replay runID 0 b))"

definition recoverDeliveredCompletion :: "Env \<Rightarrow> run_row \<Rightarrow> Plane \<Rightarrow> (bool \<times> api_error option) \<times> Plane" where
  "recoverDeliveredCompletion env run p =
     (let generation = MetadataGeneration (meta_map (run_meta run)) AttemptGenerationKey in
      if \<not> env_replay env then ((False, Some ReplayFailed), p)
      else case delivered_terminal (run_id run) generation (p_broker p) of
        None \<Rightarrow> ((False, None), p)
      | Some e \<Rightarrow>
          (case env_status_of env (ev_Data e) of
             None \<Rightarrow> ((False, Some DecodeFailed), p)
           | Some (status, message) \<Rightarrow>
               api_CompleteRun env
                 (plain_completion (run_id run) generation
                    (if ev_Method e = ''end'' then status else RunStatusError) message) p))"

definition begin_attempt :: "Env \<Rightarrow> string \<Rightarrow> int64 \<Rightarrow> Plane \<Rightarrow> (bool \<times> api_error option) \<times> Plane" where
  "begin_attempt env runID generation p =
     (case BeginRunAttempt (SystemContext (env_ctx env)) (p_store p) runID generation of
        (Inl e, st') \<Rightarrow> ((False, Some (StoreError e)), p\<lparr>p_store := st'\<rparr>)
      | (Inr ok, st') \<Rightarrow> ((ok, None), p\<lparr>p_store := st'\<rparr>))"

definition api_BeginRunAttempt :: "Env \<Rightarrow> string \<Rightarrow> int64 \<Rightarrow> Plane \<Rightarrow> (bool \<times> api_error option) \<times> Plane" where
  "api_BeginRunAttempt env runID generation p =
     (case GetRun (SystemContext (env_ctx env)) (p_store p) runID of
        Inl e \<Rightarrow> ((False, Some (StoreError e)), p)
      | Inr run \<Rightarrow>
          if TerminalRunStatus (run_status run) then
            (if rm_completion (run_meta run) \<noteq> None then
               (case finalizeCommittedRun env run False p of (err, p') \<Rightarrow> ((False, err), p'))
             else ((False, None), p))
          else
            let previous = MetadataGeneration (meta_map (run_meta run)) AttemptGenerationKey
            in if rm_attempt (run_meta run) \<noteq> None \<and> generation > previous then
                 (case recoverDeliveredCompletion env run p of
                    ((accepted, Some e), p') \<Rightarrow> ((False, Some e), p')
                  | ((accepted, None), p') \<Rightarrow> if accepted then ((False, None), p') else begin_attempt env runID generation p')
               else begin_attempt env runID generation p)"

definition bind_and_fail ::
  "Env \<Rightarrow> string \<Rightarrow> int64 \<Rightarrow> string \<Rightarrow> bool \<Rightarrow> Plane \<Rightarrow> (bool \<times> api_error option) \<times> Plane" where
  "bind_and_fail env runID generation errorMsg unbound p =
     (let finish = api_CompleteRun env (plain_completion runID generation RunStatusError errorMsg) in
      if unbound then
        (case begin_attempt env runID generation p of
           ((ok, err), p') \<Rightarrow> if err \<noteq> None \<or> \<not> ok then ((False, err), p') else finish p')
      else finish p)"

definition CompleteReclaimedRun :: "Env \<Rightarrow> PoisonPill \<Rightarrow> string \<Rightarrow> Plane \<Rightarrow> (bool \<times> api_error option) \<times> Plane" where
  "CompleteReclaimedRun env pill errorMsg p =
     (if pp_Generation pill \<le> 0 then ((False, Some InvalidPillGeneration), p)
      else
        let generation = pp_Generation pill - 1; runID = pp_RunID pill in
        case LookupInflight runID (p_queue p) of
          None \<Rightarrow> ((False, None), p)
        | Some assignment \<Rightarrow>
            if Generation assignment \<noteq> generation then ((False, None), p)
            else case GetRun (SystemContext (env_ctx env)) (p_store p) runID of
              Inl e \<Rightarrow> ((False, Some (StoreError e)), p)
            | Inr run \<Rightarrow>
                if TerminalRunStatus (run_status run) then
                  (if rm_completion (run_meta run) \<noteq> None then
                     (case finalizeCommittedRun env run False p of (err, p') \<Rightarrow> ((True, err), p'))
                   else ((True, None), p))
                else
                  let current = MetadataGeneration (meta_map (run_meta run)) AttemptGenerationKey;
                      attempted = (rm_attempt (run_meta run) \<noteq> None)
                  in if current > generation then ((False, None), p)
                     else if attempted then
                       (case recoverDeliveredCompletion env run p of
                          ((accepted, err), p') \<Rightarrow>
                            if accepted \<or> err \<noteq> None then ((accepted, err), p')
                            else bind_and_fail env runID generation errorMsg (current \<noteq> generation) p')
                     else bind_and_fail env runID generation errorMsg True p)"

section \<open>The bridge handlers (bridge/server.go)\<close>

datatype rpc_error = InvalidArgument | PermissionDenied | Unavailable | ContextCanceled | MarshalError

text \<open>The authenticated runner kind is the empty string in local mode.\<close>

definition requireRunnerKind :: "string \<Rightarrow> string \<Rightarrow> rpc_error option" where
  "requireRunnerKind authenticated kind =
     (if authenticated \<noteq> [] \<and> authenticated \<noteq> kind then Some PermissionDenied else None)"

definition requireRunOwner :: "string \<Rightarrow> string \<Rightarrow> Queue \<Rightarrow> rpc_error + RunAssignment option" where
  "requireRunOwner authenticated runID q =
     (case LookupInflight runID q of
        None \<Rightarrow> Inr None
      | Some a \<Rightarrow> (case requireRunnerKind authenticated (RunnerKind a) of Some e \<Rightarrow> Inl e | None \<Rightarrow> Inr (Some a)))"

definition cleanupRun :: "string \<Rightarrow> Plane \<Rightarrow> Plane" where
  "cleanupRun runID p =
     (case p_runDone p runID of
        None \<Rightarrow> p
      | Some ch \<Rightarrow> p\<lparr>p_bus := release_cancel runID ch (p_bus p), p_runDone := (p_runDone p)(runID := None)\<rparr>)"

definition watch_cancel :: "string \<Rightarrow> Plane \<Rightarrow> Plane" where
  "watch_cancel runID p =
     (case SubscribeCancel runID (p_bus p) of
        (ch, bus) \<Rightarrow>
          let bus' = (case p_runDone p runID of None \<Rightarrow> bus | Some old \<Rightarrow> release_cancel runID old bus)
          in p\<lparr>p_bus := bus', p_runDone := (p_runDone p)(runID \<mapsto> ch)\<rparr>)"

datatype job_reply = NoJob | Job RunAssignment | JobError rpc_error

definition nack_job :: "RunAssignment \<Rightarrow> Plane \<Rightarrow> Plane" where
  "nack_job job p = p\<lparr>p_queue := snd (Nack False (RunID job) (Generation job) (p_queue p))\<rparr>"

definition deliver_job :: "Env \<Rightarrow> RunAssignment \<Rightarrow> Plane \<Rightarrow> job_reply \<times> Plane" where
  "deliver_job env job p =
     (case api_BeginRunAttempt env (RunID job) (Generation job) p of
        ((accepted, Some e), p1) \<Rightarrow> (JobError Unavailable, nack_job job p1)
      | ((accepted, None), p1) \<Rightarrow>
          if \<not> accepted then
            (NoJob, p1\<lparr>p_queue := snd (Ack (RunID job) (Generation job) (p_queue p1))\<rparr>)
          else if \<not> env_marshal env job then (JobError MarshalError, nack_job job p1)
          else (Job job, watch_cancel (RunID job) p1))"

definition GetJob :: "Env \<Rightarrow> string \<Rightarrow> string \<Rightarrow> int \<Rightarrow> bool \<Rightarrow> Plane \<Rightarrow> job_reply \<times> Plane" where
  "GetJob env authenticated kind now ctxDone p =
     (case requireRunnerKind authenticated kind of
        Some e \<Rightarrow> (JobError e, p)
      | None \<Rightarrow>
          (case Dequeue now kind (p_queue p) of
             (None, q) \<Rightarrow> (NoJob, p\<lparr>p_queue := q\<rparr>)
           | (Some job, q) \<Rightarrow>
               let p1 = p\<lparr>p_queue := q\<rparr> in
               if ctxDone then (JobError ContextCanceled, nack_job job p1)
               else case requireRunnerKind authenticated (RunnerKind job) of
                 Some e \<Rightarrow>
                   (case Nack False (RunID job) (Generation job) (p_queue p1) of
                      (Some _, q') \<Rightarrow> (JobError Unavailable, p1\<lparr>p_queue := q'\<rparr>)
                    | (None, q') \<Rightarrow> (JobError e, p1\<lparr>p_queue := q'\<rparr>))
               | None \<Rightarrow> deliver_job env job p1))"

text \<open>One message of StreamEvents: the event's generation is the message's, and events of later
  attempts get it in their ID. \<open>parse\<close> is json.Unmarshal of the event text.\<close>

datatype stream_reply = Published | Dropped | StreamError rpc_error

definition stream_event ::
  "(string \<Rightarrow> RunEvent option) \<Rightarrow> string \<Rightarrow> int \<Rightarrow> string \<Rightarrow> int64 \<Rightarrow> string \<Rightarrow> Plane \<Rightarrow> stream_reply \<times> Plane" where
  "stream_event parse authenticated now runID generation text p =
     (case requireRunOwner authenticated runID (p_queue p) of
        Inl e \<Rightarrow> (StreamError e, p)
      | Inr _ \<Rightarrow>
          (case Renew now runID generation (p_queue p) of
             (False, q) \<Rightarrow> (Dropped, p\<lparr>p_queue := q\<rparr>)
           | (True, q) \<Rightarrow>
               (case parse text of
                  None \<Rightarrow> (StreamError InvalidArgument, p\<lparr>p_queue := q\<rparr>)
                | Some ev \<Rightarrow>
                    let ev' = ev\<lparr>ev_Generation := generation,
                                 ev_EventID := (if generation > 1 then ev_EventID ev @ '':g'' @ Itoa generation
                                                else ev_EventID ev)\<rparr>
                    in (case Publish runID ev' (p_broker p) of
                          None \<Rightarrow> (StreamError Unavailable, p\<lparr>p_queue := q\<rparr>)
                        | Some b \<Rightarrow> (Published, p\<lparr>p_queue := q, p_broker := b\<rparr>)))))"

datatype status_reply = StatusOk | Superseded | StatusError rpc_error

definition ReportStatus ::
  "Env \<Rightarrow> string \<Rightarrow> int \<Rightarrow> string \<Rightarrow> int64 \<Rightarrow> RunStatus \<Rightarrow> string \<Rightarrow> Plane \<Rightarrow> status_reply \<times> Plane" where
  "ReportStatus env authenticated now runID generation status err p =
     (if \<not> TerminalRunStatus status then (StatusError InvalidArgument, p)
      else case requireRunOwner authenticated runID (p_queue p) of
        Inl e \<Rightarrow> (StatusError e, p)
      | Inr assignment \<Rightarrow>
          (case (if assignment \<noteq> None then Renew now runID generation (p_queue p) else (True, p_queue p)) of
             (False, q) \<Rightarrow> (Superseded, p\<lparr>p_queue := q\<rparr>)
           | (True, q) \<Rightarrow>
               (case api_CompleteRun env
                       ((plain_completion runID generation status err)
                          \<lparr>c_RunnerKind := authenticated, c_ReplayOnly := (assignment = None)\<rparr>)
                       (p\<lparr>p_queue := q\<rparr>) of
                  ((accepted, Some e), p1) \<Rightarrow> (StatusError Unavailable, p1)
                | ((accepted, None), p1) \<Rightarrow>
                    if \<not> accepted then (Superseded, p1)
                    else
                      (StatusOk, cleanupRun runID
                         (if assignment \<noteq> None
                          then p1\<lparr>p_queue := snd (Ack runID generation (p_queue p1))\<rparr> else p1)))))"

datatype heartbeat_reply = Alive | StopRunning | HeartbeatError rpc_error

definition Heartbeat :: "string \<Rightarrow> int \<Rightarrow> string \<Rightarrow> int64 \<Rightarrow> Plane \<Rightarrow> heartbeat_reply \<times> Plane" where
  "Heartbeat authenticated now runID generation p =
     (case requireRunOwner authenticated runID (p_queue p) of
        Inl e \<Rightarrow> (HeartbeatError e, p)
      | Inr _ \<Rightarrow>
          (case Renew now runID generation (p_queue p) of
             (current, q) \<Rightarrow> (if current then Alive else StopRunning, p\<lparr>p_queue := q\<rparr>)))"

section \<open>The reaper (cmd/reclaim.go)\<close>

definition finishPoisonPill :: "Env \<Rightarrow> PoisonPill \<Rightarrow> string \<Rightarrow> Plane \<Rightarrow> (bool \<times> api_error option) \<times> Plane" where
  "finishPoisonPill env pill message p =
     (case CompleteReclaimedRun env pill message p of
        ((accepted, err), p1) \<Rightarrow>
          if err \<noteq> None \<or> \<not> accepted then ((False, err), p1)
          else (case Ack (pp_RunID pill) (pp_Generation pill - 1) (p_queue p1) of
                  (ok, q) \<Rightarrow> ((ok, None), p1\<lparr>p_queue := q\<rparr>)))"

definition pill_message :: "PoisonPill \<Rightarrow> string" where
  "pill_message pill =
     ''max retries exceeded (generation '' @ Itoa (pp_Generation pill) @ ''): runner crashed ''
       @ Itoa (pp_Generation pill) @ '' times without completing''"

text \<open>One tick of the leader's loop.\<close>

definition reclaim_tick :: "Env \<Rightarrow> int \<Rightarrow> int \<Rightarrow> int \<Rightarrow> string list \<Rightarrow> Plane \<Rightarrow> Plane" where
  "reclaim_tick env now maxAge maxRetries order p =
     (case ReclaimStale False now maxAge maxRetries order (p_queue p) of
        (n, dead, err, q) \<Rightarrow>
          let p1 = p\<lparr>p_queue := q\<rparr> in
          if err \<noteq> None then p1
          else fold (\<lambda>pill p. snd (finishPoisonPill env pill (pill_message pill) p)) dead p1)"

section \<open>What the completion path leaves alone\<close>

named_theorems plane_frame "components of the control plane that an operation does not touch"

lemma finalize_frame [plane_frame]:
  "finalizeCommittedRun env run a p = (err, p') \<Longrightarrow>
     p_store p' = p_store p \<and> p_queue p' = p_queue p \<and> p_bus p' = p_bus p \<and> p_runDone p' = p_runDone p"
  by (auto simp: finalizeCommittedRun_def split: if_splits option.splits)

lemma commit_frame [plane_frame]:
  "commit_completion env cx c p = (x, p') \<Longrightarrow>
     p_queue p' = p_queue p \<and> p_bus p' = p_bus p \<and> p_runDone p' = p_runDone p"
  by (auto simp: commit_completion_def Let_def split: prod.splits sum.splits if_splits dest: finalize_frame)

lemma completeRunResult_frame [plane_frame]:
  "completeRunResult env c p = (x, p') \<Longrightarrow>
     p_queue p' = p_queue p \<and> p_bus p' = p_bus p \<and> p_runDone p' = p_runDone p"
  by (auto simp: completeRunResult_def Let_def split: prod.splits sum.splits option.splits if_splits
      dest: finalize_frame commit_frame)

lemma api_CompleteRun_frame [plane_frame]:
  "api_CompleteRun env c p = (x, p') \<Longrightarrow>
     p_queue p' = p_queue p \<and> p_bus p' = p_bus p \<and> p_runDone p' = p_runDone p"
  by (auto simp: api_CompleteRun_def split: prod.splits dest: completeRunResult_frame)

lemma recover_frame [plane_frame]:
  "recoverDeliveredCompletion env run p = (x, p') \<Longrightarrow>
     p_queue p' = p_queue p \<and> p_bus p' = p_bus p \<and> p_runDone p' = p_runDone p"
  by (auto simp: recoverDeliveredCompletion_def Let_def split: prod.splits option.splits if_splits
      dest: api_CompleteRun_frame)

lemma begin_attempt_frame [plane_frame]:
  "begin_attempt env r g p = (x, p') \<Longrightarrow>
     p_queue p' = p_queue p \<and> p_bus p' = p_bus p \<and> p_runDone p' = p_runDone p \<and> p_broker p' = p_broker p"
  by (auto simp: begin_attempt_def split: prod.splits sum.splits)

lemma bind_and_fail_frame [plane_frame]:
  "bind_and_fail env r g msg u p = (x, p') \<Longrightarrow>
     p_queue p' = p_queue p \<and> p_bus p' = p_bus p \<and> p_runDone p' = p_runDone p"
  by (auto simp: bind_and_fail_def Let_def split: prod.splits if_splits
      dest!: begin_attempt_frame api_CompleteRun_frame)

lemma api_BeginRunAttempt_frame [plane_frame]:
  "api_BeginRunAttempt env r g p = (x, p') \<Longrightarrow>
     p_queue p' = p_queue p \<and> p_bus p' = p_bus p \<and> p_runDone p' = p_runDone p"
  by (auto simp: api_BeginRunAttempt_def Let_def split: prod.splits sum.splits option.splits if_splits
      dest!: finalize_frame recover_frame begin_attempt_frame)

lemma CompleteReclaimedRun_frame [plane_frame]:
  "CompleteReclaimedRun env pill msg p = (x, p') \<Longrightarrow>
     p_queue p' = p_queue p \<and> p_bus p' = p_bus p \<and> p_runDone p' = p_runDone p"
  by (auto simp: CompleteReclaimedRun_def Let_def split: prod.splits sum.splits option.splits if_splits
      dest!: finalize_frame recover_frame bind_and_fail_frame)

section \<open>What an accepted completion has made durable\<close>

definition recorded :: "store \<Rightarrow> string \<Rightarrow> RunStatus \<Rightarrow> bool" where
  "recorded st i status \<longleftrightarrow>
     (\<exists>r. run_of st i = Some r \<and> rm_completion (run_meta r) \<noteq> None \<and> run_status r = status)"

lemma system_scope [simp]: "tenant_scope (SystemContext c) t"
  by (simp add: tenant_scope_def SystemContext_def IsSystem_def)

lemma GetRun_run_of:
  assumes "keys_ok st"
  shows "GetRun cx st i =
    (case run_of st i of
       Some r \<Rightarrow> if tenant_scope cx (run_tenant r) then Inr (r\<lparr>run_meta := row_meta r\<rparr>) else Inl (ErrNotFound ''run'' i)
     | None \<Rightarrow> Inl (ErrNotFound ''run'' i))"
  using assms find_key [of run_id "st_runs st" i "\<lambda>r. tenant_scope cx (run_tenant r)"]
  by (auto simp: GetRun_def run_of_def keys_ok_def row_meta_def split: option.splits)

lemma GetRun_Inr:
  assumes "keys_ok st" "GetRun cx st i = Inr run"
  obtains r where "run_of st i = Some r" "run = r\<lparr>run_meta := row_meta r\<rparr>"
  using assms by (auto simp: GetRun_run_of split: option.splits if_splits)

lemma row_meta_completion [simp]: "rm_completion (row_meta r) = None \<longleftrightarrow> rm_completion (run_meta r) = None"
  by (simp add: row_meta_def)

lemma CompleteRun_keys: "keys_ok st \<Longrightarrow> keys_ok (snd (CompleteRun v now cx st c))"
  by (metis CompleteRun_effect prod.collapse)

lemma CompleteRun_recorded:
  assumes "keys_ok st" "CompleteRun v now cx st c = (Inr res, st')" "Accepted res"
  shows "recorded st' (c_RunID c) (c_Status c)"
  using assms(2,1)
proof (cases rule: CompleteRun_effect)
  case 1
  obtain r where r: "run_of st (c_RunID c) = Some r" "tenant_scope cx (run_tenant r)"
    using assms by (auto simp: CompleteRun_def CompleteRunInTx_def load_run_of [OF assms(1)] split: option.splits if_splits)
  have "res = check_row r c"
    using assms(2) r by (auto simp: CompleteRun_def CompleteRunInTx_def load_run_of [OF assms(1)] Let_def check_row_def resolve_row_def
        split: if_splits sum.splits)
  then have "rm_completion (run_meta r) \<noteq> None" "run_status r = c_Status c"
    using assms(3) 1(2) by (auto simp: check_row_def CheckCompletion_def no_result_def split: if_splits)
  then show ?thesis using r 1(1) by (auto simp: recorded_def)
next
  case (2 r)
  then show ?thesis by (simp add: recorded_def completed_row_def)
qed

lemma commit_recorded:
  assumes "keys_ok (p_store p)" "commit_completion env cx c p = ((res, err), p')"
  shows "keys_ok (p_store p')" and "Accepted res \<Longrightarrow> recorded (p_store p') (c_RunID c) (c_Status c)"
proof -
  obtain out st' where run: "CompleteRun (env_validate env) (env_now env) cx (p_store p) c = (out, st')"
    by fastforce
  have k: "keys_ok st'" using CompleteRun_keys [OF assms(1)] run by (metis snd_conv)
  have p': "p_store p' = st'"
    using assms(2) run by (auto simp: commit_completion_def Let_def split: sum.splits if_splits prod.splits dest: finalize_frame)
  then show "keys_ok (p_store p')" using k by simp
  assume acc: "Accepted res"
  have "out = Inr res"
    using assms(2) run acc by (auto simp: commit_completion_def Let_def no_result_def split: sum.splits if_splits prod.splits)
  then show "recorded (p_store p') (c_RunID c) (c_Status c)"
    using CompleteRun_recorded [OF assms(1)] run acc p' by simp
qed

lemma attach_output_frame:
  "attach_output env c p = Inr c' \<Longrightarrow> c_RunID c' = c_RunID c \<and> c_Status c' = c_Status c \<and> c_Generation c' = c_Generation c"
  by (auto simp: attach_output_def split: if_splits option.splits)

lemma capture_usage_frame [simp]:
  "c_RunID (capture_usage env run c p) = c_RunID c" "c_Status (capture_usage env run c p) = c_Status c"
  by (simp_all add: capture_usage_def Let_def)

text \<open>The cases of \<open>completeRunResult\<close>.\<close>

lemma completeRunResult_cases:
  assumes "completeRunResult env c p = ((res, err), p')"
  obtains (rejected) "p' = p" "\<not> Accepted res"
  | (replayed) run where "GetRun (SystemContext (env_ctx env)) (p_store p) (c_RunID c) = Inr run"
      and "rm_completion (run_meta run) \<noteq> None" and "run_status run = c_Status c" and "p_store p' = p_store p"
  | (committed) cx c' where "commit_completion env cx c' p = ((res, err), p')"
      and "c_RunID c' = c_RunID c" and "c_Status c' = c_Status c"
proof (cases "GetRun (SystemContext (env_ctx env)) (p_store p) (c_RunID c)")
  case (Inl e)
  then show thesis using assms rejected by (auto simp: completeRunResult_def no_result_def)
next
  case (Inr run)
  let ?m = "meta_map (run_meta run)" and ?cx = "WithContext (env_ctx env) (run_tenant run)"
  let ?k = "check_runner_kind env run (c_RunnerKind c)"
  let ?checked = "CheckCompletion ?m (run_status run) c"
  consider e where "?k = Some e"
    | "?k = None" "c_ReplayOnly c"
    | "?k = None" "\<not> c_ReplayOnly c" "\<not> TerminalRunStatus (c_Status c)"
    | "?k = None" "\<not> c_ReplayOnly c" "TerminalRunStatus (c_Status c)" "c_CancelCurrentAttempt c"
    | "?k = None" "\<not> c_ReplayOnly c" "TerminalRunStatus (c_Status c)" "\<not> c_CancelCurrentAttempt c" "\<not> Applied ?checked"
    | "?k = None" "\<not> c_ReplayOnly c" "TerminalRunStatus (c_Status c)" "\<not> c_CancelCurrentAttempt c" "Applied ?checked"
    by (cases ?k) blast+
  then show thesis
  proof cases
    case 1
    then show thesis using assms Inr rejected by (auto simp: completeRunResult_def no_result_def)
  next
    case 2
    then show thesis
      using assms Inr rejected replayed [OF Inr]
      by (auto simp: completeRunResult_def Let_def no_result_def split: if_splits prod.splits dest: finalize_frame)
  next
    case 3
    then show thesis using assms Inr rejected by (auto simp: completeRunResult_def Let_def no_result_def)
  next
    case 4
    then show thesis
      using assms Inr committed [of ?cx "capture_usage env run c p"] by (simp add: completeRunResult_def Let_def)
  next
    case 5
    show thesis
    proof (cases "Accepted ?checked")
      case False
      then show thesis using assms Inr 5 rejected by (auto simp: completeRunResult_def Let_def)
    next
      case True
      then have "rm_completion (run_meta run) \<noteq> None" "run_status run = c_Status c"
        using 5(5) by (auto simp: CheckCompletion_def no_result_def split: if_splits)
      moreover have "p_store p' = p_store p"
        using assms Inr 5 True by (auto simp: completeRunResult_def Let_def split: prod.splits dest: finalize_frame)
      ultimately show thesis using replayed [OF Inr] by blast
    qed
  next
    case 6
    show thesis
    proof (cases "attach_output env c p")
      case (Inl e)
      then show thesis using assms Inr 6 rejected by (auto simp: completeRunResult_def Let_def no_result_def)
    next
      case a: (Inr c')
      then show thesis
        using assms Inr 6 committed [of ?cx c'] attach_output_frame [OF a] by (simp add: completeRunResult_def Let_def)
    qed
  qed
qed

lemma completeRunResult_recorded:
  assumes "keys_ok (p_store p)" "completeRunResult env c p = ((res, err), p')"
  shows "keys_ok (p_store p')" and "Accepted res \<Longrightarrow> recorded (p_store p') (c_RunID c) (c_Status c)"
proof -
  have "keys_ok (p_store p') \<and> (Accepted res \<longrightarrow> recorded (p_store p') (c_RunID c) (c_Status c))"
    using assms(2)
  proof (cases rule: completeRunResult_cases)
    case rejected
    then show ?thesis using assms(1) by simp
  next
    case (replayed run)
    obtain r where r: "run_of (p_store p) (c_RunID c) = Some r" "run = r\<lparr>run_meta := row_meta r\<rparr>"
      using GetRun_Inr [OF assms(1) replayed(1)] .
    then have "recorded (p_store p') (c_RunID c) (c_Status c)"
      using replayed by (auto simp: recorded_def)
    then show ?thesis using replayed(4) assms(1) by simp
  next
    case (committed cx c')
    then show ?thesis using commit_recorded [OF assms(1) committed(1)] by simp
  qed
  then show "keys_ok (p_store p')" and "Accepted res \<Longrightarrow> recorded (p_store p') (c_RunID c) (c_Status c)"
    by blast+
qed

lemma api_CompleteRun_recorded:
  assumes "keys_ok (p_store p)" "api_CompleteRun env c p = ((acc, err), p')"
  shows "keys_ok (p_store p')" and "acc \<Longrightarrow> recorded (p_store p') (c_RunID c) (c_Status c)"
proof -
  obtain res where r: "completeRunResult env c p = ((res, err), p')" "acc = Accepted res"
    using assms(2) by (auto simp: api_CompleteRun_def split: prod.splits)
  show "keys_ok (p_store p')" and "acc \<Longrightarrow> recorded (p_store p') (c_RunID c) (c_Status c)"
    using completeRunResult_recorded [OF assms(1) r(1)] r(2) by simp_all
qed

section \<open>Completion before acknowledgement\<close>

definition settled :: "store \<Rightarrow> string \<Rightarrow> bool" where
  "settled st i \<longleftrightarrow>
     (\<exists>r. run_of st i = Some r \<and> (rm_completion (run_meta r) \<noteq> None \<or> TerminalRunStatus (run_status r)))"

lemma recorded_settled: "recorded st i status \<Longrightarrow> settled st i"
  by (auto simp: recorded_def settled_def)

text \<open>What a completion callback promises: it leaves the queue alone, and when it accepts, the run's
  end is durable. The handlers that acknowledge a lease rely on nothing else.\<close>

locale completion_callback =
  fixes complete :: "Env \<Rightarrow> 'a \<Rightarrow> Plane \<Rightarrow> (bool \<times> api_error option) \<times> Plane"
    and about :: "'a \<Rightarrow> string"
  assumes callback_queue: "complete env a p = (x, p') \<Longrightarrow> p_queue p' = p_queue p"
    and callback_settles: "keys_ok (p_store p) \<Longrightarrow> complete env a p = ((True, err), p') \<Longrightarrow> settled (p_store p') (about a)"
begin

lemma acknowledged_is_settled:
  assumes "keys_ok (p_store p)" "complete env a p = ((True, err), p1)" "Ack (about a) g (p_queue p1) = (True, q)"
  shows "settled (p_store p1) (about a) \<and> LookupInflight r q = (if r = about a then None else LookupInflight r (p_queue p))"
  using callback_settles [OF assms(1,2)] callback_queue [OF assms(2)] inproc.ack_lookup [of "about a" g "p_queue p1" r] assms(3)
  by simp

lemma refused_ack_keeps_leases:
  assumes "complete env a p = (x, p1)" "Ack (about a) g (p_queue p1) = (False, q)"
  shows "q = p_queue p"
  using callback_queue [OF assms(1)] inproc.ack_refused [of "about a" g "p_queue p1"] assms(2) by simp

end

interpretation report: completion_callback api_CompleteRun c_RunID
proof
  fix env a p x p' err
  show "api_CompleteRun env a p = (x, p') \<Longrightarrow> p_queue p' = p_queue p"
    by (drule api_CompleteRun_frame) simp
  show "keys_ok (p_store p) \<Longrightarrow> api_CompleteRun env a p = ((True, err), p') \<Longrightarrow> settled (p_store p') (c_RunID a)"
    using api_CompleteRun_recorded(2) recorded_settled by blast
qed

lemma recover_settled:
  assumes "keys_ok (p_store p)" "recoverDeliveredCompletion env run p = ((acc, err), p')"
  shows "keys_ok (p_store p')" and "acc \<Longrightarrow> settled (p_store p') (run_id run)"
proof -
  have "keys_ok (p_store p') \<and> (acc \<longrightarrow> settled (p_store p') (run_id run))"
  proof (cases "acc \<or> p' \<noteq> p")
    case True
    then have "\<exists>status msg. api_CompleteRun env (plain_completion (run_id run)
        (MetadataGeneration (meta_map (run_meta run)) AttemptGenerationKey) status msg) p = ((acc, err), p')"
      using assms(2) by (auto simp: recoverDeliveredCompletion_def Let_def split: if_splits option.splits prod.splits)
    then obtain status msg where "api_CompleteRun env (plain_completion (run_id run)
        (MetadataGeneration (meta_map (run_meta run)) AttemptGenerationKey) status msg) p = ((acc, err), p')"
      by blast
    from api_CompleteRun_recorded [OF assms(1) this] show ?thesis
      using recorded_settled by (auto simp: plain_completion_def)
  next
    case False
    then show ?thesis using assms(1) by simp
  qed
  then show "keys_ok (p_store p')" and "acc \<Longrightarrow> settled (p_store p') (run_id run)" by blast+
qed

lemma begin_attempt_keys:
  "keys_ok (p_store p) \<Longrightarrow> begin_attempt env r g p = (x, p') \<Longrightarrow> keys_ok (p_store p')"
  using BeginRunAttempt_keys [of "p_store p" "SystemContext (env_ctx env)" r g]
  by (auto simp: begin_attempt_def split: prod.splits sum.splits)

lemma bind_and_fail_settled:
  assumes "keys_ok (p_store p)" "bind_and_fail env r g msg u p = ((True, err), p')"
  shows "settled (p_store p') r"
proof -
  let ?c = "plain_completion r g RunStatusError msg"
  have "\<exists>p1. keys_ok (p_store p1) \<and> api_CompleteRun env ?c p1 = ((True, err), p')"
    using assms begin_attempt_keys [OF assms(1), of env r g]
    by (auto simp: bind_and_fail_def Let_def split: if_splits prod.splits)
  then show ?thesis
    using report.callback_settles [of _ env ?c err p'] by (auto simp: plain_completion_def)
qed

lemma GetRun_id: "GetRun cx st i = Inr run \<Longrightarrow> run_id run = i"
  by (auto simp: GetRun_def find_Some_iff split: option.splits)

lemma CompleteReclaimedRun_settled:
  assumes "keys_ok (p_store p)" "CompleteReclaimedRun env pill msg p = ((True, err), p')"
  shows "settled (p_store p') (pp_RunID pill)"
proof -
  let ?i = "pp_RunID pill" and ?g = "pp_Generation pill - 1"
  obtain run where run: "GetRun (SystemContext (env_ctx env)) (p_store p) ?i = Inr run"
    using assms(2) by (auto simp: CompleteReclaimedRun_def Let_def split: if_splits option.splits sum.splits)
  obtain r where r: "run_of (p_store p) ?i = Some r" "run = r\<lparr>run_meta := row_meta r\<rparr>"
    using GetRun_Inr [OF assms(1) run] .
  show ?thesis
  proof (cases "TerminalRunStatus (run_status run)")
    case True
    then have "p_store p' = p_store p"
      using assms(2) run
      by (auto simp: CompleteReclaimedRun_def Let_def split: if_splits option.splits prod.splits dest: finalize_frame)
    then show ?thesis using True r by (auto simp: settled_def)
  next
    case False
    have "(\<exists>u p1. keys_ok (p_store p1) \<and> bind_and_fail env ?i ?g msg u p1 = ((True, err), p'))
        \<or> recoverDeliveredCompletion env run p = ((True, err), p')"
      using assms False run recover_settled(1) [OF assms(1), of env run]
      by (auto simp: CompleteReclaimedRun_def Let_def split: if_splits option.splits prod.splits)
    then show ?thesis
      using bind_and_fail_settled recover_settled(2) [OF assms(1), of env run True err p'] GetRun_id [OF run] by auto
  qed
qed

interpretation reaper: completion_callback "\<lambda>env pm. CompleteReclaimedRun env (fst pm) (snd pm)" "\<lambda>pm. pp_RunID (fst pm)"
proof
  fix env and pm :: "PoisonPill \<times> string" and p x p' err
  show "CompleteReclaimedRun env (fst pm) (snd pm) p = (x, p') \<Longrightarrow> p_queue p' = p_queue p"
    by (drule CompleteReclaimedRun_frame) simp
  show "keys_ok (p_store p) \<Longrightarrow> CompleteReclaimedRun env (fst pm) (snd pm) p = ((True, err), p') \<Longrightarrow>
      settled (p_store p') (pp_RunID (fst pm))"
    by (rule CompleteReclaimedRun_settled)
qed

section \<open>Delivery\<close>

lemma Dequeue_leases:
  assumes "Dequeue now kind q = (Some job, q')"
  shows "LookupInflight (RunID job) q' = Some job"
  using assms by (auto simp: Dequeue_spec LookupInflight_def split: list.splits)

lemma begin_attempt_accepted:
  assumes "keys_ok (p_store p)" "begin_attempt env i g p = ((True, None), p')"
  shows "\<exists>r. run_of (p_store p') i = Some r \<and> run_status r = RunStatusRunning \<and> rm_attempt (run_meta r) = Some g"
proof -
  obtain st' where b: "BeginRunAttempt (SystemContext (env_ctx env)) (p_store p) i g = (Inr True, st')" "p_store p' = st'"
    using assms(2) by (auto simp: begin_attempt_def split: prod.splits sum.splits)
  obtain r where r: "run_of (p_store p) i = Some r" "\<not> TerminalRunStatus (run_status r)" "\<not> attempt_gen r > g"
    using b(1) by (auto simp: BeginRunAttempt_def load_run_of [OF assms(1)] attempt_gen_def split: option.splits if_splits)
  have "run_of st' i = Some (begin_row g r)"
    using BeginRunAttempt_run_of [OF assms(1), of "SystemContext (env_ctx env)" i g i] b(1) r(1) by simp
  then show ?thesis using r b(2) by (simp add: begin_row_def)
qed

lemma api_BeginRunAttempt_accepted:
  assumes "keys_ok (p_store p)" "api_BeginRunAttempt env i g p = ((True, None), p')"
  shows "\<exists>r. run_of (p_store p') i = Some r \<and> run_status r = RunStatusRunning \<and> rm_attempt (run_meta r) = Some g"
proof -
  obtain run where run: "GetRun (SystemContext (env_ctx env)) (p_store p) i = Inr run" "\<not> TerminalRunStatus (run_status run)"
    using assms(2) by (auto simp: api_BeginRunAttempt_def split: sum.splits if_splits prod.splits)
  have "\<exists>p1. keys_ok (p_store p1) \<and> begin_attempt env i g p1 = ((True, None), p')"
    using assms run recover_settled(1) [OF assms(1), of env run]
    by (auto simp: api_BeginRunAttempt_def Let_def split: if_splits prod.splits option.splits)
  then show ?thesis using begin_attempt_accepted by blast
qed

lemma watch_cancel_frame [simp]:
  "p_store (watch_cancel r p) = p_store p" "p_queue (watch_cancel r p) = p_queue p"
  by (simp_all add: watch_cancel_def Let_def split: prod.splits)

lemma cleanupRun_frame [simp]:
  "p_store (cleanupRun r p) = p_store p" "p_queue (cleanupRun r p) = p_queue p" "p_broker (cleanupRun r p) = p_broker p"
  by (simp_all add: cleanupRun_def split: option.splits)

section \<open>Progress of a completion\<close>

definition completable :: "store \<Rightarrow> run_row \<Rightarrow> bool" where
  "completable st r \<longleftrightarrow>
     \<not> TerminalRunStatus (run_status r) \<and> rm_completion (run_meta r) = None \<and> run_tenant r \<noteq> []
     \<and> list_ex (\<lambda>t. thr_id t = run_thread r \<and> thr_tenant t = run_tenant r) (st_threads st)"

definition finalizes :: "Env \<Rightarrow> bool" where
  "finalizes env \<longleftrightarrow> (\<forall>r a. env_finalized env r a) \<and> (\<forall>r. env_finished env r)"

lemma with_context_scope: "t \<noteq> [] \<Longrightarrow> tenant_scope (WithContext c t) t"
  by (simp add: tenant_scope_def WithContext_def FromContext_def)

lemma CompleteRun_applies:
  assumes "keys_ok st" "run_of st i = Some r" "completable st r" "attempt_gen r = g" "tenant_scope cx (run_tenant r)"
    and "TerminalRunStatus status"
  shows "\<exists>st'. CompleteRun v now cx st (plain_completion i g status msg) = (Inr \<lparr>Accepted = True, Applied = True\<rparr>, st')"
proof -
  have "CheckCompletion (meta_map (row_meta r)) (run_status r) (plain_completion i g status msg) = \<lparr>Accepted = True, Applied = True\<rparr>"
    using assms by (simp add: completable_def CheckCompletion_def plain_completion_def attempt_gen_def)
  moreover have "ResolveCompletion (meta_map (row_meta r)) (plain_completion i g status msg) = plain_completion i g status msg"
    by (simp add: ResolveCompletion_def plain_completion_def)
  ultimately show ?thesis
    using assms
    by (simp add: CompleteRun_def CompleteRunInTx_def load_run_of [OF assms(1)] Let_def plain_completion_def
        release_completed_thread_def completable_def flip: row_meta_def)
qed

lemma finalize_total:
  assumes "finalizes env" "broker_inv (p_broker p)"
  shows "\<exists>p'. finalizeCommittedRun env run a p = (None, p')"
  using assms by (auto simp: finalizeCommittedRun_def finalizes_def broker_Close_result)

lemma api_CompleteRun_total:
  assumes k: "keys_ok (p_store p)" and r: "run_of (p_store p) i = Some r" "completable (p_store p) r"
    and n: "attempt_gen r = g"
    and s: "TerminalRunStatus status"
    and e: "env_replay env" "latest_values i g (p_broker p) = None" "finalizes env" "broker_inv (p_broker p)"
  shows "\<exists>p'. api_CompleteRun env (plain_completion i g status msg) p = ((True, None), p')"
proof -
  let ?c = "plain_completion i g status msg" and ?cx = "WithContext (env_ctx env) (run_tenant r)"
  obtain st' where st': "CompleteRun (env_validate env) (env_now env) ?cx (p_store p) ?c = (Inr \<lparr>Accepted = True, Applied = True\<rparr>, st')"
    using CompleteRun_applies [OF k r n with_context_scope s] r(2) unfolding completable_def by blast
  have k': "keys_ok st'" using CompleteRun_keys [OF k] st' by (metis snd_conv)
  have "\<exists>r'. run_of st' i = Some r' \<and> run_tenant r' = run_tenant r"
    using st' k
  proof (cases rule: CompleteRun_effect)
    case (2 r')
    then show ?thesis using r(1) by (simp add: plain_completion_def completed_row_def)
  qed simp
  then obtain committed where committed: "GetRun ?cx st' i = Inr committed"
    using r(2) by (auto simp: GetRun_run_of [OF k'] with_context_scope completable_def)
  obtain p2 where "finalizeCommittedRun env committed True (p\<lparr>p_store := st'\<rparr>) = (None, p2)"
    using finalize_total [OF e(3), of "p\<lparr>p_store := st'\<rparr>"] e(4) by auto
  then have "commit_completion env ?cx ?c p = ((\<lparr>Accepted = True, Applied = True\<rparr>, None), p2)"
    using st' committed by (simp add: commit_completion_def plain_completion_def)
  moreover have "attach_output env ?c p = Inr ?c"
    using e by (simp add: attach_output_def plain_completion_def)
  moreover have "CheckCompletion (meta_map (row_meta r)) (run_status r) ?c = \<lparr>Accepted = True, Applied = True\<rparr>"
    using r n s by (simp add: completable_def CheckCompletion_def plain_completion_def attempt_gen_def)
  ultimately have "completeRunResult env ?c p = ((\<lparr>Accepted = True, Applied = True\<rparr>, None), p2)"
    using r s by (simp add: completable_def completeRunResult_def GetRun_run_of [OF k] plain_completion_def check_runner_kind_def Let_def)
  then show ?thesis by (simp add: api_CompleteRun_def)
qed

lemma begin_attempt_total:
  assumes "keys_ok (p_store p)" "run_of (p_store p) i = Some r" "\<not> TerminalRunStatus (run_status r)" "attempt_gen r \<le> g"
  obtains st' where "begin_attempt env i g p = ((True, None), p\<lparr>p_store := st'\<rparr>)" "run_of st' i = Some (begin_row g r)"
    "keys_ok st'" "st_threads st' = st_threads (p_store p)"
proof -
  let ?b = "BeginRunAttempt (SystemContext (env_ctx env)) (p_store p) i g"
  have "fst ?b = Inr True" "st_threads (snd ?b) = st_threads (p_store p)"
    using assms by (simp_all add: BeginRunAttempt_def load_run_of [OF assms(1)] attempt_gen_def)
  then show thesis
    using that [of "snd ?b"] BeginRunAttempt_run_of [OF assms(1), of "SystemContext (env_ctx env)" i g i]
      BeginRunAttempt_keys [OF assms(1), of "SystemContext (env_ctx env)" i g] assms(2)
    by (cases ?b) (simp add: begin_attempt_def)
qed



section \<open>A sample plane\<close>

text \<open>Run r1 was dispatched as generation 2 and its runner is silent.\<close>

definition bridge_env :: Env where
  "bridge_env = \<lparr>env_ctx = sample_ctx, env_now = ''2026-01-01T00:00:00Z'', env_validate = None,
     env_status_of = (\<lambda>_. None), env_values_of = (\<lambda>_. None), env_usage_of = (\<lambda>_. None), env_replay = True,
     env_finalized = (\<lambda>_ _. True), env_finished = (\<lambda>_. True), env_agent_kind = (\<lambda>_ _. Inr ''py''),
     env_marshal = (\<lambda>_. True)\<rparr>"

definition bridge_plane :: Plane where
  "bridge_plane = \<lparr>p_store = sample_begun,
     p_queue = \<lparr>jobs = [], canceled = (\<lambda>_. False), inflight = [''r1'' \<mapsto> (sample_job\<lparr>Generation := 2\<rparr>, 10)]\<rparr>,
     p_broker = NewBroker, p_bus = NewCancelBus, p_runDone = Map.empty\<rparr>"

definition bridge_pill :: PoisonPill where
  "bridge_pill = \<lparr>pp_RunID = ''r1'', pp_Generation = 3, pp_AgentID = ''bot'', pp_TenantID = ''acme''\<rparr>"

lemma bridge_keys: "keys_ok sample_begun" "keys_ok sample_store"
  using sample_begun_inv sample_inv by (simp_all add: store_inv_def)

lemma bridge_run: "run_of sample_begun ''r1'' = Some (sample_run\<lparr>run_status := RunStatusRunning,
     run_meta := (run_meta sample_run)\<lparr>rm_attempt := Some 2\<rparr>\<rparr>)"
  by (simp add: sample_begun_eq run_of_def sample_defs)

lemma bridge_attempt: "attempt_gen (sample_run\<lparr>run_status := RunStatusRunning,
     run_meta := (run_meta sample_run)\<lparr>rm_attempt := Some 2\<rparr>\<rparr>) = 2"
  by (simp add: attempt_gen_def row_meta_def reload_meta_def gen_of_def sample_float)

lemma bridge_lease: "LookupInflight ''r1'' (p_queue bridge_plane) = Some (sample_job\<lparr>Generation := 2\<rparr>)"
  by (simp add: LookupInflight_def bridge_plane_def)

section \<open>Properties\<close>

text \<open>A runner whose lease has moved on to another generation is fenced off. Its heartbeats, its
  events and its final status leave the whole control plane as it is (store, queue, broker, cancel
  bus), and none of them is answered as accepted.\<close>

theorem superseded_runner_is_inert:
  assumes "LookupInflight runID (p_queue p) = Some a" "Generation a \<noteq> generation"
  shows "snd (Heartbeat auth now runID generation p) = p \<and> fst (Heartbeat auth now runID generation p) \<noteq> Alive
    \<and> snd (stream_event parse auth now runID generation text p) = p
    \<and> fst (stream_event parse auth now runID generation text p) \<noteq> Published
    \<and> snd (ReportStatus env auth now runID generation status err p) = p
    \<and> fst (ReportStatus env auth now runID generation status err p) \<noteq> StatusOk"
proof -
  have "Renew now runID generation (p_queue p) = (False, p_queue p)"
    using assms by (auto simp: LookupInflight_def Renew_def generationMatches_def split: option.splits)
  moreover have "requireRunOwner auth runID (p_queue p) = Inr (Some a) \<or> (\<exists>e. requireRunOwner auth runID (p_queue p) = Inl e)"
    using assms by (auto simp: requireRunOwner_def split: option.splits)
  ultimately show ?thesis
    by (auto simp: Heartbeat_def stream_event_def ReportStatus_def)
qed

theorem superseded_runner_is_inert_witness:
  "snd (ReportStatus bridge_env ''py'' 20 ''r1'' 1 RunStatusSuccess [] bridge_plane) = bridge_plane"
  using superseded_runner_is_inert [OF bridge_lease, where generation = 1 and env = bridge_env and auth = "''py''"
      and now = 20 and status = RunStatusSuccess and err = "[]"] by simp

text \<open>C17: A job reaches a runner only when its dispatch is durable. When GetJob answers with a job, the
  run's row is running with exactly the job's generation as its attempt, the lease in the queue is that
  job, and the runner's authenticated kind is the job's.\<close>

theorem GetJob_delivers_durable_attempt:
  assumes "keys_ok (p_store p)" "GetJob env auth kind now ctxDone p = (Job job, p')"
  shows "(\<exists>r. run_of (p_store p') (RunID job) = Some r \<and> run_status r = RunStatusRunning
             \<and> rm_attempt (run_meta r) = Some (Generation job))
    \<and> LookupInflight (RunID job) (p_queue p') = Some job
    \<and> (auth = [] \<or> auth = kind \<and> auth = RunnerKind job)"
proof -
  obtain q p1 where d: "Dequeue now kind (p_queue p) = (Some job, q)"
    and auth: "requireRunnerKind auth kind = None" "requireRunnerKind auth (RunnerKind job) = None"
    and b: "api_BeginRunAttempt env (RunID job) (Generation job) (p\<lparr>p_queue := q\<rparr>) = ((True, None), p1)"
    and p': "p' = watch_cancel (RunID job) p1"
    using assms(2) by (auto simp: GetJob_def deliver_job_def Let_def split: option.splits prod.splits if_splits)
  have "p_queue p1 = q" using api_BeginRunAttempt_frame [OF b] by simp
  then show ?thesis
    using api_BeginRunAttempt_accepted [OF _ b] assms(1) Dequeue_leases [OF d] auth p'
    by (auto simp: requireRunnerKind_def split: if_splits)
qed

theorem GetJob_delivers_durable_attempt_witness:
  "\<exists>p'. GetJob bridge_env ''py'' ''py'' 20 False
          (bridge_plane\<lparr>p_store := sample_store, p_queue := NewQueue\<lparr>jobs := [(''py'', [sample_job])]\<rparr>\<rparr>) = (Job sample_job, p')
      \<and> LookupInflight ''r1'' (p_queue p') = Some sample_job"
proof -
  let ?p = "bridge_plane\<lparr>p_store := sample_store, p_queue := NewQueue\<lparr>jobs := [(''py'', [sample_job])]\<rparr>\<rparr>"
  have r: "run_of sample_store ''r1'' = Some sample_run" by (simp add: run_of_def sample_defs)
  let ?q = "NewQueue\<lparr>jobs := [(''py'', [])], inflight := [''r1'' \<mapsto> (sample_job, 20)]\<rparr>"
  obtain st' where b: "begin_attempt bridge_env ''r1'' 1 (?p\<lparr>p_queue := ?q\<rparr>) = ((True, None), ?p\<lparr>p_queue := ?q, p_store := st'\<rparr>)"
    using bridge_keys r
    by (rule_tac begin_attempt_total [of "?p\<lparr>p_queue := ?q\<rparr>" "''r1''" sample_run 1 bridge_env])
      (auto simp: sample_run_def TerminalRunStatus_def attempt_gen_def row_meta_def reload_meta_def gen_of_def)
  have a: "api_BeginRunAttempt bridge_env ''r1'' 1 (?p\<lparr>p_queue := ?q\<rparr>) = ((True, None), ?p\<lparr>p_queue := ?q, p_store := st'\<rparr>)"
    using b r bridge_keys by (simp add: api_BeginRunAttempt_def GetRun_run_of sample_run_def TerminalRunStatus_def
        row_meta_def reload_meta_def)
  have "Dequeue 20 ''py'' (p_queue ?p) = (Some sample_job, ?q)"
    by (simp add: Dequeue.simps receive_ready_def channel_def set_channel_def claim_def NewQueue_def sample_job_def)
  then have "fst (GetJob bridge_env ''py'' ''py'' 20 False ?p) = Job sample_job"
    using a by (simp add: GetJob_def requireRunnerKind_def deliver_job_def Let_def sample_job_def bridge_env_def)
  then obtain p' where p': "GetJob bridge_env ''py'' ''py'' 20 False ?p = (Job sample_job, p')"
    by (metis prod.collapse)
  show ?thesis
    using GetJob_delivers_durable_attempt [OF _ p'] p' bridge_keys by (auto simp: sample_job_def)
qed

text \<open>C7: A final status is acknowledged only after it is durable. When ReportStatus answers ok, the
  run's row holds a completion with the reported status and the run has no lease left, and no other
  run's lease has changed; with any other answer no lease has changed at all, so the runner can report
  again.\<close>

theorem ReportStatus_commits_before_ack:
  assumes "keys_ok (p_store p)" "ReportStatus env auth now runID generation status err p = (reply, p')"
  shows "if reply = StatusOk
    then recorded (p_store p') runID status
      \<and> (\<forall>r. LookupInflight r (p_queue p') = (if r = runID then None else LookupInflight r (p_queue p)))
    else \<forall>r. LookupInflight r (p_queue p') = LookupInflight r (p_queue p)"
proof (cases "reply = StatusOk")
  case False
  from False assms(2) have "p_queue p' = p_queue p \<or> p_queue p' = snd (Renew now runID generation (p_queue p))"
    by (auto simp: ReportStatus_def split: if_splits sum.splits prod.splits option.splits bool.splits dest!: api_CompleteRun_frame)
  then show ?thesis using False inproc.renew_lookup by auto
next
  case True
  let ?c = "\<lambda>a. (plain_completion runID generation status err)\<lparr>c_RunnerKind := auth, c_ReplayOnly := (a = None)\<rparr>"
  obtain a q p1 where own: "requireRunOwner auth runID (p_queue p) = Inr a"
    and q: "(if a \<noteq> None then Renew now runID generation (p_queue p) else (True, p_queue p)) = (True, q)"
    and c: "api_CompleteRun env (?c a) (p\<lparr>p_queue := q\<rparr>) = ((True, None), p1)"
    and p': "p' = cleanupRun runID (if a \<noteq> None then p1\<lparr>p_queue := snd (Ack runID generation (p_queue p1))\<rparr> else p1)"
    using True assms(2)
    by (auto simp: ReportStatus_def split: if_splits sum.splits prod.splits option.splits bool.splits)
  have rec: "recorded (p_store p') runID status"
    using api_CompleteRun_recorded(2) [OF _ c] assms(1) p' by (auto simp: plain_completion_def)
  have p1: "p_queue p1 = q" using api_CompleteRun_frame [OF c] by simp
  have "LookupInflight r (p_queue p') = (if r = runID then None else LookupInflight r (p_queue p))" for r
  proof (cases a)
    case None
    then show ?thesis
      using own q p' p1 by (auto simp: requireRunOwner_def split: option.splits)
  next
    case (Some a')
    then have "fst (Ack runID generation q)"
      using q inproc.renew_iff inproc.renew_lookup by (metis inproc.ack_iff fst_conv option.distinct(1) snd_conv)
    then show ?thesis
      using inproc.ack_lookup [of runID generation q r] inproc.renew_lookup [of r now runID generation "p_queue p"] q Some p' p1
      by simp
  qed
  then show ?thesis using True rec by simp
qed

theorem ReportStatus_commits_before_ack_witness:
  "\<exists>p'. ReportStatus bridge_env [] 20 ''r1'' 2 RunStatusError ''boom'' bridge_plane = (StatusOk, p')
      \<and> recorded (p_store p') ''r1'' RunStatusError"
proof -
  let ?q = "snd (Renew 20 ''r1'' 2 (p_queue bridge_plane))"
  let ?p = "bridge_plane\<lparr>p_queue := ?q\<rparr>"
  have "\<exists>p'. api_CompleteRun bridge_env (plain_completion ''r1'' 2 RunStatusError ''boom'') ?p = ((True, None), p')"
    using bridge_keys bridge_run bridge_attempt
    by (intro api_CompleteRun_total)
      (auto simp: completable_def finalizes_def bridge_env_def bridge_plane_def sample_begun_eq sample_run_def sample_store_def
        sample_thread_def TerminalRunStatus_def latest_values_def NewBroker_def Replay_def broker_inv_def)
  moreover have "(plain_completion ''r1'' 2 RunStatusError ''boom'')\<lparr>c_RunnerKind := [], c_ReplayOnly := False\<rparr>
      = plain_completion ''r1'' 2 RunStatusError ''boom''"
    by (simp add: plain_completion_def)
  ultimately have "\<exists>p'. ReportStatus bridge_env [] 20 ''r1'' 2 RunStatusError ''boom'' bridge_plane = (StatusOk, p')"
    using bridge_lease
    by (auto simp: ReportStatus_def requireRunOwner_def requireRunnerKind_def TerminalRunStatus_def Renew_def LookupInflight_def
        bridge_plane_def generationMatches_def)
  then show ?thesis
    using ReportStatus_commits_before_ack [of bridge_plane bridge_env "[]" 20 "''r1''" 2 RunStatusError "''boom''"] bridge_keys
    by (fastforce simp: bridge_plane_def)
qed

text \<open>The reaper gives up a dead run's lease only when the run's end is durable. If finishPoisonPill
  succeeds, the run's row has ended and its lease is gone; if it does not, every lease is where it was, so
  the next tick finds the run again.\<close>

theorem finishPoisonPill_settles_before_ack:
  assumes "keys_ok (p_store p)" "finishPoisonPill env pill msg p = ((finished, err), p')"
  shows "if finished
    then settled (p_store p') (pp_RunID pill)
      \<and> (\<forall>r. LookupInflight r (p_queue p') = (if r = pp_RunID pill then None else LookupInflight r (p_queue p)))
    else p_queue p' = p_queue p"
proof -
  obtain acc e p1 where c: "CompleteReclaimedRun env pill msg p = ((acc, e), p1)"
    by (metis prod.collapse)
  show ?thesis
  proof (cases "e = None \<and> acc")
    case True
    obtain ok q where ack: "Ack (pp_RunID pill) (pp_Generation pill - 1) (p_queue p1) = (ok, q)"
      by (metis prod.collapse)
    then have *: "finished = ok" "p' = p1\<lparr>p_queue := q\<rparr>"
      using assms(2) c True by (simp_all add: finishPoisonPill_def)
    show ?thesis
      using reaper.acknowledged_is_settled [OF assms(1), of env "(pill, msg)" e p1 "pp_Generation pill - 1" q]
        reaper.refused_ack_keeps_leases [of env "(pill, msg)" p "(acc, e)" p1 "pp_Generation pill - 1" q] ack c True *
      by (cases ok) auto
  next
    case False
    then show ?thesis
      using assms(2) c CompleteReclaimedRun_frame [OF c] by (auto simp: finishPoisonPill_def split: if_splits)
  qed
qed



theorem finishPoisonPill_settles_before_ack_witness:
  "p_queue (snd (finishPoisonPill (bridge_env\<lparr>env_replay := False\<rparr>) bridge_pill ''crashed'' bridge_plane)) = p_queue bridge_plane"
proof -
  let ?env = "bridge_env\<lparr>env_replay := False\<rparr>"
  have "CompleteReclaimedRun ?env bridge_pill ''crashed'' bridge_plane = ((False, Some ReplayFailed), bridge_plane)"
    using bridge_lease bridge_run bridge_keys bridge_attempt
    by (simp add: CompleteReclaimedRun_def bridge_pill_def GetRun_run_of bridge_plane_def Let_def TerminalRunStatus_def
        recoverDeliveredCompletion_def attempt_gen_def row_meta_def reload_meta_def)
  then have "finishPoisonPill ?env bridge_pill ''crashed'' bridge_plane = ((False, Some ReplayFailed), bridge_plane)"
    by (simp add: finishPoisonPill_def)
  from finishPoisonPill_settles_before_ack [OF _ this] bridge_keys this show ?thesis
    by (simp add: bridge_plane_def)
qed

text \<open>C29: A terminal event that does not decode blocks its run for good. If the attempt's last terminal
  event carries data that json.Unmarshal refuses, the redelivery at every later generation fails with the
  decoding error and so does the reaper at the retry ceiling, and neither changes anything: the next try
  meets the same state.\<close>

theorem undecodable_end_blocks_run:
  assumes k: "keys_ok (p_store p)" and r: "run_of (p_store p) i = Some r" "\<not> TerminalRunStatus (run_status r)"
      "rm_attempt (run_meta r) \<noteq> None"
    and e: "env_replay env" "delivered_terminal i (attempt_gen r) (p_broker p) = Some e" "env_status_of env (ev_Data e) = None"
  shows "(generation > attempt_gen r \<longrightarrow> api_BeginRunAttempt env i generation p = ((False, Some DecodeFailed), p))
    \<and> (LookupInflight i (p_queue p) = Some a \<and> pp_RunID pill = i \<and> pp_Generation pill = Generation a + 1
         \<and> attempt_gen r \<le> Generation a \<and> 0 \<le> Generation a
        \<longrightarrow> finishPoisonPill env pill msg p = ((False, Some DecodeFailed), p))"
proof -
  let ?run = "r\<lparr>run_meta := row_meta r\<rparr>"
  have run: "GetRun (SystemContext (env_ctx env)) (p_store p) i = Inr ?run"
    using r by (simp add: GetRun_run_of [OF k])
  have a: "rm_attempt (row_meta r) \<noteq> None" using r by (simp add: row_meta_def reload_meta_def)
  have rec: "recoverDeliveredCompletion env ?run p = ((False, Some DecodeFailed), p)"
    using e run_of_id [OF r(1)] by (simp add: recoverDeliveredCompletion_def attempt_gen_def)
  show ?thesis
    using run rec r(2) a
    by (auto simp: api_BeginRunAttempt_def finishPoisonPill_def CompleteReclaimedRun_def Let_def attempt_gen_def)
qed

theorem undecodable_end_blocks_run_witness:
  "api_BeginRunAttempt bridge_env ''r1'' 3
     (bridge_plane\<lparr>p_broker := NewBroker\<lparr>buffer := (\<lambda>_. [sample_event\<lparr>ev_Generation := 2, ev_Data := ''not json''\<rparr>])\<rparr>\<rparr>)
   = ((False, Some DecodeFailed),
      bridge_plane\<lparr>p_broker := NewBroker\<lparr>buffer := (\<lambda>_. [sample_event\<lparr>ev_Generation := 2, ev_Data := ''not json''\<rparr>])\<rparr>\<rparr>)"
proof -
  let ?e = "sample_event\<lparr>ev_Generation := 2, ev_Data := ''not json''\<rparr>"
  let ?p = "bridge_plane\<lparr>p_broker := NewBroker\<lparr>buffer := (\<lambda>_. [?e])\<rparr>\<rparr>"
  have "delivered_terminal ''r1'' 2 (p_broker ?p) = Some ?e"
    by (simp add: delivered_terminal_def Replay_def sample_event_def IsTerminal_def)
  then show ?thesis
    using undecodable_end_blocks_run [OF _ _ _ _ _ _ _, of ?p "''r1''"
        "sample_run\<lparr>run_status := RunStatusRunning, run_meta := (run_meta sample_run)\<lparr>rm_attempt := Some 2\<rparr>\<rparr>" bridge_env ?e 3]
      bridge_run bridge_keys bridge_attempt
    by (simp add: bridge_plane_def bridge_env_def TerminalRunStatus_def)
qed

end
