(* ===== verification/Run_Control.thy ===== *)
theory Run_Control
  imports Runner_Bridge
begin

text \<open>
  The parts of the control plane around the handlers of Runner_Bridge: the callers that wait for a
  run's durable end (src/internal/api/completion.go), the cancel watchers of the bridge
  (src/internal/bridge/server.go) and the lease by which one replica of the control plane is the reaper
  (src/cmd/reclaim.go).
\<close>

section \<open>Waiting for the durable end of a run\<close>

text \<open>The terminal status is None where the code has the empty string.\<close>

definition completeObservedRun ::
  "Env \<Rightarrow> string \<Rightarrow> RunStatus option \<Rightarrow> int64 \<Rightarrow> Plane \<Rightarrow> (api_error + run_row) \<times> Plane" where
  "completeObservedRun env runID terminal generation p =
     (case GetRun (env_ctx env) (p_store p) runID of
        Inl e \<Rightarrow> (Inl (StoreError e), p)
      | Inr latest \<Rightarrow>
          (case terminal of
             Some status \<Rightarrow>
               if TerminalRunStatus (run_status latest) then (Inr latest, p)
               else (case api_CompleteRun env (plain_completion runID generation status []) p of
                       ((_, Some e), p1) \<Rightarrow> (Inl e, p1)
                     | ((_, None), p1) \<Rightarrow>
                         ((case GetRun (env_ctx env) (p_store p1) runID of Inl e \<Rightarrow> Inl (StoreError e) | Inr run \<Rightarrow> Inr run), p1))
           | None \<Rightarrow> (Inr latest, p)))"

datatype await_reply = Finished run_row | AwaitError api_error | PollAgain | ContextEnded

text \<open>One turn of awaitDurableCompletion's loop.\<close>

definition await_poll :: "Env \<Rightarrow> string \<Rightarrow> Plane \<Rightarrow> await_reply \<times> Plane" where
  "await_poll env runID p =
     (case GetRun (env_ctx env) (p_store p) runID of
        Inl e \<Rightarrow> (AwaitError (StoreError e), p)
      | Inr latest \<Rightarrow>
          if TerminalRunStatus (run_status latest) then (Finished latest, p)
          else
            let generation = MetadataGeneration (meta_map (run_meta latest)) AttemptGenerationKey in
            if \<not> env_replay env then (AwaitError ReplayFailed, p)
            else case delivered_terminal runID generation (p_broker p) of
              None \<Rightarrow> (PollAgain, p)
            | Some event \<Rightarrow>
                (case env_status_of env (ev_Data event) of
                   None \<Rightarrow> (AwaitError DecodeFailed, p)
                 | Some (status, message) \<Rightarrow>
                     (case api_CompleteRun env
                             (plain_completion runID generation
                                (if ev_Method event = ''end'' then status else RunStatusError) message) p of
                        ((_, Some e), p1) \<Rightarrow> (AwaitError e, p1)
                      | ((accepted, None), p1) \<Rightarrow>
                          if accepted then
                            ((case GetRun (env_ctx env) (p_store p1) runID of
                                Inl e \<Rightarrow> AwaitError (StoreError e) | Inr run \<Rightarrow> Finished run), p1)
                          else (PollAgain, p1))))"

text \<open>The loop: \<open>others\<close> is what the rest of the system does to the plane between two polls; the
  context ends after the last of them.\<close>

fun awaitDurableCompletion :: "Env \<Rightarrow> string \<Rightarrow> (Plane \<Rightarrow> Plane) list \<Rightarrow> Plane \<Rightarrow> await_reply \<times> Plane" where
  "awaitDurableCompletion env runID others p =
     (case await_poll env runID p of
        (PollAgain, p1) \<Rightarrow>
          (case others of
             [] \<Rightarrow> (ContextEnded, p1)
           | step # rest \<Rightarrow> awaitDurableCompletion env runID rest (step p1))
      | (reply, p1) \<Rightarrow> (reply, p1))"

declare awaitDurableCompletion.simps [simp del]

section \<open>Cancel watchers of the bridge\<close>

record Watchers =
  watchers :: "string \<Rightarrow> nat list"
  watch_chans :: "nat \<Rightarrow> string chan"
  next_watch :: nat

definition watch_capacity :: nat where "watch_capacity = 64"

definition addWatcher :: "string \<Rightarrow> nat \<Rightarrow> Watchers \<Rightarrow> Watchers" where
  "addWatcher kind ch w = w\<lparr>watchers := (watchers w)(kind := watchers w kind @ [ch])\<rparr>"

definition removeWatcher :: "string \<Rightarrow> nat \<Rightarrow> Watchers \<Rightarrow> Watchers" where
  "removeWatcher kind ch w = w\<lparr>watchers := (watchers w)(kind := remove1 ch (watchers w kind))\<rparr>"

definition notifyWatchers :: "string \<Rightarrow> string \<Rightarrow> Watchers \<Rightarrow> Watchers option" where
  "notifyWatchers kind runID w =
     map_option (\<lambda>cs. w\<lparr>watch_chans := cs\<rparr>) (each_chan (try_send watch_capacity runID) (watchers w kind) (watch_chans w))"

text \<open>WatchCancels: registration with a fresh channel, one turn of its loop, and its deferred removal.\<close>

definition watch_open :: "string \<Rightarrow> string \<Rightarrow> Watchers \<Rightarrow> rpc_error + (nat \<times> Watchers)" where
  "watch_open authenticated kind w =
     (case requireRunnerKind authenticated kind of
        Some e \<Rightarrow> Inl e
      | None \<Rightarrow>
          let ch = next_watch w in
          Inr (ch, addWatcher kind ch
                     (w\<lparr>watch_chans := (watch_chans w)(ch := \<lparr>ch_buf = [], ch_closed = False\<rparr>), next_watch := Suc ch\<rparr>)))"

definition watch_next :: "nat \<Rightarrow> Watchers \<Rightarrow> (string \<times> Watchers) option" where
  "watch_next ch w =
     (case ch_buf (watch_chans w ch) of
        [] \<Rightarrow> None
      | runID # rest \<Rightarrow> Some (runID, w\<lparr>watch_chans := (watch_chans w)(ch := (watch_chans w ch)\<lparr>ch_buf := rest\<rparr>)\<rparr>))"

section \<open>The reaper's leader lease\<close>

text \<open>The Redis key with its holder and expiry, in milliseconds.\<close>

type_synonym leader_key = "(string \<times> int) option"

definition reclaimLeaderTTL :: int where "reclaimLeaderTTL = 3000"

definition defaultReclaimMaxRetries :: int where "defaultReclaimMaxRetries = 3"

definition leader_of :: "int \<Rightarrow> leader_key \<Rightarrow> string option" where
  "leader_of now k = (case k of Some (h, expires) \<Rightarrow> if now < expires then Some h else None | None \<Rightarrow> None)"

definition reclaimLeaderScript :: "int \<Rightarrow> string \<Rightarrow> int \<Rightarrow> leader_key \<Rightarrow> int \<times> leader_key" where
  "reclaimLeaderScript now holder ttl k =
     (let cur = leader_of now k in
      if cur = None \<or> cur = Some holder then (1, Some (holder, now + ttl)) else (0, k))"

text \<open>\<open>redis\<close> is None without REDIS_URL; \<open>fails\<close> is an error of the call. The answer is None on an
  error.\<close>

definition tryAcquireReclaimLeader ::
  "bool \<Rightarrow> int \<Rightarrow> string \<Rightarrow> int \<Rightarrow> leader_key option \<Rightarrow> bool option \<times> leader_key option" where
  "tryAcquireReclaimLeader fails now holder ttl redis =
     (case redis of
        None \<Rightarrow> (Some True, None)
      | Some k \<Rightarrow>
          let ttl' = (if ttl \<le> 0 then reclaimLeaderTTL else ttl) in
          if fails then (None, redis)
          else case reclaimLeaderScript now holder ttl' k of (res, k') \<Rightarrow> (Some (res = 1), Some k'))"

text \<open>A tick of one replica's loop: the leader reaps, the others and a replica that cannot ask do not.\<close>

definition reclaimStaleJobs_tick ::
  "Env \<Rightarrow> bool \<Rightarrow> int \<Rightarrow> string \<Rightarrow> int \<Rightarrow> int \<Rightarrow> string list \<Rightarrow> leader_key option \<Rightarrow> Plane \<Rightarrow> leader_key option \<times> Plane" where
  "reclaimStaleJobs_tick env fails now holder maxAge maxRetries order redis p =
     (case tryAcquireReclaimLeader fails now holder reclaimLeaderTTL redis of
        (won, redis') \<Rightarrow>
          (redis', if won = Some True then reclaim_tick env now maxAge maxRetries order p else p))"

text \<open>\<open>cfg\<close> is max_retries of the first configuration file, if it is there; \<open>env\<close> the environment
  variable.\<close>

definition initReclaimMaxRetries :: "int64 option \<Rightarrow> string \<Rightarrow> int64" where
  "initReclaimMaxRetries cfg env =
     (let n0 = defaultReclaimMaxRetries;
          n1 = (case cfg of Some n \<Rightarrow> if n < 0 then n0 else n | None \<Rightarrow> n0)
      in if env = [] then n1
         else case Atoi env of Some n \<Rightarrow> if n < 0 then n1 else n | None \<Rightarrow> n1)"

section \<open>Lemmas\<close>

lemma api_CompleteRun_terminal:
  assumes "api_CompleteRun env c p = ((True, err), p')" "\<not> c_ReplayOnly c"
  shows "TerminalRunStatus (c_Status c)"
  using assms by (auto simp: api_CompleteRun_def completeRunResult_def no_result_def Let_def split: sum.splits option.splits prod.splits if_splits)

lemma GetRun_status:
  assumes "keys_ok st" "GetRun cx st i = Inr run"
  shows "\<exists>r. run_of st i = Some r \<and> run_status r = run_status run"
  by (rule GetRun_Inr [OF assms]) auto

lemma await_poll_finished:
  assumes k: "keys_ok (p_store p)" and f: "await_poll env i p = (Finished run, p')"
  shows "TerminalRunStatus (run_status run) \<and> GetRun (env_ctx env) (p_store p') i = Inr run"
proof (cases "p' = p \<and> TerminalRunStatus (run_status run)")
  case True
  then show ?thesis
    using f by (auto simp: await_poll_def Let_def split: sum.splits if_splits option.splits prod.splits)
next
  case False
  then obtain g status msg where c: "api_CompleteRun env (plain_completion i g status msg) p = ((True, None), p')"
    and run: "GetRun (env_ctx env) (p_store p') i = Inr run"
    using f by (fastforce simp: await_poll_def Let_def split: sum.splits if_splits option.splits prod.splits)
  have "TerminalRunStatus status"
    using api_CompleteRun_terminal [OF c] by (simp add: plain_completion_def)
  moreover have "recorded (p_store p') i status" "keys_ok (p_store p')"
    using api_CompleteRun_recorded [OF k c] by (simp_all add: plain_completion_def)
  ultimately show ?thesis
    using GetRun_status [OF _ run] run by (auto simp: recorded_def)
qed

lemma await_poll_keys: "keys_ok (p_store p) \<Longrightarrow> await_poll env i p = (x, p') \<Longrightarrow> keys_ok (p_store p')"
  by (auto simp: await_poll_def Let_def split: sum.splits if_splits option.splits prod.splits
      dest: api_CompleteRun_recorded(1))

text \<open>A signal reaches every watcher of the kind that has room for it, and no other.\<close>

lemma notifyWatchers_delivers:
  assumes "distinct (watchers w kind)" "\<And>ch. ch \<in> set (watchers w kind) \<Longrightarrow> \<not> ch_closed (watch_chans w ch)"
  shows "notifyWatchers kind runID w = Some (w\<lparr>watch_chans := (\<lambda>j.
    if j \<in> set (watchers w kind) then
      (if length (ch_buf (watch_chans w j)) < watch_capacity
       then (watch_chans w j)\<lparr>ch_buf := ch_buf (watch_chans w j) @ [runID]\<rparr> else watch_chans w j)
    else watch_chans w j)\<rparr>)"
  using each_chan_some [OF assms(1), of "try_send watch_capacity runID" "watch_chans w"
      "\<lambda>c. if length (ch_buf c) < watch_capacity then c\<lparr>ch_buf := ch_buf c @ [runID]\<rparr> else c"] assms(2)
  by (simp add: notifyWatchers_def try_send_def cong: if_cong)

lemma watch_open_remove:
  assumes "watch_open auth kind w = Inr (ch, w')" "ch \<notin> set (watchers w kind)"
  shows "watchers (removeWatcher kind ch w') = watchers w"
  using assms by (auto simp: watch_open_def removeWatcher_def addWatcher_def Let_def remove1_append fun_eq_iff split: option.splits)

text \<open>A sequence of calls of the lease script: time, holder and answer.\<close>

fun leader_trace :: "int \<Rightarrow> (int \<times> string) list \<Rightarrow> leader_key \<Rightarrow> (int \<times> string \<times> bool) list" where
  "leader_trace ttl [] k = []"
| "leader_trace ttl ((t, h) # calls) k =
     (case tryAcquireReclaimLeader False t h ttl (Some k) of
        (won, k') \<Rightarrow> (t, h, won = Some True) # leader_trace ttl calls (case k' of Some x \<Rightarrow> x | None \<Rightarrow> k))"

definition effective_ttl :: "int \<Rightarrow> int" where
  "effective_ttl ttl = (if ttl \<le> 0 then reclaimLeaderTTL else ttl)"

lemma leader_step:
  "tryAcquireReclaimLeader False t h ttl (Some k) =
     (if leader_of t k = None \<or> leader_of t k = Some h then (Some True, Some (Some (h, t + effective_ttl ttl)))
      else (Some False, Some k))"
  by (simp add: tryAcquireReclaimLeader_def reclaimLeaderScript_def effective_ttl_def Let_def)

lemma effective_ttl_pos: "0 < effective_ttl ttl"
  by (simp add: effective_ttl_def reclaimLeaderTTL_def)

lemma leader_trace_call: "(t, h, w) \<in> set (leader_trace ttl calls k) \<Longrightarrow> (t, h) \<in> set calls"
proof (induction calls arbitrary: k)
  case (Cons c calls)
  then show ?case by (cases c) (auto simp: leader_step split: if_splits)
qed simp

lemma leader_trace_held:
  assumes "sorted (map fst calls)" "\<forall>(t, h) \<in> set calls. t0 \<le> t" "t0 + effective_ttl ttl \<le> e"
    and "(t, h', True) \<in> set (leader_trace ttl calls (Some (h, e)))" "t < t0 + effective_ttl ttl"
  shows "h' = h"
  using assms
proof (induction calls arbitrary: e)
  case (Cons c calls)
  obtain t1 h1 where c: "c = (t1, h1)" by fastforce
  consider (late) "e \<le> t1" | (own) "t1 < e" "h1 = h" | (other) "t1 < e" "h1 \<noteq> h" by linarith
  then show ?case
  proof cases
    case late
    have "(t, h') \<in> set (c # calls)" by (rule leader_trace_call [OF Cons.prems(4)])
    then have "t1 \<le> t" using Cons.prems(1) c by auto
    then show ?thesis using Cons.prems(3,5) late by linarith
  next
    case own
    then have "t0 + effective_ttl ttl \<le> t1 + effective_ttl ttl" using Cons.prems(2) c by simp
    then show ?thesis
      using Cons.IH [of "t1 + effective_ttl ttl"] Cons.prems own c by (auto simp: leader_step leader_of_def)
  next
    case other
    then show ?thesis using Cons.IH [of e] Cons.prems c by (auto simp: leader_step leader_of_def)
  qed
qed simp

lemma leader_trace_append: "\<exists>k'. leader_trace ttl (xs @ ys) k = leader_trace ttl xs k @ leader_trace ttl ys k'"
proof (induction xs arbitrary: k)
  case (Cons x xs)
  then show ?case by (cases x) (simp split: prod.splits)
qed auto

lemma leader_trace_length [simp]: "length (leader_trace ttl calls k) = length calls"
  by (induction calls arbitrary: k) (auto split: prod.splits)

section \<open>Properties\<close>

text \<open>Two replicas are never reapers at once. In any sequence of lease calls in the order of the
  clock, after a replica has won at time t no other replica wins before t plus the lease time.\<close>

theorem reclaim_leader_exclusive:
  assumes "sorted (map fst calls)" "i < j" "j < length calls"
    and "leader_trace ttl calls k ! i = (t, h, True)" "leader_trace ttl calls k ! j = (t', h', True)" "h' \<noteq> h"
  shows "t + effective_ttl ttl \<le> t'"
proof (rule ccontr)
  assume early: "\<not> t + effective_ttl ttl \<le> t'"
  obtain xs t1 h1 ys where calls: "calls = xs @ (t1, h1) # ys" and len: "length xs = i"
    using id_take_nth_drop [of i calls] assms(2,3) by (metis length_take less_trans min.absorb4 surj_pair)
  obtain k1 where tr: "leader_trace ttl calls k = leader_trace ttl xs k @ leader_trace ttl ((t1, h1) # ys) k1"
    unfolding calls using leader_trace_append by blast
  have i: "leader_trace ttl ((t1, h1) # ys) k1 ! 0 = (t, h, True)"
    and j: "leader_trace ttl ((t1, h1) # ys) k1 ! (j - i) = (t', h', True)"
    using assms(2-5) tr len by (simp_all add: nth_append)
  from i have won: "t1 = t" "h1 = h" "leader_trace ttl ((t1, h1) # ys) k1 = (t, h, True) # leader_trace ttl ys (Some (h, t + effective_ttl ttl))"
    by (auto simp: leader_step split: if_splits)
  have "leader_trace ttl ys (Some (h, t + effective_ttl ttl)) ! (j - i - 1) = (t', h', True)" "j - i - 1 < length ys"
    using j assms(2,3) calls len unfolding won(3) by auto
  then have "(t', h', True) \<in> set (leader_trace ttl ys (Some (h, t + effective_ttl ttl)))"
    by (metis leader_trace_length nth_mem)
  moreover have "sorted (map fst xs @ t # map fst ys)"
    using assms(1) won(1) calls by simp
  then have "sorted (map fst ys)" "\<forall>(t2, h2) \<in> set ys. t \<le> t2"
    by (auto simp: sorted_append)
  ultimately show False
    using leader_trace_held [of ys t ttl "t + effective_ttl ttl" t' h' h] early assms(6) by simp
qed

text \<open>A caller that waits for a run is answered only with its durable end. Whatever other
  components do between the polls, when awaitDurableCompletion returns a run, that run is terminal and is
  what the store now holds.\<close>

theorem await_returns_durable_end:
  assumes "keys_ok (p_store p)" "\<And>step q. step \<in> set others \<Longrightarrow> keys_ok (p_store q) \<Longrightarrow> keys_ok (p_store (step q))"
    and "awaitDurableCompletion env runID others p = (Finished run, p')"
  shows "TerminalRunStatus (run_status run) \<and> GetRun (env_ctx env) (p_store p') runID = Inr run"
  using assms
proof (induction env runID others p rule: awaitDurableCompletion.induct)
  case (1 env runID others p)
  obtain x p1 where poll: "await_poll env runID p = (x, p1)" by fastforce
  have k1: "keys_ok (p_store p1)" using await_poll_keys 1(2) poll by blast
  show ?case
  proof (cases x)
    case (Finished r)
    then have "r = run" "p' = p1" using 1(4) poll by (simp_all add: awaitDurableCompletion.simps)
    then show ?thesis using await_poll_finished [OF 1(2)] poll Finished by simp
  next
    case PollAgain
    show ?thesis
    proof (cases others)
      case Nil
      then show ?thesis using 1(4) poll PollAgain by (simp add: awaitDurableCompletion.simps)
    next
      case (Cons step rest)
      have "awaitDurableCompletion env runID rest (step p1) = (Finished run, p')"
        using 1(4) poll PollAgain Cons by (simp add: awaitDurableCompletion.simps)
      then show ?thesis
        using 1(1) [OF poll [symmetric] PollAgain Cons] 1(3) k1 Cons by auto
    qed
  qed (use 1(4) poll in \<open>simp_all add: awaitDurableCompletion.simps\<close>)
qed

theorem reclaim_leader_exclusive_witness:
  "leader_trace 0 [(0, ''a''), (2000, ''b''), (3500, ''b'')] None = [(0, ''a'', True), (2000, ''b'', False), (3500, ''b'', True)]
    \<and> (0::int) + effective_ttl 0 \<le> 3500"
  using reclaim_leader_exclusive [of "[(0, ''a''), (2000, ''b''), (3500, ''b'')]" 0 2 0 None 0 "''a''" 3500 "''b''"]
  by (simp add: leader_step leader_of_def effective_ttl_def reclaimLeaderTTL_def)

definition ended_store :: store where
  "ended_store = sample_store\<lparr>st_runs := [sample_run\<lparr>run_status := RunStatusSuccess\<rparr>]\<rparr>"

theorem await_returns_durable_end_witness:
  "\<exists>run p'. awaitDurableCompletion bridge_env ''r1'' [\<lambda>p. p\<lparr>p_store := ended_store\<rparr>] bridge_plane = (Finished run, p')
     \<and> TerminalRunStatus (run_status run) \<and> GetRun sample_ctx ended_store ''r1'' = Inr run"
proof -
  let ?run = "(sample_run\<lparr>run_status := RunStatusSuccess\<rparr>)\<lparr>run_meta := reload_meta (run_meta sample_run)\<rparr>"
  let ?p = "bridge_plane\<lparr>p_store := ended_store\<rparr>" and ?step = "\<lambda>p. p\<lparr>p_store := ended_store\<rparr> :: Plane"
  have scope: "tenant_scope sample_ctx ''acme''" by (simp add: tenant_scope_def sample_ctx_def IsSystem_def FromContext_def)
  have "await_poll bridge_env ''r1'' bridge_plane = (PollAgain, bridge_plane)"
    using bridge_run scope
    by (simp add: await_poll_def bridge_plane_def GetRun_run_of [OF bridge_keys(1)] bridge_env_def TerminalRunStatus_def
        delivered_terminal_def Replay_def NewBroker_def sample_run_def Let_def)
  moreover have "await_poll bridge_env ''r1'' ?p = (Finished ?run, ?p)"
    using scope by (simp add: await_poll_def GetRun_def ended_store_def sample_store_def sample_run_def bridge_env_def TerminalRunStatus_def)
  ultimately have await: "awaitDurableCompletion bridge_env ''r1'' [?step] bridge_plane = (Finished ?run, ?p)"
    by (simp add: awaitDurableCompletion.simps)
  have "keys_ok ended_store" by (simp add: keys_ok_def ended_store_def sample_defs)
  with await_returns_durable_end [OF _ _ await] bridge_keys await show ?thesis
    by (auto simp: bridge_plane_def bridge_env_def)
qed

end
