(* ===== verification/Json_Text.thy ===== *)
theory Json_Text
  imports Json_Value "HOL-Library.Char_ord" "HOL-Library.List_Lexorder"
begin

text \<open>
  JSON text as the policy engine uses it: the strict decoder of src/internal/jsonvalue/unique.go,
  which refuses duplicate object members and unpaired surrogate escapes, over the token stream that
  encoding/json's Decoder yields, and json.Marshal for decoded values (sorted keys, HTML-safe string
  escapes). The encoding is shown to be injective, so a digest of it identifies the value.
\<close>

section \<open>The strict decoder\<close>

datatype json_token = TDelim char | TStr string | TNum string | TBool bool | TNull

definition hexUnit :: "string \<Rightarrow> nat" where
  "hexUnit digits =
     fold (\<lambda>digit n. n * 16 +
       (if digit \<le> CHR ''9'' then of_char digit - 48
        else if digit \<le> CHR ''F'' then of_char digit - 65 + 10
        else of_char digit - 97 + 10)) digits 0"

text \<open>The scan of \<open>validSurrogates\<close> on the bytes from position i on. Reading past the end is a Go
  panic; the function runs after json.Valid, and the model answers False there.\<close>

function validSurrogates_from :: "bool \<Rightarrow> string \<Rightarrow> bool" where
  "validSurrogates_from inString [] = True"
| "validSurrogates_from inString (c # rest) =
     (let inString' = (if c = CHR 0x22 then \<not> inString else inString) in
      if \<not> inString' \<or> c \<noteq> CHR 0x5C then validSurrogates_from inString' rest
      else case rest of
        [] \<Rightarrow> False
      | e # rest' \<Rightarrow>
          if e \<noteq> CHR ''u'' then validSurrogates_from inString' rest'
          else if length rest' < 4 then False
          else
            let unit' = hexUnit (take 4 rest'); after = drop 4 rest' in
            if 0xdc00 \<le> unit' \<and> unit' \<le> 0xdfff then False
            else if 0xd800 \<le> unit' \<and> unit' \<le> 0xdbff then
              (if length after < 6 \<or> after ! 0 \<noteq> CHR 0x5C \<or> after ! 1 \<noteq> CHR ''u'' then False
               else let low = hexUnit (take 4 (drop 2 after)) in
                 if low < 0xdc00 \<or> low > 0xdfff then False
                 else validSurrogates_from inString' (drop 6 after))
            else validSurrogates_from inString' after)"
  by pat_completeness auto
termination by (relation "measure (\<lambda>(b, s). length s)") auto

definition validSurrogates :: "string \<Rightarrow> bool" where
  "validSurrogates data = validSurrogates_from False data"

text \<open>\<open>uniqueValue\<close> consumes tokens from the decoder's stream; the fuel bounds the recursion and
  one unit per token is enough. \<open>More\<close> holds while the next token is not a closing delimiter.\<close>

definition More :: "json_token list \<Rightarrow> bool" where
  "More d = (case d of [] \<Rightarrow> False | t # _ \<Rightarrow> t \<noteq> TDelim (CHR ''}'') \<and> t \<noteq> TDelim (CHR '']''))"

definition next_token :: "json_token list \<Rightarrow> (json_token \<times> json_token list) option" where
  "next_token d = (case d of [] \<Rightarrow> None | t # d' \<Rightarrow> Some (t, d'))"

fun uniqueValue :: "nat \<Rightarrow> json_token list \<Rightarrow> (json \<times> json_token list) option"
  and uniqueMembers :: "nat \<Rightarrow> (string \<times> json) list \<Rightarrow> json_token list \<Rightarrow> (json \<times> json_token list) option"
  and uniqueElements :: "nat \<Rightarrow> json list \<Rightarrow> json_token list \<Rightarrow> (json \<times> json_token list) option" where
  "uniqueValue 0 d = None"
| "uniqueValue (Suc n) d =
     (case next_token d of
        None \<Rightarrow> None
      | Some (tok, d') \<Rightarrow>
         (case tok of
            TDelim c \<Rightarrow> if c = CHR ''{'' then uniqueMembers n [] d'
                        else if c = CHR ''['' then uniqueElements n [] d' else None
          | TStr s \<Rightarrow> Some (JStr s, d')
          | TNum s \<Rightarrow> Some (JNum s, d')
          | TBool b \<Rightarrow> Some (JBool b, d')
          | TNull \<Rightarrow> Some (JNull, d')))"
| "uniqueMembers 0 out d = None"
| "uniqueMembers (Suc n) out d =
     (if More d then
        (case next_token d of
           Some (TStr name, d') \<Rightarrow>
             if map_of out name \<noteq> None then None
             else (case uniqueValue n d' of
                     None \<Rightarrow> None
                   | Some (v, d'') \<Rightarrow> uniqueMembers n (out @ [(name, v)]) d'')
         | _ \<Rightarrow> None)
      else case next_token d of None \<Rightarrow> None | Some (_, d') \<Rightarrow> Some (JObj out, d'))"
| "uniqueElements 0 out d = None"
| "uniqueElements (Suc n) out d =
     (if More d then
        (case uniqueValue n d of
           None \<Rightarrow> None
         | Some (v, d') \<Rightarrow> uniqueElements n (out @ [v]) d')
      else case next_token d of None \<Rightarrow> None | Some (_, d') \<Rightarrow> Some (JArr out, d'))"

text \<open>encoding/json's tokenizer is an argument: None when the text is not one valid JSON value.\<close>

definition DecodeUnique ::
  "(string \<Rightarrow> bool) \<Rightarrow> (string \<Rightarrow> json_token list option) \<Rightarrow> string \<Rightarrow> json option" where
  "DecodeUnique utf8_Valid tokens data =
     (if \<not> utf8_Valid data then None
      else case tokens data of
        None \<Rightarrow> None
      | Some toks \<Rightarrow>
          if \<not> validSurrogates data then None
          else map_option fst (uniqueValue (length toks) toks))"

section \<open>Decoding accepts exactly the documents with unique members\<close>

text \<open>The tokens of a document, with members in the order (and as often) as they are written.\<close>

fun tokens_of :: "json \<Rightarrow> json_token list" where
  "tokens_of JNull = [TNull]"
| "tokens_of (JBool b) = [TBool b]"
| "tokens_of (JNum s) = [TNum s]"
| "tokens_of (JStr s) = [TStr s]"
| "tokens_of (JArr xs) = TDelim (CHR ''['') # concat (map tokens_of xs) @ [TDelim (CHR '']'')]"
| "tokens_of (JObj kvs) =
     TDelim (CHR ''{'') # concat (map (\<lambda>kv. TStr (fst kv) # tokens_of (snd kv)) kvs) @ [TDelim (CHR ''}'')]"

fun unique_members :: "json \<Rightarrow> bool" where
  "unique_members (JArr xs) = list_all unique_members xs"
| "unique_members (JObj kvs) = (distinct (map fst kvs) \<and> list_all (\<lambda>kv. unique_members (snd kv)) kvs)"
| "unique_members _ = True"

lemma tokens_of_not_Nil [simp]: "tokens_of v \<noteq> []"
  by (cases v) auto

lemma tokens_of_length: "0 < length (tokens_of v)"
  by simp

lemma More_tokens_of [simp]: "More (tokens_of v @ rest)"
  by (cases v) (auto simp: More_def)

lemma More_simps [simp]:
  "\<not> More (TDelim (CHR '']'') # rest)" "\<not> More (TDelim (CHR ''}'') # rest)" "More (TStr s # rest)"
  by (simp_all add: More_def)

lemma next_token_Cons [simp]: "next_token (t # d) = Some (t, d)"
  by (simp add: next_token_def)

text \<open>What the two loops return for the remaining members, given that decoding one value is
  already known to work.\<close>

lemma uniqueElements_run:
  assumes "\<And>v n rest. v \<in> set xs \<Longrightarrow> length (tokens_of v) \<le> n \<Longrightarrow>
      uniqueValue n (tokens_of v @ rest) = (if unique_members v then Some (v, rest) else None)"
    and "length (concat (map tokens_of xs)) < n"
  shows "uniqueElements n out (concat (map tokens_of xs) @ TDelim (CHR '']'') # rest) =
    (if list_all unique_members xs then Some (JArr (out @ xs), rest) else None)"
  using assms
proof (induction xs arbitrary: out n)
  case Nil
  then show ?case by (cases n) auto
next
  case (Cons x xs)
  then obtain m where n: "n = Suc m" by (cases n) auto
  have sum: "length (tokens_of x) + length (concat (map tokens_of xs)) < Suc m"
    using Cons.prems(2) n by simp
  have len: "length (tokens_of x) \<le> m" "length (concat (map tokens_of xs)) < m"
    using sum tokens_of_length [of x] by linarith+
  have x: "uniqueValue m (tokens_of x @ rest') = (if unique_members x then Some (x, rest') else None)" for rest'
    using Cons.prems(1) [of x m rest'] len(1) by simp
  have xs: "uniqueElements m (out @ [x]) (concat (map tokens_of xs) @ TDelim (CHR '']'') # rest) =
      (if list_all unique_members xs then Some (JArr ((out @ [x]) @ xs), rest) else None)"
    using Cons.prems(1) len(2) by (intro Cons.IH) auto
  show ?case
    by (simp add: n x xs)
qed

lemma uniqueMembers_run:
  assumes "\<And>kv n rest. kv \<in> set kvs \<Longrightarrow> length (tokens_of (snd kv)) \<le> n \<Longrightarrow>
      uniqueValue n (tokens_of (snd kv) @ rest) = (if unique_members (snd kv) then Some (snd kv, rest) else None)"
    and "length (concat (map (\<lambda>kv. TStr (fst kv) # tokens_of (snd kv)) kvs)) < n"
    and "distinct (map fst out)"
  shows "uniqueMembers n out (concat (map (\<lambda>kv. TStr (fst kv) # tokens_of (snd kv)) kvs) @ TDelim (CHR ''}'') # rest) =
    (if distinct (map fst (out @ kvs)) \<and> list_all (\<lambda>kv. unique_members (snd kv)) kvs
     then Some (JObj (out @ kvs), rest) else None)"
  using assms
proof (induction kvs arbitrary: out n)
  case Nil
  then show ?case by (cases n) auto
next
  case (Cons kv kvs)
  obtain k v where kv: "kv = (k, v)" by (cases kv)
  from Cons.prems(2) obtain m where n: "n = Suc m" by (cases n) auto
  have len: "length (tokens_of v) \<le> m" "length (concat (map (\<lambda>kv. TStr (fst kv) # tokens_of (snd kv)) kvs)) < m"
    using Cons.prems(2) n kv by simp_all
  have v: "uniqueValue m (tokens_of v @ rest') = (if unique_members v then Some (v, rest') else None)" for rest'
    using Cons.prems(1) [of kv m rest'] len(1) kv by simp
  show ?case
  proof (cases "map_of out k")
    case (Some w)
    then have "k \<in> fst ` set out"
      by (metis domI dom_map_of_conv_image_fst)
    with Some show ?thesis by (auto simp: n kv)
  next
    case None
    then have new: "k \<notin> fst ` set out"
      by (simp add: map_of_eq_None_iff)
    have kvs: "uniqueMembers m (out @ [(k, v)])
        (concat (map (\<lambda>kv. TStr (fst kv) # tokens_of (snd kv)) kvs) @ TDelim (CHR ''}'') # rest) =
      (if distinct (map fst ((out @ [(k, v)]) @ kvs)) \<and> list_all (\<lambda>kv. unique_members (snd kv)) kvs
       then Some (JObj ((out @ [(k, v)]) @ kvs), rest) else None)"
      using Cons.prems(1,3) len(2) new by (intro Cons.IH) auto
    show ?thesis
      using None by (simp add: n kv v kvs)
  qed
qed

lemma uniqueValue_tokens:
  "length (tokens_of v) \<le> n \<Longrightarrow>
     uniqueValue n (tokens_of v @ rest) = (if unique_members v then Some (v, rest) else None)"
proof (induction v arbitrary: n rest)
  case (JArr xs)
  then obtain m where n: "n = Suc m" by (cases n) auto
  with JArr show ?case
    using uniqueElements_run [of xs m "[]" rest] by simp
next
  case (JObj kvs)
  then obtain m where n: "n = Suc m" by (cases n) auto
  have "uniqueValue i (tokens_of (snd kv) @ r) = (if unique_members (snd kv) then Some (snd kv, r) else None)"
    if "kv \<in> set kvs" "length (tokens_of (snd kv)) \<le> i" for kv i r
    using JObj.IH [of kv "snd kv" i r] that by (cases kv) auto
  then show ?case
    using uniqueMembers_run [of kvs m "[]" rest] JObj.prems n by simp
qed (case_tac [!] n, auto)

section \<open>json.Marshal\<close>

text \<open>A string is escaped unit by unit: the line separators U+2028 and U+2029 (bytes E2 80 A8 and
  E2 80 A9) as \<open>u2028\<close> and \<open>u2029\<close>, every other byte on its own.\<close>

datatype str_unit = LineSep char | Byte char

fun str_units :: "string \<Rightarrow> str_unit list" where
  "str_units (a # b # c # rest) =
     (if a = CHR 0xE2 \<and> b = CHR 0x80 \<and> (c = CHR 0xA8 \<or> c = CHR 0xA9)
      then LineSep c # str_units rest else Byte a # str_units (b # c # rest))"
| "str_units (a # rest) = Byte a # str_units rest"
| "str_units [] = []"

definition hex_digit :: "nat \<Rightarrow> char" where
  "hex_digit n = ''0123456789abcdef'' ! n"

definition hex_escape :: "char \<Rightarrow> string" where
  "hex_escape c = [CHR 0x5C, CHR ''u'', CHR ''0'', CHR ''0'', hex_digit (of_char c div 16), hex_digit (of_char c mod 16)]"

definition escape_unit :: "str_unit \<Rightarrow> string" where
  "escape_unit u =
     (case u of
        LineSep c \<Rightarrow> [CHR 0x5C, CHR ''u'', CHR ''2'', CHR ''0'', CHR ''2'', if c = CHR 0xA8 then CHR ''8'' else CHR ''9'']
      | Byte c \<Rightarrow>
          if c = CHR 0x22 then [CHR 0x5C, CHR 0x22]
          else if c = CHR 0x5C then [CHR 0x5C, CHR 0x5C]
          else if c = CHR 0x08 then [CHR 0x5C, CHR ''b'']
          else if c = CHR 0x0C then [CHR 0x5C, CHR ''f'']
          else if c = CHR 0x0A then [CHR 0x5C, CHR ''n'']
          else if c = CHR 0x0D then [CHR 0x5C, CHR ''r'']
          else if c = CHR 0x09 then [CHR 0x5C, CHR ''t'']
          else if of_char c < (32 :: nat) \<or> c = CHR ''<'' \<or> c = CHR ''>'' \<or> c = CHR ''&'' then hex_escape c
          else [c])"

definition quote_string :: "string \<Rightarrow> string" where
  "quote_string s = CHR 0x22 # concat (map escape_unit (str_units s)) @ [CHR 0x22]"

fun write_value :: "json \<Rightarrow> string"
  and write_elements :: "json list \<Rightarrow> string"
  and write_members :: "(string \<times> json) list \<Rightarrow> string" where
  "write_value JNull = ''null''"
| "write_value (JBool b) = (if b then ''true'' else ''false'')"
| "write_value (JNum s) = s"
| "write_value (JStr s) = quote_string s"
| "write_value (JArr xs) = CHR ''['' # write_elements xs"
| "write_value (JObj kvs) = CHR ''{'' # write_members kvs"
| "write_elements [] = '']''"
| "write_elements (x # xs) = write_value x @ (if xs = [] then '']'' else CHR '','' # write_elements xs)"
| "write_members [] = ''}''"
| "write_members ((k, v) # kvs) =
     quote_string k @ CHR '':'' # write_value v @ (if kvs = [] then ''}'' else CHR '','' # write_members kvs)"

text \<open>Marshal writes the members of a map in key order and refuses a number that is not a JSON
  number token.\<close>

fun sort_members :: "json \<Rightarrow> json" where
  "sort_members (JArr xs) = JArr (map sort_members xs)"
| "sort_members (JObj kvs) = JObj (sort_key fst (map (\<lambda>kv. (fst kv, sort_members (snd kv))) kvs))"
| "sort_members v = v"

fun numbers_valid :: "json \<Rightarrow> bool" where
  "numbers_valid (JNum s) = num_valid s"
| "numbers_valid (JArr xs) = list_all numbers_valid xs"
| "numbers_valid (JObj kvs) = list_all (\<lambda>kv. numbers_valid (snd kv)) kvs"
| "numbers_valid _ = True"

definition Marshal :: "json \<Rightarrow> string option" where
  "Marshal v = (if numbers_valid v then Some (write_value (sort_members v)) else None)"

section \<open>The encoding is injective\<close>

fun unit_bytes :: "str_unit \<Rightarrow> string" where
  "unit_bytes (LineSep c) = [CHR 0xE2, CHR 0x80, c]"
| "unit_bytes (Byte c) = [c]"

lemma str_units_bytes: "concat (map unit_bytes (str_units s)) = s"
  by (induction s rule: str_units.induct) auto

lemma str_units_inj: "str_units s = str_units t \<longleftrightarrow> s = t"
  by (metis str_units_bytes)

definition unit_ok :: "str_unit \<Rightarrow> bool" where
  "unit_ok u \<longleftrightarrow> (case u of LineSep c \<Rightarrow> c = CHR 0xA8 \<or> c = CHR 0xA9 | Byte c \<Rightarrow> True)"

lemma str_units_ok: "list_all unit_ok (str_units s)"
  by (induction s rule: str_units.induct) (auto simp: unit_ok_def)

text \<open>Reading one escaped unit back.\<close>

definition hex_val :: "char \<Rightarrow> nat" where
  "hex_val c = (if of_char c < (58 :: nat) then of_char c - 48 else of_char c - 87)"

fun read_unit :: "string \<Rightarrow> str_unit" where
  "read_unit (b # c # rest) =
     (if b \<noteq> CHR 0x5C then Byte b
      else if c = CHR ''b'' then Byte (CHR 0x08)
      else if c = CHR ''f'' then Byte (CHR 0x0C)
      else if c = CHR ''n'' then Byte (CHR 0x0A)
      else if c = CHR ''r'' then Byte (CHR 0x0D)
      else if c = CHR ''t'' then Byte (CHR 0x09)
      else if c \<noteq> CHR ''u'' then Byte c
      else if rest ! 0 = CHR ''2'' then LineSep (if rest ! 3 = CHR ''8'' then CHR 0xA8 else CHR 0xA9)
      else Byte (char_of (16 * hex_val (rest ! 2) + hex_val (rest ! 3))))"
| "read_unit [b] = Byte b"
| "read_unit [] = Byte (CHR 0x00)"

lemma hex_val_digit: "n < 16 \<Longrightarrow> hex_val (hex_digit n) = n"
proof -
  assume "n < 16"
  then have "n \<in> set [0..<16]" by simp
  moreover have "list_all (\<lambda>n. hex_val (hex_digit n) = n) [0..<16]"
    by (simp add: hex_val_def hex_digit_def upt_rec)
  ultimately show ?thesis by (auto simp: list_all_iff)
qed

lemma char_of_hex: "char_of (16 * hex_val (hex_digit (of_char c div 16)) + hex_val (hex_digit (of_char c mod 16))) = c"
proof -
  have lt: "of_char c < (256 :: nat)" by simp
  then have "of_char c div 16 < (16 :: nat)" by linarith
  then have "16 * hex_val (hex_digit (of_char c div 16)) + hex_val (hex_digit (of_char c mod 16)) = of_char c"
    by (simp add: hex_val_digit)
  then show ?thesis by simp
qed

lemma read_escape: "unit_ok u \<Longrightarrow> read_unit (escape_unit u @ x # y) = u"
proof (cases u)
  case (LineSep c)
  then show "unit_ok u \<Longrightarrow> ?thesis" by (auto simp: escape_unit_def unit_ok_def)
next
  case (Byte c)
  then show ?thesis
    by (auto simp: escape_unit_def hex_escape_def char_of_hex)
qed

lemma escape_unit_inj:
  assumes "unit_ok u" "unit_ok v" "escape_unit u @ x # xs = escape_unit v @ y # ys"
  shows "u = v"
  using read_escape [OF assms(1), of x xs] read_escape [OF assms(2), of y ys] assms(3) by simp

lemma escape_unit_hd: "escape_unit u \<noteq> [] \<and> hd (escape_unit u) \<noteq> CHR 0x22"
  by (auto simp: escape_unit_def hex_escape_def split: str_unit.splits)

lemma escape_unit_not_quote: "CHR 0x22 # x \<noteq> escape_unit u @ r"
  using escape_unit_hd [of u] by (cases "escape_unit u") auto

lemma escape_units_inj:
  assumes "list_all unit_ok us" "list_all unit_ok vs"
    and "concat (map escape_unit us) @ CHR 0x22 # x = concat (map escape_unit vs) @ CHR 0x22 # y"
  shows "us = vs \<and> x = y"
  using assms
proof (induction us arbitrary: vs)
  case Nil
  then show ?case
    using escape_unit_not_quote by (cases vs) auto
next
  case (Cons u us)
  obtain v vs' where vs: "vs = v # vs'"
    using Cons.prems(3) escape_unit_not_quote [THEN not_sym] by (cases vs) auto
  define r where "r = concat (map escape_unit us) @ CHR 0x22 # x"
  define r' where "r' = concat (map escape_unit vs') @ CHR 0x22 # y"
  have eq: "escape_unit u @ r = escape_unit v @ r'"
    using Cons.prems(3) vs by (simp add: r_def r'_def)
  have "u = v"
    using escape_unit_inj [of u v "hd r" "tl r" "hd r'" "tl r'"] Cons.prems(1,2) vs eq
    by (auto simp: r_def r'_def)
  then have "r = r'" using eq by simp
  with Cons.IH [of vs'] Cons.prems vs \<open>u = v\<close> show ?case
    by (auto simp: r_def r'_def)
qed

lemma quote_string_inj: "quote_string s @ x = quote_string t @ y \<longleftrightarrow> s = t \<and> x = y"
  using escape_units_inj [OF str_units_ok str_units_ok, of s x t y]
  by (auto simp: quote_string_def str_units_inj)


text \<open>What follows a value in the text: nothing, a comma or a closing bracket.\<close>

definition delimited :: "string \<Rightarrow> bool" where
  "delimited x \<longleftrightarrow> x = [] \<or> hd x \<in> {CHR '','', CHR '']'', CHR ''}''}"

definition first_class :: "char \<Rightarrow> nat" where
  "first_class c = (if c = CHR ''n'' then 0 else if c = CHR ''t'' then 1 else if c = CHR ''f'' then 2
     else if c = CHR 0x22 then 3 else if c = CHR ''['' then 4 else if c = CHR ''{'' then 5
     else if c = CHR '']'' then 7 else if c = CHR ''}'' then 8 else 6)"

lemma num_valid_hd:
  assumes "num_valid s"
  shows "s \<noteq> [] \<and> num_char (hd s)"
  using num_valid_chars [OF assms] by (metis hd_in_set)

lemma not_num_char [simp]:
  "\<not> num_char (CHR ''n'')" "\<not> num_char (CHR ''t'')" "\<not> num_char (CHR ''f'')" "\<not> num_char (CHR 0x22)"
  "\<not> num_char (CHR ''['')" "\<not> num_char (CHR ''{'')" "\<not> num_char (CHR '']'')" "\<not> num_char (CHR ''}'')"
  "\<not> num_char (CHR '','')"
  by (simp_all add: num_char_def is_digit_of_char)

lemma num_char_class:
  assumes "num_char c"
  shows "first_class c = 6"
proof -
  have "c \<noteq> CHR ''n''" "c \<noteq> CHR ''t''" "c \<noteq> CHR ''f''" "c \<noteq> CHR 0x22" "c \<noteq> CHR ''[''" "c \<noteq> CHR ''{''"
    "c \<noteq> CHR '']''" "c \<noteq> CHR ''}''"
    using assms by auto
  then show ?thesis by (simp add: first_class_def)
qed

fun kind :: "json \<Rightarrow> nat" where
  "kind JNull = 0" | "kind (JBool b) = (if b then 1 else 2)" | "kind (JStr s) = 3"
| "kind (JArr xs) = 4" | "kind (JObj kvs) = 5" | "kind (JNum s) = 6"

lemma write_value_first:
  assumes "numbers_valid v"
  shows "write_value v \<noteq> [] \<and> first_class (hd (write_value v)) = kind v"
proof (cases v)
  case (JNum s)
  then show ?thesis
    using assms num_valid_hd [of s] num_char_class by auto
qed (simp_all add: quote_string_def first_class_def)

lemma write_value_kind:
  assumes "numbers_valid v" "numbers_valid w" "write_value v @ x = write_value w @ y"
  shows "kind v = kind w"
  using write_value_first [OF assms(1)] write_value_first [OF assms(2)] assms(3)
  by (metis hd_append2)

lemma write_value_closing:
  assumes "numbers_valid v" "c = CHR '']'' \<or> c = CHR ''}''"
  shows "c # x \<noteq> write_value v @ y"
proof
  assume eq: "c # x = write_value v @ y"
  have "write_value v \<noteq> []" "first_class (hd (write_value v)) \<le> 6"
    using write_value_first [OF assms(1)] by (cases v; simp)+
  then have "first_class c \<le> 6"
    using eq by (cases "write_value v") auto
  with assms(2) show False by (auto simp: first_class_def)
qed

lemma token_end:
  assumes "\<And>c. c \<in> set s \<Longrightarrow> num_char c" "\<And>c. c \<in> set t \<Longrightarrow> num_char c"
    and "delimited x" "delimited y" "s @ x = t @ y"
  shows "s = t \<and> x = y"
proof -
  have stop: "takeWhile num_char (u @ z) = u" if "\<And>c. c \<in> set u \<Longrightarrow> num_char c" "delimited z" for u z
    using that by (cases z) (auto simp: delimited_def)
  have "s = t"
    using stop [of s x] stop [of t y] assms by metis
  with assms(5) show ?thesis by simp
qed

lemma write_inj:
  "numbers_valid v \<Longrightarrow> numbers_valid w \<Longrightarrow> delimited x \<Longrightarrow> delimited y \<Longrightarrow>
     write_value v @ x = write_value w @ y \<Longrightarrow> v = w \<and> x = y"
  "list_all numbers_valid vs \<Longrightarrow> list_all numbers_valid ws \<Longrightarrow>
     write_elements vs @ x = write_elements ws @ y \<Longrightarrow> vs = ws \<and> x = y"
  "list_all (\<lambda>kv. numbers_valid (snd kv)) ms \<Longrightarrow> list_all (\<lambda>kv. numbers_valid (snd kv)) ns \<Longrightarrow>
     write_members ms @ x = write_members ns @ y \<Longrightarrow> ms = ns \<and> x = y"
proof (induction v and vs and ms arbitrary: w x y and ws x y and ns x y
    rule: write_value_write_elements_write_members.induct)
  case 1
  then show ?case using write_value_kind [OF 1(1,2,5)] by (cases w) (auto split: if_splits)
next
  case (2 b)
  then show ?case using write_value_kind [OF 2(1,2,5)] by (cases w) (auto split: if_splits)
next
  case (3 s)
  then obtain t where w: "w = JNum t"
    using write_value_kind [OF 3(1,2,5)] by (cases w) (auto split: if_splits)
  then have "s @ x = t @ y" "num_valid s" "num_valid t" using 3 by simp_all
  then show ?case
    using token_end [of s t x y] num_valid_chars(2) 3(3,4) w by blast
next
  case (4 s)
  then obtain t where w: "w = JStr t"
    using write_value_kind [OF 4(1,2,5)] by (cases w) (auto split: if_splits)
  then show ?case using 4(5) by (simp add: quote_string_inj)
next
  case (5 xs)
  obtain ys where w: "w = JArr ys"
    using write_value_kind [OF 5(2,3,6)] by (cases w) (auto split: if_splits)
  then show ?case using 5(1) [of ys x y] 5(2,3,6) by simp
next
  case (6 kvs)
  obtain ys where w: "w = JObj ys"
    using write_value_kind [OF 6(2,3,6)] by (cases w) (auto split: if_splits)
  then show ?case using 6(1) [of ys x y] 6(2,3,6) by simp
next
  case 7
  then show ?case
  proof (cases ws)
    case (Cons z zs)
    then show ?thesis using 7 write_value_closing [of z "CHR '']''"] by auto
  qed simp
next
  case (8 v vs)
  show ?case
  proof (cases ws)
    case Nil
    then have "CHR '']'' # y = write_value v @ (if vs = [] then '']'' else CHR '','' # write_elements vs) @ x"
      using 8(5) by simp
    then show ?thesis using write_value_closing [of v "CHR '']''"] 8(3) by auto
  next
    case (Cons z zs)
    let ?r = "(if vs = [] then '']'' else CHR '','' # write_elements vs) @ x"
    let ?s = "(if zs = [] then '']'' else CHR '','' # write_elements zs) @ y"
    have eq: "write_value v @ ?r = write_value z @ ?s"
      using 8(5) Cons by simp
    have "delimited ?r" "delimited ?s" by (simp_all add: delimited_def)
    then have "v = z \<and> ?r = ?s"
      using 8(1) [OF _ _ _ _ eq] 8(3,4) Cons by simp
    then show ?thesis
      using 8(2) [of zs x y] 8(3,4) Cons by (auto split: if_splits)
  qed
next
  case 9
  then show ?case
    by (cases ns) (auto simp: quote_string_def)
next
  case (10 k v kvs)
  show ?case
  proof (cases ns)
    case Nil
    then show ?thesis using 10(5) by (simp add: quote_string_def)
  next
    case (Cons m ms)
    obtain l z where m: "m = (l, z)" by (cases m)
    let ?r = "(if kvs = [] then ''}'' else CHR '','' # write_members kvs) @ x"
    let ?s = "(if ms = [] then ''}'' else CHR '','' # write_members ms) @ y"
    have "quote_string k @ (CHR '':'' # write_value v @ ?r) = quote_string l @ (CHR '':'' # write_value z @ ?s)"
      using 10(5) Cons m by simp
    then have kl: "k = l" and eq: "write_value v @ ?r = write_value z @ ?s"
      unfolding quote_string_inj by simp_all
    have "delimited ?r" "delimited ?s" by (simp_all add: delimited_def)
    then have "v = z \<and> ?r = ?s"
      using 10(1) [OF _ _ _ _ eq] 10(3,4) Cons m by simp
    then show ?thesis
      using 10(2) [of ms x y] 10(3,4) Cons m kl by (auto split: if_splits)
  qed
qed

end
