(* ===== verification/Go_Encoding.thy ===== *)
theory Go_Encoding
  imports Go_Prelude
begin

text \<open>
  Parts of Go's standard library that the identity headers need: unicode/utf8.ValidString and
  unicode.IsControl on the bytes of a string, strings.Fields, and encoding/base64's RawURLEncoding in
  strict mode. Go's decoder skips line breaks in its input; the code compares the re-encoded bytes with
  the input, which refuses those inputs, and the decoder here refuses them at once.
\<close>

section \<open>UTF-8\<close>

definition byte :: "char \<Rightarrow> nat" where
  "byte c = of_char c"

definition byte_in :: "nat \<Rightarrow> nat \<Rightarrow> char \<Rightarrow> bool" where
  "byte_in lo hi c \<longleftrightarrow> lo \<le> byte c \<and> byte c \<le> hi"

text \<open>The range of the second byte of a multi-byte sequence.\<close>

definition second_ok :: "nat \<Rightarrow> char \<Rightarrow> bool" where
  "second_ok n b =
     (if n = 0xE0 then byte_in 0xA0 0xBF b
      else if n = 0xED then byte_in 0x80 0x9F b
      else if n = 0xF0 then byte_in 0x90 0xBF b
      else if n = 0xF4 then byte_in 0x80 0x8F b
      else byte_in 0x80 0xBF b)"

fun utf8_valid :: "string \<Rightarrow> bool" where
  "utf8_valid [] \<longleftrightarrow> True"
| "utf8_valid (a # s) \<longleftrightarrow>
     (if byte a < 0x80 then utf8_valid s
      else if byte_in 0xC2 0xDF a then (case s of b # t \<Rightarrow> second_ok (byte a) b \<and> utf8_valid t | _ \<Rightarrow> False)
      else if byte_in 0xE0 0xEF a then
        (case s of b # c # t \<Rightarrow> second_ok (byte a) b \<and> byte_in 0x80 0xBF c \<and> utf8_valid t | _ \<Rightarrow> False)
      else if byte_in 0xF0 0xF4 a then
        (case s of
           b # c # d # t \<Rightarrow> second_ok (byte a) b \<and> byte_in 0x80 0xBF c \<and> byte_in 0x80 0xBF d \<and> utf8_valid t
         | _ \<Rightarrow> False)
      else False)"

text \<open>A control rune of a valid string: C0, DEL, or C1, whose encoding is the byte C2 and one of 80 to
  9F.\<close>

fun has_control :: "string \<Rightarrow> bool" where
  "has_control [] \<longleftrightarrow> False"
| "has_control (a # s) \<longleftrightarrow>
     byte a < 0x20 \<or> byte a = 0x7F \<or> byte a = 0xC2 \<and> s \<noteq> [] \<and> byte_in 0x80 0x9F (hd s) \<or> has_control s"

lemma ascii_utf8_valid: "list_all (\<lambda>c. byte c < 0x80) s \<Longrightarrow> utf8_valid s"
  by (induction s) auto

section \<open>strings.Fields\<close>

definition starts_with_space :: "string \<Rightarrow> bool" where
  "starts_with_space s \<longleftrightarrow> list_ex (HasPrefix s) space_runes"

fun until_space :: "string \<Rightarrow> string \<times> string" where
  "until_space [] = ([], [])"
| "until_space (c # s) =
     (if starts_with_space (c # s) then ([], c # s)
      else case until_space s of (w, r) \<Rightarrow> (c # w, r))"

lemma until_space_length: "length (snd (until_space s)) \<le> length s"
  by (induction s) (auto split: prod.splits)

lemma strip_left_length: "length (strip_left ws s) \<le> length s"
  using strip_left_drop [of ws s] by auto

lemma until_space_shorter:
  assumes "s \<noteq> []" "\<not> starts_with_space s"
  shows "length (snd (until_space s)) < length s"
proof (cases s)
  case (Cons c t)
  then show ?thesis using assms until_space_length [of t] by (auto split: prod.splits)
qed (use assms in simp)

lemma stripped_not_space: "\<not> starts_with_space (strip_left space_runes s)"
proof -
  have "stripped space_runes (strip_left space_runes s)" by (rule strip_left_stripped)
  then show ?thesis
    using space_runes_invisible by (auto simp: stripped_def starts_with_space_def list_all_iff list_ex_iff)
qed

lemma field_shorter:
  assumes "strip_left space_runes s \<noteq> []" "(w, r) = until_space (strip_left space_runes s)"
  shows "length r < length s"
proof -
  have "length (snd (until_space (strip_left space_runes s))) < length (strip_left space_runes s)"
    using assms(1) stripped_not_space by (rule until_space_shorter)
  then show ?thesis
    using assms(2) strip_left_length [of space_runes s] by (metis less_le_trans snd_conv)
qed

function Fields :: "string \<Rightarrow> string list" where
  "Fields s =
     (let t = strip_left space_runes s in
      if t = [] then [] else case until_space t of (w, r) \<Rightarrow> w # Fields r)"
  by pat_completeness auto
termination
  by (relation "measure length") (auto dest: field_shorter)

declare Fields.simps [simp del]

section \<open>Base64\<close>

definition b64_char :: "nat \<Rightarrow> char" where
  "b64_char n =
     (if n < 26 then char_of (n + 65) else if n < 52 then char_of (n + 71) else if n < 62 then char_of (n - 4)
      else if n = 62 then CHR ''-'' else CHR ''_'')"

definition b64_val :: "char \<Rightarrow> nat option" where
  "b64_val c =
     (if byte_in 65 90 c then Some (byte c - 65) else if byte_in 97 122 c then Some (byte c - 71)
      else if byte_in 48 57 c then Some (byte c + 4)
      else if c = CHR ''-'' then Some 62 else if c = CHR ''_'' then Some 63 else None)"

fun EncodeToString :: "string \<Rightarrow> string" where
  "EncodeToString (a # b # c # s) =
     [b64_char (byte a div 4), b64_char (byte a mod 4 * 16 + byte b div 16),
      b64_char (byte b mod 16 * 4 + byte c div 64), b64_char (byte c mod 64)] @ EncodeToString s"
| "EncodeToString [a, b] =
     [b64_char (byte a div 4), b64_char (byte a mod 4 * 16 + byte b div 16), b64_char (byte b mod 16 * 4)]"
| "EncodeToString [a] = [b64_char (byte a div 4), b64_char (byte a mod 4 * 16)]"
| "EncodeToString [] = []"

text \<open>Strict mode: the unused bits of the last character are zero.\<close>

fun DecodeString :: "string \<Rightarrow> string option" where
  "DecodeString (x # y # z # u # s) =
     (case (b64_val x, b64_val y, b64_val z, b64_val u, DecodeString s) of
        (Some p, Some q, Some r, Some t, Some rest) \<Rightarrow>
          Some (char_of (p * 4 + q div 16) # char_of (q mod 16 * 16 + r div 4) # char_of (r mod 4 * 64 + t) # rest)
      | _ \<Rightarrow> None)"
| "DecodeString [x, y, z] =
     (case (b64_val x, b64_val y, b64_val z) of
        (Some p, Some q, Some r) \<Rightarrow>
          if r mod 4 = 0 then Some [char_of (p * 4 + q div 16), char_of (q mod 16 * 16 + r div 4)] else None
      | _ \<Rightarrow> None)"
| "DecodeString [x, y] =
     (case (b64_val x, b64_val y) of
        (Some p, Some q) \<Rightarrow> if q mod 16 = 0 then Some [char_of (p * 4 + q div 16)] else None
      | _ \<Rightarrow> None)"
| "DecodeString [x] = None"
| "DecodeString [] = Some []"

lemma byte_less: "byte c < 256"
  by (simp add: byte_def)

lemma char_of_byte: "char_of (byte c) = c"
  by (simp add: byte_def)

lemma byte_char_of: "n < 256 \<Longrightarrow> byte (char_of n) = n"
  by (simp add: byte_def)

lemma b64_val_char [simp]:
  assumes "n < 64"
  shows "b64_val (b64_char n) = Some n"
proof -
  consider "n < 26" | "26 \<le> n" "n < 52" | "52 \<le> n" "n < 62" | "n = 62" | "n = 63" using assms by linarith
  then show ?thesis
    by cases (auto simp: b64_val_def b64_char_def byte_in_def byte_char_of, simp_all add: byte_def)
qed

lemma base_digits:
  fixes x y k :: nat
  assumes "x < k"
  shows "(y * k + x) div k = y" "(y * k + x) mod k = x"
  using assms by simp_all

lemma DecodeString_EncodeToString [simp]: "DecodeString (EncodeToString s) = Some s"
proof (induction s rule: EncodeToString.induct)
  case (1 a b c s)
  have "byte a div 4 < 64" "byte a mod 4 * 16 + byte b div 16 < 64" "byte b mod 16 * 4 + byte c div 64 < 64" "byte c mod 64 < 64"
    using byte_less [of a] byte_less [of b] byte_less [of c] by linarith+
  moreover have "byte b div 16 < 16" "byte c div 64 < 4"
    using byte_less [of b] byte_less [of c] by linarith+
  ultimately show ?case using 1 by (simp add: char_of_byte base_digits)
next
  case (2 a b)
  have "byte a div 4 < 64" "byte a mod 4 * 16 + byte b div 16 < 64" "byte b mod 16 * 4 < 64"
    using byte_less [of a] byte_less [of b] by linarith+
  moreover have "byte b div 16 < 16"
    using byte_less [of b] by linarith
  ultimately show ?case by (simp add: char_of_byte base_digits)
next
  case (3 a)
  have "byte a div 4 < 64" "byte a mod 4 * 16 < 64"
    using byte_less [of a] by linarith+
  then show ?case by (simp add: char_of_byte)
qed simp

end
