(* ===== verification/Page_Cursor.thy ===== *)
theory Page_Cursor
  imports Run_History Json_Text Go_Encoding "HOL-Library.Product_Lexorder"
begin

text \<open>
  Timestamps as the SQLite tables hold them, the opaque keyset cursors of src/internal/pagecursor, and
  the paging of the Admin lists (src/internal/api/admin.go). An instant is its date and time of day down
  to the second, as 19 characters in UTC, and its nanoseconds: the seconds of two instants compare like
  their texts. encoding/json's parser is the argument \<open>unmarshal\<close> (None: not JSON).
\<close>

section \<open>Instants and their texts (governance.go)\<close>

type_synonym instant = "string \<times> nat"

definition zero_time :: instant where
  "zero_time = (''0001-01-01T00:00:00'', 0)"

definition formatTS :: "instant \<Rightarrow> string" where
  "formatTS t = rfc3339nano (fst t) (snd t)"

definition formatExpiry :: "instant option \<Rightarrow> string option" where
  "formatExpiry t = (case t of None \<Rightarrow> None | Some u \<Rightarrow> if u = zero_time then None else Some (fst u @ ''Z''))"

text \<open>Reading a text of that form, with a fraction of any length; digits after the ninth are cut.\<close>

definition parseTS :: "string \<Rightarrow> instant option" where
  "parseTS s =
     (let p = take 19 s; r = drop 19 s; ds = butlast (tl r) in
      if r = ''Z'' then Some (p, 0)
      else if r \<noteq> [] \<and> hd r = CHR ''.'' \<and> tl r \<noteq> [] \<and> last (tl r) = CHR ''Z'' \<and> ds \<noteq> [] \<and> is_digits ds
      then Some (p, dval (take 9 (ds @ replicate 9 (CHR ''0''))))
      else None)"

definition instant_ok :: "instant \<Rightarrow> bool" where
  "instant_ok t \<longleftrightarrow> length (fst t) = 19 \<and> snd t < 10 ^ 9"

section \<open>Cursors (cursor.go)\<close>

record wire =
  w_T :: string
  w_K :: string
  w_I :: string

definition wire_members :: "wire \<Rightarrow> (string \<times> json) list" where
  "wire_members w =
     (if w_T w = [] then [] else [(''t'', JStr (w_T w))]) @ (if w_K w = [] then [] else [(''k'', JStr (w_K w))])
     @ [(''i'', JStr (w_I w))]"

definition encode :: "wire \<Rightarrow> string" where
  "encode w = EncodeToString (write_value (JObj (wire_members w)))"

definition wire_string :: "(string \<Rightarrow> wire \<Rightarrow> wire) \<Rightarrow> json \<Rightarrow> wire \<Rightarrow> wire option" where
  "wire_string upd v w = (case v of JStr s \<Rightarrow> Some (upd s w) | JNull \<Rightarrow> Some w | _ \<Rightarrow> None)"

definition wire_member :: "string \<times> json \<Rightarrow> wire \<Rightarrow> wire option" where
  "wire_member kv w =
     (let k = ToLower (fst kv) in
      if k = ''t'' then wire_string (\<lambda>s. w_T_update (\<lambda>_. s)) (snd kv) w
      else if k = ''k'' then wire_string (\<lambda>s. w_K_update (\<lambda>_. s)) (snd kv) w
      else if k = ''i'' then wire_string (\<lambda>s. w_I_update (\<lambda>_. s)) (snd kv) w
      else Some w)"

definition wire_of :: "json \<Rightarrow> wire option" where
  "wire_of v =
     (let zero = \<lparr>w_T = [], w_K = [], w_I = []\<rparr> in
      case v of
        JNull \<Rightarrow> Some zero
      | JObj kvs \<Rightarrow> fold (\<lambda>kv w. Option.bind w (wire_member kv)) kvs (Some zero)
      | _ \<Rightarrow> None)"

text \<open>Base64 without \<open>Strict\<close>: line breaks are skipped and the unused bits of the last character do
  not matter.\<close>

fun loose_bytes :: "string \<Rightarrow> string option" where
  "loose_bytes (x # y # z # u # s) =
     (case (b64_val x, b64_val y, b64_val z, b64_val u, loose_bytes s) of
        (Some p, Some q, Some r, Some t, Some rest) \<Rightarrow>
          Some (char_of (p * 4 + q div 16) # char_of (q mod 16 * 16 + r div 4) # char_of (r mod 4 * 64 + t) # rest)
      | _ \<Rightarrow> None)"
| "loose_bytes [x, y, z] =
     (case (b64_val x, b64_val y, b64_val z) of
        (Some p, Some q, Some r) \<Rightarrow> Some [char_of (p * 4 + q div 16), char_of (q mod 16 * 16 + r div 4)]
      | _ \<Rightarrow> None)"
| "loose_bytes [x, y] = (case (b64_val x, b64_val y) of (Some p, Some q) \<Rightarrow> Some [char_of (p * 4 + q div 16)] | _ \<Rightarrow> None)"
| "loose_bytes [x] = None"
| "loose_bytes [] = Some []"

definition decode_loose :: "string \<Rightarrow> string option" where
  "decode_loose s = loose_bytes (filter (\<lambda>c. c \<noteq> CHR 0x0A \<and> c \<noteq> CHR 0x0D) s)"

datatype cursor_error = InvalidEncoding | InvalidPayload | InvalidTimeCursor | InvalidKeyCursor

definition decode_wire :: "(string \<Rightarrow> json option) \<Rightarrow> string \<Rightarrow> cursor_error + wire" where
  "decode_wire unmarshal s =
     (case decode_loose s of
        None \<Rightarrow> Inl InvalidEncoding
      | Some b \<Rightarrow> (case Option.bind (unmarshal b) wire_of of None \<Rightarrow> Inl InvalidPayload | Some w \<Rightarrow> Inr w))"

definition EncodeTime :: "instant \<Rightarrow> string \<Rightarrow> string" where
  "EncodeTime t i = encode \<lparr>w_T = formatTS t, w_K = [], w_I = i\<rparr>"

definition EncodeKey :: "string \<Rightarrow> string \<Rightarrow> string" where
  "EncodeKey key i = encode \<lparr>w_T = [], w_K = key, w_I = i\<rparr>"

text \<open>An empty cursor decodes to None, the zero cursor.\<close>

definition DecodeTime :: "(string \<Rightarrow> json option) \<Rightarrow> string \<Rightarrow> cursor_error + (instant \<times> string) option" where
  "DecodeTime unmarshal s =
     (if s = [] then Inr None
      else case decode_wire unmarshal s of
        Inl e \<Rightarrow> Inl e
      | Inr w \<Rightarrow>
          if w_T w = [] \<or> w_I w = [] \<or> w_K w \<noteq> [] then Inl InvalidTimeCursor
          else (case parseTS (w_T w) of None \<Rightarrow> Inl InvalidTimeCursor | Some t \<Rightarrow> Inr (Some (t, w_I w))))"

definition DecodeKey :: "(string \<Rightarrow> json option) \<Rightarrow> string \<Rightarrow> cursor_error + (string \<times> string) option" where
  "DecodeKey unmarshal s =
     (if s = [] then Inr None
      else case decode_wire unmarshal s of
        Inl e \<Rightarrow> Inl e
      | Inr w \<Rightarrow>
          if w_K w = [] \<or> w_I w = [] \<or> w_T w \<noteq> [] then Inl InvalidKeyCursor else Inr (Some (w_K w, w_I w)))"

section \<open>Paging of the Admin lists (admin.go)\<close>

definition adminListDefaultLimit :: int where "adminListDefaultLimit = 50"

definition adminListMaxLimit :: int where "adminListMaxLimit = 200"

record adminPaging =
  ap_Limit :: int
  ap_Offset :: int
  ap_Cursor :: string

text \<open>The first value of each query parameter that is present.\<close>

type_synonym url_query = "string \<rightharpoonup> string"

definition query_get :: "url_query \<Rightarrow> string \<Rightarrow> string" where
  "query_get q k = (case q k of None \<Rightarrow> [] | Some v \<Rightarrow> v)"

definition positive_or :: "int \<Rightarrow> string \<Rightarrow> int" where
  "positive_or dflt v = (if v = [] then dflt else case Atoi v of Some n \<Rightarrow> if 0 < n then n else dflt | None \<Rightarrow> dflt)"

definition adminListPaging :: "url_query \<Rightarrow> adminPaging option" where
  "adminListPaging q =
     (let limit = min (positive_or adminListDefaultLimit (query_get q ''limit'')) adminListMaxLimit;
          cursor = query_get q ''cursor''; hasOffset = (q ''offset'' \<noteq> None)
      in if cursor \<noteq> [] \<and> hasOffset then None
         else Some \<lparr>ap_Limit = limit, ap_Offset = positive_or 0 (query_get q ''offset''), ap_Cursor = cursor\<rparr>)"

text \<open>\<open>ORDER BY key ASC, id ASC\<close> and \<open>ORDER BY time DESC, id DESC\<close> with \<open>LIMIT ? OFFSET ?\<close>, or with the
  keyset condition of a cursor and no offset. A limit that is not positive is 50.\<close>

definition page_limit :: "int \<Rightarrow> nat" where
  "page_limit limit = nat (if limit \<le> 0 then 50 else limit)"

definition key_search ::
  "(string \<Rightarrow> json option) \<Rightarrow> ('r \<Rightarrow> string \<times> string) \<Rightarrow> ('r \<Rightarrow> bool) \<Rightarrow> int \<Rightarrow> int \<Rightarrow> string \<Rightarrow> 'r list
     \<Rightarrow> cursor_error + 'r list" where
  "key_search unmarshal pos cond limit offset cursor rows =
     (case DecodeKey unmarshal cursor of
        Inl e \<Rightarrow> Inl e
      | Inr None \<Rightarrow> Inr (take (page_limit limit) (drop (nat offset) (sort_key pos (filter cond rows))))
      | Inr (Some kc) \<Rightarrow> Inr (take (page_limit limit) (sort_key pos (filter (\<lambda>r. cond r \<and> kc < pos r) rows))))"

definition time_search ::
  "(string \<Rightarrow> json option) \<Rightarrow> ('r \<Rightarrow> string \<times> string) \<Rightarrow> ('r \<Rightarrow> bool) \<Rightarrow> int \<Rightarrow> int \<Rightarrow> string \<Rightarrow> 'r list
     \<Rightarrow> cursor_error + 'r list" where
  "time_search unmarshal pos cond limit offset cursor rows =
     (case DecodeTime unmarshal cursor of
        Inl e \<Rightarrow> Inl e
      | Inr None \<Rightarrow> Inr (take (page_limit limit) (drop (nat offset) (rev (sort_key pos (filter cond rows)))))
      | Inr (Some (t, i)) \<Rightarrow>
          Inr (take (page_limit limit) (rev (sort_key pos (filter (\<lambda>r. cond r \<and> pos r < (formatTS t, i)) rows)))))"

text \<open>What a list handler answers: a status, or a page with the value of \<open>X-Next-Cursor\<close>.\<close>

datatype 'r listed = ListError nat | Listed "'r list" string

definition next_cursor :: "int \<Rightarrow> ('r \<Rightarrow> string) \<Rightarrow> 'r list \<Rightarrow> string" where
  "next_cursor limit enc page = (if int (length page) = limit \<and> page \<noteq> [] then enc (last page) else [])"

text \<open>A client that asks for pages until no cursor comes back; at most n requests.\<close>

fun follow_pages :: "(string \<Rightarrow> 'r listed) \<Rightarrow> nat \<Rightarrow> string \<Rightarrow> 'r list option" where
  "follow_pages request 0 cursor = None"
| "follow_pages request (Suc n) cursor =
     (case request cursor of
        ListError _ \<Rightarrow> None
      | Listed page nxt \<Rightarrow> if nxt = [] then Some page else map_option (\<lambda>rest. page @ rest) (follow_pages request n nxt))"

section \<open>Round trips\<close>

lemma TrimRight0_pad:
  assumes "length s = n"
  shows "take n (TrimRight0 s @ replicate n (CHR ''0'')) = s"
proof -
  obtain k where k: "s = TrimRight0 s @ replicate k (CHR ''0'')" using TrimRight0_split by blast
  then have "length (TrimRight0 s) + k = n" using assms by (metis length_append length_replicate)
  then have "replicate n (CHR ''0'') = replicate k (CHR ''0'') @ replicate (n - k) (CHR ''0'')" "length s = n"
    using assms by (simp_all add: replicate_add [symmetric])
  then show ?thesis using k by (metis append.assoc append_eq_conv_conj)
qed

lemma parseTS_formatTS:
  assumes "instant_ok t"
  shows "parseTS (formatTS t) = Some t"
proof -
  obtain p n where t: "t = (p, n)" by force
  have p: "length p = 19" and n: "n < 10 ^ 9" using assms by (simp_all add: instant_ok_def t)
  let ?full = "replicate (9 - length (nat_digits n)) (CHR ''0'') @ nat_digits n"
  show ?thesis
  proof (cases "n = 0")
    case True
    then show ?thesis using p by (simp add: t formatTS_def rfc3339nano_def parseTS_def)
  next
    case False
    have "length (nat_digits n) \<le> 9"
    proof (rule ccontr)
      assume "\<not> length (nat_digits n) \<le> 9"
      then have "(10::nat) ^ 9 \<le> 10 ^ (length (nat_digits n) - 1)" by (intro power_increasing) auto
      also have "\<dots> \<le> n" using nat_digits_bounds [of n] False by simp
      finally show False using n by simp
    qed
    then have len: "length ?full = 9" by simp
    have val: "dval (take 9 (TrimRight0 ?full @ replicate 9 (CHR ''0''))) = n"
      unfolding TrimRight0_pad [OF len] by (simp add: dval_append)
    have digits: "is_digits (TrimRight0 ?full)"
    proof -
      obtain k where k: "?full = TrimRight0 ?full @ replicate k (CHR ''0'')" using TrimRight0_split by blast
      have "is_digits ?full" using nat_digits_digits [of n] by (auto simp: is_digits_def list_all_iff is_digit_def)
      then show ?thesis by (subst (asm) k) (simp add: is_digits_def)
    qed
    have "TrimRight0 ?full \<noteq> []"
      using val False by auto
    then show ?thesis
      using p val digits False by (simp add: t formatTS_def rfc3339nano_def parseTS_def Let_def)
  qed
qed

lemma loose_of_strict: "DecodeString s = Some b \<Longrightarrow> loose_bytes s = Some b"
  by (induction s arbitrary: b rule: DecodeString.induct) (auto split: option.splits if_splits)

lemma encoded_chars: "DecodeString s = Some b \<Longrightarrow> c \<in> set s \<Longrightarrow> b64_val c \<noteq> None"
  by (induction s arbitrary: b rule: DecodeString.induct) (auto split: option.splits if_splits)

lemma decode_loose_encoded [simp]: "decode_loose (EncodeToString s) = Some s"
proof -
  have breaks: "b64_val (CHR 0x0A) = None" "b64_val (CHR 0x0D) = None" by code_simp+
  have "c \<noteq> CHR 0x0A \<and> c \<noteq> CHR 0x0D" if "c \<in> set (EncodeToString s)" for c
    using encoded_chars [OF DecodeString_EncodeToString that] breaks by auto
  then have "filter (\<lambda>c. c \<noteq> CHR 0x0A \<and> c \<noteq> CHR 0x0D) (EncodeToString s) = EncodeToString s"
    by (intro filter_True) blast
  then show ?thesis
    unfolding decode_loose_def by (simp add: loose_of_strict)
qed

lemma wire_of_members [simp]: "wire_of (JObj (wire_members w)) = Some w"
  by (simp add: wire_of_def wire_members_def wire_member_def wire_string_def Let_def lower_ascii_def)

lemma encode_not_Nil [simp]: "encode w \<noteq> []"
proof -
  have "EncodeToString (c # s) \<noteq> []" for c s by (cases "c # s" rule: EncodeToString.cases) auto
  then show ?thesis by (simp add: encode_def)
qed

text \<open>The parser reads back the text that json.Marshal writes for a cursor.\<close>

definition reads_back :: "(string \<Rightarrow> json option) \<Rightarrow> wire \<Rightarrow> bool" where
  "reads_back unmarshal w \<longleftrightarrow> unmarshal (write_value (JObj (wire_members w))) = Some (JObj (wire_members w))"

lemma decode_wire_encode: "reads_back unmarshal w \<Longrightarrow> decode_wire unmarshal (encode w) = Inr w"
  by (simp add: decode_wire_def encode_def reads_back_def)

lemma DecodeKey_EncodeKey:
  "reads_back unmarshal \<lparr>w_T = [], w_K = k, w_I = i\<rparr> \<Longrightarrow> k \<noteq> [] \<Longrightarrow> i \<noteq> [] \<Longrightarrow>
     DecodeKey unmarshal (EncodeKey k i) = Inr (Some (k, i))"
  by (simp add: DecodeKey_def EncodeKey_def decode_wire_encode)

lemma DecodeTime_EncodeTime:
  "reads_back unmarshal \<lparr>w_T = formatTS t, w_K = [], w_I = i\<rparr> \<Longrightarrow> instant_ok t \<Longrightarrow> i \<noteq> [] \<Longrightarrow>
     DecodeTime unmarshal (EncodeTime t i) = Inr (Some (t, i))"
  by (simp add: DecodeTime_def EncodeTime_def decode_wire_encode parseTS_formatTS)
    (simp add: formatTS_def rfc3339nano_def)

lemma adminListPaging_limit: "adminListPaging q = Some p \<Longrightarrow> 0 < ap_Limit p \<and> ap_Limit p \<le> adminListMaxLimit"
  by (auto simp: adminListPaging_def Let_def positive_or_def adminListDefaultLimit_def adminListMaxLimit_def
      split: if_splits option.splits)

section \<open>Following the cursors of a list\<close>

lemma split_page:
  assumes "take n ys \<noteq> []"
  shows "ys = butlast (take n ys) @ last (take n ys) # drop n ys"
proof -
  have "ys = take n ys @ drop n ys" by simp
  also have "take n ys = butlast (take n ys) @ [last (take n ys)]" using assms by simp
  finally show ?thesis by simp
qed

text \<open>What a paged list promises: the first page and every page after a row are sections of one listing
  that is strictly ordered, and a full page comes with a cursor for its last row.\<close>

locale keyset_listing =
  fixes request :: "'t \<Rightarrow> string \<Rightarrow> 'r listed"
    and enc :: "'r \<Rightarrow> string"
    and listing :: "'t \<Rightarrow> 'r list"
    and before :: "'r \<Rightarrow> 'r \<Rightarrow> bool"
    and limit :: int
    and ok :: "'t \<Rightarrow> bool"
  assumes limit_pos: "0 < limit"
    and before_irrefl: "\<not> before r r"
    and before_trans: "before x y \<Longrightarrow> before y z \<Longrightarrow> before x z"
    and listing_sorted: "ok t \<Longrightarrow> sorted_wrt before (listing t)"
    and enc_not_Nil: "enc r \<noteq> []"
    and first_page: "ok t \<Longrightarrow> request t [] = Listed (take (nat limit) (listing t)) (next_cursor limit enc (take (nat limit) (listing t)))"
    and next_page: "ok t \<Longrightarrow> r \<in> set (listing t) \<Longrightarrow>
      request t (enc r) = Listed (take (nat limit) (filter (before r) (listing t)))
        (next_cursor limit enc (take (nat limit) (filter (before r) (listing t))))"
begin

lemma after_row:
  assumes "ok t" "listing t = xs @ r # ys"
  shows "filter (before r) (listing t) = ys"
proof -
  have s: "sorted_wrt before (xs @ r # ys)" using listing_sorted [OF assms(1)] assms(2) by simp
  then have "\<forall>y\<in>set ys. before r y" "\<forall>x\<in>set xs. before x r" by (simp_all add: sorted_wrt_append)
  then have "\<forall>x\<in>set xs. \<not> before r x" using before_trans before_irrefl by blast
  then show ?thesis using assms(2) \<open>\<forall>y\<in>set ys. before r y\<close> before_irrefl by (simp add: filter_empty_conv)
qed

lemma rest_of_listing:
  "ok t \<Longrightarrow> listing t = xs @ r # ys \<Longrightarrow> length ys div nat limit < k \<Longrightarrow> follow_pages (request t) k (enc r) = Some ys"
proof (induction k arbitrary: xs r ys)
  case (Suc k)
  let ?n = "nat limit"
  have n: "0 < ?n" using limit_pos by simp
  have page: "request t (enc r) = Listed (take ?n ys) (next_cursor limit enc (take ?n ys))"
    using next_page [OF Suc.prems(1), of r, unfolded after_row [OF Suc.prems(1,2)]] Suc.prems(2) by simp
  show ?case
  proof (cases "?n \<le> length ys")
    case True
    then have ne: "take ?n ys \<noteq> []" using n by auto
    have split: "listing t = (xs @ r # butlast (take ?n ys)) @ last (take ?n ys) # drop ?n ys"
      using Suc.prems(2) split_page [OF ne] by simp
    have "length (drop ?n ys) div ?n < k"
      using Suc.prems(3) True n by (simp add: div_if [of "length ys"])
    from Suc.IH [OF Suc.prems(1) split this]
    have "follow_pages (request t) k (enc (last (take ?n ys))) = Some (drop ?n ys)" .
    then show ?thesis using page True ne n enc_not_Nil by (simp add: next_cursor_def)
  next
    case False
    then have "int (length (take ?n ys)) \<noteq> limit" by auto
    then show ?thesis using page False by (simp add: next_cursor_def)
  qed
qed simp

lemma follow_complete:
  assumes "ok t" "length (listing t) div nat limit < k"
  shows "follow_pages (request t) k [] = Some (listing t)"
proof -
  let ?n = "nat limit" and ?L = "listing t"
  have n: "0 < ?n" using limit_pos by simp
  obtain k' where k: "k = Suc k'" using assms(2) by (cases k) auto
  show ?thesis
  proof (cases "?n \<le> length ?L")
    case True
    then have ne: "take ?n ?L \<noteq> []" using n by auto
    have split: "?L = butlast (take ?n ?L) @ last (take ?n ?L) # drop ?n ?L"
      by (rule split_page [OF ne])
    have "length (drop ?n ?L) div ?n < k'"
      using assms(2) True n k by (simp add: div_if [of "length ?L"])
    from rest_of_listing [OF assms(1) split this]
    show ?thesis using first_page [OF assms(1)] True ne n enc_not_Nil by (simp add: k next_cursor_def)
  next
    case False
    then have "int (length (take ?n ?L)) \<noteq> limit" by auto
    then show ?thesis using first_page [OF assms(1)] False by (simp add: k next_cursor_def)
  qed
qed

end


text \<open>A handler over \<open>key_search\<close>, and one over \<open>time_search\<close>, keeps that promise on tables whose rows
  have distinct positions and whose cursors read back.\<close>

lemma strict_listing:
  fixes pos :: "'r \<Rightarrow> string \<times> string"
  assumes "distinct (map pos rows)"
  shows "sorted_wrt (\<lambda>x y. pos x < pos y) (sort_key pos rows)"
proof -
  have "distinct (map pos (sort_key pos rows))"
    using assms by (simp add: distinct_map)
  then show ?thesis
    using sorted_sort_key [of pos rows] strict_sorted_iff [of "map pos (sort_key pos rows)"] by (simp add: sorted_wrt_map)
qed

definition key_rows :: "(string \<Rightarrow> json option) \<Rightarrow> ('r \<Rightarrow> string \<times> string) \<Rightarrow> 'r list \<Rightarrow> bool" where
  "key_rows unmarshal pos rows \<longleftrightarrow> distinct (map pos rows)
     \<and> list_all (\<lambda>r. fst (pos r) \<noteq> [] \<and> snd (pos r) \<noteq> [] \<and> reads_back unmarshal \<lparr>w_T = [], w_K = fst (pos r), w_I = snd (pos r)\<rparr>) rows"

locale key_listing =
  fixes request :: "'r list \<Rightarrow> string \<Rightarrow> 'r listed"
    and unmarshal :: "string \<Rightarrow> json option"
    and pos :: "'r \<Rightarrow> string \<times> string"
    and cond :: "'r \<Rightarrow> bool"
    and limit :: int
  assumes limit_positive: "0 < limit"
    and request_eq: "key_search unmarshal pos cond limit 0 cursor rows = Inr page \<Longrightarrow>
      request rows cursor = Listed page (next_cursor limit (\<lambda>r. EncodeKey (fst (pos r)) (snd (pos r))) page)"

sublocale key_listing \<subseteq> keyset_listing request "\<lambda>r. EncodeKey (fst (pos r)) (snd (pos r))"
  "\<lambda>rows. sort_key pos (filter cond rows)" "\<lambda>x y. pos x < pos y" limit "key_rows unmarshal pos"
proof unfold_locales
  fix rows r
  assume ok: "key_rows unmarshal pos rows"
  have n: "page_limit limit = nat limit" using limit_positive by (simp add: page_limit_def)
  show "sorted_wrt (\<lambda>x y. pos x < pos y) (sort_key pos (filter cond rows))"
    using ok by (intro strict_listing) (simp add: key_rows_def distinct_map_filter)
  show "request rows [] = Listed (take (nat limit) (sort_key pos (filter cond rows)))
      (next_cursor limit (\<lambda>r. EncodeKey (fst (pos r)) (snd (pos r))) (take (nat limit) (sort_key pos (filter cond rows))))"
    by (rule request_eq) (simp add: key_search_def DecodeKey_def n)
  assume "r \<in> set (sort_key pos (filter cond rows))"
  then have "DecodeKey unmarshal (EncodeKey (fst (pos r)) (snd (pos r))) = Inr (Some (pos r))"
    using ok DecodeKey_EncodeKey by (simp add: key_rows_def list_all_iff)
  then show "request rows (EncodeKey (fst (pos r)) (snd (pos r))) =
      Listed (take (nat limit) (filter (\<lambda>y. pos r < pos y) (sort_key pos (filter cond rows))))
       (next_cursor limit (\<lambda>r. EncodeKey (fst (pos r)) (snd (pos r)))
         (take (nat limit) (filter (\<lambda>y. pos r < pos y) (sort_key pos (filter cond rows)))))"
    by (intro request_eq) (simp add: key_search_def n filter_sort conj_commute)
qed (use limit_positive in \<open>auto simp: EncodeKey_def\<close>)

definition time_rows :: "(string \<Rightarrow> json option) \<Rightarrow> ('r \<Rightarrow> instant) \<Rightarrow> ('r \<Rightarrow> string) \<Rightarrow> 'r list \<Rightarrow> bool" where
  "time_rows unmarshal ts ident rows \<longleftrightarrow> distinct (map ident rows)
     \<and> list_all (\<lambda>r. instant_ok (ts r) \<and> ident r \<noteq> [] \<and> reads_back unmarshal \<lparr>w_T = formatTS (ts r), w_K = [], w_I = ident r\<rparr>) rows"

locale time_listing =
  fixes request :: "'r list \<Rightarrow> string \<Rightarrow> 'r listed"
    and unmarshal :: "string \<Rightarrow> json option"
    and ts :: "'r \<Rightarrow> instant"
    and ident :: "'r \<Rightarrow> string"
    and cond :: "'r \<Rightarrow> bool"
    and limit :: int
  assumes limit_positive: "0 < limit"
    and request_eq: "time_search unmarshal (\<lambda>r. (formatTS (ts r), ident r)) cond limit 0 cursor rows = Inr page \<Longrightarrow>
      request rows cursor = Listed page (next_cursor limit (\<lambda>r. EncodeTime (ts r) (ident r)) page)"

sublocale time_listing \<subseteq> keyset_listing request "\<lambda>r. EncodeTime (ts r) (ident r)"
  "\<lambda>rows. rev (sort_key (\<lambda>r. (formatTS (ts r), ident r)) (filter cond rows))"
  "\<lambda>x y. (formatTS (ts y), ident y) < (formatTS (ts x), ident x)" limit "time_rows unmarshal ts ident"
proof unfold_locales
  fix rows r
  let ?pos = "\<lambda>r. (formatTS (ts r), ident r)"
  let ?L = "rev (sort_key ?pos (filter cond rows))"
  assume ok: "time_rows unmarshal ts ident rows"
  have n: "page_limit limit = nat limit" using limit_positive by (simp add: page_limit_def)
  have "distinct (map ?pos rows)" using ok by (auto simp: time_rows_def distinct_map inj_on_def)
  then show "sorted_wrt (\<lambda>x y. ?pos y < ?pos x) ?L"
    using strict_listing [of ?pos "filter cond rows"] by (simp add: distinct_map_filter sorted_wrt_rev)
  show "request rows [] = Listed (take (nat limit) ?L) (next_cursor limit (\<lambda>r. EncodeTime (ts r) (ident r)) (take (nat limit) ?L))"
    by (rule request_eq) (simp add: time_search_def DecodeTime_def n)
  assume "r \<in> set ?L"
  then have "DecodeTime unmarshal (EncodeTime (ts r) (ident r)) = Inr (Some (ts r, ident r))"
    using ok DecodeTime_EncodeTime by (simp add: time_rows_def list_all_iff)
  then show "request rows (EncodeTime (ts r) (ident r)) =
      Listed (take (nat limit) (filter (\<lambda>y. ?pos y < ?pos r) ?L))
       (next_cursor limit (\<lambda>r. EncodeTime (ts r) (ident r)) (take (nat limit) (filter (\<lambda>y. ?pos y < ?pos r) ?L)))"
    by (intro request_eq) (simp add: time_search_def n filter_sort conj_commute flip: rev_filter)
qed (use limit_positive in \<open>auto simp: EncodeTime_def\<close>)

end
