(* ===== verification/Policy_Rules.thy ===== *)
theory Policy_Rules
  imports Json_Value
begin

text \<open>
  The rule layers of the policy engine (src/internal/policy): connector grants with tool filters
  (static.go), the merge of deployment defaults with Admin overlays (policy.go), argument
  predicates (predicates.go) and mandatory human approval (mandatory_hitl.go). Every function is
  the code's, on lists in the code's order; the engine that chains the layers is in Policy_Engine.
\<close>

section \<open>Inputs and decisions\<close>

definition StageConnectorSession :: string where "StageConnectorSession = ''connector.session''"
definition StageToolCall :: string where "StageToolCall = ''tool.call''"
definition StageRunCreate :: string where "StageRunCreate = ''run.create''"

definition EffectAllow :: string where "EffectAllow = ''allow''"
definition EffectDeny :: string where "EffectDeny = ''deny''"
definition EffectPending :: string where "EffectPending = ''pending''"

definition ReasonPolicyNoGrant :: string where "ReasonPolicyNoGrant = ''policy_no_grant''"
definition ReasonPolicyToolDenied :: string where "ReasonPolicyToolDenied = ''policy_tool_denied''"
definition ReasonPolicyWebhookDeny :: string where "ReasonPolicyWebhookDeny = ''policy_webhook_deny''"
definition ReasonPolicyWebhookFailed :: string where "ReasonPolicyWebhookFailed = ''policy_webhook_failed''"
definition ReasonPolicyDefaultDeny :: string where "ReasonPolicyDefaultDeny = ''policy_default_deny''"
definition ReasonPolicyMissingBinding :: string where "ReasonPolicyMissingBinding = ''policy_missing_binding''"
definition ReasonPolicyPending :: string where "ReasonPolicyPending = ''policy_pending''"
definition ReasonPolicyAdmissionDeny :: string where "ReasonPolicyAdmissionDeny = ''policy_admission_deny''"
definition ReasonPolicyPredicate :: string where "ReasonPolicyPredicate = ''policy_predicate''"
definition ReasonMandatoryHITL :: string where "ReasonMandatoryHITL = ''mandatory_hitl''"

lemmas effect_defs = EffectAllow_def EffectDeny_def EffectPending_def
lemmas stage_defs = StageConnectorSession_def StageToolCall_def StageRunCreate_def

lemma effects_distinct [simp]:
  "EffectAllow \<noteq> EffectDeny" "EffectDeny \<noteq> EffectAllow" "EffectAllow \<noteq> EffectPending"
  "EffectPending \<noteq> EffectAllow" "EffectDeny \<noteq> EffectPending" "EffectPending \<noteq> EffectDeny"
  by (simp_all add: effect_defs)

lemma stages_distinct [simp]:
  "StageToolCall \<noteq> StageRunCreate" "StageRunCreate \<noteq> StageToolCall"
  "StageToolCall \<noteq> StageConnectorSession" "StageConnectorSession \<noteq> StageToolCall"
  "StageConnectorSession \<noteq> StageRunCreate" "StageRunCreate \<noteq> StageConnectorSession"
  by (simp_all add: stage_defs)

text \<open>A nil \<open>Args\<close> is \<open>JNull\<close>; a nil \<open>ArgsMeta\<close> is None.\<close>

record PolicyInput =
  in_Stage :: string
  in_TenantID :: string
  in_Principal :: string
  in_AgentID :: string
  in_RunID :: string
  in_Generation :: int64
  in_Connector :: string
  in_Tool :: string
  in_Args :: json
  in_ArgsMeta :: "(string \<times> json) list option"
  in_ArgsDigest :: string
  in_Claims :: "string \<rightharpoonup> json"
  in_Labels :: "string \<rightharpoonup> string"

record PolicyDecision =
  Effect :: string
  Reason :: string
  ReasonCode :: string
  RuleID :: string
  LatencyMs :: int

section \<open>Grants\<close>

record ToolFilter =
  tf_Allow :: "string list"
  tf_Deny :: "string list"

record Grant =
  g_ID :: string
  g_TenantID :: string
  g_AgentID :: string
  g_Connector :: string
  g_Tools :: "ToolFilter option"

definition toolAllowed :: "ToolFilter option \<Rightarrow> string \<Rightarrow> bool" where
  "toolAllowed flt tool =
     (case flt of
        None \<Rightarrow> True
      | Some f \<Rightarrow>
          if list_ex (\<lambda>d. d = tool) (tf_Deny f) then False
          else if tf_Allow f = [] then True
          else list_ex (\<lambda>a. a = tool) (tf_Allow f))"

definition grant_matches :: "PolicyInput \<Rightarrow> Grant \<Rightarrow> bool" where
  "grant_matches inp g \<longleftrightarrow>
     TrimSpace (g_TenantID g) = TrimSpace (in_TenantID inp)
     \<and> TrimSpace (g_AgentID g) = TrimSpace (in_AgentID inp)
     \<and> TrimSpace (g_Connector g) = TrimSpace (in_Connector inp)"

definition static_decide :: "Grant list \<Rightarrow> PolicyInput \<Rightarrow> PolicyDecision" where
  "static_decide grants inp =
     (case find (grant_matches inp) grants of
        None \<Rightarrow> \<lparr>Effect = EffectDeny, Reason = ''no grant for tenant/agent/connector'',
                 ReasonCode = ReasonPolicyNoGrant, RuleID = [], LatencyMs = 0\<rparr>
      | Some matched \<Rightarrow>
          if in_Stage inp = StageToolCall
             \<and> (TrimSpace (in_Tool inp) = [] \<or> \<not> toolAllowed (g_Tools matched) (TrimSpace (in_Tool inp)))
          then \<lparr>Effect = EffectDeny, Reason = ''tool not allowed by grant'',
                ReasonCode = ReasonPolicyToolDenied, RuleID = g_ID matched, LatencyMs = 0\<rparr>
          else \<lparr>Effect = EffectAllow, Reason = ''matched grant'', ReasonCode = [],
                RuleID = g_ID matched, LatencyMs = 0\<rparr>)"

section \<open>Merging defaults and overlays\<close>

text \<open>Both merges keep an index from key to position: a later rule with the same key replaces the
  earlier one in place, a rule whose key has an empty part is dropped.\<close>

fun replace_key :: "('a \<Rightarrow> 'k) \<Rightarrow> 'a \<Rightarrow> 'a list \<Rightarrow> 'a list" where
  "replace_key k x [] = [x]"
| "replace_key k x (y # ys) = (if k y = k x then x # ys else y # replace_key k x ys)"

definition grant_key :: "Grant \<Rightarrow> string \<times> string \<times> string" where
  "grant_key g = (TrimSpace (g_TenantID g), TrimSpace (g_AgentID g), TrimSpace (g_Connector g))"

definition grant_key_ok :: "string \<times> string \<times> string \<Rightarrow> bool" where
  "grant_key_ok k \<longleftrightarrow> fst k \<noteq> [] \<and> fst (snd k) \<noteq> [] \<and> snd (snd k) \<noteq> []"

definition merge_add :: "('a \<Rightarrow> 'k) \<Rightarrow> ('k \<Rightarrow> bool) \<Rightarrow> 'a \<Rightarrow> 'a list \<Rightarrow> 'a list" where
  "merge_add k ok x out = (if ok (k x) then replace_key k x out else out)"

definition mergeGrants :: "Grant list \<Rightarrow> Grant list \<Rightarrow> Grant list" where
  "mergeGrants baseline overlays =
     fold (merge_add grant_key grant_key_ok) overlays (fold (merge_add grant_key grant_key_ok) baseline [])"

record MandatoryHITLRule =
  h_ID :: string
  h_TenantID :: string
  h_AgentID :: string
  h_Connector :: string
  h_Tools :: "string list"

definition hitl_key :: "MandatoryHITLRule \<Rightarrow> string \<times> string \<times> string" where
  "hitl_key r = (TrimSpace (h_TenantID r), TrimSpace (h_AgentID r), TrimSpace (h_Connector r))"

definition hitl_key_ok :: "string \<times> string \<times> string \<Rightarrow> bool" where
  "hitl_key_ok k \<longleftrightarrow> fst k \<noteq> [] \<and> snd (snd k) \<noteq> []"

definition mergeMandatoryHITL :: "MandatoryHITLRule list \<Rightarrow> MandatoryHITLRule list \<Rightarrow> MandatoryHITLRule list" where
  "mergeMandatoryHITL baseline overlays =
     fold (merge_add hitl_key hitl_key_ok) overlays (fold (merge_add hitl_key hitl_key_ok) baseline [])"

section \<open>Mandatory human approval\<close>

definition mandatoryToolMatch :: "string list \<Rightarrow> string \<Rightarrow> bool" where
  "mandatoryToolMatch tools tool =
     (if tools = [] then tool \<noteq> [] else list_ex (\<lambda>t. TrimSpace t = tool) tools)"

text \<open>The loop of \<open>matchMandatoryHITL\<close>: the first rule of the agent wins, else the first rule of
  the whole tenant.\<close>

fun matchMandatoryHITL_loop ::
  "PolicyInput \<Rightarrow> MandatoryHITLRule option \<Rightarrow> MandatoryHITLRule list \<Rightarrow> MandatoryHITLRule option" where
  "matchMandatoryHITL_loop inp tenantWide [] = tenantWide"
| "matchMandatoryHITL_loop inp tenantWide (r # rs) =
     (if TrimSpace (h_TenantID r) \<noteq> TrimSpace (in_TenantID inp) then matchMandatoryHITL_loop inp tenantWide rs
      else if TrimSpace (h_Connector r) \<noteq> TrimSpace (in_Connector inp) then matchMandatoryHITL_loop inp tenantWide rs
      else if \<not> mandatoryToolMatch (h_Tools r) (TrimSpace (in_Tool inp)) then matchMandatoryHITL_loop inp tenantWide rs
      else if TrimSpace (h_AgentID r) = [] then
        matchMandatoryHITL_loop inp (if tenantWide = None then Some r else tenantWide) rs
      else if TrimSpace (h_AgentID r) = TrimSpace (in_AgentID inp) then Some r
      else matchMandatoryHITL_loop inp tenantWide rs)"

definition matchMandatoryHITL :: "MandatoryHITLRule list \<Rightarrow> PolicyInput \<Rightarrow> MandatoryHITLRule option" where
  "matchMandatoryHITL rules inp = matchMandatoryHITL_loop inp None rules"

definition applyMandatoryHITL ::
  "MandatoryHITLRule list \<Rightarrow> PolicyInput \<Rightarrow> PolicyDecision \<Rightarrow> PolicyDecision" where
  "applyMandatoryHITL rules inp dec =
     (if in_Stage inp \<noteq> StageToolCall \<or> Effect dec \<noteq> EffectAllow then dec
      else case matchMandatoryHITL rules inp of
        None \<Rightarrow> dec
      | Some r \<Rightarrow>
          \<lparr>Effect = EffectPending, Reason = ''mandatory HITL for tool'', ReasonCode = ReasonMandatoryHITL,
           RuleID = (if TrimSpace (h_ID r) = [] then ''mandatory_hitl'' else TrimSpace (h_ID r)),
           LatencyMs = LatencyMs dec\<rparr>)"

section \<open>Argument predicates\<close>

record Predicate =
  p_ID :: string
  p_TenantID :: string
  p_AgentID :: string
  p_Connector :: string
  p_Tool :: string
  p_Path :: string
  p_Op :: string
  p_Value :: json
  p_Effect :: string
  p_Reason :: string
  p_ReasonCode :: string

text \<open>\<open>asNumber\<close> and \<open>asSlice\<close> on decoded JSON; the branches for native Go numbers and slices are
  not reached, since arguments and configured values both come from \<open>DecodeUnique\<close>.\<close>

definition asNumber :: "json \<Rightarrow> string option" where
  "asNumber v = (case v of JNum n \<Rightarrow> if CompareNumbers n n \<noteq> None then Some n else None | _ \<Rightarrow> None)"

definition asSlice :: "json \<Rightarrow> json list option" where
  "asSlice v = (case v of JArr xs \<Rightarrow> Some xs | _ \<Rightarrow> None)"

definition valuesEqual :: "json \<Rightarrow> json \<Rightarrow> bool" where
  "valuesEqual a b =
     (case asNumber a of
        Some af \<Rightarrow> (case asNumber b of Some bf \<Rightarrow> EqualNumbers af bf | None \<Rightarrow> False)
      | None \<Rightarrow> if asNumber b \<noteq> None then False else Equal a b)"

datatype pred_error = PredIDRequired | PredScopeRequired | PredPathRequired | PredUnknownOp
  | PredBadEffect | PredInNeedsArray

definition pred_ops :: "string list" where
  "pred_ops = [''eq'', ''neq'', ''gt'', ''gte'', ''lt'', ''lte'', ''in'', ''contains'', ''exists'']"

definition ValidatePredicate :: "Predicate \<Rightarrow> pred_error + Predicate" where
  "ValidatePredicate p =
     (let out = p\<lparr>p_ID := TrimSpace (p_ID p), p_TenantID := TrimSpace (p_TenantID p),
                  p_AgentID := TrimSpace (p_AgentID p), p_Connector := TrimSpace (p_Connector p),
                  p_Tool := TrimSpace (p_Tool p), p_Path := TrimSpace (p_Path p),
                  p_Op := ToLower (TrimSpace (p_Op p)), p_Effect := ToLower (TrimSpace (p_Effect p)),
                  p_Reason := TrimSpace (p_Reason p), p_ReasonCode := TrimSpace (p_ReasonCode p)\<rparr>
      in if p_ID out = [] then Inl PredIDRequired
         else if p_TenantID out = [] \<or> p_Connector out = [] then Inl PredScopeRequired
         else if p_Path out = [] then Inl PredPathRequired
         else if p_Op out \<notin> set pred_ops then Inl PredUnknownOp
         else if p_Effect out \<noteq> EffectDeny \<and> p_Effect out \<noteq> EffectPending then Inl PredBadEffect
         else if p_Op out = ''in'' \<and> asSlice (p_Value out) = None then Inl PredInNeedsArray
         else Inr out)"

definition predicateMatchesScope :: "Predicate \<Rightarrow> PolicyInput \<Rightarrow> bool" where
  "predicateMatchesScope p inp =
     (if p_TenantID p \<noteq> TrimSpace (in_TenantID inp) then False
      else if p_Connector p \<noteq> TrimSpace (in_Connector inp) then False
      else if p_AgentID p \<noteq> [] \<and> p_AgentID p \<noteq> TrimSpace (in_AgentID inp) then False
      else if p_Tool p \<noteq> [] \<and> p_Tool p \<noteq> TrimSpace (in_Tool inp) then False
      else True)"

definition predicateDecision :: "Predicate \<Rightarrow> PolicyDecision" where
  "predicateDecision p =
     \<lparr>Effect = p_Effect p,
      Reason = (if p_Reason p = [] then ''denied by argument predicate'' else p_Reason p),
      ReasonCode = (if p_ReasonCode p = []
                    then (if p_Effect p = EffectPending then ReasonPolicyPending else ReasonPolicyPredicate)
                    else p_ReasonCode p),
      RuleID = p_ID p, LatencyMs = 0\<rparr>"

definition predicateArgs :: "PolicyInput \<Rightarrow> json" where
  "predicateArgs inp =
     (if in_Args inp \<noteq> JNull then in_Args inp
      else case in_ArgsMeta inp of Some m \<Rightarrow> JObj m | None \<Rightarrow> JObj [])"

fun lookup_segments :: "json \<Rightarrow> string list \<Rightarrow> json option" where
  "lookup_segments cur [] = Some cur"
| "lookup_segments cur (seg # segs) =
     (if seg = [] then None
      else case cur of
        JObj m \<Rightarrow> (case map_of m seg of None \<Rightarrow> None | Some v \<Rightarrow> lookup_segments v segs)
      | JArr t \<Rightarrow> (case Atoi seg of
                     None \<Rightarrow> None
                   | Some i \<Rightarrow> if i < 0 \<or> i \<ge> int (length t) then None
                               else lookup_segments (t ! nat i) segs)
      | _ \<Rightarrow> None)"

definition lookupPath :: "json \<Rightarrow> string \<Rightarrow> json option" where
  "lookupPath v path = lookup_segments v (Split (CHR ''.'') path)"

text \<open>\<open>evalPredicate\<close> returns (matched, path present).\<close>

definition evalPredicate :: "Predicate \<Rightarrow> PolicyInput \<Rightarrow> bool \<times> bool" where
  "evalPredicate p inp =
     (let got = lookupPath (predicateArgs inp) (p_Path p); op = p_Op p; v = p_Value p in
      if op = ''exists'' then (got \<noteq> None, True)
      else case got of
        None \<Rightarrow> (False, False)
      | Some g \<Rightarrow>
          if op = ''eq'' then (valuesEqual g v, True)
          else if op = ''neq'' then (\<not> valuesEqual g v, True)
          else if op \<in> {''gt'', ''gte'', ''lt'', ''lte''} then
            (case (asNumber g, asNumber v) of
               (Some a, Some b) \<Rightarrow>
                 (case CompareNumbers a b of
                    None \<Rightarrow> (False, True)
                  | Some order \<Rightarrow>
                      (if op = ''gt'' then order > 0 else if op = ''gte'' then order \<ge> 0
                       else if op = ''lt'' then order < 0 else order \<le> 0, True))
             | _ \<Rightarrow> (False, True))
          else if op = ''in'' then
            (case asSlice v of None \<Rightarrow> (False, True) | Some sl \<Rightarrow> (list_ex (valuesEqual g) sl, True))
          else if op = ''contains'' then
            (case g of
               JStr gs \<Rightarrow> (case v of JStr want \<Rightarrow> (Contains gs want, True) | _ \<Rightarrow> (False, True))
             | _ \<Rightarrow> (case asSlice g of
                       Some sl \<Rightarrow> (list_ex (\<lambda>item. valuesEqual item v) sl, True)
                     | None \<Rightarrow> (False, True)))
          else (False, True))"

text \<open>The loop of \<open>applyPredicates\<close>, with the first deny and the first pending seen so far.\<close>

fun applyPredicates_loop ::
  "PolicyInput \<Rightarrow> PolicyDecision option \<Rightarrow> PolicyDecision option \<Rightarrow> Predicate list \<Rightarrow> PolicyDecision option" where
  "applyPredicates_loop inp firstDeny firstPending [] =
     (if firstDeny \<noteq> None then firstDeny else firstPending)"
| "applyPredicates_loop inp firstDeny firstPending (p # ps) =
     (if \<not> predicateMatchesScope p inp then applyPredicates_loop inp firstDeny firstPending ps
      else if \<not> snd (evalPredicate p inp) \<or> \<not> fst (evalPredicate p inp)
      then applyPredicates_loop inp firstDeny firstPending ps
      else
        let dec = predicateDecision p
        in applyPredicates_loop inp
             (if Effect dec = EffectDeny \<and> firstDeny = None then Some dec else firstDeny)
             (if Effect dec = EffectPending \<and> firstPending = None then Some dec else firstPending) ps)"

definition applyPredicates :: "Predicate list \<Rightarrow> PolicyInput \<Rightarrow> PolicyDecision option" where
  "applyPredicates rules inp =
     (if in_Stage inp \<noteq> StageToolCall \<or> rules = [] then None
      else applyPredicates_loop inp None None rules)"

section \<open>Lookups in a merged rule list\<close>

definition rule_for :: "('a \<Rightarrow> 'k) \<Rightarrow> 'k \<Rightarrow> 'a list \<Rightarrow> 'a option" where
  "rule_for k key rules = find (\<lambda>x. k x = key) rules"

lemma rule_for_simps [simp]:
  "rule_for k key [] = None"
  "rule_for k key (x # xs) = (if k x = key then Some x else rule_for k key xs)"
  by (simp_all add: rule_for_def)

lemma rule_for_None_iff: "rule_for k key xs = None \<longleftrightarrow> key \<notin> k ` set xs"
  by (induction xs) auto

lemma rule_for_append:
  "rule_for k key (xs @ ys) = (case rule_for k key xs of None \<Rightarrow> rule_for k key ys | Some x \<Rightarrow> Some x)"
  by (induction xs) auto

lemma rule_for_replace_key:
  "rule_for k key (replace_key k x ys) = (if k x = key then Some x else rule_for k key ys)"
  by (induction ys) auto

lemma keys_replace_key: "k ` set (replace_key k x ys) = insert (k x) (k ` set ys)"
  by (induction ys) auto

lemma distinct_replace_key:
  "distinct (map k ys) \<Longrightarrow> distinct (map k (replace_key k x ys))"
proof (induction ys)
  case (Cons y ys)
  have "k ` set (replace_key k x ys) = insert (k x) (k ` set ys)"
    by (rule keys_replace_key)
  with Cons show ?case by auto
qed simp

lemma rule_for_merge_fold:
  "rule_for k key (fold (merge_add k ok) xs out) =
     (if ok key then (case rule_for k key (rev xs) of None \<Rightarrow> rule_for k key out | Some x \<Rightarrow> Some x)
      else rule_for k key out)"
proof (induction xs arbitrary: out)
  case (Cons x xs)
  have "rule_for k key (merge_add k ok x out) =
      (if ok key \<and> k x = key then Some x else rule_for k key out)"
    by (auto simp: merge_add_def rule_for_replace_key)
  then show ?case
    using Cons.IH [of "merge_add k ok x out"]
    by (auto simp: rule_for_append split: option.splits)
qed simp

lemma distinct_merge_fold:
  "distinct (map k out) \<Longrightarrow> distinct (map k (fold (merge_add k ok) xs out))"
  by (induction xs arbitrary: out) (auto simp: merge_add_def distinct_replace_key)

lemma mergeGrants_rule:
  "rule_for grant_key key (mergeGrants baseline overlays) =
     (if grant_key_ok key then rule_for grant_key key (rev overlays @ rev baseline) else None)"
  by (simp add: mergeGrants_def rule_for_merge_fold rule_for_append split: option.splits)

lemma mergeMandatoryHITL_rule:
  "rule_for hitl_key key (mergeMandatoryHITL baseline overlays) =
     (if hitl_key_ok key then rule_for hitl_key key (rev overlays @ rev baseline) else None)"
  by (simp add: mergeMandatoryHITL_def rule_for_merge_fold rule_for_append split: option.splits)

definition input_key :: "PolicyInput \<Rightarrow> string \<times> string \<times> string" where
  "input_key inp = (TrimSpace (in_TenantID inp), TrimSpace (in_AgentID inp), TrimSpace (in_Connector inp))"

lemma grant_matches_key: "grant_matches inp g \<longleftrightarrow> grant_key g = input_key inp"
  by (auto simp: grant_matches_def grant_key_def input_key_def)

lemma find_grant_rule: "find (grant_matches inp) gs = rule_for grant_key (input_key inp) gs"
  by (induction gs) (simp_all add: grant_matches_key)

definition tool_permitted :: "PolicyInput \<Rightarrow> Grant \<Rightarrow> bool" where
  "tool_permitted inp g \<longleftrightarrow>
     in_Stage inp = StageToolCall \<longrightarrow>
       TrimSpace (in_Tool inp) \<noteq> [] \<and> toolAllowed (g_Tools g) (TrimSpace (in_Tool inp))"

lemma static_decide_effect:
  "Effect (static_decide gs inp) =
     (case rule_for grant_key (input_key inp) gs of
        None \<Rightarrow> EffectDeny
      | Some g \<Rightarrow> if tool_permitted inp g then EffectAllow else EffectDeny)"
  by (auto simp: static_decide_def find_grant_rule tool_permitted_def split: option.splits)

lemma static_decide_no_grant:
  "ReasonCode (static_decide gs inp) = ReasonPolicyNoGrant \<longleftrightarrow> rule_for grant_key (input_key inp) gs = None"
  by (auto simp: static_decide_def find_grant_rule ReasonPolicyNoGrant_def ReasonPolicyToolDenied_def
      split: option.splits)

lemma toolAllowed_iff:
  "toolAllowed flt tool \<longleftrightarrow>
     (case flt of None \<Rightarrow> True
      | Some f \<Rightarrow> tool \<notin> set (tf_Deny f) \<and> (tf_Allow f = [] \<or> tool \<in> set (tf_Allow f)))"
  by (auto simp: toolAllowed_def list_ex_iff split: option.splits)

section \<open>Which mandatory approval rule applies\<close>

definition hitl_applies :: "PolicyInput \<Rightarrow> MandatoryHITLRule \<Rightarrow> bool" where
  "hitl_applies inp r \<longleftrightarrow>
     TrimSpace (h_TenantID r) = TrimSpace (in_TenantID inp)
     \<and> TrimSpace (h_Connector r) = TrimSpace (in_Connector inp)
     \<and> mandatoryToolMatch (h_Tools r) (TrimSpace (in_Tool inp))
     \<and> (TrimSpace (h_AgentID r) = [] \<or> TrimSpace (h_AgentID r) = TrimSpace (in_AgentID inp))"

lemma matchMandatoryHITL_loop_spec:
  "matchMandatoryHITL_loop inp w rs =
     (case find (\<lambda>r. hitl_applies inp r \<and> TrimSpace (h_AgentID r) \<noteq> []) rs of
        Some r \<Rightarrow> Some r
      | None \<Rightarrow> (case w of Some r \<Rightarrow> Some r | None \<Rightarrow> find (hitl_applies inp) rs))"
  by (induction rs arbitrary: w) (auto simp: hitl_applies_def split: option.splits)

lemma matchMandatoryHITL_spec:
  "matchMandatoryHITL rs inp =
     (case find (\<lambda>r. hitl_applies inp r \<and> TrimSpace (h_AgentID r) \<noteq> []) rs of
        Some r \<Rightarrow> Some r | None \<Rightarrow> find (hitl_applies inp) rs)"
  by (simp add: matchMandatoryHITL_def matchMandatoryHITL_loop_spec split: option.split)

lemma find_Some_holds: "find P xs = Some x \<Longrightarrow> x \<in> set xs \<and> P x"
  by (induction xs) (auto split: if_splits)

lemma matchMandatoryHITL_None:
  "matchMandatoryHITL rs inp = None \<longleftrightarrow> (\<forall>r\<in>set rs. \<not> hitl_applies inp r)"
  by (auto simp: matchMandatoryHITL_spec find_None_iff split: option.splits dest!: find_Some_holds)

lemma matchMandatoryHITL_Some:
  "matchMandatoryHITL rs inp = Some r \<Longrightarrow> r \<in> set rs \<and> hitl_applies inp r"
  by (auto simp: matchMandatoryHITL_spec split: option.splits dest!: find_Some_holds)

lemma applyMandatoryHITL_effect:
  "Effect (applyMandatoryHITL rs inp dec) =
     (if in_Stage inp = StageToolCall \<and> Effect dec = EffectAllow \<and> (\<exists>r\<in>set rs. hitl_applies inp r)
      then EffectPending else Effect dec)"
proof (cases "matchMandatoryHITL rs inp")
  case None
  then show ?thesis
    using matchMandatoryHITL_None [of rs inp] by (auto simp: applyMandatoryHITL_def)
next
  case (Some r)
  then have "\<exists>r\<in>set rs. hitl_applies inp r"
    using matchMandatoryHITL_Some by blast
  with Some show ?thesis by (simp add: applyMandatoryHITL_def)
qed

section \<open>Which predicate decides\<close>

definition pred_fires :: "PolicyInput \<Rightarrow> Predicate \<Rightarrow> bool" where
  "pred_fires inp p \<longleftrightarrow>
     predicateMatchesScope p inp \<and> snd (evalPredicate p inp) \<and> fst (evalPredicate p inp)"

lemma predicateDecision_Effect [simp]: "Effect (predicateDecision p) = p_Effect p"
  by (simp add: predicateDecision_def)

lemma applyPredicates_loop_spec:
  "applyPredicates_loop inp d w ps =
     (case (case d of Some x \<Rightarrow> Some x
            | None \<Rightarrow> map_option predicateDecision (find (\<lambda>p. pred_fires inp p \<and> p_Effect p = EffectDeny) ps)) of
        Some x \<Rightarrow> Some x
      | None \<Rightarrow> (case w of Some x \<Rightarrow> Some x
                 | None \<Rightarrow> map_option predicateDecision
                            (find (\<lambda>p. pred_fires inp p \<and> p_Effect p = EffectPending) ps)))"
proof (induction ps arbitrary: d w)
  case Nil
  then show ?case by (simp split: option.splits)
next
  case (Cons p ps)
  show ?case
  proof (cases "pred_fires inp p")
    case True
    then have "predicateMatchesScope p inp" "snd (evalPredicate p inp)" "fst (evalPredicate p inp)"
      by (simp_all add: pred_fires_def)
    then show ?thesis
      using True by (cases d; cases w) (auto simp: Let_def Cons.IH split: option.splits)
  next
    case False
    then have skip: "applyPredicates_loop inp d w (p # ps) = applyPredicates_loop inp d w ps"
      by (auto simp: pred_fires_def)
    show ?thesis
      unfolding skip Cons.IH using False by (cases d; cases w) (simp_all split: option.split)
  qed
qed

lemma applyPredicates_spec:
  assumes "in_Stage inp = StageToolCall"
  shows "applyPredicates ps inp =
     (case find (\<lambda>p. pred_fires inp p \<and> p_Effect p = EffectDeny) ps of
        Some p \<Rightarrow> Some (predicateDecision p)
      | None \<Rightarrow> map_option predicateDecision (find (\<lambda>p. pred_fires inp p \<and> p_Effect p = EffectPending) ps))"
  using assms by (auto simp: applyPredicates_def applyPredicates_loop_spec split: option.splits)

lemma applyPredicates_other_stage: "in_Stage inp \<noteq> StageToolCall \<Longrightarrow> applyPredicates ps inp = None"
  by (simp add: applyPredicates_def)

lemma applyPredicates_effect:
  assumes "applyPredicates ps inp = Some dec"
  shows "Effect dec = EffectDeny \<or> Effect dec = EffectPending"
proof -
  have "in_Stage inp = StageToolCall"
    using assms applyPredicates_other_stage by fastforce
  then show ?thesis
    using assms by (auto simp: applyPredicates_spec split: option.splits dest!: find_Some_holds)
qed

lemma applyPredicates_None_iff:
  assumes "in_Stage inp = StageToolCall"
    and "\<forall>p\<in>set ps. p_Effect p = EffectDeny \<or> p_Effect p = EffectPending"
  shows "applyPredicates ps inp = None \<longleftrightarrow> (\<forall>p\<in>set ps. \<not> pred_fires inp p)"
  using assms
  by (auto simp: applyPredicates_spec find_None_iff split: option.splits dest!: find_Some_holds)

lemma ValidatePredicate_ok:
  assumes "ValidatePredicate p = Inr q"
  shows "p_ID q \<noteq> [] \<and> p_TenantID q \<noteq> [] \<and> p_Connector q \<noteq> [] \<and> p_Path q \<noteq> [] \<and> p_Op q \<in> set pred_ops
    \<and> (p_Effect q = EffectDeny \<or> p_Effect q = EffectPending)
    \<and> (p_Op q = ''in'' \<longrightarrow> asSlice (p_Value q) \<noteq> None)
    \<and> p_Value q = p_Value p"
  using assms by (auto simp: ValidatePredicate_def Let_def split: if_splits)

end
