(* ===== verification/Policy_Args.thy ===== *)
theory Policy_Args
  imports Json_Text "HOL-Library.Multiset"
begin

text \<open>
  Tool-call arguments (src/internal/policy/args.go): parsing, the digest that keys the decision
  cache and one-shot approvals, and the redacted copy for audit and webhook. SHA-256 (as hex text)
  and the JSON tokenizer are arguments. Strings are valid UTF-8, as the decoder guarantees.
\<close>

section \<open>Binding arguments\<close>

definition argsMetaMaxBytes :: nat where "argsMetaMaxBytes = 4096"
definition argsMetaMaxDepth :: nat where "argsMetaMaxDepth = 3"
definition argsStringMaxRunes :: nat where "argsStringMaxRunes = 256"
definition argsMetaOmitted :: string where "argsMetaOmitted = ''<omitted>''"

fun canonicalDigestValue :: "json \<Rightarrow> json" where
  "canonicalDigestValue (JNum n) = (case CanonicalNumber n of Some c \<Rightarrow> JNum c | None \<Rightarrow> JNum n)"
| "canonicalDigestValue (JObj kvs) = JObj (map (\<lambda>kv. (fst kv, canonicalDigestValue (snd kv))) kvs)"
| "canonicalDigestValue (JArr xs) = JArr (map canonicalDigestValue xs)"
| "canonicalDigestValue v = v"

definition digest_payload :: "json \<Rightarrow> string" where
  "digest_payload v =
     ''runkite-policy-args-v2'' @ [CHR 0x00] @
     (case Marshal (canonicalDigestValue (if v = JNull then JObj [] else v)) of
        Some b \<Rightarrow> b | None \<Rightarrow> ''{}'')"

definition digestArgs :: "(string \<Rightarrow> string) \<Rightarrow> json \<Rightarrow> string" where
  "digestArgs sha256_hex v = sha256_hex (digest_payload v)"

definition secretArgKey :: "string \<Rightarrow> bool" where
  "secretArgKey k \<longleftrightarrow>
     ToLower (TrimSpace k) \<in> {''password'', ''token'', ''secret'', ''authorization'', ''api_key''}"

definition continuation_byte :: "char \<Rightarrow> bool" where
  "continuation_byte c \<longleftrightarrow> 128 \<le> (of_char c :: nat) \<and> (of_char c :: nat) < 192"

definition RuneCount :: "string \<Rightarrow> nat" where
  "RuneCount s = length (filter (\<lambda>c. \<not> continuation_byte c) s)"

fun take_runes :: "nat \<Rightarrow> string \<Rightarrow> string" where
  "take_runes n [] = []"
| "take_runes n (c # cs) =
     (if continuation_byte c then c # take_runes n cs
      else case n of 0 \<Rightarrow> [] | Suc m \<Rightarrow> c # take_runes m cs)"

definition truncateRunes :: "string \<Rightarrow> nat \<Rightarrow> string" where
  "truncateRunes s m = (if RuneCount s \<le> m then s else take_runes m s)"

function copyRedactedValue :: "json \<Rightarrow> nat \<Rightarrow> json" where
  "copyRedactedValue v depth =
     (if depth > argsMetaMaxDepth then JStr argsMetaOmitted
      else case v of
        JObj t \<Rightarrow> JObj (map (\<lambda>kv. (fst kv, copyRedactedValue (snd kv) (depth + 1)))
                          (filter (\<lambda>kv. \<not> secretArgKey (fst kv)) t))
      | JArr t \<Rightarrow> if depth + 1 > argsMetaMaxDepth then JStr argsMetaOmitted
                  else JArr (map (\<lambda>item. copyRedactedValue item (depth + 1)) t)
      | JStr s \<Rightarrow> JStr (truncateRunes s argsStringMaxRunes)
      | _ \<Rightarrow> v)"
  by pat_completeness auto
termination by (relation "measure (\<lambda>(v, depth). Suc argsMetaMaxDepth - depth)") auto

definition copyRedactedMap :: "(string \<times> json) list \<Rightarrow> nat \<Rightarrow> (string \<times> json) list" where
  "copyRedactedMap m depth =
     map (\<lambda>kv. (fst kv, copyRedactedValue (snd kv) depth)) (filter (\<lambda>kv. \<not> secretArgKey (fst kv)) m)"

text \<open>Go's map iteration picks the key to drop; the model takes the picks as an argument, one
  position per iteration.\<close>

function redact_loop :: "(nat \<Rightarrow> nat) \<Rightarrow> nat \<Rightarrow> (string \<times> json) list \<Rightarrow> (string \<times> json) list" where
  "redact_loop pick i out =
     (case Marshal (JObj out) of
        None \<Rightarrow> out
      | Some b \<Rightarrow>
          if length b \<le> argsMetaMaxBytes then out
          else if out = [] then [(''_'', JStr argsMetaOmitted)]
          else redact_loop pick (Suc i)
                 (filter (\<lambda>kv. fst kv \<noteq> fst (out ! (pick i mod length out))) out))"
  by pat_completeness auto
termination
proof (relation "measure (\<lambda>(p, i, out). length out)", goal_cases)
  case (2 pick i out b)
  then have "out ! (pick i mod length out) \<in> set out" by simp
  then show ?case by (simp add: length_filter_less)
qed simp

definition redactArgs :: "(nat \<Rightarrow> nat) \<Rightarrow> json \<Rightarrow> (string \<times> json) list option" where
  "redactArgs pick v =
     (case v of
        JObj m \<Rightarrow> if m = [] then None else Some (redact_loop pick 0 (copyRedactedMap m 1))
      | _ \<Rightarrow> None)"

definition parseCallArguments ::
  "(string \<Rightarrow> bool) \<Rightarrow> (string \<Rightarrow> json_token list option) \<Rightarrow> string \<Rightarrow> json option" where
  "parseCallArguments utf8_Valid tokens raw =
     (let trim = TrimSpace raw in
      if trim = [] \<or> trim = ''null'' then Some (JObj []) else DecodeUnique utf8_Valid tokens raw)"

definition BindArgsStrict ::
  "(string \<Rightarrow> bool) \<Rightarrow> (string \<Rightarrow> json_token list option) \<Rightarrow> (string \<Rightarrow> string) \<Rightarrow> (nat \<Rightarrow> nat) \<Rightarrow> string
     \<Rightarrow> (json \<times> string \<times> (string \<times> json) list option) option" where
  "BindArgsStrict utf8_Valid tokens sha256_hex pick raw =
     (case parseCallArguments utf8_Valid tokens raw of
        None \<Rightarrow> None
      | Some parsed \<Rightarrow> Some (parsed, digestArgs sha256_hex parsed, redactArgs pick parsed))"

definition BindArgs ::
  "(string \<Rightarrow> bool) \<Rightarrow> (string \<Rightarrow> json_token list option) \<Rightarrow> (string \<Rightarrow> string) \<Rightarrow> (nat \<Rightarrow> nat) \<Rightarrow> string
     \<Rightarrow> json \<times> string \<times> (string \<times> json) list option" where
  "BindArgs utf8_Valid tokens sha256_hex pick raw =
     (case BindArgsStrict utf8_Valid tokens sha256_hex pick raw of
        None \<Rightarrow> (JNull, [], None) | Some r \<Rightarrow> r)"

declare copyRedactedValue.simps [simp del] redact_loop.simps [simp del]

section \<open>The digest form of a value\<close>

definition digest_form :: "json \<Rightarrow> json" where
  "digest_form v = sort_members (canonicalDigestValue v)"

lemma sorted_members_eq:
  fixes xs ys :: "(string \<times> json) list"
  assumes "distinct (map fst xs)" "distinct (map fst ys)"
  shows "sort_key fst xs = sort_key fst ys \<longleftrightarrow> set xs = set ys"
proof
  assume "sort_key fst xs = sort_key fst ys"
  then show "set xs = set ys" by (metis set_sort)
next
  assume eq: "set xs = set ys"
  have "mset xs = mset ys"
    using eq assms by (metis distinct_map set_eq_iff_mset_eq_distinct)
  moreover have "inj_on fst (set xs)"
    using assms(1) by (simp add: distinct_map)
  ultimately show "sort_key fst xs = sort_key fst ys"
    using sort_key_inj_key_eq [of xs "sort_key fst ys" fst] by simp
qed

lemma digest_form_simps [simp]:
  "digest_form JNull = JNull" "digest_form (JBool b) = JBool b" "digest_form (JStr s) = JStr s"
  "digest_form (JArr xs) = JArr (map digest_form xs)"
  "digest_form (JObj kvs) = JObj (sort_key fst (map (\<lambda>kv. (fst kv, digest_form (snd kv))) kvs))"
  by (simp_all add: digest_form_def comp_def)

lemma digest_form_num:
  assumes "num_valid n"
  shows "digest_form (JNum n) = JNum (the (CanonicalNumber n))"
proof -
  obtain s where "CanonicalNumber n = Some s"
    using CanonicalNumber_value [OF assms] by blast
  then show ?thesis by (simp add: digest_form_def)
qed

lemma digest_form_kind: "num_valid n \<Longrightarrow> digest_form v = digest_form (JNum n) \<Longrightarrow> \<exists>m. v = JNum m"
  by (cases v) (auto simp: digest_form_num)

text \<open>Two member lists agree as maps exactly when they are the same set of members.\<close>

lemma card_members:
  "distinct (map fst a) \<Longrightarrow> card (set (map (\<lambda>kv. (fst kv, f (snd kv))) a)) = length a"
  using distinct_card [of "map (\<lambda>kv. (fst kv, f (snd kv))) a"] by (auto simp: distinct_map inj_on_def)

lemma same_members_iff:
  fixes a b :: "(string \<times> json) list"
  assumes da: "distinct (map fst a)" and db: "distinct (map fst b)"
    and eq: "\<And>kv w. kv \<in> set a \<Longrightarrow> map_of b (fst kv) = Some w \<Longrightarrow> E (snd kv) w \<longleftrightarrow> f (snd kv) = f w"
  shows "(length a = length b \<and> (\<forall>kv\<in>set a. case map_of b (fst kv) of None \<Rightarrow> False | Some w \<Rightarrow> E (snd kv) w))
    \<longleftrightarrow> set (map (\<lambda>kv. (fst kv, f (snd kv))) a) = set (map (\<lambda>kv. (fst kv, f (snd kv))) b)"
    (is "?L \<longleftrightarrow> ?A = ?B")
proof
  assume L: ?L
  have sub: "?A \<subseteq> ?B"
  proof
    fix p assume "p \<in> ?A"
    then obtain kv where kv: "kv \<in> set a" "p = (fst kv, f (snd kv))" by auto
    with L obtain w where w: "map_of b (fst kv) = Some w" "E (snd kv) w" by (force split: option.splits)
    then have "f (snd kv) = f w" using eq kv(1) by blast
    moreover have "(fst kv, w) \<in> set b" using w(1) by (rule map_of_SomeD)
    ultimately show "p \<in> ?B"
      using kv(2) by (auto intro!: image_eqI [where x = "(fst kv, w)"])
  qed
  have "card ?A = card ?B"
    unfolding card_members [OF da] card_members [OF db] using L by blast
  then show "?A = ?B" by (rule card_subset_eq [OF List.finite_set sub])
next
  assume AB: "?A = ?B"
  then have "length a = length b"
    using card_members [OF da, of f] card_members [OF db, of f] by presburger
  moreover have "case map_of b (fst kv) of None \<Rightarrow> False | Some w \<Rightarrow> E (snd kv) w" if kv: "kv \<in> set a" for kv
  proof -
    have "(fst kv, f (snd kv)) \<in> ?B" using AB kv by auto
    then obtain w where "(fst kv, w) \<in> set b" "f (snd kv) = f w" by auto
    then show ?thesis using db eq [OF kv] by simp
  qed
  ultimately show ?L by simp
qed

definition well_formed :: "json \<Rightarrow> bool" where
  "well_formed v \<longleftrightarrow> unique_members v \<and> numbers_valid v"

lemma well_formed_simps [simp]:
  "well_formed JNull" "well_formed (JBool b)" "well_formed (JStr s)" "well_formed (JNum n) = num_valid n"
  "well_formed (JArr xs) = (\<forall>x\<in>set xs. well_formed x)"
  "well_formed (JObj kvs) = (distinct (map fst kvs) \<and> (\<forall>kv\<in>set kvs. well_formed (snd kv)))"
  by (auto simp: well_formed_def list_all_iff)

lemma digest_form_atoms:
  assumes "well_formed b"
  shows "JNull = digest_form b \<longleftrightarrow> b = JNull" "JBool x = digest_form b \<longleftrightarrow> b = JBool x"
    "JStr s = digest_form b \<longleftrightarrow> b = JStr s"
  using assms by (cases b; auto simp: digest_form_num)+

lemma Equal_digest_form:
  "well_formed a \<Longrightarrow> well_formed b \<Longrightarrow> Equal a b \<longleftrightarrow> digest_form a = digest_form b"
proof (induction a b rule: Equal.induct)
  case (1 a b)
  show ?case
  proof (cases b)
    case (JNum n)
    then have v: "num_valid a" "num_valid n" using 1 by simp_all
    then obtain s t where "CanonicalNumber a = Some s" "CanonicalNumber n = Some t"
      using CanonicalNumber_value by metis
    then show ?thesis
      using CanonicalNumber_eq [OF v] v JNum by (simp add: digest_form_num EqualNumbers_correct)
  qed (use 1 in \<open>auto simp: digest_form_num\<close>)
next
  case (2 a b)
  show ?case
  proof (cases b)
    case (JObj b')
    have wf: "distinct (map fst a)" "distinct (map fst b')"
      "\<And>kv. kv \<in> set a \<Longrightarrow> well_formed (snd kv)" "\<And>kv. kv \<in> set b' \<Longrightarrow> well_formed (snd kv)"
      using 2(2,3) JObj by auto
    have "Equal (snd kv) w \<longleftrightarrow> digest_form (snd kv) = digest_form w"
      if "kv \<in> set a" "map_of b' (fst kv) = Some w" for kv w
      using 2(1) [OF JObj that] wf(3) [OF that(1)] wf(4) [OF map_of_SomeD [OF that(2)]] by simp
    note mem = same_members_iff [where E = Equal and f = digest_form, OF wf(1,2) this]
    have d: "distinct (map fst (map (\<lambda>kv. (fst kv, digest_form (snd kv))) a))"
      "distinct (map fst (map (\<lambda>kv. (fst kv, digest_form (snd kv))) b'))"
      using wf(1,2) by (simp_all add: comp_def)
    show ?thesis
      using mem sorted_members_eq [OF d] JObj by (simp add: list_all_iff)
  qed (use 2 in \<open>auto simp: digest_form_num\<close>)
next
  case (3 a b)
  show ?case
  proof (cases b)
    case (JArr b')
    have "Equal (a ! i) (b' ! i) \<longleftrightarrow> digest_form (a ! i) = digest_form (b' ! i)"
      if "i < length a" "length a = length b'" for i
      using 3(1) [OF JArr, of i] 3(2,3) JArr that by simp
    note each = this
    have l: "Equal (JArr a) b \<longleftrightarrow> length a = length b' \<and> (\<forall>i<length a. Equal (a ! i) (b' ! i))"
      using JArr by (simp add: list_all_iff Ball_def)
    have r: "map digest_form a = map digest_form b' \<longleftrightarrow>
        length a = length b' \<and> (\<forall>i<length a. digest_form (a ! i) = digest_form (b' ! i))"
      by (simp add: list_eq_iff_nth_eq cong: conj_cong)
    have "Equal (JArr a) b \<longleftrightarrow> map digest_form a = map digest_form b'"
      unfolding l r using each by blast
    then show ?thesis using JArr by simp
  qed (use 3 in \<open>auto simp: digest_form_num\<close>)
qed (auto simp: digest_form_atoms)


text \<open>The bytes that are hashed identify the digest form.\<close>

lemma numbers_valid_canonical: "numbers_valid v \<Longrightarrow> numbers_valid (canonicalDigestValue v)"
proof (induction v rule: canonicalDigestValue.induct)
  case (1 n)
  then have "num_valid n" by simp
  then obtain s where "CanonicalNumber n = Some s" "num_valid s"
    using CanonicalNumber_value by blast
  then show ?case by simp
qed (auto simp: list_all_iff)

lemma numbers_valid_sort: "numbers_valid v \<Longrightarrow> numbers_valid (sort_members v)"
  by (induction v rule: sort_members.induct) (auto simp: list_all_iff)

lemma digest_payload_form:
  assumes "numbers_valid v" "v \<noteq> JNull"
  shows "digest_payload v = ''runkite-policy-args-v2'' @ [CHR 0x00] @ write_value (digest_form v)"
  using assms numbers_valid_canonical [OF assms(1)]
  by (simp add: digest_payload_def Marshal_def digest_form_def)

lemma digest_payload_Equal:
  assumes "well_formed a" "well_formed b" "a \<noteq> JNull" "b \<noteq> JNull"
  shows "digest_payload a = digest_payload b \<longleftrightarrow> Equal a b"
proof -
  have nv: "numbers_valid (digest_form v)" if "well_formed v" for v
    using that numbers_valid_sort [OF numbers_valid_canonical] by (simp add: digest_form_def well_formed_def)
  have "digest_payload a = digest_payload b \<longleftrightarrow> write_value (digest_form a) = write_value (digest_form b)"
    using assms by (simp add: digest_payload_form well_formed_def)
  also have "\<dots> \<longleftrightarrow> digest_form a = digest_form b"
    using write_inj(1) [OF nv [OF assms(1)] nv [OF assms(2)], of "[]" "[]"] by (auto simp: delimited_def)
  also have "\<dots> \<longleftrightarrow> Equal a b"
    using Equal_digest_form assms by blast
  finally show ?thesis .
qed

section \<open>The redacted copy\<close>

text \<open>What a display value may contain, at nesting depth d.\<close>

fun display_safe :: "nat \<Rightarrow> json \<Rightarrow> bool" where
  "display_safe d (JObj kvs) =
     (d \<le> argsMetaMaxDepth \<and> list_all (\<lambda>kv. \<not> secretArgKey (fst kv) \<and> display_safe (Suc d) (snd kv)) kvs)"
| "display_safe d (JArr xs) = (d < argsMetaMaxDepth \<and> list_all (display_safe (Suc d)) xs)"
| "display_safe d (JStr s) = (RuneCount s \<le> argsStringMaxRunes)"
| "display_safe d JNull = True" | "display_safe d (JBool b) = True" | "display_safe d (JNum n) = True"

lemma RuneCount_take: "RuneCount (take_runes n s) \<le> n"
  by (induction n s rule: take_runes.induct) (auto simp: RuneCount_def split: nat.splits)

lemma RuneCount_truncate: "RuneCount (truncateRunes s n) \<le> n"
  by (simp add: truncateRunes_def RuneCount_take)

lemma omitted_safe [simp]: "RuneCount argsMetaOmitted \<le> argsStringMaxRunes"
  by (simp add: argsMetaOmitted_def argsStringMaxRunes_def RuneCount_def continuation_byte_def)

lemma copyRedactedValue_safe: "display_safe d (copyRedactedValue v d)"
proof (induction v d rule: copyRedactedValue.induct)
  case (1 v d)
  show ?case
  proof (cases "argsMetaMaxDepth < d")
    case True
    then show ?thesis by (simp add: copyRedactedValue.simps [of _ d])
  next
    case False
    show ?thesis
    proof (cases v)
      case (JObj t)
      then show ?thesis
        using 1(2) [OF False JObj] False by (auto simp: copyRedactedValue.simps [of _ d] list_all_iff)
    next
      case (JArr t)
      then show ?thesis
        using 1(1) [OF False JArr] False by (auto simp: copyRedactedValue.simps [of _ d] list_all_iff)
    next
      case (JStr s)
      then show ?thesis
        using False by (simp add: copyRedactedValue.simps [of _ d] RuneCount_truncate)
    qed (use False in \<open>simp_all add: copyRedactedValue.simps [of _ d]\<close>)
  qed
qed

lemma copyRedactedMap_safe:
  "kv \<in> set (copyRedactedMap m d) \<Longrightarrow> \<not> secretArgKey (fst kv) \<and> display_safe d (snd kv)"
  by (auto simp: copyRedactedMap_def copyRedactedValue_safe)

lemma copyRedactedValue_numbers: "numbers_valid v \<Longrightarrow> numbers_valid (copyRedactedValue v d)"
proof (induction v d rule: copyRedactedValue.induct)
  case (1 v d)
  show ?case
  proof (cases "argsMetaMaxDepth < d")
    case True
    then show ?thesis by (simp add: copyRedactedValue.simps [of _ d])
  next
    case False
    then show ?thesis
      using 1(1) [OF False] 1(2) [OF False] 1(3)
      by (cases v) (auto simp: copyRedactedValue.simps [of _ d] list_all_iff)
  qed
qed

lemma redact_loop_result:
  assumes "\<forall>kv\<in>set out. numbers_valid (snd kv)"
  shows "set (redact_loop pick i out) \<subseteq> set out
    \<and> (\<exists>b. Marshal (JObj (redact_loop pick i out)) = Some b \<and> length b \<le> argsMetaMaxBytes)"
  using assms
proof (induction pick i out rule: redact_loop.induct)
  case (1 pick i out)
  have "Marshal (JObj out) \<noteq> None"
    using 1(2) by (simp add: Marshal_def list_all_iff)
  then obtain b where b: "Marshal (JObj out) = Some b" by blast
  show ?case
  proof (cases "length b \<le> argsMetaMaxBytes")
    case True
    then show ?thesis using b by (simp add: redact_loop.simps [of pick i out])
  next
    case False
    then have "out \<noteq> []"
      using b by (auto simp: Marshal_def argsMetaMaxBytes_def)
    then show ?thesis
      using 1(1) [OF b False] 1(2) b False by (auto simp: redact_loop.simps [of pick i out])
  qed
qed


section \<open>Properties\<close>

text \<open>The strict decoder returns the document exactly when no object of it, at any depth, repeats
  a member and its escapes are paired; every other document is refused.\<close>

theorem DecodeUnique_rejects_duplicates:
  assumes "utf8_Valid data" and "tokens data = Some (tokens_of v)"
  shows "DecodeUnique utf8_Valid tokens data =
    (if validSurrogates data \<and> unique_members v then Some v else None)"
  using assms uniqueValue_tokens [of v "length (tokens_of v)" "[]"] by (simp add: DecodeUnique_def)

definition sample_lexer :: "string \<Rightarrow> json_token list option" where
  "sample_lexer data =
     (if data = [CHR ''{'', CHR 0x22, CHR ''a'', CHR 0x22, CHR '':'', CHR ''1'', CHR ''}'']
      then Some [TDelim (CHR ''{''), TStr ''a'', TNum ''1'', TDelim (CHR ''}'')] else None)"

theorem DecodeUnique_rejects_duplicates_witness:
  "DecodeUnique (\<lambda>_. True) sample_lexer [CHR ''{'', CHR 0x22, CHR ''a'', CHR 0x22, CHR '':'', CHR ''1'', CHR ''}'']
     = Some (JObj [(''a'', JNum ''1'')])"
  using DecodeUnique_rejects_duplicates
    [of "\<lambda>_. True" "[CHR ''{'', CHR 0x22, CHR ''a'', CHR 0x22, CHR '':'', CHR ''1'', CHR ''}'']" sample_lexer
      "JObj [(''a'', JNum ''1'')]"]
  by (simp add: sample_lexer_def validSurrogates_def)

text \<open>C25: Two argument values that the decoder accepted have the same digest exactly when they are
  equal JSON values: key order and number spelling do not matter, and no other two values share a
  digest, as long as SHA-256 does not collide on the two payloads.\<close>

theorem digest_identifies_arguments:
  assumes "well_formed a" and "well_formed b" and "a \<noteq> JNull" and "b \<noteq> JNull"
    and no_collision: "sha256_hex (digest_payload a) = sha256_hex (digest_payload b)
      \<longrightarrow> digest_payload a = digest_payload b"
  shows "digestArgs sha256_hex a = digestArgs sha256_hex b \<longleftrightarrow> Equal a b"
  unfolding digestArgs_def using no_collision digest_payload_Equal [OF assms(1-4)] by auto

theorem digest_identifies_arguments_witness:
  "digestArgs (\<lambda>s. s) (JObj [(''a'', JStr ''x''), (''b'', JNull)])
     = digestArgs (\<lambda>s. s) (JObj [(''b'', JNull), (''a'', JStr ''x'')])"
  using digest_identifies_arguments
    [of "JObj [(''a'', JStr ''x''), (''b'', JNull)]" "JObj [(''b'', JNull), (''a'', JStr ''x'')]" "\<lambda>s. s"]
  by simp

text \<open>The argument copy kept for audit and sent to the webhook has no member whose name looks
  like a secret at any depth, no string over 256 runes, no nesting beyond the depth limit and at most
  4096 encoded bytes; every member it has is the copy of a member of the call.\<close>

theorem redactArgs_display_safe:
  assumes "numbers_valid (JObj m)" and "redactArgs pick (JObj m) = Some out"
  shows "display_safe 0 (JObj out)
    \<and> (\<exists>b. Marshal (JObj out) = Some b \<and> length b \<le> argsMetaMaxBytes)
    \<and> set out \<subseteq> set (copyRedactedMap m 1)"
proof -
  have out: "out = redact_loop pick 0 (copyRedactedMap m 1)"
    using assms(2) by (auto simp: redactArgs_def split: if_splits)
  have "\<forall>kv\<in>set (copyRedactedMap m 1). numbers_valid (snd kv)"
    using assms(1) by (auto simp: copyRedactedMap_def list_all_iff copyRedactedValue_numbers)
  from redact_loop_result [OF this, of pick 0] show ?thesis
    using copyRedactedMap_safe [of _ m 1] by (auto simp: out list_all_iff subset_iff)
qed

theorem redactArgs_display_safe_witness:
  "redactArgs (\<lambda>_. 0) (JObj [(''token'', JStr ''t''), (''q'', JNull)]) = Some [(''q'', JNull)]
   \<and> display_safe 0 (JObj [(''q'', JNull)])"
proof -
  have "\<not> secretArgKey ''q''" "secretArgKey ''token''"
    by (simp_all add: secretArgKey_def lower_ascii_def visible_def)
  then have r: "redactArgs (\<lambda>_. 0) (JObj [(''token'', JStr ''t''), (''q'', JNull)]) = Some [(''q'', JNull)]"
    by (simp add: redactArgs_def copyRedactedMap_def copyRedactedValue.simps redact_loop.simps Marshal_def
        argsMetaMaxBytes_def argsMetaMaxDepth_def quote_string_def escape_unit_def)
  show ?thesis
    using r redactArgs_display_safe [OF _ r] by simp
qed

end
