(* ===== verification/Policy_Engine.thy ===== *)
theory Policy_Engine
  imports Policy_Rules Policy_Args
begin

text \<open>
  The policy engine (src/internal/policy/policy.go, webhook.go, cache.go, audit.go): construction
  from the configuration, overlay replacement, the decision chain of grants, predicates, webhook and
  mandatory approval, the decision cache and the audit record. The policy decision point behind the
  webhook, the clock and random IDs are arguments. The LRU is a map from keys to decisions together
  with an argument that says which keys have survived eviction and expiry at the time of a lookup.
\<close>

section \<open>The webhook layer\<close>

record webhookResponse =
  r_Allow :: "bool option"
  r_Effect :: string
  r_Reason :: string
  r_ReasonCode :: string
  r_RuleID :: string

text \<open>json.Unmarshal into the response struct: member names match without regard to case, null leaves
  a field alone, a member of the wrong type is an error, other members are ignored.\<close>

definition set_string :: "(string \<Rightarrow> webhookResponse \<Rightarrow> webhookResponse) \<Rightarrow> json \<Rightarrow> webhookResponse \<Rightarrow> webhookResponse option" where
  "set_string upd v r = (case v of JStr s \<Rightarrow> Some (upd s r) | JNull \<Rightarrow> Some r | _ \<Rightarrow> None)"

definition set_member :: "string \<times> json \<Rightarrow> webhookResponse \<Rightarrow> webhookResponse option" where
  "set_member kv r =
     (let k = ToLower (fst kv); v = snd kv in
      if k = ''allow'' then (case v of JBool b \<Rightarrow> Some (r\<lparr>r_Allow := Some b\<rparr>) | JNull \<Rightarrow> Some (r\<lparr>r_Allow := None\<rparr>) | _ \<Rightarrow> None)
      else if k = ''effect'' then set_string (\<lambda>s. r_Effect_update (\<lambda>_. s)) v r
      else if k = ''reason'' then set_string (\<lambda>s. r_Reason_update (\<lambda>_. s)) v r
      else if k = ''reason_code'' then set_string (\<lambda>s. r_ReasonCode_update (\<lambda>_. s)) v r
      else if k = ''rule_id'' then set_string (\<lambda>s. r_RuleID_update (\<lambda>_. s)) v r
      else Some r)"

definition decode_response :: "json \<Rightarrow> webhookResponse option" where
  "decode_response v =
     (let zero = \<lparr>r_Allow = None, r_Effect = [], r_Reason = [], r_ReasonCode = [], r_RuleID = []\<rparr> in
      case v of
        JNull \<Rightarrow> Some zero
      | JObj kvs \<Rightarrow> fold (\<lambda>kv r. Option.bind r (set_member kv)) kvs (Some zero)
      | _ \<Rightarrow> None)"

text \<open>What a request to the decision point yields: it cannot be built or sent (with the error text),
  the body cannot be read, or a status code with the body and its JSON value (None: not JSON).\<close>

datatype http_reply = RequestFailed string | BodyUnreadable | HttpReply int string "json option"

definition webhookFail :: "bool \<Rightarrow> string \<Rightarrow> string \<Rightarrow> PolicyDecision" where
  "webhookFail failClosed reason code =
     (if \<not> failClosed
      then \<lparr>Effect = EffectAllow, Reason = ''webhook error ignored (fail_open): '' @ reason, ReasonCode = [],
            RuleID = [], LatencyMs = 0\<rparr>
      else \<lparr>Effect = EffectDeny, Reason = reason, ReasonCode = code, RuleID = [], LatencyMs = 0\<rparr>)"

definition response_effect :: "webhookResponse \<Rightarrow> string" where
  "response_effect parsed =
     (if r_Effect parsed = [] then
        (case r_Allow parsed of Some True \<Rightarrow> EffectAllow | Some False \<Rightarrow> EffectDeny | None \<Rightarrow> [])
      else r_Effect parsed)"

definition webhook_Decide :: "(PolicyInput \<Rightarrow> http_reply) \<Rightarrow> PolicyInput \<Rightarrow> bool \<Rightarrow> PolicyDecision" where
  "webhook_Decide pdp inp failClosed =
     (let fail = (\<lambda>reason. webhookFail failClosed reason ReasonPolicyWebhookFailed) in
      case pdp inp of
        RequestFailed err \<Rightarrow> fail err
      | BodyUnreadable \<Rightarrow> fail ''policy webhook response unavailable or too large''
      | HttpReply code body v \<Rightarrow>
          if length body > 1048576 then fail ''policy webhook response unavailable or too large''
          else if code < 200 \<or> code \<ge> 300 then
            fail (if TrimSpace body = [] then ''policy webhook HTTP '' @ Itoa code else TrimSpace body)
          else
            (case Option.bind v decode_response of
               None \<Rightarrow> fail ''policy webhook response is not valid JSON''
             | Some parsed \<Rightarrow>
                 let effect = response_effect parsed in
                 if effect = [] then fail ''policy webhook response missing allow/effect''
                 else if effect \<noteq> EffectAllow \<and> effect \<noteq> EffectDeny \<and> effect \<noteq> EffectPending
                 then fail ''policy webhook response has invalid effect''
                 else
                   \<lparr>Effect = effect, Reason = r_Reason parsed,
                    ReasonCode = (if r_ReasonCode parsed = [] then
                                    (if effect = EffectDeny then ReasonPolicyWebhookDeny
                                     else if effect = EffectPending then ReasonPolicyPending else [])
                                  else r_ReasonCode parsed),
                    RuleID = r_RuleID parsed, LatencyMs = 0\<rparr>))"

section \<open>The decision cache\<close>

definition cacheKey :: "PolicyInput \<Rightarrow> string" where
  "cacheKey inp =
     in_Stage inp @ [CHR 0x00] @ in_TenantID inp @ [CHR 0x00] @ in_AgentID inp @ [CHR 0x00] @
     in_Principal inp @ [CHR 0x00] @ in_Connector inp @ [CHR 0x00] @ in_Tool inp @ [CHR 0x00] @ in_ArgsDigest inp"

type_synonym decisionCache = "string \<rightharpoonup> PolicyDecision"

definition cache_get :: "(string \<Rightarrow> bool) \<Rightarrow> decisionCache option \<Rightarrow> PolicyInput \<Rightarrow> PolicyDecision option" where
  "cache_get alive c inp =
     (case c of None \<Rightarrow> None | Some m \<Rightarrow> if alive (cacheKey inp) then m (cacheKey inp) else None)"

definition cache_put :: "PolicyInput \<Rightarrow> PolicyDecision \<Rightarrow> decisionCache option \<Rightarrow> decisionCache option" where
  "cache_put inp dec c = map_option (\<lambda>m. m(cacheKey inp \<mapsto> dec)) c"

definition cache_clear :: "decisionCache option \<Rightarrow> decisionCache option" where
  "cache_clear c = map_option (\<lambda>_. Map.empty) c"

section \<open>The engine\<close>

record Engine =
  baseline :: "Grant list"
  overlays :: "Grant list"
  static :: "Grant list option"
  webhook :: bool
  mandatoryHITLBaseline :: "MandatoryHITLRule list"
  mandatoryHITLOverlays :: "MandatoryHITLRule list"
  mandatoryHITL :: "MandatoryHITLRule list"
  predicates :: "Predicate list"
  auditor :: bool
  cache :: "decisionCache option"
  defaultEffect :: string
  failClosed :: bool

record PolicyConfig =
  c_DefaultEffect :: string
  c_FailClosed :: "bool option"
  c_CacheTTL :: int
  c_Grants :: "Grant list"
  c_Overlays :: "Grant list"
  c_MandatoryHITL :: "MandatoryHITLRule list"
  c_Predicates :: "Predicate list"
  c_WebhookURL :: "string option"
  c_Auditor :: bool
  c_ForceEnable :: bool

definition applyOverlaysLocked :: "Grant list \<Rightarrow> Engine \<Rightarrow> Engine" where
  "applyOverlaysLocked ovs e =
     (let merged = mergeGrants (baseline e) ovs in
      e\<lparr>overlays := ovs, static := (if merged = [] then None else Some merged),
        cache := cache_clear (cache e)\<rparr>)"

definition applyMandatoryHITLOverlaysLocked :: "MandatoryHITLRule list \<Rightarrow> Engine \<Rightarrow> Engine" where
  "applyMandatoryHITLOverlaysLocked ovs e =
     e\<lparr>mandatoryHITLOverlays := ovs,
       mandatoryHITL := mergeMandatoryHITL (mandatoryHITLBaseline e) ovs,
       cache := cache_clear (cache e)\<rparr>"

definition ReplaceOverlays :: "Grant list \<Rightarrow> Engine \<Rightarrow> Engine" where
  "ReplaceOverlays ovs e = applyOverlaysLocked ovs e"

definition ReplaceMandatoryHITL :: "MandatoryHITLRule list \<Rightarrow> Engine \<Rightarrow> Engine" where
  "ReplaceMandatoryHITL ovs e = applyMandatoryHITLOverlaysLocked ovs e"

fun valid_predicates :: "Predicate list \<Rightarrow> Predicate list" where
  "valid_predicates [] = []"
| "valid_predicates (p # ps) =
     (case ValidatePredicate p of Inl _ \<Rightarrow> valid_predicates ps | Inr vp \<Rightarrow> vp # valid_predicates ps)"

definition New :: "PolicyConfig \<Rightarrow> Engine option" where
  "New cfg =
     (let preds = valid_predicates (c_Predicates cfg);
          hasWebhook = (case c_WebhookURL cfg of None \<Rightarrow> False | Some url \<Rightarrow> TrimSpace url \<noteq> []) in
      if c_Grants cfg = [] \<and> c_Overlays cfg = [] \<and> \<not> hasWebhook \<and> c_MandatoryHITL cfg = []
         \<and> preds = [] \<and> \<not> c_ForceEnable cfg
      then None
      else
        let def = ToLower (TrimSpace (c_DefaultEffect cfg));
            e = \<lparr>baseline = c_Grants cfg, overlays = [], static = None, webhook = hasWebhook,
                 mandatoryHITLBaseline = c_MandatoryHITL cfg, mandatoryHITLOverlays = [], mandatoryHITL = [],
                 predicates = preds, auditor = c_Auditor cfg,
                 cache = (if c_CacheTTL cfg > 0 then Some Map.empty else None),
                 defaultEffect = (if def \<noteq> EffectAllow then EffectDeny else def),
                 failClosed = (case c_FailClosed cfg of None \<Rightarrow> True | Some b \<Rightarrow> b)\<rparr>
        in Some (applyMandatoryHITLOverlaysLocked [] (applyOverlaysLocked (c_Overlays cfg) e)))"

text \<open>What \<open>decide\<close> reads under the lock before it evaluates the layers.\<close>

record Snapshot =
  s_static :: "Grant list option"
  s_webhook :: bool
  s_default :: string
  s_failClosed :: bool
  s_preds :: "Predicate list"

definition take_snapshot :: "Engine \<Rightarrow> Snapshot" where
  "take_snapshot e = \<lparr>s_static = static e, s_webhook = webhook e, s_default = defaultEffect e,
     s_failClosed = failClosed e, s_preds = predicates e\<rparr>"

text \<open>The layers return the decision and what is put into the cache (None: nothing).\<close>

definition decideRunCreate ::
  "(PolicyInput \<Rightarrow> http_reply) \<Rightarrow> Snapshot \<Rightarrow> PolicyInput \<Rightarrow> PolicyDecision \<times> PolicyDecision option" where
  "decideRunCreate pdp s inp =
     (if s_webhook s then
        let dec = webhook_Decide pdp inp (s_failClosed s) in
        if Effect dec = EffectPending then
          let out = \<lparr>Effect = EffectDeny, Reason = ''run.create does not support pending'',
                     ReasonCode = ReasonPolicyAdmissionDeny, RuleID = RuleID dec, LatencyMs = 0\<rparr>
          in (out, Some out)
        else if Effect dec \<noteq> EffectAllow then
          let dec' = (if ReasonCode dec = [] then dec\<lparr>ReasonCode := ReasonPolicyAdmissionDeny\<rparr> else dec)
          in (dec', Some dec')
        else (dec, Some dec)
      else
        let out = \<lparr>Effect = EffectAllow, Reason = ''run.create admitted'', ReasonCode = [], RuleID = [], LatencyMs = 0\<rparr>
        in (out, Some out))"

definition static_layer :: "Snapshot \<Rightarrow> PolicyInput \<Rightarrow> PolicyDecision + PolicyDecision option" where
  "static_layer s inp =
     (case s_static s of
        None \<Rightarrow> Inr None
      | Some gs \<Rightarrow>
          let dec = static_decide gs inp in
          if Effect dec = EffectDeny then
            if ReasonCode dec = ReasonPolicyNoGrant \<and> s_default s = EffectAllow \<and> \<not> s_webhook s
            then Inr (Some \<lparr>Effect = EffectAllow, Reason = ''default allow (no matching grant)'', ReasonCode = [],
                            RuleID = [], LatencyMs = 0\<rparr>)
            else Inl dec
          else Inr (Some dec))"

definition webhook_layer ::
  "(PolicyInput \<Rightarrow> http_reply) \<Rightarrow> Snapshot \<Rightarrow> PolicyDecision option \<Rightarrow> PolicyInput
     \<Rightarrow> PolicyDecision \<times> PolicyDecision option" where
  "webhook_layer pdp s staticAllow inp =
     (let dec = webhook_Decide pdp inp (s_failClosed s) in
      if Effect dec \<noteq> EffectAllow then
        ((if Effect dec = EffectPending \<and> ReasonCode dec = [] then dec\<lparr>ReasonCode := ReasonPolicyPending\<rparr> else dec),
         (if Effect dec \<noteq> EffectPending then Some dec else None))
      else
        let dec' = (case staticAllow of None \<Rightarrow> dec | Some a \<Rightarrow> dec\<lparr>RuleID := RuleID a, Reason := Reason a\<rparr>)
        in (dec', Some dec'))"

definition default_decision :: "Snapshot \<Rightarrow> PolicyDecision" where
  "default_decision s =
     (if s_default s = EffectAllow
      then \<lparr>Effect = s_default s, Reason = ''default allow'', ReasonCode = [], RuleID = [], LatencyMs = 0\<rparr>
      else \<lparr>Effect = s_default s, Reason = ''no matching policy grant'', ReasonCode = ReasonPolicyDefaultDeny,
            RuleID = [], LatencyMs = 0\<rparr>)"

definition evaluate ::
  "(PolicyInput \<Rightarrow> http_reply) \<Rightarrow> Snapshot \<Rightarrow> PolicyInput \<Rightarrow> PolicyDecision \<times> PolicyDecision option" where
  "evaluate pdp s inp =
     (if in_Stage inp = StageRunCreate then decideRunCreate pdp s inp
      else case static_layer s inp of
        Inl dec \<Rightarrow> (dec, Some dec)
      | Inr staticAllow \<Rightarrow>
          (case applyPredicates (s_preds s) inp of
             Some pred \<Rightarrow> (pred, if Effect pred \<noteq> EffectPending then Some pred else None)
           | None \<Rightarrow>
               if s_webhook s then webhook_layer pdp s staticAllow inp
               else (case staticAllow of
                       Some a \<Rightarrow> (a, Some a)
                     | None \<Rightarrow> (default_decision s, Some (default_decision s)))))"

definition missing_binding :: PolicyDecision where
  "missing_binding =
     \<lparr>Effect = EffectDeny, Reason = ''policy requires tenant_id and agent_id from the run assignment'',
      ReasonCode = ReasonPolicyMissingBinding, RuleID = [], LatencyMs = 0\<rparr>"

definition cachePut :: "PolicyInput \<Rightarrow> PolicyDecision option \<Rightarrow> Engine \<Rightarrow> Engine" where
  "cachePut inp put e = (case put of None \<Rightarrow> e | Some d \<Rightarrow> e\<lparr>cache := cache_put inp d (cache e)\<rparr>)"

definition decide ::
  "(PolicyInput \<Rightarrow> http_reply) \<Rightarrow> (string \<Rightarrow> bool) \<Rightarrow> Engine \<Rightarrow> PolicyInput \<Rightarrow> PolicyDecision \<times> Engine" where
  "decide pdp alive e inp =
     (if TrimSpace (in_TenantID inp) = [] \<or> TrimSpace (in_AgentID inp) = [] then (missing_binding, e)
      else case cache_get alive (cache e) inp of
        Some hit \<Rightarrow> (hit, e)
      | None \<Rightarrow> (case evaluate pdp (take_snapshot e) inp of (dec, put) \<Rightarrow> (dec, cachePut inp put e)))"

record AuditEvent =
  a_ID :: string
  a_TenantID :: string
  a_Actor :: string
  a_Action :: string
  a_ResourceType :: string
  a_ResourceID :: string
  a_Decision :: string
  a_ReasonCode :: string
  a_RuleID :: string
  a_LatencyMs :: int
  a_RunID :: string
  a_Generation :: int64
  a_AgentID :: string
  a_Connector :: string
  a_Tool :: string
  a_Attrs :: "(string \<times> json) list"

definition policyAuditAttrs :: "PolicyInput \<Rightarrow> PolicyDecision \<Rightarrow> (string \<times> json) list" where
  "policyAuditAttrs inp dec =
     [(''reason'', JStr (Reason dec))]
     @ (if in_ArgsDigest inp \<noteq> [] then [(''args_digest'', JStr (in_ArgsDigest inp))] else [])
     @ (case in_ArgsMeta inp of None \<Rightarrow> [] | Some m \<Rightarrow> [(''args'', JObj m)])"

definition WritePolicyDecision :: "string \<Rightarrow> string \<Rightarrow> PolicyInput \<Rightarrow> PolicyDecision \<Rightarrow> AuditEvent" where
  "WritePolicyDecision randomID ctx_tenant inp dec =
     \<lparr>a_ID = randomID, a_TenantID = (if in_TenantID inp = [] then ctx_tenant else in_TenantID inp),
      a_Actor = in_Principal inp, a_Action = in_Stage inp, a_ResourceType = ''connector'', a_ResourceID = in_Connector inp,
      a_Decision = Effect dec, a_ReasonCode = ReasonCode dec, a_RuleID = RuleID dec,
      a_LatencyMs = LatencyMs dec, a_RunID = in_RunID inp, a_Generation = in_Generation inp,
      a_AgentID = in_AgentID inp, a_Connector = in_Connector inp, a_Tool = in_Tool inp,
      a_Attrs = policyAuditAttrs inp dec\<rparr>"

text \<open>\<open>Decide\<close> with the elapsed milliseconds, the audit record's ID and the context tenant as
  arguments; it returns the decision, the engine and the audit record (None without an auditor).\<close>

definition Decide ::
  "(PolicyInput \<Rightarrow> http_reply) \<Rightarrow> (string \<Rightarrow> bool) \<Rightarrow> int \<Rightarrow> string \<Rightarrow> string \<Rightarrow> Engine \<Rightarrow> PolicyInput
     \<Rightarrow> PolicyDecision \<times> Engine \<times> AuditEvent option" where
  "Decide pdp alive elapsed randomID ctx_tenant e inp =
     (case decide pdp alive e inp of
        (dec, e') \<Rightarrow>
          let dec' = (applyMandatoryHITL (mandatoryHITL e') inp dec)\<lparr>LatencyMs := elapsed\<rparr>
          in (dec', e', if auditor e' then Some (WritePolicyDecision randomID ctx_tenant inp dec') else None))"

section \<open>The webhook's answer\<close>

text \<open>The effect that a usable reply states, None when the reply counts as a failure.\<close>

definition reply_effect :: "http_reply \<Rightarrow> string option" where
  "reply_effect reply =
     (case reply of
        HttpReply code body v \<Rightarrow>
          if length body \<le> 1048576 \<and> 200 \<le> code \<and> code < 300 then
            (case Option.bind v decode_response of
               Some parsed \<Rightarrow> if response_effect parsed \<in> {EffectAllow, EffectDeny, EffectPending}
                              then Some (response_effect parsed) else None
             | None \<Rightarrow> None)
          else None
      | _ \<Rightarrow> None)"

lemma webhookFail_Effect [simp]: "Effect (webhookFail fc r c) = (if fc then EffectDeny else EffectAllow)"
  by (simp add: webhookFail_def)

lemma effects_not_Nil [simp]: "EffectAllow \<noteq> []" "EffectDeny \<noteq> []" "EffectPending \<noteq> []"
  by (simp_all add: effect_defs)

lemma webhook_Decide_Effect:
  "Effect (webhook_Decide pdp inp fc) =
     (case reply_effect (pdp inp) of Some eff \<Rightarrow> eff | None \<Rightarrow> if fc then EffectDeny else EffectAllow)"
proof (cases "pdp inp")
  case (HttpReply code body v)
  show ?thesis
  proof (cases "length body \<le> 1048576 \<and> 200 \<le> code \<and> code < 300")
    case True
    then show ?thesis
      using HttpReply
      by (cases "Option.bind v decode_response") (auto simp: webhook_Decide_def reply_effect_def Let_def)
  next
    case False
    then show ?thesis
      using HttpReply by (auto simp: webhook_Decide_def reply_effect_def Let_def)
  qed
qed (simp_all add: webhook_Decide_def reply_effect_def Let_def)

lemma webhook_Decide_pending_code:
  "Effect (webhook_Decide pdp inp fc) = EffectPending \<Longrightarrow> ReasonCode (webhook_Decide pdp inp fc) \<noteq> []"
  by (auto simp: webhook_Decide_def webhookFail_def Let_def ReasonPolicyPending_def
      split: http_reply.splits option.splits if_splits)

section \<open>What a decision allows\<close>

definition grant_layer_passes :: "Snapshot \<Rightarrow> PolicyInput \<Rightarrow> bool" where
  "grant_layer_passes s inp \<longleftrightarrow>
     (case s_static s of
        None \<Rightarrow> s_webhook s \<or> s_default s = EffectAllow
      | Some gs \<Rightarrow>
          (case rule_for grant_key (input_key inp) gs of
             None \<Rightarrow> s_default s = EffectAllow \<and> \<not> s_webhook s
           | Some g \<Rightarrow> tool_permitted inp g))"

definition webhook_passes :: "(PolicyInput \<Rightarrow> http_reply) \<Rightarrow> Snapshot \<Rightarrow> PolicyInput \<Rightarrow> bool" where
  "webhook_passes pdp s inp \<longleftrightarrow>
     (s_webhook s \<longrightarrow>
        reply_effect (pdp inp) = Some EffectAllow \<or> (reply_effect (pdp inp) = None \<and> \<not> s_failClosed s))"

lemma webhook_allow:
  assumes "s_webhook s"
  shows "Effect (webhook_Decide pdp inp (s_failClosed s)) = EffectAllow \<longleftrightarrow> webhook_passes pdp s inp"
  using assms by (auto simp: webhook_Decide_Effect webhook_passes_def split: option.splits)

lemma static_layer_cases:
  "static_layer s inp =
     (case s_static s of
        None \<Rightarrow> Inr None
      | Some gs \<Rightarrow> if grant_layer_passes s inp
                    then Inr (Some (if Effect (static_decide gs inp) = EffectDeny
                      then \<lparr>Effect = EffectAllow, Reason = ''default allow (no matching grant)'', ReasonCode = [],
                            RuleID = [], LatencyMs = 0\<rparr> else static_decide gs inp))
                    else Inl (static_decide gs inp))"
  by (auto simp: static_layer_def Let_def grant_layer_passes_def static_decide_effect static_decide_no_grant
      split: option.splits)

lemma static_layer_Inl_Effect: "static_layer s inp = Inl dec \<Longrightarrow> Effect dec = EffectDeny"
  by (auto simp: static_layer_def Let_def split: option.splits if_splits)

lemma static_layer_Inr_Effect: "static_layer s inp = Inr (Some dec) \<Longrightarrow> Effect dec = EffectAllow"
  by (auto simp: static_layer_def Let_def static_decide_effect split: option.splits if_splits)

lemma webhook_layer_Effect:
  "Effect (fst (webhook_layer pdp s a inp)) = Effect (webhook_Decide pdp inp (s_failClosed s))"
  by (auto simp: webhook_layer_def Let_def split: option.splits)

lemma evaluate_allow_iff:
  assumes "in_Stage inp \<noteq> StageRunCreate"
  shows "Effect (fst (evaluate pdp s inp)) = EffectAllow \<longleftrightarrow>
    grant_layer_passes s inp \<and> applyPredicates (s_preds s) inp = None \<and> webhook_passes pdp s inp"
proof (cases "static_layer s inp")
  case (Inl dec)
  then have "\<not> grant_layer_passes s inp"
    by (auto simp: static_layer_cases split: option.splits if_splits)
  with Inl show ?thesis
    using assms static_layer_Inl_Effect [OF Inl] by (simp add: evaluate_def)
next
  case (Inr a)
  show ?thesis
  proof (cases "applyPredicates (s_preds s) inp")
    case (Some p)
    then show ?thesis
      using assms Inr applyPredicates_effect [OF Some] by (auto simp: evaluate_def)
  next
    case None
    show ?thesis
    proof (cases "s_webhook s")
      case True
      have "grant_layer_passes s inp"
        using Inr True by (auto simp: static_layer_cases grant_layer_passes_def split: option.splits if_splits)
      then show ?thesis
        using True None Inr assms by (simp add: evaluate_def webhook_layer_Effect webhook_allow)
    next
      case False
      then have wp: "webhook_passes pdp s inp" by (simp add: webhook_passes_def)
      show ?thesis
      proof (cases a)
        case None': None
        then have "s_static s = None"
          using Inr by (auto simp: static_layer_cases split: option.splits if_splits)
        then show ?thesis
          using False None None' Inr assms wp
          by (auto simp: evaluate_def grant_layer_passes_def default_decision_def)
      next
        case (Some d)
        then have "grant_layer_passes s inp"
          using Inr by (auto simp: static_layer_cases split: option.splits if_splits)
        then show ?thesis
          using False None Some Inr assms wp static_layer_Inr_Effect [of s inp d] by (simp add: evaluate_def)
      qed
    qed
  qed
qed

lemma evaluate_put: "snd (evaluate pdp s inp) = Some d \<Longrightarrow> d = fst (evaluate pdp s inp)"
  by (auto simp: evaluate_def decideRunCreate_def webhook_layer_def Let_def
      split: sum.splits option.splits if_splits)

text \<open>Only tool calls are ever pending, and pending decisions are never cached.\<close>

lemma evaluate_put_not_pending:
  "snd (evaluate pdp s inp) = Some d \<Longrightarrow> s_default s = EffectAllow \<or> s_default s = EffectDeny \<Longrightarrow>
     Effect d \<noteq> EffectPending"
  by (auto simp: evaluate_def decideRunCreate_def webhook_layer_def default_decision_def Let_def
      dest: static_layer_Inl_Effect static_layer_Inr_Effect
      split: sum.splits option.splits if_splits)

section \<open>Predicates see a value only up to its digest form\<close>

lemma valid_asNumber [simp]: "num_valid n \<Longrightarrow> asNumber (JNum n) = Some n"
  by (simp add: asNumber_def CompareNumbers_correct)

lemma asNumber_other [simp]:
  "asNumber JNull = None" "asNumber (JBool b) = None" "asNumber (JStr s) = None" "asNumber (JArr xs) = None"
  "asNumber (JObj kvs) = None"
  by (simp_all add: asNumber_def)

lemma valuesEqual_Equal:
  assumes "well_formed a" "well_formed b"
  shows "valuesEqual a b \<longleftrightarrow> digest_form a = digest_form b"
proof -
  have "valuesEqual a b \<longleftrightarrow> Equal a b"
    using assms by (cases a; cases b) (simp_all add: valuesEqual_def)
  then show ?thesis
    using Equal_digest_form [OF assms] by simp
qed

lemma map_of_sort_key:
  fixes xs :: "(string \<times> json) list"
  assumes "distinct (map fst xs)"
  shows "map_of (sort_key fst xs) = map_of xs"
proof -
  have "distinct (map fst (sort_key fst xs))"
    using assms by (simp add: distinct_map)
  then show ?thesis
    using map_of_inject_set [of "sort_key fst xs" xs] assms by simp
qed

lemma map_of_digest_form:
  fixes kvs :: "(string \<times> json) list"
  shows "distinct (map fst kvs) \<Longrightarrow>
     map_of (sort_key fst (map (\<lambda>kv. (fst kv, digest_form (snd kv))) kvs)) k = map_option digest_form (map_of kvs k)"
  using map_of_map [of digest_form kvs] map_of_sort_key [of "map (\<lambda>kv. (fst kv, digest_form (snd kv))) kvs"]
  by (simp add: comp_def case_prod_unfold)

lemma lookup_segments_form:
  "well_formed v \<Longrightarrow>
     lookup_segments (digest_form v) segs = map_option digest_form (lookup_segments v segs)
     \<and> (\<forall>w. lookup_segments v segs = Some w \<longrightarrow> well_formed w)"
proof (induction segs arbitrary: v)
  case (Cons seg segs)
  show ?case
  proof (cases v)
    case (JObj kvs)
    have "well_formed w" if "map_of kvs seg = Some w" for w
      using Cons.prems JObj map_of_SomeD [OF that] by auto
    then show ?thesis
      using JObj Cons map_of_digest_form [of kvs seg] by (cases "map_of kvs seg") auto
  next
    case (JArr t)
    have "well_formed (t ! nat i)" if "\<not> i < 0" "i < int (length t)" for i
      using Cons.prems JArr that by simp
    then have IH: "\<not> i < 0 \<Longrightarrow> i < int (length t) \<Longrightarrow>
        lookup_segments (digest_form (t ! nat i)) segs = map_option digest_form (lookup_segments (t ! nat i) segs)
        \<and> (\<forall>w. lookup_segments (t ! nat i) segs = Some w \<longrightarrow> well_formed w)" for i
      using Cons.IH by blast
    show ?thesis
    proof (cases "Atoi seg")
      case (Some i)
      then show ?thesis using JArr IH [of i] by (auto simp: not_le)
    qed (simp add: JArr)
  next
    case (JNum n)
    then show ?thesis using Cons.prems by (simp add: digest_form_num)
  qed simp_all
qed simp

definition op_holds :: "Predicate \<Rightarrow> json \<Rightarrow> bool" where
  "op_holds p g =
     (let op = p_Op p; v = p_Value p in
      if op = ''eq'' then valuesEqual g v
      else if op = ''neq'' then \<not> valuesEqual g v
      else if op \<in> {''gt'', ''gte'', ''lt'', ''lte''} then
        (case (asNumber g, asNumber v) of
           (Some a, Some b) \<Rightarrow>
             (case CompareNumbers a b of
                None \<Rightarrow> False
              | Some order \<Rightarrow>
                  if op = ''gt'' then order > 0 else if op = ''gte'' then order \<ge> 0
                  else if op = ''lt'' then order < 0 else order \<le> 0)
         | _ \<Rightarrow> False)
      else if op = ''in'' then (case asSlice v of None \<Rightarrow> False | Some sl \<Rightarrow> list_ex (valuesEqual g) sl)
      else if op = ''contains'' then
        (case g of
           JStr gs \<Rightarrow> (case v of JStr want \<Rightarrow> Contains gs want | _ \<Rightarrow> False)
         | _ \<Rightarrow> (case asSlice g of Some sl \<Rightarrow> list_ex (\<lambda>item. valuesEqual item v) sl | None \<Rightarrow> False))
      else False)"

lemma evalPredicate_op_holds:
  "evalPredicate p inp =
     (case lookupPath (predicateArgs inp) (p_Path p) of
        None \<Rightarrow> (False, p_Op p = ''exists'')
      | Some g \<Rightarrow> (p_Op p = ''exists'' \<or> op_holds p g, True))"
  by (auto simp: evalPredicate_def op_holds_def Let_def split: option.splits json.splits)

lemma list_ex_cong_form:
  assumes "map digest_form xs = map digest_form ys" "\<forall>x\<in>set xs. well_formed x" "\<forall>y\<in>set ys. well_formed y" "well_formed v"
  shows "list_ex (\<lambda>i. valuesEqual i v) xs = list_ex (\<lambda>i. valuesEqual i v) ys"
proof -
  have "list_ex (\<lambda>i. valuesEqual i v) zs \<longleftrightarrow> digest_form v \<in> set (map digest_form zs)"
    if "\<forall>z\<in>set zs. well_formed z" for zs
    using that valuesEqual_Equal [OF _ assms(4)] by (auto simp: list_ex_iff image_iff) metis
  then show ?thesis using assms by metis
qed

lemma op_holds_form:
  assumes "well_formed g" "well_formed h" "digest_form g = digest_form h" "well_formed (p_Value p)"
  shows "op_holds p g = op_holds p h"
proof -
  have ve: "valuesEqual g v = valuesEqual h v" if "well_formed v" for v
    using valuesEqual_Equal [OF assms(1) that] valuesEqual_Equal [OF assms(2) that] assms(3) by simp
  have vl: "list_ex (valuesEqual g) sl = list_ex (valuesEqual h) sl" if "asSlice (p_Value p) = Some sl" for sl
  proof -
    have "\<forall>x\<in>set sl. well_formed x"
      using that assms(4) by (auto simp: asSlice_def split: json.splits)
    then show ?thesis using ve by (auto simp: list_ex_iff)
  qed
  show ?thesis
  proof (cases g)
    case (JNum a)
    then obtain b where h: "h = JNum b"
      using assms by (cases h) (auto simp: digest_form_num)
    have "num_valid a" "num_valid b" using assms JNum h by simp_all
    moreover from this have "num_value a = num_value b"
      using CanonicalNumber_eq assms(3) JNum h
      by (metis CanonicalNumber_value digest_form_num json.inject(2) option.sel)
    ultimately have "CompareNumbers a c = CompareNumbers b c" for c
      by (simp add: CompareNumbers_correct)
    then show ?thesis
      using JNum h ve [OF assms(4)] vl \<open>num_valid a\<close> \<open>num_valid b\<close>
      by (auto simp: op_holds_def Let_def asSlice_def split: option.splits json.splits)
  next
    case (JArr xs)
    then obtain ys where h: "h = JArr ys"
      using assms by (cases h) (auto simp: digest_form_num)
    have "list_ex (\<lambda>i. valuesEqual i (p_Value p)) xs = list_ex (\<lambda>i. valuesEqual i (p_Value p)) ys"
      using assms JArr h by (intro list_ex_cong_form) auto
    then show ?thesis
      using JArr h ve [OF assms(4)] vl by (auto simp: op_holds_def Let_def asSlice_def split: option.splits)
  next
    case (JStr s)
    then have "h = JStr s"
      using assms digest_form_atoms(3) [OF assms(2)] by auto
    then show ?thesis using JStr by simp
  next
    case (JObj kvs)
    then obtain ys where h: "h = JObj ys"
      using assms by (cases h) (auto simp: digest_form_num)
    then show ?thesis
      using JObj ve [OF assms(4)] vl by (auto simp: op_holds_def Let_def asSlice_def split: option.splits)
  next
    case JNull
    then have "h = JNull" using assms digest_form_atoms(1) [OF assms(2)] by auto
    then show ?thesis using JNull by simp
  next
    case (JBool b)
    then have "h = JBool b" using assms digest_form_atoms(2) [OF assms(2)] by auto
    then show ?thesis using JBool by simp
  qed
qed

lemma evalPredicate_form:
  assumes "well_formed (predicateArgs i)" "well_formed (predicateArgs j)"
    and "digest_form (predicateArgs i) = digest_form (predicateArgs j)" and "well_formed (p_Value p)"
  shows "evalPredicate p i = evalPredicate p j"
proof -
  let ?s = "Split (CHR ''.'') (p_Path p)"
  note li = lookup_segments_form [OF assms(1), of ?s] and lj = lookup_segments_form [OF assms(2), of ?s]
  show ?thesis
  proof (cases "lookup_segments (predicateArgs i) ?s")
    case None
    then have "lookup_segments (predicateArgs j) ?s = None"
      using li lj assms(3) by simp
    with None show ?thesis by (simp add: evalPredicate_op_holds lookupPath_def)
  next
    case (Some g)
    then obtain h where h: "lookup_segments (predicateArgs j) ?s = Some h" "digest_form g = digest_form h"
      using li lj assms(3) by auto
    have "op_holds p g = op_holds p h"
      using op_holds_form [OF _ _ h(2) assms(4)] li lj Some h(1) by blast
    with Some h show ?thesis by (simp add: evalPredicate_op_holds lookupPath_def)
  qed
qed


section \<open>The cache returns what a fresh evaluation would\<close>

text \<open>An input as the gateway builds it: no NUL byte in the key fields, and for a tool call the
  arguments accepted by the strict decoder with their digest.\<close>

definition key_fields :: "PolicyInput \<Rightarrow> string list" where
  "key_fields inp = [in_Stage inp, in_TenantID inp, in_AgentID inp, in_Principal inp, in_Connector inp,
     in_Tool inp, in_ArgsDigest inp]"

definition bound_input :: "(string \<Rightarrow> string) \<Rightarrow> PolicyInput \<Rightarrow> bool" where
  "bound_input sha256_hex inp \<longleftrightarrow>
     (\<forall>f\<in>set (key_fields inp). CHR 0x00 \<notin> set f)
     \<and> (in_Stage inp = StageToolCall \<longrightarrow>
          well_formed (in_Args inp) \<and> in_Args inp \<noteq> JNull
          \<and> in_ArgsDigest inp = digestArgs sha256_hex (in_Args inp))"

lemma cacheKey_join: "cacheKey inp = join_sep (CHR 0x00) (key_fields inp)"
  by (simp add: cacheKey_def key_fields_def)

lemma cacheKey_inj:
  assumes "bound_input sha i" "bound_input sha j"
  shows "cacheKey i = cacheKey j \<longleftrightarrow> key_fields i = key_fields j"
  unfolding cacheKey_join
  by (rule join_sep_inj) (use assms in \<open>auto simp: bound_input_def key_fields_def\<close>)

text \<open>What the code relies on outside the repository: SHA-256 does not collide on argument payloads,
  and the decision point's answer depends on the keyed fields only (run and generation are left out
  of the key on purpose).\<close>

definition collision_free :: "(string \<Rightarrow> string) \<Rightarrow> bool" where
  "collision_free sha256_hex \<longleftrightarrow>
     (\<forall>a b. sha256_hex (digest_payload a) = sha256_hex (digest_payload b) \<longrightarrow> digest_payload a = digest_payload b)"

definition keyed_pdp :: "(PolicyInput \<Rightarrow> http_reply) \<Rightarrow> bool" where
  "keyed_pdp pdp \<longleftrightarrow> (\<forall>i j. cacheKey i = cacheKey j \<longrightarrow> pdp i = pdp j)"

lemma same_key_predicates:
  assumes "bound_input sha i" "bound_input sha j" "cacheKey i = cacheKey j" "collision_free sha"
    and "\<forall>p\<in>set ps. well_formed (p_Value p)"
  shows "applyPredicates ps i = applyPredicates ps j"
proof (cases "in_Stage i = StageToolCall")
  case True
  have k: "key_fields i = key_fields j"
    using cacheKey_inj assms(1-3) by blast
  then have f: "in_Stage i = in_Stage j" "in_TenantID i = in_TenantID j" "in_AgentID i = in_AgentID j"
    "in_Connector i = in_Connector j" "in_Tool i = in_Tool j" "in_ArgsDigest i = in_ArgsDigest j"
    by (simp_all add: key_fields_def)
  have bi: "well_formed (in_Args i)" "in_Args i \<noteq> JNull" "in_ArgsDigest i = digestArgs sha (in_Args i)"
    and bj: "well_formed (in_Args j)" "in_Args j \<noteq> JNull" "in_ArgsDigest j = digestArgs sha (in_Args j)"
    using assms(1,2) True f(1) by (simp_all add: bound_input_def)
  then have "digest_payload (in_Args i) = digest_payload (in_Args j)"
    using f(6) assms(4) by (auto simp: digestArgs_def collision_free_def)
  then have form: "digest_form (in_Args i) = digest_form (in_Args j)"
    using digest_payload_Equal [OF bi(1) bj(1) bi(2) bj(2)] Equal_digest_form [OF bi(1) bj(1)] by blast
  have "pred_fires i p = pred_fires j p" if "p \<in> set ps" for p
  proof -
    have "evalPredicate p i = evalPredicate p j"
      using bi bj form assms(5) that by (intro evalPredicate_form) (simp_all add: predicateArgs_def)
    then show ?thesis by (simp add: pred_fires_def predicateMatchesScope_def f)
  qed
  then have "find (\<lambda>p. pred_fires i p \<and> p_Effect p = eff) ps = find (\<lambda>p. pred_fires j p \<and> p_Effect p = eff) ps" for eff
    by (intro find_cong) auto
  then show ?thesis
    using True f(1) by (simp add: applyPredicates_spec split: option.split)
next
  case False
  have "key_fields i = key_fields j"
    using cacheKey_inj assms(1-3) by blast
  then have "in_Stage j \<noteq> StageToolCall" using False by (simp add: key_fields_def)
  with False show ?thesis by (simp add: applyPredicates_other_stage)
qed

lemma same_key_evaluate:
  assumes "bound_input sha i" "bound_input sha j" "cacheKey i = cacheKey j" "collision_free sha" "keyed_pdp pdp"
    and "\<forall>p\<in>set (s_preds s). well_formed (p_Value p)"
  shows "evaluate pdp s i = evaluate pdp s j"
proof -
  have k: "key_fields i = key_fields j"
    using cacheKey_inj assms(1-3) by blast
  then have f: "in_Stage i = in_Stage j" "in_TenantID i = in_TenantID j" "in_AgentID i = in_AgentID j"
    "in_Connector i = in_Connector j" "in_Tool i = in_Tool j"
    by (simp_all add: key_fields_def)
  have pdp: "pdp i = pdp j"
    using assms(3,5) unfolding keyed_pdp_def by blast
  have wd: "webhook_Decide pdp i fc = webhook_Decide pdp j fc" for fc
    by (simp add: webhook_Decide_def pdp)
  have gm: "grant_matches i = grant_matches j"
    by (simp add: grant_matches_def fun_eq_iff f)
  have sd: "static_decide gs i = static_decide gs j" for gs
    unfolding static_decide_def gm f by (rule refl)
  note ap = same_key_predicates [OF assms(1-4,6)]
  show ?thesis
    unfolding evaluate_def decideRunCreate_def static_layer_def webhook_layer_def wd sd f ap by (rule refl)
qed

definition cache_coherent :: "(PolicyInput \<Rightarrow> http_reply) \<Rightarrow> (string \<Rightarrow> string) \<Rightarrow> Engine \<Rightarrow> bool" where
  "cache_coherent pdp sha e \<longleftrightarrow>
     (\<forall>m inp d. cache e = Some m \<longrightarrow> bound_input sha inp \<longrightarrow> m (cacheKey inp) = Some d \<longrightarrow>
        d = fst (evaluate pdp (take_snapshot e) inp))"

definition engine_inv :: "Engine \<Rightarrow> bool" where
  "engine_inv e \<longleftrightarrow>
     (defaultEffect e = EffectAllow \<or> defaultEffect e = EffectDeny)
     \<and> static e = (if mergeGrants (baseline e) (overlays e) = [] then None else Some (mergeGrants (baseline e) (overlays e)))
     \<and> mandatoryHITL e = mergeMandatoryHITL (mandatoryHITLBaseline e) (mandatoryHITLOverlays e)
     \<and> (\<forall>p\<in>set (predicates e). (p_Effect p = EffectDeny \<or> p_Effect p = EffectPending) \<and> well_formed (p_Value p))"

text \<open>The engine's life under calls that do not overlap.\<close>

inductive engine_reach :: "(PolicyInput \<Rightarrow> http_reply) \<Rightarrow> (string \<Rightarrow> string) \<Rightarrow> Engine \<Rightarrow> bool"
  for pdp :: "PolicyInput \<Rightarrow> http_reply" and sha :: "string \<Rightarrow> string" where
  start: "New cfg = Some e \<Longrightarrow> \<forall>p\<in>set (c_Predicates cfg). well_formed (p_Value p) \<Longrightarrow> engine_reach pdp sha e"
| decided: "engine_reach pdp sha e \<Longrightarrow> bound_input sha inp \<Longrightarrow> engine_reach pdp sha (snd (decide pdp alive e inp))"
| grants: "engine_reach pdp sha e \<Longrightarrow> engine_reach pdp sha (ReplaceOverlays ovs e)"
| approvals: "engine_reach pdp sha e \<Longrightarrow> engine_reach pdp sha (ReplaceMandatoryHITL hs e)"

lemma take_snapshot_cache [simp]: "take_snapshot (e\<lparr>cache := c\<rparr>) = take_snapshot e"
  by (simp add: take_snapshot_def)

lemma cachePut_frame [simp]:
  "take_snapshot (cachePut inp put e) = take_snapshot e" "mandatoryHITL (cachePut inp put e) = mandatoryHITL e"
  "engine_inv (cachePut inp put e) = engine_inv e" "auditor (cachePut inp put e) = auditor e"
  by (simp_all add: cachePut_def engine_inv_def split: option.splits)

lemma valid_predicates_ok:
  assumes "\<forall>p\<in>set ps. well_formed (p_Value p)" "q \<in> set (valid_predicates ps)"
  shows "(p_Effect q = EffectDeny \<or> p_Effect q = EffectPending) \<and> well_formed (p_Value q)"
  using assms
proof (induction ps)
  case (Cons p ps)
  then show ?case
    using ValidatePredicate_ok [of p] by (auto split: sum.splits)
qed simp

lemma engine_inv_build:
  assumes "defaultEffect e = EffectAllow \<or> defaultEffect e = EffectDeny"
    and "\<forall>p\<in>set (predicates e). (p_Effect p = EffectDeny \<or> p_Effect p = EffectPending) \<and> well_formed (p_Value p)"
  shows "engine_inv (applyMandatoryHITLOverlaysLocked hs (applyOverlaysLocked ovs e))"
  using assms by (simp add: applyOverlaysLocked_def applyMandatoryHITLOverlaysLocked_def engine_inv_def Let_def)

lemma New_Some:
  assumes "New cfg = Some e"
  obtains e0 where "e = applyMandatoryHITLOverlaysLocked [] (applyOverlaysLocked (c_Overlays cfg) e0)"
    and "defaultEffect e0 = EffectAllow \<or> defaultEffect e0 = EffectDeny"
    and "predicates e0 = valid_predicates (c_Predicates cfg)"
proof -
  let ?def = "ToLower (TrimSpace (c_DefaultEffect cfg))"
  let ?e0 = "\<lparr>baseline = c_Grants cfg, overlays = [], static = None,
      webhook = (case c_WebhookURL cfg of None \<Rightarrow> False | Some url \<Rightarrow> TrimSpace url \<noteq> []),
      mandatoryHITLBaseline = c_MandatoryHITL cfg, mandatoryHITLOverlays = [], mandatoryHITL = [],
      predicates = valid_predicates (c_Predicates cfg), auditor = c_Auditor cfg,
      cache = (if c_CacheTTL cfg > 0 then Some Map.empty else None),
      defaultEffect = (if ?def \<noteq> EffectAllow then EffectDeny else ?def),
      failClosed = (case c_FailClosed cfg of None \<Rightarrow> True | Some b \<Rightarrow> b)\<rparr>"
  have "e = applyMandatoryHITLOverlaysLocked [] (applyOverlaysLocked (c_Overlays cfg) ?e0)"
    using assms unfolding New_def Let_def by (metis option.distinct(1) option.inject)
  then show ?thesis
    by (rule that) simp_all
qed

lemma engine_inv_New:
  assumes "New cfg = Some e" "\<forall>p\<in>set (c_Predicates cfg). well_formed (p_Value p)"
  shows "engine_inv e"
proof -
  obtain e0 where e0: "e = applyMandatoryHITLOverlaysLocked [] (applyOverlaysLocked (c_Overlays cfg) e0)"
    "defaultEffect e0 = EffectAllow \<or> defaultEffect e0 = EffectDeny"
    "predicates e0 = valid_predicates (c_Predicates cfg)"
    using New_Some [OF assms(1)] .
  have "\<forall>p\<in>set (predicates e0). (p_Effect p = EffectDeny \<or> p_Effect p = EffectPending) \<and> well_formed (p_Value p)"
    unfolding e0(3) using valid_predicates_ok [OF assms(2)] by blast
  then show ?thesis
    unfolding e0(1) by (rule engine_inv_build [OF e0(2)])
qed

lemma engine_inv_reach: "engine_reach pdp sha e \<Longrightarrow> engine_inv e"
proof (induction rule: engine_reach.induct)
  case (start cfg e)
  then show ?case by (rule engine_inv_New)
next
  case (decided e inp alive)
  then show ?case by (auto simp: decide_def split: option.splits prod.splits)
next
  case (grants e ovs)
  then show ?case
    by (simp add: ReplaceOverlays_def applyOverlaysLocked_def engine_inv_def Let_def)
next
  case (approvals e hs)
  then show ?case
    by (simp add: ReplaceMandatoryHITL_def applyMandatoryHITLOverlaysLocked_def engine_inv_def)
qed

lemma cache_clear_coherent: "cache e = cache_clear c \<Longrightarrow> cache_coherent pdp sha e"
  by (auto simp: cache_coherent_def cache_clear_def)

lemma cachePut_coherent:
  assumes "cache_coherent pdp sha e" "bound_input sha inp" "collision_free sha" "keyed_pdp pdp" "engine_inv e"
  shows "cache_coherent pdp sha (cachePut inp (snd (evaluate pdp (take_snapshot e) inp)) e)"
proof -
  have wf: "\<forall>p\<in>set (s_preds (take_snapshot e)). well_formed (p_Value p)"
    using assms(5) by (simp add: engine_inv_def take_snapshot_def)
  show ?thesis
    unfolding cache_coherent_def
  proof (intro allI impI)
    fix m i d
    assume m: "cache (cachePut inp (snd (evaluate pdp (take_snapshot e) inp)) e) = Some m"
      and i: "bound_input sha i" and d: "m (cacheKey i) = Some d"
    show "d = fst (evaluate pdp (take_snapshot (cachePut inp (snd (evaluate pdp (take_snapshot e) inp)) e)) i)"
    proof (cases "snd (evaluate pdp (take_snapshot e) inp)")
      case None
      then show ?thesis
        using m i d assms(1) by (simp add: cachePut_def cache_coherent_def)
    next
      case (Some put)
      then obtain m0 where m0: "cache e = Some m0" "m = m0(cacheKey inp \<mapsto> put)"
        using m by (auto simp: cachePut_def cache_put_def)
      show ?thesis
      proof (cases "cacheKey i = cacheKey inp")
        case True
        then have "d = put" using m0 d by simp
        also have "put = fst (evaluate pdp (take_snapshot e) inp)"
          using evaluate_put [OF Some] .
        also have "\<dots> = fst (evaluate pdp (take_snapshot e) i)"
          using same_key_evaluate [OF i assms(2) True assms(3,4) wf] by simp
        finally show ?thesis by simp
      next
        case False
        then show ?thesis
          using m0 d i assms(1) by (simp add: cache_coherent_def)
      qed
    qed
  qed
qed

lemma cache_coherent_reach:
  assumes "collision_free sha" "keyed_pdp pdp"
  shows "engine_reach pdp sha e \<Longrightarrow> cache_coherent pdp sha e"
proof (induction rule: engine_reach.induct)
  case (start cfg e)
  then obtain e' where "e = applyMandatoryHITLOverlaysLocked [] e'"
    using New_Some by metis
  then show ?case
    by (intro cache_clear_coherent [of _ "cache e'"]) (simp add: applyMandatoryHITLOverlaysLocked_def)
next
  case (decided e inp alive)
  have "cache_coherent pdp sha (cachePut inp (snd (evaluate pdp (take_snapshot e) inp)) e)"
    using cachePut_coherent [OF decided.IH decided.hyps(2) assms engine_inv_reach [OF decided.hyps(1)]] .
  then show ?case
    using decided.IH by (auto simp: decide_def split: option.splits prod.splits)
next
  case (grants e ovs)
  show ?case
    by (intro cache_clear_coherent [of _ "cache e"]) (simp add: ReplaceOverlays_def applyOverlaysLocked_def Let_def)
next
  case (approvals e hs)
  show ?case
    by (intro cache_clear_coherent [of _ "cache e"])
      (simp add: ReplaceMandatoryHITL_def applyMandatoryHITLOverlaysLocked_def)
qed

section \<open>Decisions of a reachable engine\<close>

lemma decide_fresh:
  assumes "collision_free sha" "keyed_pdp pdp" "engine_reach pdp sha e" "bound_input sha inp"
  shows "fst (decide pdp alive e inp) =
    (if TrimSpace (in_TenantID inp) = [] \<or> TrimSpace (in_AgentID inp) = [] then missing_binding
     else fst (evaluate pdp (take_snapshot e) inp))"
proof -
  have "d = fst (evaluate pdp (take_snapshot e) inp)" if "cache_get alive (cache e) inp = Some d" for d
    using cache_coherent_reach [OF assms(1-3)] assms(4) that
    by (auto simp: cache_get_def cache_coherent_def split: option.splits if_splits)
  then show ?thesis
    by (auto simp: decide_def split: option.splits prod.splits)
qed

lemma decide_frame [simp]:
  "mandatoryHITL (snd (decide pdp alive e inp)) = mandatoryHITL e"
  "auditor (snd (decide pdp alive e inp)) = auditor e"
  by (auto simp: decide_def split: option.splits prod.splits)

lemma Decide_result:
  "fst (Decide pdp alive ms rid ctx e inp) =
     (applyMandatoryHITL (mandatoryHITL e) inp (fst (decide pdp alive e inp)))\<lparr>LatencyMs := ms\<rparr>"
  using decide_frame(1) [of pdp alive e inp]
  by (cases "decide pdp alive e inp") (simp add: Decide_def Let_def)

section \<open>A sample deployment\<close>

definition sample_sha :: "string \<Rightarrow> string" where
  "sample_sha s = drop 23 s"

lemma sample_sha_ok: "collision_free sample_sha"
  by (simp add: collision_free_def sample_sha_def digest_payload_def)

definition sample_pdp :: "PolicyInput \<Rightarrow> http_reply" where
  "sample_pdp inp = RequestFailed ''connection refused''"

lemma sample_pdp_ok: "keyed_pdp sample_pdp"
  by (simp add: keyed_pdp_def sample_pdp_def)

definition sample_grant :: Grant where
  "sample_grant = \<lparr>g_ID = ''g1'', g_TenantID = ''acme'', g_AgentID = ''bot'', g_Connector = ''crm'', g_Tools = None\<rparr>"

definition sample_config :: PolicyConfig where
  "sample_config = \<lparr>c_DefaultEffect = [], c_FailClosed = None, c_CacheTTL = 30, c_Grants = [],
     c_Overlays = [sample_grant], c_MandatoryHITL = [], c_Predicates = [], c_WebhookURL = None,
     c_Auditor = True, c_ForceEnable = False\<rparr>"

definition sample_engine :: Engine where
  "sample_engine = \<lparr>baseline = [], overlays = [sample_grant], static = Some [sample_grant], webhook = False,
     mandatoryHITLBaseline = [], mandatoryHITLOverlays = [], mandatoryHITL = [], predicates = [],
     auditor = True, cache = Some Map.empty, defaultEffect = EffectDeny, failClosed = True\<rparr>"

definition sample_call :: PolicyInput where
  "sample_call = \<lparr>in_Stage = StageToolCall, in_TenantID = ''acme'', in_Principal = ''ann'', in_AgentID = ''bot'',
     in_RunID = ''r1'', in_Generation = 1, in_Connector = ''crm'', in_Tool = ''read'', in_Args = JObj [],
     in_ArgsMeta = None, in_ArgsDigest = ''{}'', in_Claims = Map.empty, in_Labels = Map.empty\<rparr>"

lemma sample_New: "New sample_config = Some sample_engine"
  by (simp add: New_def sample_config_def sample_engine_def applyOverlaysLocked_def
      applyMandatoryHITLOverlaysLocked_def Let_def mergeGrants_def mergeMandatoryHITL_def merge_add_def
      grant_key_def grant_key_ok_def sample_grant_def visible_def cache_clear_def effect_defs)

lemma sample_reach: "engine_reach sample_pdp sample_sha sample_engine"
  by (rule engine_reach.start [OF sample_New]) (simp add: sample_config_def)

lemma sample_bound: "bound_input sample_sha sample_call"
  by (simp add: bound_input_def key_fields_def sample_call_def sample_sha_def digestArgs_def digest_payload_def
      Marshal_def StageToolCall_def)

lemma sample_rule: "rule_for grant_key (input_key sample_call) [sample_grant] = Some sample_grant"
  by (simp add: grant_key_def input_key_def sample_call_def sample_grant_def visible_def)

lemma sample_passes: "grant_layer_passes (take_snapshot sample_engine) sample_call"
  using sample_rule
  by (simp add: grant_layer_passes_def take_snapshot_def sample_engine_def tool_permitted_def sample_call_def
      toolAllowed_def sample_grant_def visible_def)

section \<open>Properties\<close>

text \<open>C4: A tool call is allowed exactly when the run is bound to a tenant and an agent, the grants
  in force admit it (or the default does), no argument predicate fires, the webhook did not object,
  and no mandatory-approval rule applies to it.\<close>

theorem Decide_allow_iff:
  assumes "collision_free sha" and "keyed_pdp pdp" and "engine_reach pdp sha e" and "bound_input sha inp"
    and "in_Stage inp = StageToolCall"
  shows "Effect (fst (Decide pdp alive ms rid ctx e inp)) = EffectAllow \<longleftrightarrow>
    TrimSpace (in_TenantID inp) \<noteq> [] \<and> TrimSpace (in_AgentID inp) \<noteq> []
    \<and> grant_layer_passes (take_snapshot e) inp
    \<and> (\<forall>p\<in>set (predicates e). \<not> pred_fires inp p)
    \<and> webhook_passes pdp (take_snapshot e) inp
    \<and> (\<forall>r\<in>set (mandatoryHITL e). \<not> hitl_applies inp r)"
proof -
  have stage: "in_Stage inp \<noteq> StageRunCreate" using assms(5) by simp
  have "\<forall>p\<in>set (predicates e). p_Effect p = EffectDeny \<or> p_Effect p = EffectPending"
    using engine_inv_reach [OF assms(3)] by (simp add: engine_inv_def)
  then have none: "applyPredicates (s_preds (take_snapshot e)) inp = None \<longleftrightarrow> (\<forall>p\<in>set (predicates e). \<not> pred_fires inp p)"
    using applyPredicates_None_iff [OF assms(5)] by (simp add: take_snapshot_def)
  show ?thesis
    unfolding Decide_result decide_fresh [OF assms(1-4)]
    using evaluate_allow_iff [OF stage, of pdp "take_snapshot e"] none assms(5)
    by (auto simp: applyMandatoryHITL_effect missing_binding_def)
qed

theorem Decide_allow_iff_witness:
  "Effect (fst (Decide sample_pdp (\<lambda>_. True) 0 [] [] sample_engine sample_call)) = EffectAllow"
proof -
  have "in_Stage sample_call = StageToolCall" by (simp add: sample_call_def)
  then show ?thesis
    using Decide_allow_iff [OF sample_sha_ok sample_pdp_ok sample_reach sample_bound] sample_passes
    by (simp add: sample_engine_def webhook_passes_def take_snapshot_def sample_call_def visible_def)
qed



text \<open>After an overlay replacement the grant that governs a tenant, agent and connector is the last
  overlay row for them, or the last deployment default when there is none; rows with an empty part
  govern nothing, and no two rows in force share a key.\<close>

theorem ReplaceOverlays_governs:
  assumes "static (ReplaceOverlays ovs e) = Some gs"
  shows "rule_for grant_key key gs =
           (if grant_key_ok key then rule_for grant_key key (rev ovs @ rev (baseline e)) else None)
         \<and> distinct (map grant_key gs)"
proof -
  have gs: "gs = mergeGrants (baseline e) ovs"
    using assms by (simp add: ReplaceOverlays_def applyOverlaysLocked_def Let_def split: if_splits)
  have "distinct (map grant_key gs)"
    unfolding gs mergeGrants_def by (intro distinct_merge_fold) simp
  then show ?thesis
    unfolding gs by (simp add: mergeGrants_rule)
qed

theorem ReplaceOverlays_governs_witness:
  "static (ReplaceOverlays [sample_grant, sample_grant\<lparr>g_ID := ''g2''\<rparr>] sample_engine) = Some [sample_grant\<lparr>g_ID := ''g2''\<rparr>]
   \<and> distinct (map grant_key [sample_grant\<lparr>g_ID := ''g2''\<rparr>])"
proof -
  have s: "static (ReplaceOverlays [sample_grant, sample_grant\<lparr>g_ID := ''g2''\<rparr>] sample_engine) = Some [sample_grant\<lparr>g_ID := ''g2''\<rparr>]"
    by (simp add: ReplaceOverlays_def applyOverlaysLocked_def Let_def mergeGrants_def merge_add_def sample_engine_def
        grant_key_def grant_key_ok_def sample_grant_def visible_def)
  show ?thesis using s ReplaceOverlays_governs [OF s] by blast
qed

text \<open>With fail-closed configured, a webhook that cannot be reached, answers outside 2xx, or
  answers something other than a known effect never admits a call that needs it.\<close>

theorem webhook_fails_closed:
  assumes "webhook e" and "failClosed e" and "reply_effect (pdp inp) = None" and "cache e = None"
  shows "Effect (fst (Decide pdp alive ms rid ctx e inp)) \<noteq> EffectAllow"
proof -
  have w: "Effect (webhook_Decide pdp inp True) = EffectDeny"
    using assms(3) by (simp add: webhook_Decide_Effect)
  have s: "s_webhook (take_snapshot e)" "s_failClosed (take_snapshot e)"
    using assms(1,2) by (simp_all add: take_snapshot_def)
  have "Effect (fst (evaluate pdp (take_snapshot e) inp)) \<noteq> EffectAllow"
  proof (cases "in_Stage inp = StageRunCreate")
    case True
    then show ?thesis
      using w s by (simp add: evaluate_def decideRunCreate_def Let_def)
  next
    case False
    then show ?thesis
      using assms(3) s by (simp add: evaluate_allow_iff webhook_passes_def)
  qed
  then have "Effect (fst (decide pdp alive e inp)) \<noteq> EffectAllow"
    using assms(4) by (auto simp: decide_def cache_get_def missing_binding_def split: prod.splits)
  then show ?thesis
    by (simp add: Decide_result applyMandatoryHITL_effect)
qed

theorem webhook_fails_closed_witness:
  "Effect (fst (Decide sample_pdp (\<lambda>_. True) 0 [] [] (sample_engine\<lparr>webhook := True, cache := None\<rparr>) sample_call))
     \<noteq> EffectAllow"
  by (rule webhook_fails_closed) (simp_all add: sample_engine_def sample_pdp_def reply_effect_def)

text \<open>C26: An evaluation that read the grants before an overlay replacement and stores its result after
  it puts the old decision into the cleared cache: later calls are answered from it although the
  replaced grants would decide otherwise, until the entry expires.\<close>

theorem overlapping_evaluation_revives_old_grants:
  assumes "cache e = Some m" and "snd (evaluate pdp (take_snapshot e) inp) = Some d"
    and "TrimSpace (in_TenantID inp) \<noteq> []" and "TrimSpace (in_AgentID inp) \<noteq> []" and "alive (cacheKey inp)"
  shows "fst (decide pdp alive (cachePut inp (Some d) (ReplaceOverlays ovs e)) inp)
    = fst (evaluate pdp (take_snapshot e) inp)"
  using assms evaluate_put [OF assms(2)]
  by (simp add: decide_def cache_get_def cachePut_def cache_put_def ReplaceOverlays_def applyOverlaysLocked_def
      cache_clear_def Let_def)

theorem overlapping_evaluation_revives_old_grants_witness:
  "Effect (fst (decide sample_pdp (\<lambda>_. True)
      (cachePut sample_call (Some (static_decide [sample_grant] sample_call)) (ReplaceOverlays [] sample_engine)) sample_call))
     = EffectAllow
   \<and> Effect (fst (decide sample_pdp (\<lambda>_. True) (ReplaceOverlays [] sample_engine) sample_call)) = EffectDeny"
proof -
  let ?s = "take_snapshot sample_engine"
  have "Effect (static_decide [sample_grant] sample_call) = EffectAllow"
    using sample_rule by (simp add: static_decide_effect tool_permitted_def sample_call_def toolAllowed_def
        sample_grant_def visible_def)
  moreover have "evaluate sample_pdp ?s sample_call
      = (static_decide [sample_grant] sample_call, Some (static_decide [sample_grant] sample_call))"
    using calculation
    by (simp add: evaluate_def static_layer_def take_snapshot_def sample_engine_def applyPredicates_def Let_def
        sample_call_def)
  ultimately have "Effect (fst (decide sample_pdp (\<lambda>_. True)
      (cachePut sample_call (Some (static_decide [sample_grant] sample_call)) (ReplaceOverlays [] sample_engine)) sample_call))
     = EffectAllow"
    using overlapping_evaluation_revives_old_grants
      [of sample_engine Map.empty sample_pdp sample_call "static_decide [sample_grant] sample_call" "\<lambda>_. True" "[]"]
    by (simp add: sample_engine_def sample_call_def visible_def)
  moreover have "Effect (fst (decide sample_pdp (\<lambda>_. True) (ReplaceOverlays [] sample_engine) sample_call)) = EffectDeny"
    by (simp add: decide_def ReplaceOverlays_def applyOverlaysLocked_def sample_engine_def mergeGrants_def Let_def
        cache_clear_def cache_get_def evaluate_def static_layer_def take_snapshot_def applyPredicates_def
        default_decision_def sample_call_def visible_def)
  ultimately show ?thesis by blast
qed

text \<open>Construction and every later operation keep the engine consistent: the default effect is
  allow or deny, the grants and approval rules in force are the merge of defaults and overlays, and
  every predicate in force can only deny or hold.\<close>

theorem engine_stays_consistent:
  assumes "engine_reach pdp sha e"
  shows "engine_inv e"
  using assms by (rule engine_inv_reach)

theorem engine_stays_consistent_witness: "engine_inv sample_engine"
  by (rule engine_stays_consistent [OF sample_reach])

end
