(* ===== verification/Admin_Tables.thy ===== *)
theory Admin_Tables
  imports Page_Cursor Policy_Engine
begin

text \<open>
  The governance tables of the SQLite store and their Admin lists: policy grants
  (src/internal/state/sqlite/governance.go), kill switches (kill.go), mandatory-approval rules
  (mandatory_hitl.go) and break-glass windows (break_glass.go), with the list handlers of
  src/internal/api/admin_policy.go, admin_kill.go, admin_mandatory_hitl.go and admin_break_glass.go. A
  table is the list of its rows; a column of timestamps holds \<open>formatTS\<close> of the field and is compared as
  text. The clock is the argument \<open>now\<close>.
\<close>

section \<open>SQL\<close>

text \<open>\<open>INSERT ... ON CONFLICT(id) DO UPDATE\<close> on a table with a second unique key: None is the violation of
  that key, by the inserted or by the updated row.\<close>

definition sql_upsert :: "('r \<Rightarrow> string) \<Rightarrow> ('r \<Rightarrow> 'k) \<Rightarrow> ('r \<Rightarrow> 'r) \<Rightarrow> 'r \<Rightarrow> 'r list \<Rightarrow> 'r list option" where
  "sql_upsert ident scope upd new rows =
     (if list_ex (\<lambda>r. ident r \<noteq> ident new \<and> scope r = scope new) rows then None
      else if list_ex (\<lambda>r. ident r = ident new) rows then Some (sql_update (\<lambda>r. ident r = ident new) upd rows)
      else Some (rows @ [new]))"

definition first_row :: "'r list \<Rightarrow> 'r option" where
  "first_row rows = (case rows of [] \<Rightarrow> None | r # _ \<Rightarrow> Some r)"

text \<open>The tenant condition of the searches: the caller's tenant, or for a system context the requested
  one if any; and an optional equality.\<close>

definition search_tenant :: "ctx \<Rightarrow> string \<Rightarrow> string \<Rightarrow> bool" where
  "search_tenant c wanted t \<longleftrightarrow> (if \<not> IsSystem c then t = FromContext c else wanted = [] \<or> t = wanted)"

definition search_eq :: "string \<Rightarrow> string \<Rightarrow> bool" where
  "search_eq wanted v \<longleftrightarrow> wanted = [] \<or> v = wanted"

record KeySearchRequest =
  kq_TenantID :: string
  kq_AgentID :: string
  kq_Connector :: string
  kq_Limit :: int
  kq_Offset :: int
  kq_Cursor :: string

definition key_request :: "url_query \<Rightarrow> adminPaging \<Rightarrow> KeySearchRequest" where
  "key_request q p = \<lparr>kq_TenantID = query_get q ''tenant_id'', kq_AgentID = query_get q ''agent_id'',
     kq_Connector = query_get q ''connector'', kq_Limit = ap_Limit p, kq_Offset = ap_Offset p, kq_Cursor = ap_Cursor p\<rparr>"

section \<open>Policy grants (governance.go, admin_policy.go)\<close>

record PolicyGrant =
  pg_ID :: string
  pg_TenantID :: string
  pg_AgentID :: string
  pg_Connector :: string
  pg_Tools :: "ToolFilter option"
  pg_CreatedAt :: instant
  pg_UpdatedAt :: instant

definition grant_scope :: "PolicyGrant \<Rightarrow> string \<times> string \<times> string" where
  "grant_scope g = (pg_TenantID g, pg_AgentID g, pg_Connector g)"

text \<open>Reading a row drops a filter that has neither allow nor deny entries.\<close>

definition scanPolicyGrant :: "PolicyGrant \<Rightarrow> PolicyGrant" where
  "scanPolicyGrant g =
     g\<lparr>pg_Tools := (case pg_Tools g of
        Some tf \<Rightarrow> if tf_Allow tf \<noteq> [] \<or> tf_Deny tf \<noteq> [] then Some tf else None | None \<Rightarrow> None)\<rparr>"

definition ListPolicyGrants :: "PolicyGrant list \<Rightarrow> PolicyGrant list" where
  "ListPolicyGrants rows = map scanPolicyGrant (sort_key (\<lambda>g. (pg_TenantID g, pg_ID g)) rows)"

definition SearchPolicyGrants ::
  "(string \<Rightarrow> json option) \<Rightarrow> ctx \<Rightarrow> KeySearchRequest \<Rightarrow> PolicyGrant list \<Rightarrow> cursor_error + PolicyGrant list" where
  "SearchPolicyGrants unmarshal c req rows =
     (case key_search unmarshal (\<lambda>g. (pg_TenantID g, pg_ID g))
        (\<lambda>g. search_tenant c (kq_TenantID req) (pg_TenantID g) \<and> search_eq (kq_AgentID req) (pg_AgentID g)
              \<and> search_eq (kq_Connector req) (pg_Connector g))
        (kq_Limit req) (kq_Offset req) (kq_Cursor req) rows of
        Inl e \<Rightarrow> Inl e | Inr hits \<Rightarrow> Inr (map scanPolicyGrant hits))"

definition UpsertPolicyGrant :: "instant \<Rightarrow> PolicyGrant \<Rightarrow> PolicyGrant list \<Rightarrow> store_error option \<times> PolicyGrant list" where
  "UpsertPolicyGrant now g rows =
     (let new = g\<lparr>pg_CreatedAt := (if pg_CreatedAt g = zero_time then now else pg_CreatedAt g), pg_UpdatedAt := now\<rparr> in
      case sql_upsert pg_ID grant_scope
             (\<lambda>r. r\<lparr>pg_TenantID := pg_TenantID g, pg_AgentID := pg_AgentID g, pg_Connector := pg_Connector g,
                    pg_Tools := pg_Tools g, pg_UpdatedAt := now\<rparr>) new rows of
        None \<Rightarrow> (Some (ErrConflict ''policy_grant'' (pg_TenantID g @ ''/'' @ pg_AgentID g @ ''/'' @ pg_Connector g)
                   ''already exists for tenant/agent/connector (use PUT on the existing id)''), rows)
      | Some rows' \<Rightarrow> (None, rows'))"

definition GetPolicyGrant :: "string \<Rightarrow> PolicyGrant list \<Rightarrow> store_error + PolicyGrant" where
  "GetPolicyGrant i rows =
     (case find (\<lambda>g. pg_ID g = i) rows of None \<Rightarrow> Inl (ErrNotFound ''policy_grant'' i) | Some g \<Rightarrow> Inr (scanPolicyGrant g))"

definition DeletePolicyGrant :: "string \<Rightarrow> PolicyGrant list \<Rightarrow> PolicyGrant list" where
  "DeletePolicyGrant i rows = sql_delete (\<lambda>g. pg_ID g = i) rows"

definition validatePolicyGrant :: "PolicyGrant \<Rightarrow> bool" where
  "validatePolicyGrant g \<longleftrightarrow> TrimSpace (pg_TenantID g) \<noteq> [] \<and> TrimSpace (pg_AgentID g) \<noteq> [] \<and> TrimSpace (pg_Connector g) \<noteq> []"

definition modelGrantsToPolicy :: "PolicyGrant list \<Rightarrow> Grant list" where
  "modelGrantsToPolicy rows =
     map (\<lambda>g. \<lparr>g_ID = pg_ID g, g_TenantID = pg_TenantID g, g_AgentID = pg_AgentID g, g_Connector = pg_Connector g,
               g_Tools = pg_Tools g\<rparr>) rows"

text \<open>The engine is None when policy is off.\<close>

definition ReloadPolicyOverlays :: "PolicyGrant list \<Rightarrow> Engine option \<Rightarrow> Engine option" where
  "ReloadPolicyOverlays rows policy = map_option (ReplaceOverlays (modelGrantsToPolicy (ListPolicyGrants rows))) policy"

datatype 'r replied = Replied nat | RepliedWith nat 'r

definition handleAdminCreatePolicyGrant ::
  "instant \<Rightarrow> string \<Rightarrow> PolicyGrant \<Rightarrow> PolicyGrant list \<times> Engine option \<Rightarrow> PolicyGrant replied \<times> PolicyGrant list \<times> Engine option" where
  "handleAdminCreatePolicyGrant now randomHex body s =
     (case s of (rows, policy) \<Rightarrow>
        if policy = None then (Replied 409, rows, policy)
        else if \<not> validatePolicyGrant body then (Replied 400, rows, policy)
        else
          let g = (if TrimSpace (pg_ID body) = [] then body\<lparr>pg_ID := ''grant-'' @ randomHex\<rparr> else body) in
          case UpsertPolicyGrant now g rows of
            (Some e, rows') \<Rightarrow> (Replied 409, rows', policy)
          | (None, rows') \<Rightarrow>
              (case GetPolicyGrant (pg_ID g) rows' of Inl _ \<Rightarrow> Replied 404 | Inr out \<Rightarrow> RepliedWith 201 out,
               rows', ReloadPolicyOverlays rows' policy))"

definition handleAdminUpdatePolicyGrant ::
  "instant \<Rightarrow> string \<Rightarrow> PolicyGrant \<Rightarrow> PolicyGrant list \<times> Engine option \<Rightarrow> PolicyGrant replied \<times> PolicyGrant list \<times> Engine option" where
  "handleAdminUpdatePolicyGrant now i body s =
     (case s of (rows, policy) \<Rightarrow>
        if policy = None then (Replied 409, rows, policy)
        else
          let g = body\<lparr>pg_ID := i\<rparr> in
          if \<not> validatePolicyGrant g then (Replied 400, rows, policy)
          else case GetPolicyGrant i rows of
            Inl _ \<Rightarrow> (Replied 404, rows, policy)
          | Inr _ \<Rightarrow>
              (case UpsertPolicyGrant now g rows of
                 (Some e, rows') \<Rightarrow> (Replied 409, rows', policy)
               | (None, rows') \<Rightarrow>
                   (case GetPolicyGrant i rows' of Inl _ \<Rightarrow> Replied 404 | Inr out \<Rightarrow> RepliedWith 200 out,
                    rows', ReloadPolicyOverlays rows' policy)))"

definition handleAdminDeletePolicyGrant ::
  "string \<Rightarrow> PolicyGrant list \<times> Engine option \<Rightarrow> nat \<times> PolicyGrant list \<times> Engine option" where
  "handleAdminDeletePolicyGrant i s =
     (case s of (rows, policy) \<Rightarrow>
        (case GetPolicyGrant i rows of
           Inl _ \<Rightarrow> (404, rows, policy)
         | Inr _ \<Rightarrow> let rows' = DeletePolicyGrant i rows in (204, rows', ReloadPolicyOverlays rows' policy)))"

definition handleAdminListPolicyGrants :: "(string \<Rightarrow> json option) \<Rightarrow> url_query \<Rightarrow> PolicyGrant list \<Rightarrow> PolicyGrant listed" where
  "handleAdminListPolicyGrants unmarshal q rows =
     (case adminListPaging q of
        None \<Rightarrow> ListError 400
      | Some p \<Rightarrow>
          if ap_Cursor p \<noteq> [] \<and> isl (DecodeKey unmarshal (ap_Cursor p)) then ListError 400
          else case SearchPolicyGrants unmarshal (SystemContext \<lparr>ctx_tenant = None, ctx_system = False\<rparr>) (key_request q p) rows of
            Inl _ \<Rightarrow> ListError 500
          | Inr page \<Rightarrow> Listed page (next_cursor (ap_Limit p) (\<lambda>g. EncodeKey (pg_TenantID g) (pg_ID g)) page))"

section \<open>Kill switches (kill.go)\<close>

record KillSwitch =
  ks_ID :: string
  ks_TenantID :: string
  ks_AgentID :: string
  ks_PauseOnly :: bool
  ks_Reason :: string
  ks_CreatedBy :: string
  ks_CreatedAt :: instant
  ks_UpdatedAt :: instant

definition kill_scope :: "KillSwitch \<Rightarrow> string \<times> string" where
  "kill_scope k = (ks_TenantID k, ks_AgentID k)"

definition kill_content :: "KillSwitch \<Rightarrow> bool \<times> string \<times> string" where
  "kill_content k = (ks_PauseOnly k, ks_Reason k, ks_CreatedBy k)"

definition ListKillSwitches :: "KillSwitch list \<Rightarrow> KillSwitch list" where
  "ListKillSwitches rows = sort_key (\<lambda>k. (ks_TenantID k, ks_ID k)) rows"

definition SearchKillSwitches ::
  "(string \<Rightarrow> json option) \<Rightarrow> ctx \<Rightarrow> KeySearchRequest \<Rightarrow> KillSwitch list \<Rightarrow> cursor_error + KillSwitch list" where
  "SearchKillSwitches unmarshal c req rows =
     key_search unmarshal (\<lambda>k. (ks_TenantID k, ks_ID k))
       (\<lambda>k. search_tenant c (kq_TenantID req) (ks_TenantID k) \<and> search_eq (kq_AgentID req) (ks_AgentID k))
       (kq_Limit req) (kq_Offset req) (kq_Cursor req) rows"

definition UpsertKillSwitch :: "instant \<Rightarrow> KillSwitch \<Rightarrow> KillSwitch list \<Rightarrow> store_error option \<times> KillSwitch list" where
  "UpsertKillSwitch now k rows =
     (let new = k\<lparr>ks_CreatedAt := (if ks_CreatedAt k = zero_time then now else ks_CreatedAt k), ks_UpdatedAt := now\<rparr> in
      case sql_upsert ks_ID kill_scope
             (\<lambda>r. r\<lparr>ks_TenantID := ks_TenantID k, ks_AgentID := ks_AgentID k, ks_PauseOnly := ks_PauseOnly k,
                    ks_Reason := ks_Reason k, ks_CreatedBy := ks_CreatedBy k, ks_UpdatedAt := now\<rparr>) new rows of
        None \<Rightarrow> (Some (ErrConflict ''kill_switch'' (ks_TenantID k @ ''/'' @ ks_AgentID k)
                   ''already exists for tenant/agent (DELETE then recreate, or reuse the same id)''), rows)
      | Some rows' \<Rightarrow> (None, rows'))"

definition GetKillSwitch :: "string \<Rightarrow> KillSwitch list \<Rightarrow> store_error + KillSwitch" where
  "GetKillSwitch i rows =
     (case find (\<lambda>k. ks_ID k = i) rows of None \<Rightarrow> Inl (ErrNotFound ''kill_switch'' i) | Some k \<Rightarrow> Inr k)"

definition DeleteKillSwitch :: "string \<Rightarrow> KillSwitch list \<Rightarrow> KillSwitch list" where
  "DeleteKillSwitch i rows = sql_delete (\<lambda>k. ks_ID k = i) rows"

definition FindActiveKill :: "string \<Rightarrow> string \<Rightarrow> KillSwitch list \<Rightarrow> KillSwitch option" where
  "FindActiveKill tenantID agentID rows =
     first_row (sort_key (\<lambda>k. if ks_AgentID k = agentID then 0 else (1::nat))
       (filter (\<lambda>k. ks_TenantID k = tenantID \<and> (ks_AgentID k = agentID \<or> ks_AgentID k = [])) rows))"

definition handleAdminListKillSwitches :: "(string \<Rightarrow> json option) \<Rightarrow> url_query \<Rightarrow> KillSwitch list \<Rightarrow> KillSwitch listed" where
  "handleAdminListKillSwitches unmarshal q rows =
     (case adminListPaging q of
        None \<Rightarrow> ListError 400
      | Some p \<Rightarrow>
          if ap_Cursor p \<noteq> [] \<and> isl (DecodeKey unmarshal (ap_Cursor p)) then ListError 400
          else case SearchKillSwitches unmarshal (SystemContext \<lparr>ctx_tenant = None, ctx_system = False\<rparr>) (key_request q p) rows of
            Inl _ \<Rightarrow> ListError 500
          | Inr page \<Rightarrow> Listed page (next_cursor (ap_Limit p) (\<lambda>k. EncodeKey (ks_TenantID k) (ks_ID k)) page))"

section \<open>Mandatory approval (mandatory_hitl.go, admin_mandatory_hitl.go)\<close>

record HITLRow =
  mh_ID :: string
  mh_TenantID :: string
  mh_AgentID :: string
  mh_Connector :: string
  mh_Tools :: "string list"
  mh_CreatedAt :: instant
  mh_UpdatedAt :: instant

definition hitl_scope :: "HITLRow \<Rightarrow> string \<times> string \<times> string" where
  "hitl_scope r = (mh_TenantID r, mh_AgentID r, mh_Connector r)"

definition ListMandatoryHITLRules :: "HITLRow list \<Rightarrow> HITLRow list" where
  "ListMandatoryHITLRules rows = sort_key (\<lambda>r. (mh_TenantID r, mh_ID r)) rows"

definition SearchMandatoryHITLRules ::
  "(string \<Rightarrow> json option) \<Rightarrow> ctx \<Rightarrow> KeySearchRequest \<Rightarrow> HITLRow list \<Rightarrow> cursor_error + HITLRow list" where
  "SearchMandatoryHITLRules unmarshal c req rows =
     key_search unmarshal (\<lambda>r. (mh_TenantID r, mh_ID r))
       (\<lambda>r. search_tenant c (kq_TenantID req) (mh_TenantID r) \<and> search_eq (kq_AgentID req) (mh_AgentID r)
             \<and> search_eq (kq_Connector req) (mh_Connector r))
       (kq_Limit req) (kq_Offset req) (kq_Cursor req) rows"

definition UpsertMandatoryHITLRule :: "instant \<Rightarrow> HITLRow \<Rightarrow> HITLRow list \<Rightarrow> store_error option \<times> HITLRow list" where
  "UpsertMandatoryHITLRule now r rows =
     (let new = r\<lparr>mh_CreatedAt := (if mh_CreatedAt r = zero_time then now else mh_CreatedAt r), mh_UpdatedAt := now\<rparr> in
      case sql_upsert mh_ID hitl_scope
             (\<lambda>old. old\<lparr>mh_TenantID := mh_TenantID r, mh_AgentID := mh_AgentID r, mh_Connector := mh_Connector r,
                      mh_Tools := mh_Tools r, mh_UpdatedAt := now\<rparr>) new rows of
        None \<Rightarrow> (Some (ErrConflict ''mandatory_hitl_rule'' (mh_TenantID r @ ''/'' @ mh_AgentID r @ ''/'' @ mh_Connector r)
                   ''already exists for tenant/agent/connector (use PUT on the existing id)''), rows)
      | Some rows' \<Rightarrow> (None, rows'))"

definition GetMandatoryHITLRule :: "string \<Rightarrow> HITLRow list \<Rightarrow> store_error + HITLRow" where
  "GetMandatoryHITLRule i rows =
     (case find (\<lambda>r. mh_ID r = i) rows of None \<Rightarrow> Inl (ErrNotFound ''mandatory_hitl_rule'' i) | Some r \<Rightarrow> Inr r)"

definition DeleteMandatoryHITLRule :: "string \<Rightarrow> HITLRow list \<Rightarrow> HITLRow list" where
  "DeleteMandatoryHITLRule i rows = sql_delete (\<lambda>r. mh_ID r = i) rows"

definition validateMandatoryHITL :: "HITLRow \<Rightarrow> bool" where
  "validateMandatoryHITL r \<longleftrightarrow> TrimSpace (mh_TenantID r) \<noteq> [] \<and> TrimSpace (mh_Connector r) \<noteq> []"

definition modelMandatoryHITLToPolicy :: "HITLRow list \<Rightarrow> MandatoryHITLRule list" where
  "modelMandatoryHITLToPolicy rows =
     map (\<lambda>r. \<lparr>h_ID = mh_ID r, h_TenantID = mh_TenantID r, h_AgentID = mh_AgentID r, h_Connector = mh_Connector r,
               h_Tools = mh_Tools r\<rparr>) rows"

definition ReloadMandatoryHITL :: "HITLRow list \<Rightarrow> Engine option \<Rightarrow> Engine option" where
  "ReloadMandatoryHITL rows policy =
     map_option (ReplaceMandatoryHITL (modelMandatoryHITLToPolicy (ListMandatoryHITLRules rows))) policy"

definition handleAdminCreateMandatoryHITL ::
  "instant \<Rightarrow> string \<Rightarrow> HITLRow \<Rightarrow> HITLRow list \<times> Engine option \<Rightarrow> HITLRow replied \<times> HITLRow list \<times> Engine option" where
  "handleAdminCreateMandatoryHITL now randomHex body s =
     (case s of (rows, policy) \<Rightarrow>
        if policy = None then (Replied 409, rows, policy)
        else if \<not> validateMandatoryHITL body then (Replied 400, rows, policy)
        else
          let r = (if TrimSpace (mh_ID body) = [] then body\<lparr>mh_ID := ''mhitl-'' @ randomHex\<rparr> else body) in
          case UpsertMandatoryHITLRule now r rows of
            (Some e, rows') \<Rightarrow> (Replied 409, rows', policy)
          | (None, rows') \<Rightarrow>
              (case GetMandatoryHITLRule (mh_ID r) rows' of Inl _ \<Rightarrow> Replied 404 | Inr out \<Rightarrow> RepliedWith 201 out,
               rows', ReloadMandatoryHITL rows' policy))"

definition handleAdminUpdateMandatoryHITL ::
  "instant \<Rightarrow> string \<Rightarrow> HITLRow \<Rightarrow> HITLRow list \<times> Engine option \<Rightarrow> HITLRow replied \<times> HITLRow list \<times> Engine option" where
  "handleAdminUpdateMandatoryHITL now i body s =
     (case s of (rows, policy) \<Rightarrow>
        if policy = None then (Replied 409, rows, policy)
        else
          let r = body\<lparr>mh_ID := i\<rparr> in
          if \<not> validateMandatoryHITL r then (Replied 400, rows, policy)
          else case GetMandatoryHITLRule i rows of
            Inl _ \<Rightarrow> (Replied 404, rows, policy)
          | Inr _ \<Rightarrow>
              (case UpsertMandatoryHITLRule now r rows of
                 (Some e, rows') \<Rightarrow> (Replied 409, rows', policy)
               | (None, rows') \<Rightarrow>
                   (case GetMandatoryHITLRule i rows' of Inl _ \<Rightarrow> Replied 404 | Inr out \<Rightarrow> RepliedWith 200 out,
                    rows', ReloadMandatoryHITL rows' policy)))"

definition handleAdminDeleteMandatoryHITL ::
  "string \<Rightarrow> HITLRow list \<times> Engine option \<Rightarrow> nat \<times> HITLRow list \<times> Engine option" where
  "handleAdminDeleteMandatoryHITL i s =
     (case s of (rows, policy) \<Rightarrow>
        (case GetMandatoryHITLRule i rows of
           Inl _ \<Rightarrow> (404, rows, policy)
         | Inr _ \<Rightarrow> let rows' = DeleteMandatoryHITLRule i rows in (204, rows', ReloadMandatoryHITL rows' policy)))"

definition handleAdminListMandatoryHITL :: "(string \<Rightarrow> json option) \<Rightarrow> url_query \<Rightarrow> HITLRow list \<Rightarrow> HITLRow listed" where
  "handleAdminListMandatoryHITL unmarshal q rows =
     (case adminListPaging q of
        None \<Rightarrow> ListError 400
      | Some p \<Rightarrow>
          if ap_Cursor p \<noteq> [] \<and> isl (DecodeKey unmarshal (ap_Cursor p)) then ListError 400
          else case SearchMandatoryHITLRules unmarshal (SystemContext \<lparr>ctx_tenant = None, ctx_system = False\<rparr>) (key_request q p) rows of
            Inl _ \<Rightarrow> ListError 500
          | Inr page \<Rightarrow> Listed page (next_cursor (ap_Limit p) (\<lambda>r. EncodeKey (mh_TenantID r) (mh_ID r)) page))"

section \<open>Break-glass windows (break_glass.go)\<close>

record BreakGlassWindow =
  bg_ID :: string
  bg_TenantID :: string
  bg_AgentID :: string
  bg_Reason :: string
  bg_CreatedBy :: string
  bg_StartsAt :: instant
  bg_ExpiresAt :: instant
  bg_CreatedAt :: instant
  bg_UpdatedAt :: instant

definition CreateBreakGlassWindow ::
  "instant \<Rightarrow> BreakGlassWindow \<Rightarrow> BreakGlassWindow list \<Rightarrow> store_error option \<times> BreakGlassWindow list" where
  "CreateBreakGlassWindow now w rows =
     (let w' = w\<lparr>bg_CreatedAt := (if bg_CreatedAt w = zero_time then now else bg_CreatedAt w), bg_UpdatedAt := now\<rparr> in
      if list_ex (\<lambda>r. bg_ID r = bg_ID w) rows then (Some (ErrConflict ''break_glass_window'' (bg_ID w) []), rows)
      else (None, rows @ [w']))"

definition GetBreakGlassWindow :: "string \<Rightarrow> BreakGlassWindow list \<Rightarrow> store_error + BreakGlassWindow" where
  "GetBreakGlassWindow i rows =
     (case find (\<lambda>w. bg_ID w = i) rows of None \<Rightarrow> Inl (ErrNotFound ''break_glass_window'' i) | Some w \<Rightarrow> Inr w)"

definition DeleteBreakGlassWindow :: "string \<Rightarrow> BreakGlassWindow list \<Rightarrow> BreakGlassWindow list" where
  "DeleteBreakGlassWindow i rows = sql_delete (\<lambda>w. bg_ID w = i) rows"

definition ListBreakGlassWindows :: "BreakGlassWindow list \<Rightarrow> BreakGlassWindow list" where
  "ListBreakGlassWindows rows = sort_key (\<lambda>w. (bg_TenantID w, bg_ID w)) rows"

definition SearchBreakGlassWindows ::
  "(string \<Rightarrow> json option) \<Rightarrow> ctx \<Rightarrow> KeySearchRequest \<Rightarrow> BreakGlassWindow list \<Rightarrow> cursor_error + BreakGlassWindow list" where
  "SearchBreakGlassWindows unmarshal c req rows =
     key_search unmarshal (\<lambda>w. (bg_TenantID w, bg_ID w))
       (\<lambda>w. search_tenant c (kq_TenantID req) (bg_TenantID w) \<and> search_eq (kq_AgentID req) (bg_AgentID w))
       (kq_Limit req) (kq_Offset req) (kq_Cursor req) rows"

definition FindActiveBreakGlass :: "instant \<Rightarrow> string \<Rightarrow> string \<Rightarrow> BreakGlassWindow list \<Rightarrow> BreakGlassWindow option" where
  "FindActiveBreakGlass now tenantID agentID rows =
     first_row (sort_key (\<lambda>w. (if bg_AgentID w = agentID then 0 else (1::nat), formatTS (bg_ExpiresAt w)))
       (filter (\<lambda>w. bg_TenantID w = tenantID \<and> (bg_AgentID w = agentID \<or> bg_AgentID w = [])
                 \<and> formatTS (bg_StartsAt w) \<le> formatTS now \<and> formatTS now < formatTS (bg_ExpiresAt w)) rows))"

definition handleAdminListBreakGlass :: "(string \<Rightarrow> json option) \<Rightarrow> url_query \<Rightarrow> BreakGlassWindow list \<Rightarrow> BreakGlassWindow listed" where
  "handleAdminListBreakGlass unmarshal q rows =
     (case adminListPaging q of
        None \<Rightarrow> ListError 400
      | Some p \<Rightarrow>
          if ap_Cursor p \<noteq> [] \<and> isl (DecodeKey unmarshal (ap_Cursor p)) then ListError 400
          else case SearchBreakGlassWindows unmarshal (SystemContext \<lparr>ctx_tenant = None, ctx_system = False\<rparr>) (key_request q p) rows of
            Inl _ \<Rightarrow> ListError 500
          | Inr page \<Rightarrow> Listed page (next_cursor (ap_Limit p) (\<lambda>w. EncodeKey (bg_TenantID w) (bg_ID w)) page))"

section \<open>Rows and lookups\<close>

lemma first_row_least:
  fixes f :: "'r \<Rightarrow> 'k::linorder"
  assumes "first_row (sort_key f rows) = Some r"
  shows "r \<in> set rows \<and> (\<forall>x\<in>set rows. f r \<le> f x)"
proof -
  obtain rs where rs: "sort_key f rows = r # rs" using assms by (auto simp: first_row_def split: list.splits)
  have "sorted (map f (r # rs))" using sorted_sort_key [of f rows] rs by simp
  moreover have "set rows = set (r # rs)" using rs by (metis set_sort)
  ultimately show ?thesis by auto
qed

lemma first_row_None [simp]: "first_row (sort_key f rows) = None \<longleftrightarrow> rows = []"
  by (auto simp: first_row_def split: list.splits) (metis length_0_conv length_sort)

definition table_ok :: "('r \<Rightarrow> string) \<Rightarrow> ('r \<Rightarrow> 'k) \<Rightarrow> 'r list \<Rightarrow> bool" where
  "table_ok ident scope rows \<longleftrightarrow> distinct (map ident rows) \<and> distinct (map scope rows)"

lemma table_ok_inj:
  assumes "table_ok ident scope rows" "x \<in> set rows" "y \<in> set rows"
  shows "ident x = ident y \<longleftrightarrow> x = y" "scope x = scope y \<longleftrightarrow> x = y"
  using assms by (auto simp: table_ok_def distinct_map inj_on_def)

lemma sql_upsert_None: "sql_upsert ident scope upd new rows = None \<longleftrightarrow> (\<exists>x\<in>set rows. ident x \<noteq> ident new \<and> scope x = scope new)"
  by (auto simp: sql_upsert_def list_ex_iff)

text \<open>Replacing the row of an identifier, or adding it, leaves the other rows alone.\<close>

lemma sql_upsert_Some:
  assumes "table_ok ident scope rows" "sql_upsert ident scope upd new rows = Some rows'"
    and "\<And>r. ident r = ident new \<Longrightarrow> ident (upd r) = ident new \<and> scope (upd r) = scope new \<and> content (upd r) = content new"
  shows "table_ok ident scope rows' \<and>
    (\<exists>x. ident x = ident new \<and> scope x = scope new \<and> content x = content new
       \<and> set rows' = insert x {y \<in> set rows. ident y \<noteq> ident new})"
proof -
  have free: "\<forall>x\<in>set rows. ident x \<noteq> ident new \<longrightarrow> scope x \<noteq> scope new"
    using assms(2) by (metis option.distinct(1) sql_upsert_None)
  show ?thesis
  proof (cases "\<exists>x\<in>set rows. ident x = ident new")
    case True
    then obtain x where x: "x \<in> set rows" "ident x = ident new" by blast
    let ?f = "\<lambda>r. if ident r = ident new then upd r else r"
    have rows': "rows' = map ?f rows"
      using assms(2) True by (auto simp: sql_upsert_def sql_update_def list_ex_iff split: if_splits)
    have "map ident rows' = map ident rows" unfolding rows' using assms(3) by auto
    then have ids: "distinct (map ident rows')" using assms(1) by (simp add: table_ok_def)
    have "inj_on scope (set rows')"
      unfolding rows' using assms(1,3) free by (auto simp: inj_on_def table_ok_inj(2) dest: table_ok_inj [OF assms(1)])
    then have "table_ok ident scope rows'" using ids by (simp add: table_ok_def distinct_map)
    moreover have "set rows' = insert (upd x) {y \<in> set rows. ident y \<noteq> ident new}"
      unfolding rows' using x table_ok_inj(1) [OF assms(1) _ x(1)] by auto
    ultimately show ?thesis using assms(3) [OF x(2)] by blast
  next
    case False
    then have "rows' = rows @ [new]" using assms(2) by (auto simp: sql_upsert_def list_ex_iff split: if_splits)
    moreover from this have "table_ok ident scope rows'"
      using assms(1) free False by (auto simp: table_ok_def)
    ultimately show ?thesis using False by auto
  qed
qed

section \<open>Tables refine maps\<close>

text \<open>The abstract table: for each scope at most one entry, its identifier with its contents. An entry is
  put unless another identifier holds the scope, and the identifier leaves the scope that it had.\<close>

type_synonym ('k, 'c) scope_map = "'k \<rightharpoonup> string \<times> 'c"

definition spec_drop :: "string \<Rightarrow> ('k, 'c) scope_map \<Rightarrow> ('k, 'c) scope_map" where
  "spec_drop i m = (\<lambda>k. case m k of Some (j, c) \<Rightarrow> if j = i then None else Some (j, c) | None \<Rightarrow> None)"

lemma spec_drop_iff: "spec_drop i m k = Some (j, c) \<longleftrightarrow> m k = Some (j, c) \<and> j \<noteq> i"
  by (auto simp: spec_drop_def split: option.splits)

definition spec_put :: "'k \<Rightarrow> string \<Rightarrow> 'c \<Rightarrow> ('k, 'c) scope_map \<Rightarrow> ('k, 'c) scope_map" where
  "spec_put k i c m =
     (case m k of Some (j, _) \<Rightarrow> if j \<noteq> i then m else (spec_drop i m)(k \<mapsto> (i, c)) | None \<Rightarrow> (spec_drop i m)(k \<mapsto> (i, c)))"

datatype 'r table_op = Put instant 'r | Drop string

definition row_map :: "('r \<Rightarrow> string) \<Rightarrow> ('r \<Rightarrow> 'k) \<Rightarrow> ('r \<Rightarrow> 'c) \<Rightarrow> 'r list \<Rightarrow> ('k, 'c) scope_map" where
  "row_map ident scope content rows k = map_option (\<lambda>r. (ident r, content r)) (find (\<lambda>r. scope r = k) rows)"

fun table_exec ::
  "(instant \<Rightarrow> 'r \<Rightarrow> 'r list \<Rightarrow> store_error option \<times> 'r list) \<Rightarrow> (string \<Rightarrow> 'r list \<Rightarrow> 'r list) \<Rightarrow> 'r table_op \<Rightarrow> 'r list \<Rightarrow> 'r list" where
  "table_exec upsert delete (Put now r) rows = snd (upsert now r rows)"
| "table_exec upsert delete (Drop i) rows = delete i rows"

fun spec_exec :: "('r \<Rightarrow> string) \<Rightarrow> ('r \<Rightarrow> 'k) \<Rightarrow> ('r \<Rightarrow> 'c) \<Rightarrow> 'r table_op \<Rightarrow> ('k, 'c) scope_map \<Rightarrow> ('k, 'c) scope_map" where
  "spec_exec ident scope content (Put now r) m = spec_put (scope r) (ident r) (content r) m"
| "spec_exec ident scope content (Drop i) m = spec_drop i m"

lemma row_map_Nil: "row_map ident scope content [] = Map.empty"
  by (simp add: row_map_def fun_eq_iff)

lemma row_map_iff:
  assumes "table_ok ident scope rows"
  shows "row_map ident scope content rows k = Some (i, c) \<longleftrightarrow> (\<exists>r\<in>set rows. scope r = k \<and> ident r = i \<and> content r = c)"
proof -
  have "find (\<lambda>r. scope r = k) rows = Some r \<longleftrightarrow> r \<in> set rows \<and> scope r = k" for r
  proof
    assume "find (\<lambda>r. scope r = k) rows = Some r"
    then show "r \<in> set rows \<and> scope r = k" by (auto simp: find_Some_iff)
  next
    assume r: "r \<in> set rows \<and> scope r = k"
    then obtain r' where r': "find (\<lambda>r. scope r = k) rows = Some r'" by (metis (mono_tags, lifting) find_None_iff option.exhaust)
    then have "r' \<in> set rows" "scope r' = k" by (auto simp: find_Some_iff)
    then show "find (\<lambda>r. scope r = k) rows = Some r" using r r' table_ok_inj(2) [OF assms] by metis
  qed
  then show ?thesis by (auto simp: row_map_def)
qed

lemma row_map_eq:
  assumes "table_ok ident scope rows"
    and "\<And>k i c. m k = Some (i, c) \<longleftrightarrow> (\<exists>r\<in>set rows. scope r = k \<and> ident r = i \<and> content r = c)"
  shows "row_map ident scope content rows = m"
proof
  fix k
  have "row_map ident scope content rows k = Some y \<longleftrightarrow> m k = Some y" for y
    using row_map_iff [OF assms(1), where content = content] assms(2) by (cases y) simp
  then show "row_map ident scope content rows k = m k" by (metis not_None_eq)
qed

locale scoped_table =
  fixes ident :: "'r \<Rightarrow> string"
    and scope :: "'r \<Rightarrow> 'k"
    and content :: "'r \<Rightarrow> 'c"
    and upsert :: "instant \<Rightarrow> 'r \<Rightarrow> 'r list \<Rightarrow> store_error option \<times> 'r list"
    and delete :: "string \<Rightarrow> 'r list \<Rightarrow> 'r list"
  assumes upsert_refused: "upsert now r rows = (Some e, rows') \<Longrightarrow> rows' = rows \<and> (\<exists>x\<in>set rows. ident x \<noteq> ident r \<and> scope x = scope r)"
    and upsert_free: "upsert now r rows = (None, rows') \<Longrightarrow> x \<in> set rows \<Longrightarrow> ident x \<noteq> ident r \<Longrightarrow> scope x \<noteq> scope r"
    and upsert_done: "table_ok ident scope rows \<Longrightarrow> upsert now r rows = (None, rows') \<Longrightarrow> table_ok ident scope rows' \<and>
      (\<exists>x. ident x = ident r \<and> scope x = scope r \<and> content x = content r \<and> set rows' = insert x {y \<in> set rows. ident y \<noteq> ident r})"
    and delete_rows: "delete i rows = filter (\<lambda>r. ident r \<noteq> i) rows"
begin

lemma upsert_refines:
  assumes ok: "table_ok ident scope rows"
  shows "table_ok ident scope (snd (upsert now r rows)) \<and>
    row_map ident scope content (snd (upsert now r rows)) = spec_put (scope r) (ident r) (content r) (row_map ident scope content rows)"
proof (cases "upsert now r rows")
  case (Pair e rows')
  note abs = row_map_iff [OF ok, where content = content]
  show ?thesis
  proof (cases e)
    case (Some e')
    obtain x where x: "x \<in> set rows" "ident x \<noteq> ident r" "scope x = scope r" "rows' = rows"
      using upsert_refused Pair Some by blast
    then have "row_map ident scope content rows (scope r) = Some (ident x, content x)" using abs by auto
    then show ?thesis using Pair ok x by (simp add: spec_put_def)
  next
    case None
    have free: "\<forall>x\<in>set rows. ident x \<noteq> ident r \<longrightarrow> scope x \<noteq> scope r" using upsert_free Pair None by blast
    obtain x where ok': "table_ok ident scope rows'" and x: "ident x = ident r" "scope x = scope r" "content x = content r"
      "set rows' = insert x {y \<in> set rows. ident y \<noteq> ident r}"
      using upsert_done [OF ok] Pair None by blast
    let ?m = "row_map ident scope content rows"
    have held: "?m (scope r) = None \<or> (\<exists>c. ?m (scope r) = Some (ident r, c))"
      using abs free by (metis (no_types, lifting) not_None_eq surj_pair)
    have "row_map ident scope content rows' = (spec_drop (ident r) ?m)(scope r \<mapsto> (ident r, content r))"
    proof (rule row_map_eq [OF ok'])
      fix k i c
      have drop: "spec_drop (ident r) ?m k = Some (i, c) \<longleftrightarrow> (\<exists>y\<in>set rows. scope y = k \<and> ident y = i \<and> content y = c \<and> ident y \<noteq> ident r)"
        unfolding spec_drop_iff abs by auto
      show "((spec_drop (ident r) ?m)(scope r \<mapsto> (ident r, content r))) k = Some (i, c)
          \<longleftrightarrow> (\<exists>y\<in>set rows'. scope y = k \<and> ident y = i \<and> content y = c)"
        using drop x free by auto
    qed
    then show ?thesis using Pair None ok' held by (auto simp: spec_put_def)
  qed
qed

lemma delete_refines:
  assumes ok: "table_ok ident scope rows"
  shows "table_ok ident scope (delete i rows) \<and>
    row_map ident scope content (delete i rows) = spec_drop i (row_map ident scope content rows)"
proof -
  have ok': "table_ok ident scope (delete i rows)"
    using ok by (simp add: delete_rows table_ok_def distinct_map_filter)
  note abs = row_map_iff [OF ok, where content = content]
  have "row_map ident scope content (delete i rows) = spec_drop i (row_map ident scope content rows)"
  proof (rule row_map_eq [OF ok'])
    fix k j c
    show "spec_drop i (row_map ident scope content rows) k = Some (j, c)
        \<longleftrightarrow> (\<exists>r\<in>set (delete i rows). scope r = k \<and> ident r = j \<and> content r = c)"
      unfolding spec_drop_iff abs delete_rows by auto
  qed
  then show ?thesis using ok' by simp
qed

lemma run_refines:
  "table_ok ident scope rows \<Longrightarrow>
     table_ok ident scope (fold (table_exec upsert delete) ops rows)
     \<and> row_map ident scope content (fold (table_exec upsert delete) ops rows)
         = fold (spec_exec ident scope content) ops (row_map ident scope content rows)"
proof (induction ops arbitrary: rows)
  case (Cons op ops)
  then show ?case using upsert_refines delete_refines by (cases op) simp_all
qed simp

end

lemma upsert_shape:
  assumes "\<And>r. ident r = ident new \<Longrightarrow> ident (upd r) = ident new \<and> scope (upd r) = scope new \<and> content (upd r) = content new"
    and "res = (case sql_upsert ident scope upd new rows of None \<Rightarrow> (Some e0, rows) | Some rows' \<Rightarrow> (None, rows'))"
    and "ident new = i" "scope new = k" "content new = c"
  shows "res = (Some e, rows') \<Longrightarrow> rows' = rows \<and> (\<exists>x\<in>set rows. ident x \<noteq> i \<and> scope x = k)"
    and "res = (None, rows') \<Longrightarrow> x \<in> set rows \<Longrightarrow> ident x \<noteq> i \<Longrightarrow> scope x \<noteq> k"
    and "table_ok ident scope rows \<Longrightarrow> res = (None, rows') \<Longrightarrow> table_ok ident scope rows' \<and>
      (\<exists>x. ident x = i \<and> scope x = k \<and> content x = c \<and> set rows' = insert x {y \<in> set rows. ident y \<noteq> i})"
proof -
  show "res = (Some e, rows') \<Longrightarrow> rows' = rows \<and> (\<exists>x\<in>set rows. ident x \<noteq> i \<and> scope x = k)"
    using assms(2-4) sql_upsert_None [of ident scope upd new rows] by (auto split: option.splits)
  show "res = (None, rows') \<Longrightarrow> x \<in> set rows \<Longrightarrow> ident x \<noteq> i \<Longrightarrow> scope x \<noteq> k"
    using assms(2-4) sql_upsert_None [of ident scope upd new rows] by (auto split: option.splits)
  show "table_ok ident scope rows \<Longrightarrow> res = (None, rows') \<Longrightarrow> table_ok ident scope rows' \<and>
      (\<exists>x. ident x = i \<and> scope x = k \<and> content x = c \<and> set rows' = insert x {y \<in> set rows. ident y \<noteq> i})"
    using sql_upsert_Some [where rows = rows and rows' = rows' and content = content, OF _ _ assms(1)] assms(2-5)
    by (auto split: option.splits)
qed

interpretation kill_table: scoped_table ks_ID kill_scope kill_content UpsertKillSwitch DeleteKillSwitch
proof
  fix now r rows e rows' x i
  note shape = upsert_shape [where content = kill_content, OF _ UpsertKillSwitch_def [of now r rows, unfolded Let_def]]
  show "UpsertKillSwitch now r rows = (Some e, rows') \<Longrightarrow> rows' = rows \<and> (\<exists>x\<in>set rows. ks_ID x \<noteq> ks_ID r \<and> kill_scope x = kill_scope r)"
    by (rule shape(1)) (simp_all add: kill_scope_def kill_content_def)
  show "UpsertKillSwitch now r rows = (None, rows') \<Longrightarrow> x \<in> set rows \<Longrightarrow> ks_ID x \<noteq> ks_ID r \<Longrightarrow> kill_scope x \<noteq> kill_scope r"
    by (rule shape(2)) (simp_all add: kill_scope_def kill_content_def)
  show "table_ok ks_ID kill_scope rows \<Longrightarrow> UpsertKillSwitch now r rows = (None, rows') \<Longrightarrow> table_ok ks_ID kill_scope rows' \<and>
      (\<exists>x. ks_ID x = ks_ID r \<and> kill_scope x = kill_scope r \<and> kill_content x = kill_content r
         \<and> set rows' = insert x {y \<in> set rows. ks_ID y \<noteq> ks_ID r})"
    by (rule shape(3)) (simp_all add: kill_scope_def kill_content_def)
  show "DeleteKillSwitch i rows = filter (\<lambda>r. ks_ID r \<noteq> i) rows"
    by (simp add: DeleteKillSwitch_def sql_delete_def)
qed

interpretation grant_table: scoped_table pg_ID grant_scope pg_Tools UpsertPolicyGrant DeletePolicyGrant
proof
  fix now r rows e rows' x i
  note shape = upsert_shape [where content = pg_Tools, OF _ UpsertPolicyGrant_def [of now r rows, unfolded Let_def]]
  show "UpsertPolicyGrant now r rows = (Some e, rows') \<Longrightarrow> rows' = rows \<and> (\<exists>x\<in>set rows. pg_ID x \<noteq> pg_ID r \<and> grant_scope x = grant_scope r)"
    by (rule shape(1)) (simp_all add: grant_scope_def)
  show "UpsertPolicyGrant now r rows = (None, rows') \<Longrightarrow> x \<in> set rows \<Longrightarrow> pg_ID x \<noteq> pg_ID r \<Longrightarrow> grant_scope x \<noteq> grant_scope r"
    by (rule shape(2)) (simp_all add: grant_scope_def)
  show "table_ok pg_ID grant_scope rows \<Longrightarrow> UpsertPolicyGrant now r rows = (None, rows') \<Longrightarrow> table_ok pg_ID grant_scope rows' \<and>
      (\<exists>x. pg_ID x = pg_ID r \<and> grant_scope x = grant_scope r \<and> pg_Tools x = pg_Tools r
         \<and> set rows' = insert x {y \<in> set rows. pg_ID y \<noteq> pg_ID r})"
    by (rule shape(3)) (simp_all add: grant_scope_def)
  show "DeletePolicyGrant i rows = filter (\<lambda>r. pg_ID r \<noteq> i) rows"
    by (simp add: DeletePolicyGrant_def sql_delete_def)
qed

interpretation hitl_table: scoped_table mh_ID hitl_scope mh_Tools UpsertMandatoryHITLRule DeleteMandatoryHITLRule
proof
  fix now r rows e rows' x i
  note shape = upsert_shape [where content = mh_Tools, OF _ UpsertMandatoryHITLRule_def [of now r rows, unfolded Let_def]]
  show "UpsertMandatoryHITLRule now r rows = (Some e, rows') \<Longrightarrow> rows' = rows \<and> (\<exists>x\<in>set rows. mh_ID x \<noteq> mh_ID r \<and> hitl_scope x = hitl_scope r)"
    by (rule shape(1)) (simp_all add: hitl_scope_def)
  show "UpsertMandatoryHITLRule now r rows = (None, rows') \<Longrightarrow> x \<in> set rows \<Longrightarrow> mh_ID x \<noteq> mh_ID r \<Longrightarrow> hitl_scope x \<noteq> hitl_scope r"
    by (rule shape(2)) (simp_all add: hitl_scope_def)
  show "table_ok mh_ID hitl_scope rows \<Longrightarrow> UpsertMandatoryHITLRule now r rows = (None, rows') \<Longrightarrow> table_ok mh_ID hitl_scope rows' \<and>
      (\<exists>x. mh_ID x = mh_ID r \<and> hitl_scope x = hitl_scope r \<and> mh_Tools x = mh_Tools r
         \<and> set rows' = insert x {y \<in> set rows. mh_ID y \<noteq> mh_ID r})"
    by (rule shape(3)) (simp_all add: hitl_scope_def)
  show "DeleteMandatoryHITLRule i rows = filter (\<lambda>r. mh_ID r \<noteq> i) rows"
    by (simp add: DeleteMandatoryHITLRule_def sql_delete_def)
qed

section \<open>Lists\<close>

definition admin_limit :: "url_query \<Rightarrow> int" where
  "admin_limit q = min (positive_or adminListDefaultLimit (query_get q ''limit'')) adminListMaxLimit"

definition at_cursor :: "url_query \<Rightarrow> string \<Rightarrow> url_query" where
  "at_cursor q cursor = q(''offset'' := None, ''cursor'' \<mapsto> cursor)"

lemma query_at_cursor [simp]:
  "query_get (at_cursor q c) ''cursor'' = c" "at_cursor q c ''offset'' = None"
  "k \<noteq> ''cursor'' \<Longrightarrow> k \<noteq> ''offset'' \<Longrightarrow> query_get (at_cursor q c) k = query_get q k"
  by (simp_all add: at_cursor_def query_get_def)

lemma paging_at_cursor [simp]:
  "adminListPaging (at_cursor q c) = Some \<lparr>ap_Limit = admin_limit q, ap_Offset = 0, ap_Cursor = c\<rparr>"
proof -
  have "query_get (at_cursor q c) ''offset'' = []" by (simp add: query_get_def)
  then show ?thesis by (simp add: adminListPaging_def admin_limit_def Let_def positive_or_def)
qed

lemma admin_limit_pos: "0 < admin_limit q"
  by (simp add: admin_limit_def positive_or_def adminListDefaultLimit_def adminListMaxLimit_def split: option.splits)

lemma key_search_decodes: "key_search unmarshal pos cond limit offset cursor rows = Inr page \<Longrightarrow> \<not> isl (DecodeKey unmarshal cursor)"
  by (auto simp: key_search_def split: sum.splits)

lemma system_search [simp]: "search_tenant (SystemContext c) wanted t \<longleftrightarrow> search_eq wanted t"
  by (simp add: search_tenant_def search_eq_def SystemContext_def IsSystem_def)

interpretation kill_pages: key_listing "\<lambda>rows cursor. handleAdminListKillSwitches unmarshal (at_cursor q cursor) rows" unmarshal
  "\<lambda>k. (ks_TenantID k, ks_ID k)"
  "\<lambda>k. search_eq (query_get q ''tenant_id'') (ks_TenantID k) \<and> search_eq (query_get q ''agent_id'') (ks_AgentID k)" "admin_limit q"
  for unmarshal q
  by unfold_locales (auto simp: admin_limit_pos handleAdminListKillSwitches_def SearchKillSwitches_def key_request_def dest: key_search_decodes)

interpretation hitl_pages: key_listing "\<lambda>rows cursor. handleAdminListMandatoryHITL unmarshal (at_cursor q cursor) rows" unmarshal
  "\<lambda>r. (mh_TenantID r, mh_ID r)"
  "\<lambda>r. search_eq (query_get q ''tenant_id'') (mh_TenantID r) \<and> search_eq (query_get q ''agent_id'') (mh_AgentID r)
        \<and> search_eq (query_get q ''connector'') (mh_Connector r)" "admin_limit q"
  for unmarshal q
  by unfold_locales (auto simp: admin_limit_pos handleAdminListMandatoryHITL_def SearchMandatoryHITLRules_def key_request_def dest: key_search_decodes)

interpretation glass_pages: key_listing "\<lambda>rows cursor. handleAdminListBreakGlass unmarshal (at_cursor q cursor) rows" unmarshal
  "\<lambda>w. (bg_TenantID w, bg_ID w)"
  "\<lambda>w. search_eq (query_get q ''tenant_id'') (bg_TenantID w) \<and> search_eq (query_get q ''agent_id'') (bg_AgentID w)" "admin_limit q"
  for unmarshal q
  by unfold_locales (auto simp: admin_limit_pos handleAdminListBreakGlass_def SearchBreakGlassWindows_def key_request_def dest: key_search_decodes)

section \<open>Text order of instants\<close>

lemma prefix_less:
  fixes p q x y :: string
  assumes "length p = length q" "p @ x < q @ y"
  shows "p < q \<or> p = q \<and> x < y"
  using assms by (induction p q rule: list_induct2) auto

lemma formatTS_split: "formatTS t = fst t @ drop (length (fst t)) (formatTS t)"
  by (simp add: formatTS_def rfc3339nano_def)

lemma formatTS_order:
  assumes "instant_ok s" "instant_ok t" "formatTS s \<le> formatTS t"
  shows "fst s \<le> fst t"
proof -
  have len: "length (fst s) = length (fst t)" using assms by (simp add: instant_ok_def)
  show ?thesis
  proof (cases "formatTS s = formatTS t")
    case True
    then show ?thesis using parseTS_formatTS assms(1,2) by (metis option.inject order_refl)
  next
    case False
    then have "formatTS s < formatTS t" using assms(3) by simp
    then have "fst s @ drop (length (fst s)) (formatTS s) < fst t @ drop (length (fst t)) (formatTS t)"
      using formatTS_split by metis
    then show ?thesis using prefix_less [OF len] by fastforce
  qed
qed

lemma fraction_sorts_first: "0 < n \<Longrightarrow> formatTS (p, n) < formatTS (p, 0)"
  by (simp add: formatTS_def rfc3339nano_def append_less_append)

section \<open>Grants and the engine\<close>

datatype grant_call = CreateGrant instant string PolicyGrant | UpdateGrant instant string PolicyGrant | DeleteGrant string

fun grant_exec :: "grant_call \<Rightarrow> PolicyGrant list \<times> Engine option \<Rightarrow> PolicyGrant list \<times> Engine option" where
  "grant_exec (CreateGrant now hex body) s = snd (handleAdminCreatePolicyGrant now hex body s)"
| "grant_exec (UpdateGrant now i body) s = snd (handleAdminUpdatePolicyGrant now i body s)"
| "grant_exec (DeleteGrant i) s = snd (handleAdminDeletePolicyGrant i s)"

definition overlays_synced :: "PolicyGrant list \<times> Engine option \<Rightarrow> bool" where
  "overlays_synced s \<longleftrightarrow> (case s of (rows, policy) \<Rightarrow>
     (case policy of None \<Rightarrow> True
      | Some e \<Rightarrow> static e = static (ReplaceOverlays (modelGrantsToPolicy (ListPolicyGrants rows)) e)))"

lemma ReplaceOverlays_twice: "static (ReplaceOverlays gs (ReplaceOverlays gs' e)) = static (ReplaceOverlays gs e)"
  by (simp add: ReplaceOverlays_def applyOverlaysLocked_def Let_def)

lemma reload_synced: "overlays_synced (rows, ReloadPolicyOverlays rows policy)"
  by (cases policy) (simp_all add: overlays_synced_def ReloadPolicyOverlays_def ReplaceOverlays_twice)

lemma refused_rows: "UpsertPolicyGrant now g rows = (Some e, rows') \<Longrightarrow> rows' = rows"
  using grant_table.upsert_refused by blast

lemma grant_exec_synced: "overlays_synced s \<Longrightarrow> overlays_synced (grant_exec c s)"
proof (cases s)
  case (Pair rows policy)
  assume "overlays_synced s"
  then show ?thesis
    unfolding Pair
    by (cases c)
      (auto simp: handleAdminCreatePolicyGrant_def handleAdminUpdatePolicyGrant_def handleAdminDeletePolicyGrant_def Let_def
        reload_synced dest!: refused_rows split: prod.splits option.splits sum.splits)
qed

lemma grant_exec_table:
  "table_ok pg_ID grant_scope (fst s) \<Longrightarrow> table_ok pg_ID grant_scope (fst (grant_exec c s))"
proof (cases s)
  case (Pair rows policy)
  assume ok: "table_ok pg_ID grant_scope (fst s)"
  have up: "table_ok pg_ID grant_scope rows'" if "UpsertPolicyGrant now g rows = (e, rows')" for now g e rows'
    using grant_table.upsert_refines [of rows now g] ok that Pair by simp
  show ?thesis
    using ok grant_table.delete_refines [of rows]
    unfolding Pair
    by (cases c)
      (auto simp: handleAdminCreatePolicyGrant_def handleAdminUpdatePolicyGrant_def handleAdminDeletePolicyGrant_def Let_def
        dest: up split: prod.splits option.splits sum.splits)
qed

section \<open>Properties\<close>

text \<open>C32: The kill-switch table refines a map from (tenant, agent) to at most one switch. After any sequence
  of upserts and deletes the table holds exactly what the abstract map holds after the same sequence, a
  refused upsert changing nothing in either; and the lookup that admission makes answers with the agent's
  own switch, else the tenant-wide one, else none.\<close>

theorem kill_switches_refine_map:
  "let rows = fold (table_exec UpsertKillSwitch DeleteKillSwitch) ops [];
             m = fold (spec_exec ks_ID kill_scope kill_content) ops Map.empty
         in row_map ks_ID kill_scope kill_content rows = m
            \<and> map_option (\<lambda>k. (ks_ID k, kill_content k)) (FindActiveKill t a rows) = (case m (t, a) of Some k \<Rightarrow> Some k | None \<Rightarrow> m (t, []))"
proof -
  let ?rows = "fold (table_exec UpsertKillSwitch DeleteKillSwitch) ops []"
  let ?m = "fold (spec_exec ks_ID kill_scope kill_content) ops Map.empty"
  have ok: "table_ok ks_ID kill_scope ?rows" and m: "row_map ks_ID kill_scope kill_content ?rows = ?m"
    using kill_table.run_refines [of "[]" ops] by (simp_all add: table_ok_def row_map_Nil kill_content_def)
  note abs = row_map_iff [OF ok, where content = kill_content, unfolded m]
  let ?hits = "filter (\<lambda>k. ks_TenantID k = t \<and> (ks_AgentID k = a \<or> ks_AgentID k = [])) ?rows"
  let ?f = "\<lambda>k. if ks_AgentID k = a then 0 else (1::nat)"
  have "map_option (\<lambda>k. (ks_ID k, kill_content k)) (FindActiveKill t a ?rows) = (case ?m (t, a) of Some k \<Rightarrow> Some k | None \<Rightarrow> ?m (t, []))"
  proof (cases "FindActiveKill t a ?rows")
    case None
    then have "?hits = []" by (simp add: FindActiveKill_def)
    then have "?m (t, a) = None" "?m (t, []) = None"
      using abs by (auto simp: filter_empty_conv kill_scope_def) (metis not_None_eq surj_pair)+
    then show ?thesis using None by simp
  next
    case (Some k)
    then have k: "k \<in> set ?rows" "ks_TenantID k = t" "ks_AgentID k = a \<or> ks_AgentID k = []" and least: "\<forall>x\<in>set ?hits. ?f k \<le> ?f x"
      using first_row_least [of ?f ?hits k] by (auto simp: FindActiveKill_def)
    show ?thesis
    proof (cases "ks_AgentID k = a")
      case True
      then have "?m (t, a) = Some (ks_ID k, kill_content k)" using abs k by (auto simp: kill_scope_def)
      then show ?thesis using Some by simp
    next
      case False
      have "?m (t, a) = None"
      proof (rule ccontr)
        assume "?m (t, a) \<noteq> None"
        then obtain x where x: "x \<in> set ?rows" "ks_TenantID x = t" "ks_AgentID x = a" using abs by (auto simp: kill_scope_def)
        then have "x \<in> set ?hits" by simp
        with least have "?f k \<le> ?f x" by blast
        then show False using x False by simp
      qed
      moreover have "?m (t, []) = Some (ks_ID k, kill_content k)" using abs k False by (auto simp: kill_scope_def)
      ultimately show ?thesis using Some by simp
    qed
  qed
  then show ?thesis using m by (simp add: Let_def)
qed

text \<open>C33: The Admin list of kill switches can be read to its end. A client that follows the cursors gets,
  after at most one request more than the number of full pages, every switch that the filters select,
  once, in order, whatever page size the query asks for.\<close>

theorem kill_list_complete:
  assumes "key_rows unmarshal (\<lambda>k. (ks_TenantID k, ks_ID k)) rows"
    and "listing = sort_key (\<lambda>k. (ks_TenantID k, ks_ID k)) (filter (\<lambda>k. search_eq (query_get q ''tenant_id'') (ks_TenantID k)
           \<and> search_eq (query_get q ''agent_id'') (ks_AgentID k)) rows)"
    and "length listing div nat (admin_limit q) < n"
  shows "follow_pages (\<lambda>cursor. handleAdminListKillSwitches unmarshal (at_cursor q cursor) rows) n [] = Some listing"
  using kill_pages.follow_complete [OF assms(1), of q n] assms(2,3) by simp

definition sample_kill :: "string \<Rightarrow> string \<Rightarrow> KillSwitch" where
  "sample_kill i t = \<lparr>ks_ID = i, ks_TenantID = t, ks_AgentID = [], ks_PauseOnly = False, ks_Reason = [], ks_CreatedBy = [],
     ks_CreatedAt = (''2026-01-01T00:00:00'', 0), ks_UpdatedAt = (''2026-01-01T00:00:00'', 0)\<rparr>"

theorem kill_list_complete_witness:
  "follow_pages (\<lambda>cursor. handleAdminListKillSwitches (\<lambda>s. Some (JObj (wire_members \<lparr>w_T = [], w_K = ''acme'', w_I = ''k1''\<rparr>)))
      (at_cursor [''limit'' \<mapsto> ''1''] cursor) [sample_kill ''k1'' ''acme'']) 2 [] = Some [sample_kill ''k1'' ''acme'']"
proof -
  let ?u = "\<lambda>s. Some (JObj (wire_members \<lparr>w_T = [], w_K = ''acme'', w_I = ''k1''\<rparr>))"
  have "key_rows ?u (\<lambda>k. (ks_TenantID k, ks_ID k)) [sample_kill ''k1'' ''acme'']"
    by (simp add: key_rows_def reads_back_def sample_kill_def)
  moreover have "admin_limit [''limit'' \<mapsto> ''1''] = 1" by code_simp
  ultimately show ?thesis
    using kill_list_complete [of ?u "[sample_kill ''k1'' ''acme'']" "[sample_kill ''k1'' ''acme'']" "[''limit'' \<mapsto> ''1'']" 2]
    by (simp add: search_eq_def query_get_def)
qed

text \<open>A break-glass window opens the policy of its own tenant and agent only, and for no longer than it
  was minted for, to the second: when the lookup at \<open>now\<close> finds a window, it is a stored window of that
  tenant, for that agent or the whole tenant, and the clock's second lies between its start and its
  expiry.\<close>

theorem break_glass_window_bounded:
  assumes "FindActiveBreakGlass now t a rows = Some w" and "instant_ok now"
    and "\<forall>x\<in>set rows. instant_ok (bg_StartsAt x) \<and> instant_ok (bg_ExpiresAt x)"
  shows "w \<in> set rows \<and> bg_TenantID w = t \<and> (bg_AgentID w = a \<or> bg_AgentID w = [])
    \<and> fst (bg_StartsAt w) \<le> fst now \<and> fst now \<le> fst (bg_ExpiresAt w)"
proof -
  have "w \<in> set rows" "bg_TenantID w = t" "bg_AgentID w = a \<or> bg_AgentID w = []"
    "formatTS (bg_StartsAt w) \<le> formatTS now" "formatTS now < formatTS (bg_ExpiresAt w)"
    using first_row_least [OF assms(1) [unfolded FindActiveBreakGlass_def]] by auto
  then show ?thesis using formatTS_order assms(2,3) by fastforce
qed

definition sample_window :: BreakGlassWindow where
  "sample_window = \<lparr>bg_ID = ''bg-1'', bg_TenantID = ''acme'', bg_AgentID = [], bg_Reason = ''outage'', bg_CreatedBy = ''ann'',
     bg_StartsAt = (''2026-01-01T00:00:00'', 0), bg_ExpiresAt = (''2026-01-01T01:00:00'', 0),
     bg_CreatedAt = (''2026-01-01T00:00:00'', 0), bg_UpdatedAt = (''2026-01-01T00:00:00'', 0)\<rparr>"

theorem break_glass_window_bounded_witness:
  "\<exists>w. FindActiveBreakGlass (''2026-01-01T00:30:00'', 0) ''acme'' ''bot'' [sample_window] = Some w \<and> bg_TenantID w = ''acme''"
proof -
  have "FindActiveBreakGlass (''2026-01-01T00:30:00'', 0) ''acme'' ''bot'' [sample_window] = Some sample_window"
    by (simp add: FindActiveBreakGlass_def first_row_def sample_window_def formatTS_def rfc3339nano_def)
  from break_glass_window_bounded [OF this] show ?thesis
    using \<open>FindActiveBreakGlass _ _ _ _ = _\<close> by (simp add: instant_ok_def sample_window_def)
qed

text \<open>A window that expires on a whole second stays open during the rest of that second: the stored
  text of the expiry has no fraction and sorts after every text of the same second that has one. The
  lookup still finds the window at any later nanosecond of the second in which it expired.\<close>

theorem break_glass_outlives_expiry:
  assumes "bg_ExpiresAt w = (p, 0)" "0 < n" "formatTS (bg_StartsAt w) \<le> formatTS (p, n)"
  shows "FindActiveBreakGlass (p, n) (bg_TenantID w) (bg_AgentID w) [w] = Some w"
  using assms fraction_sorts_first [of n p] by (simp add: FindActiveBreakGlass_def first_row_def)

theorem break_glass_outlives_expiry_witness:
  "FindActiveBreakGlass (''2026-01-01T01:00:00'', 999999999) ''acme'' [] [sample_window] = Some sample_window"
proof -
  have "formatTS (bg_StartsAt sample_window) \<le> formatTS (''2026-01-01T01:00:00'', 999999999)"
    by (simp add: sample_window_def formatTS_def rfc3339nano_def)
  from break_glass_outlives_expiry [OF _ _ this] show ?thesis by (simp add: sample_window_def)
qed

text \<open>C14: Grant changes reach the engine. Through any sequence of Admin creates, updates and deletes, refused
  ones included, identifiers and scopes of the grant table stay unique and the grants that the engine
  enforces are its baseline merged with exactly the table's grants; and when a delete has answered, the
  engine has no overlay with that identifier and no cached decision. The calls follow one another, and the
  read of the table with which each of them reloads the engine succeeds.\<close>

theorem grant_changes_reach_engine:
  assumes "table_ok pg_ID grant_scope rows" "overlays_synced (rows, policy)"
    and "fold grant_exec calls (rows, policy) = (rows', policy')"
  shows "table_ok pg_ID grant_scope rows' \<and> overlays_synced (rows', policy')
    \<and> (\<forall>i rows'' e. handleAdminDeletePolicyGrant i (rows', policy') = (204, rows'', Some e) \<longrightarrow>
          (\<forall>g\<in>set (overlays e). g_ID g \<noteq> i) \<and> (\<forall>c k. cache e = Some c \<longrightarrow> c k = None))"
proof -
  have "table_ok pg_ID grant_scope (fst (fold grant_exec calls s)) \<and> overlays_synced (fold grant_exec calls s)"
    if "table_ok pg_ID grant_scope (fst s)" "overlays_synced s" for s
    using that by (induction calls arbitrary: s) (simp_all add: grant_exec_table grant_exec_synced)
  then have "table_ok pg_ID grant_scope rows' \<and> overlays_synced (rows', policy')"
    using assms by (metis fst_conv)
  moreover have "(\<forall>g\<in>set (overlays e). g_ID g \<noteq> i) \<and> (\<forall>c k. cache e = Some c \<longrightarrow> c k = None)"
    if d: "handleAdminDeletePolicyGrant i (rows', policy') = (204, rows'', Some e)" for i rows'' e
  proof -
    obtain e0 where "policy' = Some e0" and rows'': "rows'' = DeletePolicyGrant i rows'"
      and e: "e = ReplaceOverlays (modelGrantsToPolicy (ListPolicyGrants rows'')) e0"
      using d by (auto simp: handleAdminDeletePolicyGrant_def ReloadPolicyOverlays_def Let_def split: sum.splits)
    show ?thesis
      unfolding e rows''
      by (auto simp: ReplaceOverlays_def applyOverlaysLocked_def Let_def modelGrantsToPolicy_def ListPolicyGrants_def
          scanPolicyGrant_def DeletePolicyGrant_def sql_delete_def cache_clear_def split: option.splits)
  qed
  ultimately show ?thesis by blast
qed

definition sample_grant_row :: PolicyGrant where
  "sample_grant_row = \<lparr>pg_ID = ''g1'', pg_TenantID = ''acme'', pg_AgentID = ''bot'', pg_Connector = ''crm'', pg_Tools = None,
     pg_CreatedAt = (''2026-01-01T00:00:00'', 0), pg_UpdatedAt = (''2026-01-01T00:00:00'', 0)\<rparr>"

theorem grant_changes_reach_engine_witness:
  "\<exists>rows e. handleAdminDeletePolicyGrant ''g1'' ([sample_grant_row], Some sample_engine) = (204, rows, Some e)
     \<and> (\<forall>g\<in>set (overlays e). g_ID g \<noteq> ''g1'')"
proof -
  have "overlays_synced ([sample_grant_row], Some sample_engine)"
    by (simp add: overlays_synced_def ReplaceOverlays_def applyOverlaysLocked_def Let_def sample_engine_def modelGrantsToPolicy_def
        ListPolicyGrants_def scanPolicyGrant_def sample_grant_row_def sample_grant_def mergeGrants_def merge_add_def
        grant_key_def grant_key_ok_def visible_def)
  from grant_changes_reach_engine [OF _ this, of "[]"]
  have "\<forall>i rows'' e. handleAdminDeletePolicyGrant i ([sample_grant_row], Some sample_engine) = (204, rows'', Some e) \<longrightarrow>
          (\<forall>g\<in>set (overlays e). g_ID g \<noteq> i)"
    by (simp add: table_ok_def)
  moreover have "\<exists>rows e. handleAdminDeletePolicyGrant ''g1'' ([sample_grant_row], Some sample_engine) = (204, rows, Some e)"
    by (simp add: handleAdminDeletePolicyGrant_def GetPolicyGrant_def sample_grant_row_def ReloadPolicyOverlays_def Let_def)
  ultimately show ?thesis by blast
qed

end
