(* ===== verification/Permissions.thy ===== *)
theory Permissions
  imports Go_Encoding Json_Value
begin

text \<open>
  Route-level permissions of the client API: the RBAC part of src/internal/auth/auth.go,
  src/internal/auth/agent_perm.go and the static keys of src/internal/auth/apikey.go. An HTTP request is
  its method, its path, its header values by canonical name and its session cookie.
\<close>

section \<open>Results of authentication\<close>

record AuthResult =
  ar_Identity :: string
  ar_Permissions :: "string list"
  ar_TenantID :: string
  ar_DisplayName :: string
  ar_Extra :: "string \<rightharpoonup> json"

datatype auth_error = ErrUnauthorized string | ErrForbidden string | ErrProvider string

record Request =
  rq_method :: string
  rq_path :: string
  rq_header :: "string \<Rightarrow> string list"
  rq_cookie :: string

text \<open>\<open>Header.Get\<close>: the first value or the empty string.\<close>

definition header_get :: "Request \<Rightarrow> string \<Rightarrow> string" where
  "header_get r name = (case rq_header r name of [] \<Rightarrow> [] | v # _ \<Rightarrow> v)"

text \<open>The identity that handlers record, empty without a caller.\<close>

definition identity_of :: "AuthResult option \<Rightarrow> string" where
  "identity_of ar = (case ar of None \<Rightarrow> [] | Some res \<Rightarrow> ar_Identity res)"

section \<open>Agent grants (agent_perm.go)\<close>

definition agentRunPermPrefix :: string where "agentRunPermPrefix = ''agents:''"

definition agentRunPermSuffix :: string where "agentRunPermSuffix = '':run''"

definition isAgentRunPermission :: "string \<Rightarrow> bool" where
  "isAgentRunPermission p \<longleftrightarrow>
     HasPrefix p agentRunPermPrefix \<and> HasSuffix p agentRunPermSuffix \<and>
     (let mid = TrimSuffix (TrimPrefix p agentRunPermPrefix) agentRunPermSuffix
      in mid \<noteq> [] \<and> \<not> Contains mid '':'')"

definition AgentRunPermission :: "string \<Rightarrow> string" where
  "AgentRunPermission agentID = agentRunPermPrefix @ TrimSpace agentID @ agentRunPermSuffix"

definition isRunCreatePath :: "string \<Rightarrow> string \<Rightarrow> bool" where
  "isRunCreatePath m p0 \<longleftrightarrow>
     m = ''POST'' \<and>
     (let p = TrimSuffix p0 ''/'' in
      p \<in> set [''/runs'', ''/runs/stream'', ''/runs/wait''] \<or>
      HasPrefix p ''/threads/'' \<and>
      (let rest = drop (length ''/threads/'') p in
       case IndexByte rest (CHR ''/'') of
         None \<Rightarrow> False
       | Some slash \<Rightarrow> drop (slash + 1) rest \<in> set [''runs'', ''runs/stream'', ''runs/wait'']))"

definition CanRunAgent :: "AuthResult option \<Rightarrow> string \<Rightarrow> bool" where
  "CanRunAgent result agentID0 =
     (let agentID = TrimSpace agentID0 in
      if agentID = [] then False
      else case result of
        None \<Rightarrow> True
      | Some res \<Rightarrow>
          if ar_Permissions res = [] then True
          else let want = AgentRunPermission agentID in
               list_ex (\<lambda>p. p = ''admin'' \<or> p = ''write'' \<or> p = want) (ar_Permissions res))"

section \<open>Required and granted permissions (auth.go)\<close>

definition GovernanceDecidePermission :: string where
  "GovernanceDecidePermission = ''governance:decide''"

definition isGovernanceClientPath :: "string \<Rightarrow> string \<Rightarrow> bool" where
  "isGovernanceClientPath m p0 =
     (let p = TrimSuffix p0 ''/'' in
      if m = ''POST'' \<and> p = ''/governance/decide'' then True
      else m = ''GET'' \<and> HasPrefix p ''/governance/actions/'' \<and> length p > length ''/governance/actions/'')"

definition requiredPermission :: "string \<Rightarrow> string \<Rightarrow> string" where
  "requiredPermission m p =
     (if isGovernanceClientPath m p then GovernanceDecidePermission
      else if m = ''GET'' \<or> m = ''HEAD'' then ''read'' else ''write'')"

definition hasPermission :: "string list \<Rightarrow> string \<Rightarrow> string \<Rightarrow> string \<Rightarrow> bool" where
  "hasPermission permissions required m p0 =
     list_ex (\<lambda>p. p = ''admin'' \<or> p = required \<or> required = ''read'' \<and> p = ''write''
                 \<or> required = ''write'' \<and> isAgentRunPermission p \<and> isRunCreatePath m p0) permissions"

definition authorized :: "AuthResult option \<Rightarrow> string \<Rightarrow> string \<Rightarrow> bool \<Rightarrow> bool" where
  "authorized result m p strict =
     (case result of
        None \<Rightarrow> \<not> strict
      | Some res \<Rightarrow>
          if ar_Permissions res = [] then \<not> strict
          else hasPermission (ar_Permissions res) (requiredPermission m p) m p)"

definition authorizedAdmin :: "AuthResult option \<Rightarrow> bool \<Rightarrow> bool" where
  "authorizedAdmin result strict =
     (case result of
        None \<Rightarrow> \<not> strict
      | Some res \<Rightarrow>
          if ar_Permissions res = [] then \<not> strict
          else hasPermission (ar_Permissions res) ''admin'' [] [])"

definition AllowsSimulation :: "AuthResult option \<Rightarrow> bool \<Rightarrow> bool" where
  "AllowsSimulation result strict = authorizedAdmin result strict"

definition SimulationRequested :: "string \<Rightarrow> bool" where
  "SimulationRequested raw \<longleftrightarrow> ToLower (TrimSpace raw) \<in> set [''true'', ''1'', ''yes'']"

definition appPermission :: "string \<Rightarrow> bool" where
  "appPermission p \<longleftrightarrow>
     p \<in> set [''read'', ''write'', ''admin'', GovernanceDecidePermission] \<or> isAgentRunPermission p"

definition filterAppPermissions :: "string list \<Rightarrow> string list" where
  "filterAppPermissions perms = filter appPermission perms"

text \<open>A claim as encoding/json decodes it.\<close>

fun claim_strings :: "json list \<Rightarrow> string list" where
  "claim_strings [] = []"
| "claim_strings (JStr s # xs) = s # claim_strings xs"
| "claim_strings (_ # xs) = claim_strings xs"

definition parsePermissionsClaim :: "json \<Rightarrow> string list" where
  "parsePermissionsClaim raw =
     (case raw of
        JArr xs \<Rightarrow> filterAppPermissions (claim_strings xs)
      | JStr v \<Rightarrow> if v = [] then [] else filterAppPermissions (Fields v)
      | _ \<Rightarrow> [])"

section \<open>Static keys (apikey.go)\<close>

record APIKeyEntry =
  ke_Name :: string
  ke_Permissions :: "string list"
  ke_TenantID :: string
  ke_Extra :: "string \<rightharpoonup> json"

definition extractKey :: "Request \<Rightarrow> string" where
  "extractKey r =
     (let auth = header_get r ''Authorization'' in
      if auth \<noteq> [] \<and> HasPrefix auth ''Bearer '' then TrimSpace (drop (length ''Bearer '') auth)
      else TrimSpace (header_get r ''X-Api-Key''))"

definition apikey_Authenticate :: "(string \<rightharpoonup> APIKeyEntry) \<Rightarrow> Request \<Rightarrow> auth_error + AuthResult" where
  "apikey_Authenticate keys r =
     (let key = extractKey r in
      if key = [] then Inl (ErrUnauthorized ''missing API key'')
      else case keys key of
        None \<Rightarrow> Inl (ErrUnauthorized ''invalid API key'')
      | Some entry \<Rightarrow>
          Inr \<lparr>ar_Identity = ke_Name entry, ar_Permissions = filterAppPermissions (ke_Permissions entry),
               ar_TenantID = ke_TenantID entry, ar_DisplayName = [], ar_Extra = ke_Extra entry\<rparr>)"

section \<open>Lemmas\<close>

lemma AgentRunPermission_recognised:
  assumes "TrimSpace a \<noteq> []" "CHR '':'' \<notin> set (TrimSpace a)"
  shows "isAgentRunPermission (AgentRunPermission a)"
proof -
  have "HasPrefix (AgentRunPermission a) agentRunPermPrefix" "HasSuffix (AgentRunPermission a) agentRunPermSuffix"
    by (simp_all add: AgentRunPermission_def HasPrefix_def HasSuffix_def)
  moreover have "TrimSuffix (TrimPrefix (AgentRunPermission a) agentRunPermPrefix) agentRunPermSuffix = TrimSpace a"
    by (simp add: AgentRunPermission_def)
  ultimately show ?thesis using assms by (simp add: isAgentRunPermission_def Let_def Contains_char)
qed

lemma AgentRunPermission_inj: "AgentRunPermission a = AgentRunPermission b \<longleftrightarrow> TrimSpace a = TrimSpace b"
  by (simp add: AgentRunPermission_def)

lemma AgentRunPermission_not_role:
  "AgentRunPermission a \<noteq> ''admin''" "AgentRunPermission a \<noteq> ''write''" "AgentRunPermission a \<noteq> ''read''"
  "AgentRunPermission a \<noteq> GovernanceDecidePermission"
  by (simp_all add: AgentRunPermission_def agentRunPermPrefix_def GovernanceDecidePermission_def)

lemma requiredPermission_cases:
  "requiredPermission m p = ''write'' \<or> requiredPermission m p = ''read'' \<or> requiredPermission m p = GovernanceDecidePermission"
  by (simp add: requiredPermission_def)

lemma agent_grants_no_role:
  assumes "\<forall>p \<in> set ps. \<exists>a. p = AgentRunPermission a"
    and "q = ''admin'' \<or> q = ''write'' \<or> q = ''read'' \<or> q = GovernanceDecidePermission"
  shows "q \<notin> set ps"
  using assms AgentRunPermission_not_role by metis

lemma hasPermission_agent_only:
  assumes "\<forall>p \<in> set ps. \<exists>a. p = AgentRunPermission a"
    and "required = ''admin'' \<or> required = ''write'' \<or> required = ''read'' \<or> required = GovernanceDecidePermission"
    and "hasPermission ps required m p0"
  shows "required = ''write'' \<and> isRunCreatePath m p0"
proof -
  have no: "''admin'' \<notin> set ps" "''write'' \<notin> set ps" "required \<notin> set ps"
    using agent_grants_no_role [OF assms(1)] assms(2) by blast+
  obtain p where "p \<in> set ps" "p = ''admin'' \<or> p = required \<or> required = ''read'' \<and> p = ''write''
      \<or> required = ''write'' \<and> isAgentRunPermission p \<and> isRunCreatePath m p0"
    using assms(3) unfolding hasPermission_def list_ex_iff by blast
  then show ?thesis using no by blast
qed

section \<open>Properties\<close>

text \<open>C30: A caller whose only permissions are grants agents:<id>:run can create runs, of those agents,
  and nothing else. Every route they are let through on is a run-create route, they are never let
  through to the Admin API, and they may run exactly the agents that a grant names.\<close>

theorem agent_grant_is_confined:
  assumes "ar_Permissions res \<noteq> []" "\<forall>p \<in> set (ar_Permissions res). \<exists>a. p = AgentRunPermission a"
  shows "(authorized (Some res) m p strict \<longrightarrow> isRunCreatePath m p \<and> \<not> isGovernanceClientPath m p)
    \<and> \<not> authorizedAdmin (Some res) strict
    \<and> (CanRunAgent (Some res) a \<longleftrightarrow> TrimSpace a \<noteq> [] \<and> AgentRunPermission a \<in> set (ar_Permissions res))"
proof (intro conjI)
  show "authorized (Some res) m p strict \<longrightarrow> isRunCreatePath m p \<and> \<not> isGovernanceClientPath m p"
  proof
    assume "authorized (Some res) m p strict"
    then have "hasPermission (ar_Permissions res) (requiredPermission m p) m p"
      using assms(1) by (simp add: authorized_def)
    then have "requiredPermission m p = ''write'' \<and> isRunCreatePath m p"
      using hasPermission_agent_only [OF assms(2)] requiredPermission_cases [of m p] by blast
    then show "isRunCreatePath m p \<and> \<not> isGovernanceClientPath m p"
      by (auto simp: requiredPermission_def GovernanceDecidePermission_def split: if_splits)
  qed
  have "\<not> hasPermission (ar_Permissions res) ''admin'' [] []"
    using hasPermission_agent_only [OF assms(2), of "''admin''"] by auto
  then show "\<not> authorizedAdmin (Some res) strict"
    using assms(1) by (simp add: authorizedAdmin_def)
  have "AgentRunPermission (TrimSpace a) = AgentRunPermission a" by (simp add: AgentRunPermission_inj)
  moreover have "''admin'' \<notin> set (ar_Permissions res)" "''write'' \<notin> set (ar_Permissions res)"
    using agent_grants_no_role [OF assms(2)] by blast+
  ultimately show "CanRunAgent (Some res) a \<longleftrightarrow> TrimSpace a \<noteq> [] \<and> AgentRunPermission a \<in> set (ar_Permissions res)"
    using assms(1) by (auto simp: CanRunAgent_def Let_def list_ex_iff)
qed

definition bot_caller :: AuthResult where
  "bot_caller = \<lparr>ar_Identity = ''ci'', ar_Permissions = [''agents:bot:run''], ar_TenantID = ''acme'', ar_DisplayName = [], ar_Extra = Map.empty\<rparr>"

lemma bot_grant: "AgentRunPermission ''bot'' = ''agents:bot:run''"
  by (simp add: AgentRunPermission_def agentRunPermPrefix_def agentRunPermSuffix_def visible_def)

theorem agent_grant_is_confined_witness:
  "CanRunAgent (Some bot_caller) ''bot'' \<and> \<not> authorized (Some bot_caller) ''DELETE'' ''/runs/r1'' False"
proof -
  have "ar_Permissions bot_caller = [AgentRunPermission ''bot'']" by (simp add: bot_caller_def bot_grant)
  then have p: "ar_Permissions bot_caller \<noteq> []" "\<forall>p \<in> set (ar_Permissions bot_caller). \<exists>a. p = AgentRunPermission a"
    "AgentRunPermission ''bot'' \<in> set (ar_Permissions bot_caller)"
    by auto
  have "TrimSpace ''bot'' \<noteq> []" "\<not> isRunCreatePath ''DELETE'' ''/runs/r1''"
    by (simp_all add: visible_def isRunCreatePath_def)
  then show ?thesis
    using agent_grant_is_confined [OF p(1,2), of "''DELETE''" "''/runs/r1''" False "''bot''"] p(3) by blast
qed

text \<open>Whatever a credential carries, the permissions of the caller are of this control plane's own
  vocabulary. The claim parser and the static keys keep read, write, admin, governance:decide and agent
  grants, in their order, and drop everything else.\<close>

theorem permissions_in_vocabulary:
  "list_all appPermission (parsePermissionsClaim raw)
   \<and> (case apikey_Authenticate keys r of Inr res \<Rightarrow> list_all appPermission (ar_Permissions res) | Inl _ \<Rightarrow> True)
   \<and> parsePermissionsClaim (JArr (map JStr ps)) = filter appPermission ps"
proof -
  have "claim_strings (map JStr ps) = ps" by (induction ps) simp_all
  moreover have "list_all appPermission (filterAppPermissions xs)" for xs
    by (simp add: filterAppPermissions_def list_all_iff)
  ultimately show ?thesis
    by (auto simp: parsePermissionsClaim_def apikey_Authenticate_def filterAppPermissions_def Let_def list_all_iff
        split: json.splits option.splits if_splits)
qed

text \<open>The recogniser of agent grants accepts a string that names no agent. For "agents:run" the
  prefix and the suffix share the colon, so it passes as a grant, is kept as a permission of the
  vocabulary, and opens the run-create routes, although no agent id has it as its grant.\<close>

theorem agents_run_taken_for_grant:
  "isAgentRunPermission ''agents:run'' \<and> appPermission ''agents:run''
   \<and> hasPermission [''agents:run''] ''write'' ''POST'' ''/runs''
   \<and> (\<forall>a. AgentRunPermission a \<noteq> ''agents:run'')"
proof -
  have "isAgentRunPermission ''agents:run''"
    by (simp add: isAgentRunPermission_def agentRunPermPrefix_def agentRunPermSuffix_def HasPrefix_def HasSuffix_def
        TrimPrefix_def TrimSuffix_def Contains_char)
  moreover have "isRunCreatePath ''POST'' ''/runs''"
    by (simp add: isRunCreatePath_def TrimSuffix_def HasSuffix_def)
  moreover have "AgentRunPermission a \<noteq> ''agents:run''" for a
  proof
    assume "AgentRunPermission a = ''agents:run''"
    then have "length (AgentRunPermission a) = 10" by simp
    then show False by (simp add: AgentRunPermission_def agentRunPermPrefix_def agentRunPermSuffix_def)
  qed
  ultimately show ?thesis by (auto simp: appPermission_def hasPermission_def)
qed

end
