(* ===== verification/Pending_Actions.thy ===== *)
theory Pending_Actions
  imports Admin_Tables Permissions
begin

text \<open>
  Approvals of tool calls by an operator: the model of src/internal/models/pending.go, the table
  pending_actions of src/internal/state/sqlite/governance.go and the Admin handlers of
  src/internal/api/admin_pending.go. A row holds what a scan of its columns returns, and the column
  pending_key. SHA-256 in hexadecimal is the argument \<open>sha\<close>. The statements of the store are the steps of
  a history, so that every interleaving of concurrent requests is one; what single requests do is the
  composition of the statements that they execute.
\<close>

section \<open>Pending actions (pending.go)\<close>

definition PendingStatusPending :: string where "PendingStatusPending = ''pending''"
definition PendingStatusApproved :: string where "PendingStatusApproved = ''approved''"
definition PendingStatusDenied :: string where "PendingStatusDenied = ''denied''"
definition PendingStatusConsumed :: string where "PendingStatusConsumed = ''consumed''"
definition PendingReasonExpired :: string where "PendingReasonExpired = ''pending_expired''"

lemmas pending_status_defs =
  PendingStatusPending_def PendingStatusApproved_def PendingStatusDenied_def PendingStatusConsumed_def

record PendingAction =
  pa_ID :: string
  pa_RunID :: string
  pa_Generation :: int64
  pa_TenantID :: string
  pa_AgentID :: string
  pa_Connector :: string
  pa_Tool :: string
  pa_RuleID :: string
  pa_Reason :: string
  pa_ReasonCode :: string
  pa_Status :: string
  pa_ArgsDigest :: string
  pa_Args :: "(string \<times> json) list option"
  pa_DecidedBy :: string
  pa_CreatedAt :: instant
  pa_UpdatedAt :: instant
  pa_ExpiresAt :: "instant option"

record PendingRow = PendingAction +
  pa_key :: "string option"

text \<open>The call that an approval is for.\<close>

record Call =
  cl_TenantID :: string
  cl_AgentID :: string
  cl_RunID :: string
  cl_Generation :: int64
  cl_Connector :: string
  cl_Tool :: string
  cl_ArgsDigest :: string

definition call_of :: "'a PendingAction_scheme \<Rightarrow> Call" where
  "call_of a = \<lparr>cl_TenantID = pa_TenantID a, cl_AgentID = pa_AgentID a, cl_RunID = pa_RunID a,
     cl_Generation = pa_Generation a, cl_Connector = pa_Connector a, cl_Tool = pa_Tool a, cl_ArgsDigest = pa_ArgsDigest a\<rparr>"

text \<open>The text of the column args and its reading: an empty object is no map.\<close>

definition MarshalPendingArgs :: "(string \<times> json) list option \<Rightarrow> json" where
  "MarshalPendingArgs m = JObj (case m of None \<Rightarrow> [] | Some kvs \<Rightarrow> kvs)"

definition UnmarshalPendingArgs :: "json \<Rightarrow> (string \<times> json) list option" where
  "UnmarshalPendingArgs v = (case v of JObj kvs \<Rightarrow> if kvs = [] then None else Some kvs | _ \<Rightarrow> None)"

definition key_text :: "Call \<Rightarrow> bool \<Rightarrow> string" where
  "key_text c embedded = write_value (JArr [JStr (cl_TenantID c), JStr (cl_AgentID c), JBool embedded, JStr (cl_RunID c),
     JNum (Itoa (cl_Generation c)), JStr (cl_Connector c), JStr (cl_Tool c), JStr (cl_ArgsDigest c)])"

definition PendingActionKey :: "(string \<Rightarrow> string) \<Rightarrow> 'a PendingAction_scheme \<Rightarrow> string" where
  "PendingActionKey sha a = sha (key_text (call_of a) (pa_ExpiresAt a \<noteq> None))"

section \<open>The table (governance.go)\<close>

text \<open>\<open>INSERT ... ON CONFLICT (pending_key) DO NOTHING\<close>: a taken id is an error, a taken key leaves the table
  alone. A key of NULL is never taken.\<close>

definition insert_pending :: "PendingRow \<Rightarrow> PendingRow list \<Rightarrow> store_error + PendingRow list" where
  "insert_pending row rows =
     (if list_ex (\<lambda>r. pa_ID r = pa_ID row) rows then Inl (ErrConstraint ''UNIQUE constraint failed: pending_actions.id'')
      else if pa_key row \<noteq> None \<and> list_ex (\<lambda>r. pa_key r = pa_key row) rows then Inr rows
      else Inr (rows @ [row]))"

text \<open>The row of an action: the columns args and expires_at hold texts, and a scan reads them back.\<close>

definition row_of :: "PendingAction \<Rightarrow> string option \<Rightarrow> PendingRow" where
  "row_of a key = PendingAction.extend
     (a\<lparr>pa_Args := UnmarshalPendingArgs (MarshalPendingArgs (pa_Args a)),
       pa_ExpiresAt := Option.bind (formatExpiry (pa_ExpiresAt a)) parseTS\<rparr>) \<lparr>pa_key = key\<rparr>"

definition scanPendingAction :: "PendingRow \<Rightarrow> PendingAction" where
  "scanPendingAction row = PendingAction.truncate row"

definition FindOpenPendingAction :: "Call \<Rightarrow> bool \<Rightarrow> PendingRow list \<Rightarrow> PendingAction option" where
  "FindOpenPendingAction c embedded rows =
     map_option scanPendingAction
       (first_row (sort_key (\<lambda>r. formatTS (pa_CreatedAt r))
         (filter (\<lambda>r. call_of r = c \<and> pa_Status r = PendingStatusPending \<and> (pa_ExpiresAt r \<noteq> None) = embedded) rows)))"

definition GetPendingAction :: "string \<Rightarrow> PendingRow list \<Rightarrow> store_error + PendingAction" where
  "GetPendingAction i rows =
     (case find (\<lambda>r. pa_ID r = i) rows of
        None \<Rightarrow> Inl (ErrNotFound ''pending_action'' i)
      | Some r \<Rightarrow> Inr (scanPendingAction r))"

definition CreatePendingAction ::
  "(string \<Rightarrow> string) \<Rightarrow> instant \<Rightarrow> PendingAction \<Rightarrow> PendingRow list \<Rightarrow> (store_error + PendingAction) \<times> PendingRow list" where
  "CreatePendingAction sha now act rows =
     (let a = act\<lparr>pa_CreatedAt := (if pa_CreatedAt act = zero_time then now else pa_CreatedAt act), pa_UpdatedAt := now,
                 pa_Status := (if pa_Status act = [] then PendingStatusPending else pa_Status act)\<rparr>;
          embedded = (pa_ExpiresAt a \<noteq> None); opened = (pa_Status a = PendingStatusPending)
      in case (if opened then FindOpenPendingAction (call_of a) embedded rows else None) of
           Some existing \<Rightarrow> (Inr (a\<lparr>pa_ID := pa_ID existing\<rparr>), rows)
         | None \<Rightarrow>
             (case insert_pending (row_of a (if opened then Some (PendingActionKey sha a) else None)) rows of
                Inl e \<Rightarrow> (Inl e, rows)
              | Inr rows' \<Rightarrow>
                  if opened then
                    (case FindOpenPendingAction (call_of a) embedded rows' of
                       Some existing \<Rightarrow> (Inr (a\<lparr>pa_ID := pa_ID existing\<rparr>), rows')
                     | None \<Rightarrow> (case GetPendingAction (pa_ID a) rows' of Inl e \<Rightarrow> (Inl e, rows') | Inr _ \<Rightarrow> (Inr a, rows')))
                  else (Inr a, rows')))"

definition ExpireGovernancePending :: "instant \<Rightarrow> PendingRow list \<Rightarrow> PendingRow list" where
  "ExpireGovernancePending now rows =
     sql_update (\<lambda>r. pa_Status r = PendingStatusPending
                   \<and> (case formatExpiry (pa_ExpiresAt r) of None \<Rightarrow> False | Some e \<Rightarrow> e \<le> fst now @ ''Z''))
       (\<lambda>r. r\<lparr>pa_Status := PendingStatusDenied, pa_ReasonCode := PendingReasonExpired, pa_UpdatedAt := now, pa_key := None\<rparr>) rows"

definition SetPendingActionStatus ::
  "instant \<Rightarrow> string \<Rightarrow> string \<Rightarrow> string \<Rightarrow> PendingRow list \<Rightarrow> store_error option \<times> PendingRow list" where
  "SetPendingActionStatus now i fromStatus toStatus rows =
     (let hit = (\<lambda>r. pa_ID r = i \<and> pa_Status r = fromStatus) in
      (if sql_count hit rows = 0 then Some (ErrConflict ''pending_action'' i ''status changed'') else None,
       sql_update hit (\<lambda>r. r\<lparr>pa_Status := toStatus, pa_UpdatedAt := now, pa_key := None\<rparr>) rows))"

definition SetPendingActionApproved :: "instant \<Rightarrow> string \<Rightarrow> string \<Rightarrow> PendingRow list \<Rightarrow> store_error option \<times> PendingRow list" where
  "SetPendingActionApproved now i decidedBy rows =
     (let hit = (\<lambda>r. pa_ID r = i \<and> pa_Status r = PendingStatusPending
                   \<and> (case formatExpiry (pa_ExpiresAt r) of None \<Rightarrow> True | Some e \<Rightarrow> e > fst now @ ''Z'')) in
      (if sql_count hit rows = 0 then Some (ErrConflict ''pending_action'' i ''status changed or approval expired'') else None,
       sql_update hit (\<lambda>r. r\<lparr>pa_Status := PendingStatusApproved, pa_DecidedBy := decidedBy, pa_UpdatedAt := now, pa_key := None\<rparr>) rows))"

definition ConsumeApprovedAction :: "instant \<Rightarrow> Call \<Rightarrow> PendingRow list \<Rightarrow> string \<times> PendingRow list" where
  "ConsumeApprovedAction now c rows =
     (if cl_ArgsDigest c = [] then ([], rows)
      else case first_row (sort_key (\<lambda>r. formatTS (pa_CreatedAt r))
             (filter (\<lambda>r. call_of r = c \<and> pa_Status r = PendingStatusApproved \<and> pa_ExpiresAt r = None) rows)) of
        None \<Rightarrow> ([], rows)
      | Some hit \<Rightarrow>
          (pa_ID hit, sql_update (\<lambda>r. pa_ID r = pa_ID hit \<and> pa_Status r = PendingStatusApproved)
             (\<lambda>r. r\<lparr>pa_Status := PendingStatusConsumed, pa_UpdatedAt := now, pa_key := None\<rparr>) rows))"

record PendingActionSearchRequest =
  pq_TenantID :: string
  pq_Status :: string
  pq_RunID :: string
  pq_Connector :: string
  pq_Limit :: int
  pq_Offset :: int
  pq_Cursor :: string

definition SearchPendingActions ::
  "(string \<Rightarrow> json option) \<Rightarrow> ctx \<Rightarrow> PendingActionSearchRequest \<Rightarrow> PendingRow list \<Rightarrow> cursor_error + PendingAction list" where
  "SearchPendingActions unmarshal c req rows =
     time_search unmarshal (\<lambda>a. (formatTS (pa_CreatedAt a), pa_ID a))
       (\<lambda>a. search_tenant c (pq_TenantID req) (pa_TenantID a) \<and> search_eq (pq_Status req) (pa_Status a)
          \<and> search_eq (pq_RunID req) (pa_RunID a) \<and> search_eq (pq_Connector req) (pa_Connector a))
       (pq_Limit req) (pq_Offset req) (pq_Cursor req) (map scanPendingAction rows)"

section \<open>Approving and denying (admin_pending.go)\<close>

text \<open>The policy engine's surroundings: the decision point, the surviving cache entries, the elapsed
  milliseconds, the id of the audit record and whether the audit log accepts a record.\<close>

record PolicyEnv =
  pe_pdp :: "PolicyInput \<Rightarrow> http_reply"
  pe_alive :: "string \<Rightarrow> bool"
  pe_ms :: int
  pe_rid :: string
  pe_audit :: bool

record Governance =
  gv_pending :: "PendingRow list"
  gv_policy :: "Engine option"
  gv_audit :: "AuditEvent list"

definition policy_Decide ::
  "PolicyEnv \<Rightarrow> string \<Rightarrow> Engine \<Rightarrow> PolicyInput \<Rightarrow> 'a Governance_scheme \<Rightarrow> PolicyDecision \<times> 'a Governance_scheme" where
  "policy_Decide pe tid e inp s =
     (case Decide (pe_pdp pe) (pe_alive pe) (pe_ms pe) (pe_rid pe) tid e inp of
        (dec, e', ev) \<Rightarrow>
          (dec, s\<lparr>gv_policy := Some e',
                  gv_audit := gv_audit s @ (case ev of Some x \<Rightarrow> if pe_audit pe then [x] else [] | None \<Rightarrow> [])\<rparr>))"

definition pendingActionIDPrefix :: string where "pendingActionIDPrefix = ''pending-v2-''"

definition currentPendingBinding :: "'a PendingAction_scheme \<Rightarrow> bool" where
  "currentPendingBinding a \<longleftrightarrow> pa_ArgsDigest a \<noteq> [] \<and> HasPrefix (pa_ID a) pendingActionIDPrefix"

definition store_status :: "store_error \<Rightarrow> nat" where
  "store_status e = (case e of ErrNotFound _ _ \<Rightarrow> 404 | ErrConflict _ _ _ \<Rightarrow> 409 | ErrAdmissionLimitExceeded _ _ _ _ \<Rightarrow> 429 | _ \<Rightarrow> 500)"

definition pending_request :: "url_query \<Rightarrow> adminPaging \<Rightarrow> PendingActionSearchRequest" where
  "pending_request q p = \<lparr>pq_TenantID = query_get q ''tenant_id'', pq_Status = query_get q ''status'',
     pq_RunID = query_get q ''run_id'', pq_Connector = query_get q ''connector'',
     pq_Limit = ap_Limit p, pq_Offset = ap_Offset p, pq_Cursor = ap_Cursor p\<rparr>"

definition handleAdminListPendingActions :: "(string \<Rightarrow> json option) \<Rightarrow> url_query \<Rightarrow> PendingRow list \<Rightarrow> PendingAction listed" where
  "handleAdminListPendingActions unmarshal q rows =
     (case adminListPaging q of
        None \<Rightarrow> ListError 400
      | Some p \<Rightarrow>
          if ap_Cursor p \<noteq> [] \<and> isl (DecodeTime unmarshal (ap_Cursor p)) then ListError 400
          else case SearchPendingActions unmarshal (SystemContext \<lparr>ctx_tenant = None, ctx_system = False\<rparr>) (pending_request q p) rows of
            Inl _ \<Rightarrow> ListError 500
          | Inr page \<Rightarrow> Listed page (next_cursor (ap_Limit p) (\<lambda>a. EncodeTime (pa_CreatedAt a) (pa_ID a)) page))"

definition approval_input :: "PendingAction \<Rightarrow> PolicyInput" where
  "approval_input a =
     \<lparr>in_Stage = StageToolCall, in_TenantID = pa_TenantID a, in_Principal = [], in_AgentID = pa_AgentID a,
      in_RunID = pa_RunID a, in_Generation = pa_Generation a, in_Connector = pa_Connector a, in_Tool = pa_Tool a,
      in_Args = (case pa_Args a of None \<Rightarrow> JNull | Some m \<Rightarrow> JObj m), in_ArgsMeta = pa_Args a, in_ArgsDigest = pa_ArgsDigest a,
      in_Claims = Map.empty, in_Labels = Map.empty\<rparr>"

definition handleAdminApprovePendingAction ::
  "PolicyEnv \<Rightarrow> instant \<Rightarrow> string \<Rightarrow> AuthResult option \<Rightarrow> string \<Rightarrow> 'a Governance_scheme
     \<Rightarrow> PendingAction replied \<times> 'a Governance_scheme" where
  "handleAdminApprovePendingAction pe now tid ar i s =
     (case gv_policy s of
        None \<Rightarrow> (Replied 409, s)
      | Some e \<Rightarrow>
          (case GetPendingAction i (gv_pending s) of
             Inl err \<Rightarrow> (Replied (store_status err), s)
           | Inr a \<Rightarrow>
               if pa_Status a \<noteq> PendingStatusPending then (Replied 409, s)
               else if \<not> currentPendingBinding a then (Replied 409, s)
               else case policy_Decide pe tid e (approval_input a) s of
                 (dec, s1) \<Rightarrow>
                   if Effect dec \<noteq> EffectAllow \<and> Effect dec \<noteq> EffectPending then (Replied 409, s1)
                   else case SetPendingActionApproved now i (identity_of ar) (gv_pending s1) of
                     (Some err, rows) \<Rightarrow> (Replied (store_status err), s1\<lparr>gv_pending := rows\<rparr>)
                   | (None, rows) \<Rightarrow>
                       (case GetPendingAction i rows of
                          Inl err \<Rightarrow> (Replied (store_status err), s1\<lparr>gv_pending := rows\<rparr>)
                        | Inr a' \<Rightarrow> (RepliedWith 200 a', s1\<lparr>gv_pending := rows\<rparr>))))"

definition handleAdminDenyPendingAction ::
  "instant \<Rightarrow> string \<Rightarrow> 'a Governance_scheme \<Rightarrow> PendingAction replied \<times> 'a Governance_scheme" where
  "handleAdminDenyPendingAction now i s =
     (case GetPendingAction i (gv_pending s) of
        Inl err \<Rightarrow> (Replied (store_status err), s)
      | Inr a \<Rightarrow>
          if pa_Status a \<noteq> PendingStatusPending then (Replied 409, s)
          else case SetPendingActionStatus now i PendingStatusPending PendingStatusDenied (gv_pending s) of
            (Some err, rows) \<Rightarrow> (Replied (store_status err), s\<lparr>gv_pending := rows\<rparr>)
          | (None, rows) \<Rightarrow>
              (case GetPendingAction i rows of
                 Inl err \<Rightarrow> (Replied (store_status err), s\<lparr>gv_pending := rows\<rparr>)
               | Inr a' \<Rightarrow> (RepliedWith 200 a', s\<lparr>gv_pending := rows\<rparr>)))"

interpretation pending_pages: time_listing
  "\<lambda>rows cursor. handleAdminListPendingActions unmarshal (at_cursor q cursor) (map (\<lambda>a. PendingAction.extend a \<lparr>pa_key = None\<rparr>) rows)"
  unmarshal pa_CreatedAt pa_ID
  "\<lambda>a. search_eq (query_get q ''tenant_id'') (pa_TenantID a) \<and> search_eq (query_get q ''status'') (pa_Status a)
      \<and> search_eq (query_get q ''run_id'') (pa_RunID a) \<and> search_eq (query_get q ''connector'') (pa_Connector a)" "admin_limit q"
  for unmarshal q
proof unfold_locales
  show "0 < admin_limit q" by (rule admin_limit_pos)
next
  fix cursor and rows page :: "PendingAction list"
  have "scanPendingAction \<circ> (\<lambda>a. PendingAction.extend a \<lparr>pa_key = None\<rparr>) = id"
    by (simp add: fun_eq_iff scanPendingAction_def PendingAction.defs)
  moreover have "time_search unmarshal pos cond limit offset cursor xs = Inr page \<Longrightarrow> \<not> isl (DecodeTime unmarshal cursor)" for pos cond limit offset and xs :: "PendingAction list"
    by (auto simp: time_search_def split: sum.splits)
  ultimately show "time_search unmarshal (\<lambda>a. (formatTS (pa_CreatedAt a), pa_ID a))
      (\<lambda>a. search_eq (query_get q ''tenant_id'') (pa_TenantID a) \<and> search_eq (query_get q ''status'') (pa_Status a)
        \<and> search_eq (query_get q ''run_id'') (pa_RunID a) \<and> search_eq (query_get q ''connector'') (pa_Connector a))
      (admin_limit q) 0 cursor rows = Inr page \<Longrightarrow>
    handleAdminListPendingActions unmarshal (at_cursor q cursor) (map (\<lambda>a. PendingAction.extend a \<lparr>pa_key = None\<rparr>) rows) =
      Listed page (next_cursor (admin_limit q) (\<lambda>r. EncodeTime (pa_CreatedAt r) (pa_ID r)) page)"
    by (auto simp: handleAdminListPendingActions_def SearchPendingActions_def pending_request_def)
qed

section \<open>Histories of statements\<close>

text \<open>The statements that requests execute on the table, in any order: an insert of an open action, an
  approval, a denial, a sweep of expired embedded actions, the transaction that consumes an approval.
  The events say which approvals were given, and which were used by a call.\<close>

datatype pending_stmt =
    Open instant PendingAction
  | Approve instant string string
  | Deny instant string
  | Expire instant
  | Consume instant Call

datatype pending_event =
    Approved string Call "instant option" string
  | Consumed string Call

definition opened :: "instant \<Rightarrow> PendingAction \<Rightarrow> PendingAction" where
  "opened now a = a\<lparr>pa_CreatedAt := (if pa_CreatedAt a = zero_time then now else pa_CreatedAt a), pa_UpdatedAt := now,
     pa_Status := PendingStatusPending\<rparr>"

fun pend_exec :: "(string \<Rightarrow> string) \<Rightarrow> pending_stmt \<Rightarrow> PendingRow list \<Rightarrow> pending_event list \<times> PendingRow list" where
  "pend_exec sha (Open now a) rows =
     (case insert_pending (row_of (opened now a) (Some (PendingActionKey sha (opened now a)))) rows of
        Inl _ \<Rightarrow> ([], rows) | Inr rows' \<Rightarrow> ([], rows'))"
| "pend_exec sha (Approve now i by) rows =
     (case SetPendingActionApproved now i by rows of
        (Some _, rows') \<Rightarrow> ([], rows')
      | (None, rows') \<Rightarrow>
          (case find (\<lambda>r. pa_ID r = i) rows of None \<Rightarrow> [] | Some r \<Rightarrow> [Approved i (call_of r) (pa_ExpiresAt r) by], rows'))"
| "pend_exec sha (Deny now i) rows = ([], snd (SetPendingActionStatus now i PendingStatusPending PendingStatusDenied rows))"
| "pend_exec sha (Expire now) rows = ([], ExpireGovernancePending now rows)"
| "pend_exec sha (Consume now c) rows =
     (case ConsumeApprovedAction now c rows of (i, rows') \<Rightarrow> (if i = [] then [] else [Consumed i c], rows'))"

fun pend_run :: "(string \<Rightarrow> string) \<Rightarrow> pending_stmt list \<Rightarrow> PendingRow list \<Rightarrow> pending_event list \<times> PendingRow list" where
  "pend_run sha [] rows = ([], rows)"
| "pend_run sha (st # sts) rows =
     (case pend_exec sha st rows of (ev, rows1) \<Rightarrow> (case pend_run sha sts rows1 of (evs, rows2) \<Rightarrow> (ev @ evs, rows2)))"

section \<open>What statements do to the rows\<close>

lemma call_of_update [simp]:
  "call_of (r\<lparr>pa_Status := x\<rparr>) = call_of r" "call_of (r\<lparr>pa_UpdatedAt := t\<rparr>) = call_of r"
  "call_of (r\<lparr>pa_DecidedBy := y\<rparr>) = call_of r" "call_of (r\<lparr>pa_ReasonCode := y\<rparr>) = call_of r"
  "call_of (r\<lparr>pa_CreatedAt := t\<rparr>) = call_of r" "call_of (r\<lparr>pa_ID := y\<rparr>) = call_of r"
  by (simp_all add: call_of_def)

lemma call_of_key [simp]: "call_of ((q :: PendingRow)\<lparr>pa_key := k\<rparr>) = call_of q"
  by (simp add: call_of_def)

lemma row_of_fields [simp]:
  "pa_ID (row_of a k) = pa_ID a" "call_of (row_of a k) = call_of a" "pa_Status (row_of a k) = pa_Status a"
  "pa_key (row_of a k) = k" "pa_CreatedAt (row_of a k) = pa_CreatedAt a"
  "pa_ExpiresAt (row_of a k) = Option.bind (formatExpiry (pa_ExpiresAt a)) parseTS"
  by (simp_all add: row_of_def PendingAction.defs call_of_def)

lemma scan_fields [simp]:
  "pa_ID (scanPendingAction r) = pa_ID r" "call_of (scanPendingAction r) = call_of r" "pa_Status (scanPendingAction r) = pa_Status r"
  "pa_ExpiresAt (scanPendingAction r) = pa_ExpiresAt r" "pa_TenantID (scanPendingAction r) = pa_TenantID r"
  "pa_ArgsDigest (scanPendingAction r) = pa_ArgsDigest r"
  by (simp_all add: scanPendingAction_def PendingAction.defs call_of_def)

lemma pending_statuses [simp]:
  "PendingStatusPending \<noteq> PendingStatusApproved" "PendingStatusApproved \<noteq> PendingStatusPending"
  "PendingStatusPending \<noteq> PendingStatusDenied" "PendingStatusDenied \<noteq> PendingStatusPending"
  "PendingStatusPending \<noteq> PendingStatusConsumed" "PendingStatusConsumed \<noteq> PendingStatusPending"
  "PendingStatusApproved \<noteq> PendingStatusDenied" "PendingStatusDenied \<noteq> PendingStatusApproved"
  "PendingStatusApproved \<noteq> PendingStatusConsumed" "PendingStatusConsumed \<noteq> PendingStatusApproved"
  "PendingStatusDenied \<noteq> PendingStatusConsumed" "PendingStatusConsumed \<noteq> PendingStatusDenied"
  by (simp_all add: pending_status_defs)

lemma find_distinct:
  assumes "distinct (map pa_ID rows)" "r \<in> set rows"
  shows "find (\<lambda>x. pa_ID x = pa_ID r) rows = Some r"
  using assms by (induction rows) auto

text \<open>A statement that updates rows in place keeps the identity of each row, clears the key of the rows it
  changes and moves their status along pending, approved, consumed or pending, denied.\<close>

definition row_step :: "PendingRow \<Rightarrow> PendingRow \<Rightarrow> bool" where
  "row_step r r' \<longleftrightarrow> r' = r \<or> pa_ID r' = pa_ID r \<and> call_of r' = call_of r \<and> pa_ExpiresAt r' = pa_ExpiresAt r \<and> pa_key r' = None
     \<and> (pa_Status r = PendingStatusPending \<and> pa_Status r' \<in> {PendingStatusApproved, PendingStatusDenied}
        \<or> pa_Status r = PendingStatusApproved \<and> pa_Status r' = PendingStatusConsumed)"

lemma row_step_update:
  "(\<And>r. p r \<Longrightarrow> row_step r (f r)) \<Longrightarrow> list_all2 row_step rows (sql_update p f rows)"
  by (simp add: sql_update_def list.rel_map list.rel_refl row_step_def)

lemma exec_rows:
  assumes "pend_exec sha st rows = (ev, rows')"
  shows "list_all2 row_step rows rows'
    \<or> (\<exists>now a. st = Open now a \<and> ev = []
         \<and> insert_pending (row_of (opened now a) (Some (PendingActionKey sha (opened now a)))) rows = Inr rows')"
proof (cases st)
  case (Open now a)
  then show ?thesis using assms by (auto simp: list.rel_refl row_step_def split: sum.splits)
next
  case (Approve now i by')
  have "list_all2 row_step rows (snd (SetPendingActionApproved now i by' rows))"
    by (auto simp: SetPendingActionApproved_def Let_def row_step_def intro!: row_step_update)
  then show ?thesis using assms Approve by (auto split: prod.splits option.splits)
next
  case (Deny now i)
  have "list_all2 row_step rows (snd (SetPendingActionStatus now i PendingStatusPending PendingStatusDenied rows))"
    by (auto simp: SetPendingActionStatus_def Let_def row_step_def intro!: row_step_update)
  then show ?thesis using assms Deny by simp
next
  case (Expire now)
  have "list_all2 row_step rows (ExpireGovernancePending now rows)"
    by (auto simp: ExpireGovernancePending_def row_step_def intro!: row_step_update)
  then show ?thesis using assms Expire by simp
next
  case (Consume now c)
  have "list_all2 row_step rows (snd (ConsumeApprovedAction now c rows))"
    by (auto simp: ConsumeApprovedAction_def row_step_def list.rel_refl intro!: row_step_update split: option.splits)
  then show ?thesis using assms Consume by (auto split: prod.splits)
qed

lemma row_steps_ids: "list_all2 row_step rows rows' \<Longrightarrow> map pa_ID rows' = map pa_ID rows"
  by (induction rule: list_all2_induct) (auto simp: row_step_def)

lemma row_steps_source: "list_all2 row_step rows rows' \<Longrightarrow> r' \<in> set rows' \<Longrightarrow> \<exists>r\<in>set rows. row_step r r'"
  by (induction rule: list_all2_induct) auto

lemma row_steps_target: "list_all2 row_step rows rows' \<Longrightarrow> r \<in> set rows \<Longrightarrow> \<exists>r'\<in>set rows'. row_step r r'"
  by (induction rule: list_all2_induct) auto

lemma insert_pending_cases:
  assumes "insert_pending row rows = Inr rows'"
  obtains "rows' = rows @ [row]" "\<forall>r\<in>set rows. pa_ID r \<noteq> pa_ID row" "\<forall>r\<in>set rows. pa_key row \<noteq> None \<longrightarrow> pa_key r \<noteq> pa_key row"
  | r where "rows' = rows" "r \<in> set rows" "pa_key r = pa_key row" "pa_key row \<noteq> None" "\<forall>r\<in>set rows. pa_ID r \<noteq> pa_ID row"
  using assms by (auto simp: insert_pending_def list_ex_iff split: if_splits)

section \<open>One open action per call\<close>

definition expiry_ok :: "'a PendingAction_scheme \<Rightarrow> bool" where
  "expiry_ok a \<longleftrightarrow> (case pa_ExpiresAt a of None \<Rightarrow> True | Some t \<Rightarrow> instant_ok t \<and> t \<noteq> zero_time)"

definition stmt_ok :: "pending_stmt \<Rightarrow> bool" where
  "stmt_ok st \<longleftrightarrow> (case st of Open _ a \<Rightarrow> expiry_ok a | _ \<Rightarrow> True)"

lemma row_of_embedded: "expiry_ok a \<Longrightarrow> pa_ExpiresAt (row_of a k) = None \<longleftrightarrow> pa_ExpiresAt a = None"
  by (cases "pa_ExpiresAt a") (auto simp: expiry_ok_def formatExpiry_def parseTS_def instant_ok_def)

lemma row_of_PendingActionKey: "expiry_ok a \<Longrightarrow> PendingActionKey sha (row_of a k) = PendingActionKey sha a"
  by (simp add: PendingActionKey_def row_of_embedded del: row_of_fields(6))

definition open_keys :: "(string \<Rightarrow> string) \<Rightarrow> PendingRow list \<Rightarrow> bool" where
  "open_keys sha rows \<longleftrightarrow> distinct (map pa_ID rows)
     \<and> (\<forall>r\<in>set rows. pa_Status r = PendingStatusPending \<longrightarrow> pa_key r = Some (PendingActionKey sha r))
     \<and> (\<forall>r\<in>set rows. pa_Status r \<noteq> PendingStatusPending \<longrightarrow> pa_key r = None)
     \<and> (\<forall>x\<in>set rows. \<forall>y\<in>set rows. pa_key x \<noteq> None \<longrightarrow> pa_key x = pa_key y \<longrightarrow> x = y)"

lemma open_keys_steps:
  assumes "open_keys sha rows" "list_all2 row_step rows rows'"
  shows "open_keys sha rows'"
  unfolding open_keys_def
proof (intro conjI ballI impI)
  show "distinct (map pa_ID rows')" using assms by (simp add: open_keys_def row_steps_ids)
next
  fix r'
  assume "r' \<in> set rows'"
  then obtain r where r: "r \<in> set rows" "row_step r r'" using row_steps_source [OF assms(2)] by blast
  show "pa_key r' = Some (PendingActionKey sha r')" if "pa_Status r' = PendingStatusPending"
    using r that assms(1) by (auto simp: row_step_def open_keys_def)
  show "pa_key r' = None" if "pa_Status r' \<noteq> PendingStatusPending"
    using r that assms(1) by (auto simp: row_step_def open_keys_def)
next
  fix x' y'
  assume x: "x' \<in> set rows'" and y: "y' \<in> set rows'" and k: "pa_key x' \<noteq> None" "pa_key x' = pa_key y'"
  obtain x where x: "x \<in> set rows" "row_step x x'" using row_steps_source [OF assms(2) x] by blast
  obtain y where y: "y \<in> set rows" "row_step y y'" using row_steps_source [OF assms(2) y] by blast
  have "x' = x" "y' = y" using x y k by (auto simp: row_step_def)
  then show "x' = y'" using assms(1) x y k by (simp add: open_keys_def)
qed

lemma open_keys_insert:
  assumes "open_keys sha rows" "expiry_ok a" "pa_Status a = PendingStatusPending"
    and "insert_pending (row_of a (Some (PendingActionKey sha a))) rows = Inr rows'"
  shows "open_keys sha rows'"
  using assms(4)
proof (cases rule: insert_pending_cases)
  case 1
  then show ?thesis using assms(1-3) by (auto simp: open_keys_def row_of_PendingActionKey)
next
  case 2
  then show ?thesis using assms(1) by simp
qed

lemma opened_fields [simp]:
  "pa_ID (opened now a) = pa_ID a" "call_of (opened now a) = call_of a" "pa_Status (opened now a) = PendingStatusPending"
  "pa_ExpiresAt (opened now a) = pa_ExpiresAt a" "expiry_ok (opened now a) = expiry_ok a"
  by (simp_all add: opened_def expiry_ok_def)

lemma open_keys_exec:
  assumes "open_keys sha rows" "stmt_ok st" "pend_exec sha st rows = (ev, rows')"
  shows "open_keys sha rows'"
  using exec_rows [OF assms(3)]
proof (elim disjE exE conjE)
  assume "list_all2 row_step rows rows'"
  then show ?thesis by (rule open_keys_steps [OF assms(1)])
next
  fix now a
  assume st: "st = Open now a" and i: "insert_pending (row_of (opened now a) (Some (PendingActionKey sha (opened now a)))) rows = Inr rows'"
  have "expiry_ok (opened now a)" using assms(2) st by (simp add: stmt_ok_def)
  then show ?thesis using open_keys_insert [OF assms(1) _ _ i] by simp
qed

lemma open_keys_run:
  "open_keys sha rows \<Longrightarrow> list_all stmt_ok sts \<Longrightarrow> pend_run sha sts rows = (evs, rows') \<Longrightarrow> open_keys sha rows'"
proof (induction sts arbitrary: rows evs)
  case (Cons st sts)
  obtain ev rows1 where e: "pend_exec sha st rows = (ev, rows1)" by (cases "pend_exec sha st rows")
  obtain evs2 where r: "pend_run sha sts rows1 = (evs2, rows')" using Cons.prems(3) e by (auto split: prod.splits)
  have "open_keys sha rows1" using open_keys_exec [OF Cons.prems(1) _ e] Cons.prems(2) by simp
  then show ?case using Cons.IH [OF _ _ r] Cons.prems(2) by simp
qed simp

text \<open>The key is a fixed-size name of the call: SHA-256 is assumed not to collide on the texts hashed.\<close>

definition key_hash_ok :: "(string \<Rightarrow> string) \<Rightarrow> bool" where
  "key_hash_ok sha \<longleftrightarrow> (\<forall>c b c' b'. sha (key_text c b) = sha (key_text c' b') \<longrightarrow> key_text c b = key_text c' b')"

lemma num_valid_digits: "num_valid (nat_digits n)"
proof -
  have d: "is_digits (nat_digits n)" by (rule nat_digits_digits)
  then have w: "takeWhile is_digit (nat_digits n) = nat_digits n" "dropWhile is_digit (nat_digits n) = []"
    by (simp_all add: is_digits_def list_all_iff takeWhile_eq_all_conv dropWhile_eq_Nil_conv)
  obtain c cs where c: "nat_digits n = c # cs" by (cases "nat_digits n") simp_all
  have "is_digit c" using d c by (simp add: is_digits_def)
  then have "c \<noteq> CHR ''-''" by (auto simp: is_digit_def)
  then have s: "split_sign (nat_digits n) = (False, nat_digits n)" by (simp add: c)
  have "hd (nat_digits n) = CHR ''0'' \<Longrightarrow> tl (nat_digits n) = []"
    using nat_digits_hd [of n] by (cases "n = 0") auto
  then have "split_number (nat_digits n) = Some (False, nat_digits n, [], [])"
    by (simp add: split_number_def Let_def s w split_exponent_def)
  then show ?thesis by (simp add: num_valid_def)
qed

lemma num_valid_Itoa: "num_valid (Itoa n)"
proof (cases "0 \<le> n")
  case True
  then show ?thesis by (simp add: num_valid_digits)
next
  case False
  have "split_number (CHR ''-'' # ds) \<noteq> None" if "split_number ds \<noteq> None" "split_sign ds = (False, ds)" for ds
    using that by (auto simp: split_number_def Let_def split: option.splits if_splits)
  moreover have "split_sign (nat_digits (nat (- n))) = (False, nat_digits (nat (- n)))"
  proof -
    obtain c cs where c: "nat_digits (nat (- n)) = c # cs" by (cases "nat_digits (nat (- n))") simp_all
    then have "is_digit c" using nat_digits_digits [of "nat (- n)"] by (simp add: is_digits_def)
    then show ?thesis by (auto simp: c is_digit_def)
  qed
  ultimately show ?thesis using num_valid_digits [of "nat (- n)"] False by (simp add: num_valid_def Itoa_def)
qed

lemma key_text_inj: "key_text c b = key_text c' b' \<longleftrightarrow> c = c' \<and> b = b'"
proof
  assume "key_text c b = key_text c' b'"
  then have "JArr [JStr (cl_TenantID c), JStr (cl_AgentID c), JBool b, JStr (cl_RunID c),
      JNum (Itoa (cl_Generation c)), JStr (cl_Connector c), JStr (cl_Tool c), JStr (cl_ArgsDigest c)]
    = JArr [JStr (cl_TenantID c'), JStr (cl_AgentID c'), JBool b', JStr (cl_RunID c'),
      JNum (Itoa (cl_Generation c')), JStr (cl_Connector c'), JStr (cl_Tool c'), JStr (cl_ArgsDigest c')]"
    unfolding key_text_def
    by (intro conjunct1 [OF write_inj(1) [where x = "[]" and y = "[]"]]) (simp_all add: num_valid_Itoa delimited_def)
  then show "c = c' \<and> b = b'" by (simp add: Itoa_inj)
qed simp

lemma open_action_determined:
  assumes "open_keys sha rows" "x \<in> set rows" "y \<in> set rows"
    and "pa_Status x = PendingStatusPending" "pa_Status y = PendingStatusPending"
    and "call_of x = call_of y" "pa_ExpiresAt x = None \<longleftrightarrow> pa_ExpiresAt y = None"
  shows "x = y"
proof -
  have "pa_key x = pa_key y" "pa_key x \<noteq> None" using assms by (auto simp: open_keys_def PendingActionKey_def)
  then show ?thesis using assms(1-3) by (simp add: open_keys_def)
qed

lemma open_key_call:
  assumes "open_keys sha rows" "key_hash_ok sha" "r \<in> set rows" "pa_key r = Some (PendingActionKey sha a)"
  shows "pa_Status r = PendingStatusPending" "call_of r = call_of a" "pa_ExpiresAt r = None \<longleftrightarrow> pa_ExpiresAt a = None"
proof -
  show st: "pa_Status r = PendingStatusPending" using assms by (auto simp: open_keys_def)
  then have "PendingActionKey sha r = PendingActionKey sha a" using assms by (auto simp: open_keys_def)
  then have "key_text (call_of r) (pa_ExpiresAt r \<noteq> None) = key_text (call_of a) (pa_ExpiresAt a \<noteq> None)"
    using assms(2) by (simp add: PendingActionKey_def key_hash_ok_def)
  then show "call_of r = call_of a" "pa_ExpiresAt r = None \<longleftrightarrow> pa_ExpiresAt a = None"
    unfolding key_text_inj by blast+
qed

definition open_for :: "Call \<Rightarrow> bool \<Rightarrow> PendingRow \<Rightarrow> bool" where
  "open_for c embedded r \<longleftrightarrow> call_of r = c \<and> pa_Status r = PendingStatusPending \<and> (pa_ExpiresAt r \<noteq> None) = embedded"

lemma FindOpen_eq:
  "FindOpenPendingAction c embedded rows =
     map_option scanPendingAction (first_row (sort_key (\<lambda>r. formatTS (pa_CreatedAt r)) (filter (open_for c embedded) rows)))"
  by (simp add: FindOpenPendingAction_def open_for_def [abs_def])

lemma FindOpen_Some:
  assumes "FindOpenPendingAction c embedded rows = Some x"
  shows "\<exists>r\<in>set rows. pa_ID x = pa_ID r \<and> open_for c embedded r"
proof -
  obtain r where r: "first_row (sort_key (\<lambda>r. formatTS (pa_CreatedAt r)) (filter (open_for c embedded) rows)) = Some r"
    and x: "x = scanPendingAction r"
    using assms unfolding FindOpen_eq by blast
  have "r \<in> set (filter (open_for c embedded) rows)" using first_row_least [OF r] by blast
  then show ?thesis by (auto simp: x)
qed

lemma FindOpen_None: "FindOpenPendingAction c embedded rows = None \<longleftrightarrow> (\<forall>r\<in>set rows. \<not> open_for c embedded r)"
  by (simp add: FindOpen_eq filter_empty_conv)

lemma create_open:
  assumes "pa_Status act = [] \<or> pa_Status act = PendingStatusPending" and a: "a = opened now act"
    and emb: "embedded = (pa_ExpiresAt act \<noteq> None)"
  shows "CreatePendingAction sha now act rows =
    (case FindOpenPendingAction (call_of act) embedded rows of
       Some x \<Rightarrow> (Inr (a\<lparr>pa_ID := pa_ID x\<rparr>), rows)
     | None \<Rightarrow>
         (case insert_pending (row_of a (Some (PendingActionKey sha a))) rows of
            Inl e \<Rightarrow> (Inl e, rows)
          | Inr rows' \<Rightarrow>
              (case FindOpenPendingAction (call_of act) embedded rows' of
                 Some x \<Rightarrow> (Inr (a\<lparr>pa_ID := pa_ID x\<rparr>), rows')
               | None \<Rightarrow> (case GetPendingAction (pa_ID a) rows' of Inl e \<Rightarrow> (Inl e, rows') | Inr _ \<Rightarrow> (Inr a, rows')))))"
proof -
  have o: "act\<lparr>pa_CreatedAt := (if pa_CreatedAt act = zero_time then now else pa_CreatedAt act), pa_UpdatedAt := now,
      pa_Status := (if pa_Status act = [] then PendingStatusPending else pa_Status act)\<rparr> = a"
    using assms(1) by (auto simp: a opened_def)
  show ?thesis unfolding CreatePendingAction_def Let_def o by (simp add: a emb split: option.splits sum.splits)
qed

lemma create_finds:
  assumes "open_keys sha rows" "key_hash_ok sha" "expiry_ok act" "pa_Status act = [] \<or> pa_Status act = PendingStatusPending"
    and "CreatePendingAction sha now act rows = (Inr a, rows1)"
  shows "open_keys sha rows1 \<and> (\<exists>r\<in>set rows1. pa_ID r = pa_ID a \<and> open_for (call_of act) (pa_ExpiresAt act \<noteq> None) r)"
proof -
  let ?a = "opened now act" and ?e = "pa_ExpiresAt act \<noteq> None"
  note c = create_open [OF assms(4) refl refl, where sha = sha and now = now and rows = rows]
  show ?thesis
  proof (cases "FindOpenPendingAction (call_of act) ?e rows")
    case (Some x)
    then have "rows1 = rows" "pa_ID a = pa_ID x" using assms(5) c by auto
    then show ?thesis using FindOpen_Some [OF Some] assms(1) by auto
  next
    case None
    obtain rows' where i: "insert_pending (row_of ?a (Some (PendingActionKey sha ?a))) rows = Inr rows'"
      using assms(5) c None by (auto split: sum.splits)
    have keys: "open_keys sha rows'" using open_keys_insert [OF assms(1) _ _ i] assms(3) by simp
    have "\<exists>r\<in>set rows'. open_for (call_of act) ?e r"
      using i
    proof (cases rule: insert_pending_cases)
      case 1
      have "open_for (call_of act) ?e (row_of ?a (Some (PendingActionKey sha ?a)))"
        using row_of_embedded [of ?a] assms(3) by (simp add: open_for_def del: row_of_fields(6))
      then show ?thesis using 1 by auto
    next
      case (2 r)
      then show ?thesis using open_key_call [OF assms(1,2) 2(2), of ?a] by (auto simp: open_for_def)
    qed
    then obtain x where x: "FindOpenPendingAction (call_of act) ?e rows' = Some x"
      using FindOpen_None [of "call_of act" ?e rows'] by fastforce
    then have "rows1 = rows'" "pa_ID a = pa_ID x" using assms(5) c None i by auto
    then show ?thesis using FindOpen_Some [OF x] keys by auto
  qed
qed

text \<open>No statement takes a row away or changes what it stands for.\<close>

lemma exec_keeps_row:
  assumes "pend_exec sha st rows = (ev, rows')" "x \<in> set rows"
  shows "\<exists>y\<in>set rows'. pa_ID y = pa_ID x \<and> call_of y = call_of x \<and> pa_ExpiresAt y = pa_ExpiresAt x"
  using exec_rows [OF assms(1)]
proof (elim disjE exE conjE)
  assume "list_all2 row_step rows rows'"
  from row_steps_target [OF this assms(2)] show ?thesis by (auto simp: row_step_def)
next
  fix now a
  assume "insert_pending (row_of (opened now a) (Some (PendingActionKey sha (opened now a)))) rows = Inr rows'"
  then show ?thesis using assms(2) by (cases rule: insert_pending_cases) auto
qed

lemma run_keeps_row:
  "pend_run sha sts rows = (evs, rows') \<Longrightarrow> x \<in> set rows \<Longrightarrow>
     \<exists>y\<in>set rows'. pa_ID y = pa_ID x \<and> call_of y = call_of x \<and> pa_ExpiresAt y = pa_ExpiresAt x"
proof (induction sts arbitrary: rows evs x)
  case (Cons st sts)
  obtain ev rows1 evs1 where e: "pend_exec sha st rows = (ev, rows1)" "pend_run sha sts rows1 = (evs1, rows')"
    using Cons.prems(1) by (auto split: prod.splits)
  obtain y where "y \<in> set rows1" "pa_ID y = pa_ID x" "call_of y = call_of x" "pa_ExpiresAt y = pa_ExpiresAt x"
    using exec_keeps_row [OF e(1) Cons.prems(2)] by blast
  then show ?case using Cons.IH [OF e(2)] by metis
qed auto

section \<open>Every use of an approval has its own approval\<close>

fun consumed_id :: "pending_event \<Rightarrow> string list" where
  "consumed_id (Consumed i c) = [i]"
| "consumed_id _ = []"

definition approvals_ok :: "pending_event list \<Rightarrow> PendingRow list \<Rightarrow> bool" where
  "approvals_ok evs rows \<longleftrightarrow> distinct (map pa_ID rows) \<and> distinct (concat (map consumed_id evs))
     \<and> (\<forall>i\<in>set (concat (map consumed_id evs)). \<exists>r\<in>set rows. pa_ID r = i \<and> pa_Status r = PendingStatusConsumed)
     \<and> (\<forall>r\<in>set rows. pa_Status r \<in> {PendingStatusApproved, PendingStatusConsumed} \<longrightarrow>
          (\<exists>by. Approved (pa_ID r) (call_of r) (pa_ExpiresAt r) by \<in> set evs))"

lemma approve_rows:
  assumes "SetPendingActionApproved now i by rows = (e, rows')" "distinct (map pa_ID rows)"
    and "r' \<in> set rows'" "r' \<notin> set rows"
  obtains r where "e = None" "r \<in> set rows" "pa_ID r = i" "find (\<lambda>x. pa_ID x = i) rows = Some r" "pa_ID r' = pa_ID r"
    "call_of r' = call_of r" "pa_ExpiresAt r' = pa_ExpiresAt r" "pa_Status r' = PendingStatusApproved"
proof -
  let ?hit = "\<lambda>r. pa_ID r = i \<and> pa_Status r = PendingStatusPending
    \<and> (case formatExpiry (pa_ExpiresAt r) of None \<Rightarrow> True | Some e \<Rightarrow> e > fst now @ ''Z'')"
  obtain r where r: "r \<in> set rows" "?hit r" and r': "r' = r\<lparr>pa_Status := PendingStatusApproved, pa_DecidedBy := by, pa_UpdatedAt := now, pa_key := None\<rparr>"
    using assms(1,3,4) by (auto simp: SetPendingActionApproved_def Let_def sql_update_def split: if_splits)
  have "sql_count ?hit rows \<noteq> 0" using r by (auto simp: sql_count_def filter_empty_conv)
  then have "e = None" using assms(1) by (simp add: SetPendingActionApproved_def Let_def)
  moreover have "find (\<lambda>x. pa_ID x = i) rows = Some r" using find_distinct [OF assms(2) r(1)] r(2) by simp
  ultimately show thesis using that [OF _ r(1)] r(2) by (simp add: r')
qed

lemma consume_rows:
  assumes "ConsumeApprovedAction now c rows = (i, rows')"
  obtains "i = []" "rows' = rows" | r where "r \<in> set rows" "pa_ID r = i" "call_of r = c" "pa_Status r = PendingStatusApproved"
    "pa_ExpiresAt r = None" "rows' = sql_update (\<lambda>r. pa_ID r = i \<and> pa_Status r = PendingStatusApproved)
             (\<lambda>r. r\<lparr>pa_Status := PendingStatusConsumed, pa_UpdatedAt := now, pa_key := None\<rparr>) rows"
proof -
  let ?rs = "filter (\<lambda>r. call_of r = c \<and> pa_Status r = PendingStatusApproved \<and> pa_ExpiresAt r = None) rows"
  let ?hit = "first_row (sort_key (\<lambda>r. formatTS (pa_CreatedAt r)) ?rs)"
  show thesis
  proof (cases "cl_ArgsDigest c = []")
    case True
    then show thesis using that(1) assms by (simp add: ConsumeApprovedAction_def)
  next
    case False
    show thesis
    proof (cases ?hit)
      case None
      have "ConsumeApprovedAction now c rows = ([], rows)" unfolding ConsumeApprovedAction_def None using False by simp
      then show thesis using that(1) assms by simp
    next
      case (Some r)
      have "r \<in> set ?rs" using first_row_least [OF Some] by blast
      moreover have "ConsumeApprovedAction now c rows = (pa_ID r, sql_update (\<lambda>x. pa_ID x = pa_ID r \<and> pa_Status x = PendingStatusApproved)
             (\<lambda>r. r\<lparr>pa_Status := PendingStatusConsumed, pa_UpdatedAt := now, pa_key := None\<rparr>) rows)"
        unfolding ConsumeApprovedAction_def Some using False by simp
      ultimately show thesis using that(2) [of r] assms by auto
    qed
  qed
qed

lemma exec_decided:
  assumes "pend_exec sha st rows = (ev, rows')" "distinct (map pa_ID rows)" "r' \<in> set rows'"
    and "pa_Status r' = PendingStatusApproved \<or> pa_Status r' = PendingStatusConsumed"
  shows "\<exists>r\<in>set rows. pa_ID r = pa_ID r' \<and> call_of r = call_of r' \<and> pa_ExpiresAt r = pa_ExpiresAt r'
    \<and> (pa_Status r = PendingStatusApproved \<or> pa_Status r = PendingStatusConsumed
       \<or> (\<exists>by. Approved (pa_ID r') (call_of r') (pa_ExpiresAt r') by \<in> set ev))"
proof (cases "r' \<in> set rows")
  case True
  then show ?thesis using assms(4) by blast
next
  case new: False
  show ?thesis
  proof (cases st)
    case (Open now a)
    then have "pa_Status r' = PendingStatusPending"
      using assms(1,3) new by (auto simp: insert_pending_def split: sum.splits if_splits)
    then show ?thesis using assms(4) by auto
  next
    case (Approve now i w)
    obtain e where s: "SetPendingActionApproved now i w rows = (e, rows')"
      using assms(1) Approve by (auto split: prod.splits option.splits)
    from approve_rows [OF s assms(2,3) new] obtain r where "e = None" "r \<in> set rows" "pa_ID r = i"
      "find (\<lambda>x. pa_ID x = i) rows = Some r" "pa_ID r' = pa_ID r" "call_of r' = call_of r" "pa_ExpiresAt r' = pa_ExpiresAt r" .
    then show ?thesis using assms(1) Approve s by auto
  next
    case (Deny now i)
    then have "pa_Status r' = PendingStatusDenied"
      using assms(1,3) new by (auto simp: SetPendingActionStatus_def Let_def sql_update_def split: if_splits)
    then show ?thesis using assms(4) by auto
  next
    case (Expire now)
    then have "pa_Status r' = PendingStatusDenied"
      using assms(1,3) new by (auto simp: ExpireGovernancePending_def sql_update_def split: if_splits)
    then show ?thesis using assms(4) by auto
  next
    case (Consume now c)
    obtain i where "ConsumeApprovedAction now c rows = (i, rows')"
      using assms(1) Consume by (auto split: prod.splits)
    then show ?thesis
      by (cases rule: consume_rows) (use assms(3) new in \<open>auto simp: sql_update_def split: if_splits\<close>)
  qed
qed

lemma exec_consumed:
  assumes "pend_exec sha st rows = (ev, rows')" "Consumed i c \<in> set ev"
  obtains r r' where "ev = [Consumed i c]" "r \<in> set rows" "pa_ID r = i" "call_of r = c" "pa_Status r = PendingStatusApproved"
    "pa_ExpiresAt r = None" "r' \<in> set rows'" "pa_ID r' = i" "pa_Status r' = PendingStatusConsumed"
proof -
  obtain now where st: "st = Consume now c" "i \<noteq> []" "ev = [Consumed i c]" and q: "ConsumeApprovedAction now c rows = (i, rows')"
    using assms by (cases st) (auto split: sum.splits prod.splits option.splits if_splits)
  from q show thesis
  proof (cases rule: consume_rows)
    case (2 r)
    let ?r = "r\<lparr>pa_Status := PendingStatusConsumed, pa_UpdatedAt := now, pa_key := None\<rparr>"
    have "?r \<in> set rows'" using 2 by (auto simp: sql_update_def image_iff intro!: bexI [of _ r])
    then show thesis using that [OF st(3), of r ?r] 2 by simp
  qed (use st in simp)
qed

lemma exec_keeps_consumed:
  assumes "pend_exec sha st rows = (ev, rows')" "r \<in> set rows" "pa_Status r = PendingStatusConsumed"
  shows "r \<in> set rows'"
  using exec_rows [OF assms(1)]
proof (elim disjE exE conjE)
  assume "list_all2 row_step rows rows'"
  then obtain r' where "r' \<in> set rows'" "row_step r r'" using row_steps_target assms(2) by blast
  then show ?thesis using assms(3) by (auto simp: row_step_def)
qed (use assms(2) in \<open>auto simp: insert_pending_def split: if_splits\<close>)

lemma exec_distinct:
  assumes "pend_exec sha st rows = (ev, rows')" "distinct (map pa_ID rows)"
  shows "distinct (map pa_ID rows')"
  using exec_rows [OF assms(1)]
proof (elim disjE exE conjE)
  assume "list_all2 row_step rows rows'"
  then show ?thesis using assms(2) by (simp add: row_steps_ids)
next
  fix now a
  assume "insert_pending (row_of (opened now a) (Some (PendingActionKey sha (opened now a)))) rows = Inr rows'"
  then show ?thesis by (cases rule: insert_pending_cases) (use assms(2) in auto)
qed

lemma approvals_exec:
  assumes ok: "approvals_ok evs rows" and e: "pend_exec sha st rows = (ev, rows')"
  shows "approvals_ok (evs @ ev) rows'"
    and "Consumed i c \<in> set ev \<Longrightarrow> ev = [Consumed i c] \<and> (\<exists>by. Approved i c None by \<in> set evs)"
proof -
  have d: "distinct (map pa_ID rows)" using ok by (simp add: approvals_ok_def)
  have new: "ev = [Consumed i c] \<and> (\<exists>by. Approved i c None by \<in> set evs) \<and> i \<notin> set (concat (map consumed_id evs))
      \<and> (\<exists>r'\<in>set rows'. pa_ID r' = i \<and> pa_Status r' = PendingStatusConsumed)"
    if "Consumed i c \<in> set ev" for i c
  proof -
    from exec_consumed [OF e that] obtain r r' where ev: "ev = [Consumed i c]" and r: "r \<in> set rows" "pa_ID r = i" "call_of r = c"
      "pa_Status r = PendingStatusApproved" "pa_ExpiresAt r = None" and r': "r' \<in> set rows'" "pa_ID r' = i" "pa_Status r' = PendingStatusConsumed" .
    have "i \<notin> set (concat (map consumed_id evs))"
    proof
      assume "i \<in> set (concat (map consumed_id evs))"
      then obtain q where q: "q \<in> set rows" "pa_ID q = i" "pa_Status q = PendingStatusConsumed"
        using ok unfolding approvals_ok_def by blast
      then have "q = r" using d r by (metis distinct_map inj_onD)
      then show False using q r by simp
    qed
    moreover have "\<exists>by. Approved (pa_ID r) (call_of r) (pa_ExpiresAt r) by \<in> set evs"
      using ok r(1,4) unfolding approvals_ok_def by blast
    then have "\<exists>by. Approved i c None by \<in> set evs" using r by simp
    ultimately show ?thesis using ev r' by blast
  qed
  have ids: "concat (map consumed_id ev) = [] \<or> (\<exists>i c. ev = [Consumed i c])"
  proof (cases "\<exists>i c. Consumed i c \<in> set ev")
    case True
    then show ?thesis using new by blast
  next
    case False
    have "consumed_id x = []" if "x \<in> set ev" for x using that False by (cases x rule: pending_event.exhaust) auto
    then show ?thesis by simp
  qed
  show "Consumed i c \<in> set ev \<Longrightarrow> ev = [Consumed i c] \<and> (\<exists>by. Approved i c None by \<in> set evs)" using new by blast
  show "approvals_ok (evs @ ev) rows'"
    unfolding approvals_ok_def
  proof (intro conjI ballI impI)
    show "distinct (map pa_ID rows')" by (rule exec_distinct [OF e d])
    show "distinct (concat (map consumed_id (evs @ ev)))"
      using ids
    proof
      assume "concat (map consumed_id ev) = []"
      then have "concat (map consumed_id (evs @ ev)) = concat (map consumed_id evs)" by (simp only: map_append concat_append append_Nil2)
      then show ?thesis using ok unfolding approvals_ok_def by (simp only: simp_thms)
    next
      assume "\<exists>i c. ev = [Consumed i c]"
      then obtain i c where ev: "ev = [Consumed i c]" by blast
      then have "i \<notin> set (concat (map consumed_id evs))" using new [of i c] by simp
      then show ?thesis using ok by (simp add: approvals_ok_def ev)
    qed
  next
    fix i
    assume "i \<in> set (concat (map consumed_id (evs @ ev)))"
    then consider "i \<in> set (concat (map consumed_id evs))" | c where "ev = [Consumed i c]"
      using ids unfolding map_append concat_append set_append by auto
    then show "\<exists>r\<in>set rows'. pa_ID r = i \<and> pa_Status r = PendingStatusConsumed"
    proof cases
      case 1
      then show ?thesis using ok exec_keeps_consumed [OF e] unfolding approvals_ok_def by blast
    next
      case 2
      then show ?thesis using new by auto
    qed
  next
    fix r'
    assume r': "r' \<in> set rows'" "pa_Status r' \<in> {PendingStatusApproved, PendingStatusConsumed}"
    obtain r where r: "r \<in> set rows" "pa_ID r = pa_ID r'" "call_of r = call_of r'" "pa_ExpiresAt r = pa_ExpiresAt r'"
      and st: "pa_Status r \<in> {PendingStatusApproved, PendingStatusConsumed}
        \<or> (\<exists>by. Approved (pa_ID r') (call_of r') (pa_ExpiresAt r') by \<in> set ev)"
      using exec_decided [OF e d r'(1)] r'(2) by auto
    have "\<exists>by. Approved (pa_ID r) (call_of r) (pa_ExpiresAt r) by \<in> set evs"
      if "pa_Status r \<in> {PendingStatusApproved, PendingStatusConsumed}"
      using ok r(1) that unfolding approvals_ok_def by blast
    then show "\<exists>by. Approved (pa_ID r') (call_of r') (pa_ExpiresAt r') by \<in> set (evs @ ev)"
      using st r by auto
  qed
qed

lemma pend_run_Cons:
  assumes "pend_run sha (st # sts) rows = (evs', rows')"
  obtains ev rows1 evs2 where "pend_exec sha st rows = (ev, rows1)" "pend_run sha sts rows1 = (evs2, rows')" "evs' = ev @ evs2"
  using assms by (auto split: prod.splits)

lemma approvals_run:
  "approvals_ok evs rows \<Longrightarrow> pend_run sha sts rows = (evs', rows') \<Longrightarrow> approvals_ok (evs @ evs') rows'"
proof (induction sts arbitrary: evs rows evs')
  case (Cons st sts)
  from Cons.prems(2) obtain ev rows1 evs2 where e: "pend_exec sha st rows = (ev, rows1)" "pend_run sha sts rows1 = (evs2, rows')"
    and "evs' = ev @ evs2" by (rule pend_run_Cons)
  then show ?case using Cons.IH [OF approvals_exec(1) [OF Cons.prems(1) e(1)] e(2)] by simp
qed simp

lemma consumed_was_approved:
  "approvals_ok evs rows \<Longrightarrow> pend_run sha sts rows = (evs', rows') \<Longrightarrow> evs' = xs @ Consumed i c # ys
   \<Longrightarrow> \<exists>by. Approved i c None by \<in> set (evs @ xs)"
proof (induction sts arbitrary: evs rows evs' xs)
  case (Cons st sts)
  from Cons.prems(2) obtain ev rows1 evs2 where e: "pend_exec sha st rows = (ev, rows1)" "pend_run sha sts rows1 = (evs2, rows')"
    and evs': "evs' = ev @ evs2" by (rule pend_run_Cons)
  note IH = Cons.IH [OF approvals_exec(1) [OF Cons.prems(1) e(1)] e(2)]
  from Cons.prems(3) evs' consider us where "xs = ev @ us" "evs2 = us @ Consumed i c # ys" | "Consumed i c \<in> set ev"
    by (auto simp: append_eq_append_conv2 append_eq_Cons_conv)
  then show ?case
  proof cases
    case 1
    then show ?thesis using IH [of us] by simp
  next
    case 2
    then show ?thesis using approvals_exec(2) [OF Cons.prems(1) e(1) 2] by auto
  qed
qed simp

section \<open>Samples\<close>

definition sample_action :: PendingAction where
  "sample_action = \<lparr>pa_ID = ''pending-v2-1'', pa_RunID = ''r1'', pa_Generation = 1, pa_TenantID = ''acme'', pa_AgentID = ''bot'',
     pa_Connector = ''crm'', pa_Tool = ''login'', pa_RuleID = ''p1'', pa_Reason = [], pa_ReasonCode = [], pa_Status = [],
     pa_ArgsDigest = ''d'', pa_Args = None, pa_DecidedBy = [], pa_CreatedAt = zero_time, pa_UpdatedAt = zero_time, pa_ExpiresAt = None\<rparr>"

definition sample_history :: "pending_stmt list" where
  "sample_history = [Open (''2026-01-01T00:00:00'', 0) sample_action, Approve (''2026-01-01T00:00:01'', 0) ''pending-v2-1'' ''ann'',
     Consume (''2026-01-01T00:00:02'', 0) (call_of sample_action), Consume (''2026-01-01T00:00:03'', 0) (call_of sample_action)]"

lemma sample_history_events:
  "fst (pend_run id sample_history []) = [Approved ''pending-v2-1'' (call_of sample_action) None ''ann''] @ Consumed ''pending-v2-1'' (call_of sample_action) # []"
  by (simp add: sample_history_def insert_pending_def SetPendingActionApproved_def ConsumeApprovedAction_def sql_count_def sql_update_def
      formatExpiry_def first_row_def Let_def) (simp add: sample_action_def call_of_def)

definition password_predicate :: Predicate where
  "password_predicate = \<lparr>p_ID = ''p1'', p_TenantID = ''acme'', p_AgentID = [], p_Connector = ''crm'', p_Tool = [], p_Path = ''password'',
     p_Op = ''exists'', p_Value = JNull, p_Effect = EffectPending, p_Reason = [], p_ReasonCode = []\<rparr>"

definition password_engine :: Engine where
  "password_engine = \<lparr>baseline = [], overlays = [], static = None, webhook = False, mandatoryHITLBaseline = [], mandatoryHITLOverlays = [],
     mandatoryHITL = [], predicates = [password_predicate], auditor = False, cache = Some Map.empty, defaultEffect = EffectAllow, failClosed = True\<rparr>"

definition password_call :: PolicyInput where
  "password_call = (approval_input sample_action)\<lparr>in_Args := JObj [(''password'', JStr ''x'')]\<rparr>"

definition sample_policy_env :: PolicyEnv where
  "sample_policy_env = \<lparr>pe_pdp = (\<lambda>_. BodyUnreadable), pe_alive = (\<lambda>_. True), pe_ms = 0, pe_rid = [], pe_audit = True\<rparr>"

definition sample_governance :: Governance where
  "sample_governance = \<lparr>gv_pending = [row_of (opened (''2026-01-01T00:00:00'', 0) sample_action) None], gv_policy = Some password_engine, gv_audit = []\<rparr>"

section \<open>Properties\<close>

text \<open>C6: An approval is used once, by the call that was approved. In every interleaving of the statements
  that requests execute on the table, a call that consumes an action does so after an operator approved
  that action for exactly this call (tenant, agent, run, generation, connector, tool and argument digest)
  and without an expiry, that is not for an embedded client; and no other call consumes the same action,
  before or after.\<close>

theorem approval_is_single_use:
  assumes "pend_run sha sts rows = (evs, rows')" "distinct (map pa_ID rows)"
    and "\<forall>r\<in>set rows. pa_Status r = PendingStatusPending \<or> pa_Status r = PendingStatusDenied"
    and "evs = xs @ Consumed i c # ys"
  shows "(\<exists>by. Approved i c None by \<in> set xs) \<and> (\<forall>c'. Consumed i c' \<notin> set xs \<union> set ys)
    \<and> (\<exists>r\<in>set rows'. pa_ID r = i \<and> pa_Status r = PendingStatusConsumed)"
proof (intro conjI)
  have ok: "approvals_ok [] rows" using assms(2,3) by (auto simp: approvals_ok_def)
  then have ok': "approvals_ok evs rows'" using approvals_run [OF ok assms(1)] by simp
  show "\<exists>by. Approved i c None by \<in> set xs" using consumed_was_approved [OF ok assms(1,4)] by simp
  have d: "distinct (concat (map consumed_id evs))" using ok' unfolding approvals_ok_def by blast
  have "Consumed i c' \<in> set zs \<Longrightarrow> i \<in> set (concat (map consumed_id zs))" for c' zs by force
  then show "\<forall>c'. Consumed i c' \<notin> set xs \<union> set ys" using d unfolding assms(4) by auto
  have "i \<in> set (concat (map consumed_id evs))" unfolding assms(4) by simp
  then show "\<exists>r\<in>set rows'. pa_ID r = i \<and> pa_Status r = PendingStatusConsumed" using ok' unfolding approvals_ok_def by blast
qed

theorem approval_is_single_use_witness:
  "\<exists>r\<in>set (snd (pend_run id sample_history [])). pa_ID r = ''pending-v2-1'' \<and> pa_Status r = PendingStatusConsumed"
  using approval_is_single_use [OF prod.collapse [symmetric] _ _ sample_history_events] by simp

text \<open>C34: There is one open action per call, in every history of the statements on a table that starts
  empty. When CreatePendingAction returns an id, the row of that id is open for exactly this call; and after
  any further statements of other requests, as long as that row is not decided, every later request for
  the same call gets the same id without a change of the table. No two open rows are of the same call.\<close>

theorem open_action_is_canonical:
  assumes "pend_run sha sts [] = (evs, rows)" "list_all stmt_ok sts" "key_hash_ok sha"
    and "CreatePendingAction sha now act rows = (Inr a, rows1)" "expiry_ok act" "pa_Status act = [] \<or> pa_Status act = PendingStatusPending"
    and "pend_run sha sts' rows1 = (evs', rows2)" "list_all stmt_ok sts'"
    and "r \<in> set rows2" "pa_ID r = pa_ID a" "pa_Status r = PendingStatusPending"
    and "call_of later = call_of act" "pa_ExpiresAt later = None \<longleftrightarrow> pa_ExpiresAt act = None"
    and "pa_Status later = [] \<or> pa_Status later = PendingStatusPending"
  shows "(\<exists>x\<in>set rows1. pa_ID x = pa_ID a \<and> open_for (call_of act) (pa_ExpiresAt act \<noteq> None) x)
    \<and> open_for (call_of act) (pa_ExpiresAt act \<noteq> None) r
    \<and> (\<exists>b. CreatePendingAction sha now' later rows2 = (Inr b, rows2) \<and> pa_ID b = pa_ID a)
    \<and> (\<forall>x\<in>set rows2. \<forall>y\<in>set rows2. \<forall>c embedded. open_for c embedded x \<and> open_for c embedded y \<longrightarrow> x = y)"
proof -
  let ?e = "pa_ExpiresAt act \<noteq> None"
  have "open_keys sha []" by (simp add: open_keys_def)
  then have "open_keys sha rows" using open_keys_run assms(1,2) by blast
  then obtain x where keys1: "open_keys sha rows1" and x: "x \<in> set rows1" "pa_ID x = pa_ID a" "open_for (call_of act) ?e x"
    using create_finds [OF _ assms(3,5,6,4)] by blast
  have keys: "open_keys sha rows2" using open_keys_run [OF keys1 assms(8,7)] .
  obtain y where y: "y \<in> set rows2" "pa_ID y = pa_ID x" "call_of y = call_of x" "pa_ExpiresAt y = pa_ExpiresAt x"
    using run_keeps_row [OF assms(7) x(1)] by blast
  have "inj_on pa_ID (set rows2)" using keys by (simp add: open_keys_def distinct_map)
  moreover have "pa_ID y = pa_ID r" using y(2) x(2) assms(10) by simp
  ultimately have "y = r" using y(1) assms(9) by (rule inj_onD)
  then have r: "open_for (call_of act) ?e r" using y(3,4) x(3) assms(11) by (simp add: open_for_def)
  have unique: "p = q" if "p \<in> set rows2" "q \<in> set rows2" "open_for c e p" "open_for c e q" for p q c e
    using open_action_determined [OF keys that(1,2)] that(3,4) unfolding open_for_def by metis
  have e: "(pa_ExpiresAt later \<noteq> None) = ?e" by (simp only: assms(13))
  obtain z where z: "FindOpenPendingAction (call_of act) ?e rows2 = Some z"
    using FindOpen_None [of "call_of act" ?e rows2] r assms(9) by blast
  then have "pa_ID z = pa_ID a" using FindOpen_Some [OF z] unique [OF _ assms(9) _ r] assms(10) by auto
  then have "\<exists>b. CreatePendingAction sha now' later rows2 = (Inr b, rows2) \<and> pa_ID b = pa_ID a"
    unfolding create_open [OF assms(14) refl refl] assms(12) e z by simp
  then show ?thesis using x r unique by blast
qed

lemma id_hash_ok: "key_hash_ok id"
  by (simp add: key_hash_ok_def)

theorem open_action_is_canonical_witness:
  "\<exists>a rows1 b. CreatePendingAction id (''2026-01-01T00:00:00'', 0) sample_action [] = (Inr a, rows1)
     \<and> CreatePendingAction id (''2026-01-01T00:00:05'', 0) (sample_action\<lparr>pa_ID := ''pending-v2-2''\<rparr>) rows1 = (Inr b, rows1) \<and> pa_ID b = ''pending-v2-1''"
proof -
  have f: "pa_Status sample_action = []" "pa_ExpiresAt sample_action = None" "pa_ID sample_action = ''pending-v2-1''"
    by (simp_all add: sample_action_def)
  have "\<exists>a rows1. CreatePendingAction id (''2026-01-01T00:00:00'', 0) sample_action [] = (Inr a, rows1) \<and> pa_ID a = ''pending-v2-1''
      \<and> (\<exists>r\<in>set rows1. pa_ID r = pa_ID a \<and> pa_Status r = PendingStatusPending)"
    by (subst create_open [OF _ refl refl])
      (auto simp: f FindOpenPendingAction_def first_row_def insert_pending_def formatExpiry_def split: option.splits)
  then obtain a rows1 r where c: "CreatePendingAction id (''2026-01-01T00:00:00'', 0) sample_action [] = (Inr a, rows1)" "pa_ID a = ''pending-v2-1''"
    "r \<in> set rows1" "pa_ID r = pa_ID a" "pa_Status r = PendingStatusPending" by blast
  have "\<exists>b. CreatePendingAction id (''2026-01-01T00:00:05'', 0) (sample_action\<lparr>pa_ID := ''pending-v2-2''\<rparr>) rows1 = (Inr b, rows1) \<and> pa_ID b = pa_ID a"
    by (rule conjunct1 [OF conjunct2 [OF conjunct2 [OF open_action_is_canonical [where sts = "[]" and sts' = "[]", OF _ _ id_hash_ok c(1) _ _ _ _ c(3-5)]]]])
      (simp_all add: expiry_ok_def f)
  then show ?thesis using c(1,2) by auto
qed

text \<open>C35: One approval can admit the call again and again. The approval handler evaluates the policy on the
  stored display copy of the arguments, from which secrets and deep or long values are gone, but under the
  digest of the real arguments; if the copy passes, the decision allow is cached under the key of the real
  call (of a run without a principal). While the entry lives, the engine allows the real call itself, on
  every repetition, with no approval left to consume.\<close>

theorem approval_outlives_its_use:
  fixes s s' :: Governance
  assumes "gv_policy s = Some e" "cache e = Some m" "m (cacheKey inp) = None"
    and "GetPendingAction i (gv_pending s) = Inr a" "cacheKey (approval_input a) = cacheKey inp"
    and "TrimSpace (pa_TenantID a) \<noteq> []" "TrimSpace (pa_AgentID a) \<noteq> []" "TrimSpace (in_TenantID inp) \<noteq> []" "TrimSpace (in_AgentID inp) \<noteq> []"
    and "evaluate (pe_pdp pe) (take_snapshot e) (approval_input a) = (d, Some d)" "Effect d = EffectAllow"
    and "mandatoryHITL e = []" "pe_alive pe' (cacheKey inp)"
    and "handleAdminApprovePendingAction pe now tid ar i s = (RepliedWith 200 a', s')"
  shows "\<exists>e'. gv_policy s' = Some e' \<and> (\<forall>t :: Governance. gv_policy t = Some e' \<longrightarrow>
    Effect (fst (policy_Decide pe' tid' e' inp t)) = EffectAllow \<and> gv_policy (snd (policy_Decide pe' tid' e' inp t)) = Some e')"
proof -
  let ?in = "approval_input a"
  let ?e = "e\<lparr>cache := Some (m(cacheKey inp \<mapsto> d))\<rparr>"
  have "decide (pe_pdp pe) (pe_alive pe) e ?in = (d, ?e)"
    using assms(2,3,5-7,10) by (simp add: decide_def cache_get_def cachePut_def cache_put_def approval_input_def)
  then have "gv_policy (snd (policy_Decide pe tid e ?in s)) = Some ?e"
    by (simp add: policy_Decide_def Decide_def Let_def)
  then have "gv_policy s' = Some ?e"
    using assms(1,4,14) by (auto simp: handleAdminApprovePendingAction_def split: prod.splits if_splits option.splits sum.splits)
  moreover have "decide pdp (pe_alive pe') ?e inp = (d, ?e)" for pdp
    using assms(8,9,13) by (simp add: decide_def cache_get_def)
  then have "Effect (fst (policy_Decide pe' tid' ?e inp t)) = EffectAllow \<and> gv_policy (snd (policy_Decide pe' tid' ?e inp t)) = Some ?e" for t :: Governance
    using assms(11,12) by (simp add: policy_Decide_def Decide_def Let_def applyMandatoryHITL_def matchMandatoryHITL_def)
  ultimately show ?thesis by blast
qed

theorem approval_outlives_its_use_witness:
  "Effect (fst (policy_Decide sample_policy_env ''acme'' password_engine password_call sample_governance)) = EffectPending
   \<and> (\<exists>a' s' e'. handleAdminApprovePendingAction sample_policy_env (''2026-01-01T00:00:01'', 0) [] None ''pending-v2-1'' sample_governance = (RepliedWith 200 a', s')
        \<and> gv_policy s' = Some e' \<and> Effect (fst (policy_Decide sample_policy_env ''acme'' e' password_call s')) = EffectAllow)"
proof -
  let ?d = "default_decision (take_snapshot password_engine)"
  let ?r = "row_of (opened (''2026-01-01T00:00:00'', 0) sample_action) None"
  have t: "TrimSpace ''acme'' = ''acme''" "TrimSpace ''bot'' = ''bot''" "TrimSpace ''crm'' = ''crm''" by code_simp+
  have p: "Split (CHR ''.'') ''password'' = [''password'']" by code_simp
  have "Effect (fst (policy_Decide sample_policy_env ''acme'' password_engine password_call sample_governance)) = EffectPending"
    by (simp add: policy_Decide_def Decide_def decide_def sample_policy_env_def password_engine_def password_call_def approval_input_def
        sample_action_def t cache_get_def evaluate_def StageToolCall_def StageRunCreate_def static_layer_def take_snapshot_def
        applyPredicates_def predicateMatchesScope_def password_predicate_def evalPredicate_def lookupPath_def p predicateArgs_def
        predicateDecision_def applyMandatoryHITL_def effect_defs Let_def)
  moreover have g: "GetPendingAction ''pending-v2-1'' (gv_pending sample_governance) = Inr (scanPendingAction ?r)"
    by (simp add: GetPendingAction_def sample_governance_def) (simp add: sample_action_def)
  have k: "cacheKey (approval_input (scanPendingAction ?r)) = cacheKey password_call"
    by (simp add: cacheKey_def approval_input_def password_call_def scanPendingAction_def row_of_def opened_def PendingAction.defs)
  have d: "evaluate (pe_pdp sample_policy_env) (take_snapshot password_engine) (approval_input (scanPendingAction ?r)) = (?d, Some ?d)"
    by (simp add: evaluate_def approval_input_def StageToolCall_def StageRunCreate_def static_layer_def take_snapshot_def password_engine_def
        applyPredicates_def predicateMatchesScope_def password_predicate_def evalPredicate_def lookupPath_def p predicateArgs_def
        scanPendingAction_def row_of_def opened_def PendingAction.defs UnmarshalPendingArgs_def MarshalPendingArgs_def sample_action_def)
  obtain dec s1 where q: "policy_Decide sample_policy_env [] password_engine (approval_input (scanPendingAction ?r)) sample_governance = (dec, s1)"
    by (cases "policy_Decide sample_policy_env [] password_engine (approval_input (scanPendingAction ?r)) sample_governance")
  have f: "pa_Status (scanPendingAction ?r) = PendingStatusPending" "currentPendingBinding (scanPendingAction ?r)"
    "TrimSpace (pa_TenantID (scanPendingAction ?r)) \<noteq> []" "TrimSpace (pa_AgentID (scanPendingAction ?r)) \<noteq> []"
    by (simp_all add: currentPendingBinding_def scanPendingAction_def row_of_def opened_def PendingAction.defs sample_action_def t
        pendingActionIDPrefix_def HasPrefix_def)
  have c: "cache password_engine = Some Map.empty" by (simp add: password_engine_def)
  have n: "in_TenantID (approval_input x) = pa_TenantID x" "in_AgentID (approval_input x) = pa_AgentID x" for x
    by (simp_all add: approval_input_def)
  have "decide (pe_pdp sample_policy_env) (pe_alive sample_policy_env) password_engine (approval_input (scanPendingAction ?r))
      = (?d, cachePut (approval_input (scanPendingAction ?r)) (Some ?d) password_engine)"
    using f(3,4) by (simp add: decide_def d cache_get_def c n)
  then have s1: "Effect dec = EffectAllow" "gv_pending s1 = [?r]"
    using q by (auto simp: policy_Decide_def Decide_def Let_def applyMandatoryHITL_def matchMandatoryHITL_def cachePut_def
        password_engine_def default_decision_def take_snapshot_def sample_governance_def)
  have "\<exists>a' s'. handleAdminApprovePendingAction sample_policy_env (''2026-01-01T00:00:01'', 0) [] None ''pending-v2-1'' sample_governance = (RepliedWith 200 a', s')"
    using f s1 by (simp add: handleAdminApprovePendingAction_def g q [unfolded sample_governance_def] SetPendingActionApproved_def GetPendingAction_def
        sql_count_def sql_update_def formatExpiry_def sample_governance_def Let_def) (simp add: sample_action_def)
  then obtain a' s' where h: "handleAdminApprovePendingAction sample_policy_env (''2026-01-01T00:00:01'', 0) [] None ''pending-v2-1'' sample_governance = (RepliedWith 200 a', s')"
    by blast
  have "\<exists>e'. gv_policy s' = Some e' \<and> (\<forall>t :: Governance. gv_policy t = Some e' \<longrightarrow>
      Effect (fst (policy_Decide sample_policy_env ''acme'' e' password_call t)) = EffectAllow
      \<and> gv_policy (snd (policy_Decide sample_policy_env ''acme'' e' password_call t)) = Some e')"
    by (rule approval_outlives_its_use [OF _ _ _ g k f(3,4) _ _ d _ _ _ h])
      (simp_all add: sample_governance_def password_engine_def default_decision_def take_snapshot_def sample_policy_env_def password_call_def
        approval_input_def sample_action_def t)
  ultimately show ?thesis using h by blast
qed

end
