(* ===== verification/Connectors.thy ===== *)
theory Connectors
  imports Policy_Rules Json_Text "HOL-Library.AList"
begin

text \<open>
  The connector registry and its MCP proxy: the circuit breaker, the credential flows, the strict
  reading of JSON-RPC requests, the tool filter and the proxy of one request
  (src/internal/connector/circuitbreaker.go, registry.go, oauth.go, secretref.go, mcp_request.go,
  mcpproxy.go). The clock (nanoseconds), secret stores, token endpoints and the downstream MCP server are
  arguments. Requests and responses are decoded JSON; a raw message is the value that it denotes.
\<close>

section \<open>The circuit breaker (circuitbreaker.go)\<close>

datatype breakerState = stateClosed | stateOpen | stateHalfOpen

record CircuitBreakerConfig =
  FailureThreshold :: int
  CooldownSeconds :: int

definition DefaultCircuitBreakerConfig :: CircuitBreakerConfig where
  "DefaultCircuitBreakerConfig = \<lparr>FailureThreshold = 5, CooldownSeconds = 30\<rparr>"

record CircuitBreaker =
  cb_cfg :: CircuitBreakerConfig
  cb_state :: breakerState
  cb_consecutiveFailures :: int
  cb_openedAt :: int
  cb_halfOpenInFlight :: bool

definition NewCircuitBreaker :: "CircuitBreakerConfig option \<Rightarrow> CircuitBreaker" where
  "NewCircuitBreaker cfg =
     (let d = DefaultCircuitBreakerConfig;
          c = (case cfg of
                 None \<Rightarrow> d
               | Some g \<Rightarrow> \<lparr>FailureThreshold = (if FailureThreshold g > 0 then FailureThreshold g else FailureThreshold d),
                            CooldownSeconds = (if CooldownSeconds g > 0 then CooldownSeconds g else CooldownSeconds d)\<rparr>)
      in \<lparr>cb_cfg = c, cb_state = stateClosed, cb_consecutiveFailures = 0, cb_openedAt = 0, cb_halfOpenInFlight = False\<rparr>)"

definition cooldown :: "CircuitBreaker \<Rightarrow> int" where
  "cooldown cb = CooldownSeconds (cb_cfg cb) * 1000000000"

definition Allow :: "int \<Rightarrow> CircuitBreaker \<Rightarrow> bool \<times> CircuitBreaker" where
  "Allow now cb =
     (case cb_state cb of
        stateClosed \<Rightarrow> (True, cb)
      | stateOpen \<Rightarrow>
          if now - cb_openedAt cb < cooldown cb then (False, cb)
          else (True, cb\<lparr>cb_state := stateHalfOpen, cb_halfOpenInFlight := True\<rparr>)
      | stateHalfOpen \<Rightarrow> (False, cb))"

definition RecordSuccess :: "CircuitBreaker \<Rightarrow> CircuitBreaker" where
  "RecordSuccess cb = cb\<lparr>cb_consecutiveFailures := 0, cb_state := stateClosed, cb_halfOpenInFlight := False\<rparr>"

definition RecordFailure :: "int \<Rightarrow> CircuitBreaker \<Rightarrow> CircuitBreaker" where
  "RecordFailure now cb =
     (if cb_state cb = stateHalfOpen
      then cb\<lparr>cb_state := stateOpen, cb_openedAt := now, cb_halfOpenInFlight := False\<rparr>
      else
        let cb' = cb\<lparr>cb_consecutiveFailures := cb_consecutiveFailures cb + 1\<rparr> in
        if cb_consecutiveFailures cb' \<ge> FailureThreshold (cb_cfg cb) then cb'\<lparr>cb_state := stateOpen, cb_openedAt := now\<rparr>
        else cb')"

section \<open>Credentials (registry.go, oauth.go, secretref.go)\<close>

record AuthConfig =
  ac_Type :: string
  ac_Issuer :: string
  ac_TokenURL :: string
  ac_ClientID :: string
  ac_ClientSecret :: string
  ac_Scopes :: "string list"
  ac_APIKey :: string
  ac_BearerToken :: string
  ac_SecretRef :: string

record MCPConfig =
  mc_URL :: string
  mc_Transport :: string

record ConnectorConfig =
  cc_Auth :: AuthConfig
  cc_MCP :: "MCPConfig option"
  cc_Tools :: "ToolFilter option"

record CachedToken =
  ct_AccessToken :: string
  ct_RefreshToken :: string
  ct_ExpiresAt :: int
  ct_InstanceURL :: string

record Connector =
  cn_Name :: string
  cn_Config :: ConnectorConfig
  cn_cachedToken :: "CachedToken option"
  cn_breaker :: CircuitBreaker

datatype conn_error = ErrConnectorNotFound | ErrCircuitOpen string | ErrConnectorBodyTooLarge | ErrConnector string

text \<open>The answer of a token endpoint: no answer, or a status with the fields of the body (None: not a
  token response).\<close>

record token_response =
  tr_access_token :: string
  tr_refresh_token :: string
  tr_expires_in :: int
  tr_instance_url :: string

datatype token_reply = TokenUnreachable | TokenReply nat "token_response option"

record ConnEnv =
  ce_now :: int
  ce_ResolveSecretRef :: "string \<Rightarrow> string option"
  ce_post_form :: "string \<Rightarrow> (string \<times> string) list \<Rightarrow> token_reply"

definition materializeAuthSecret :: "ConnEnv \<Rightarrow> AuthConfig \<Rightarrow> conn_error + AuthConfig" where
  "materializeAuthSecret env a =
     (if TrimSpace (ac_SecretRef a) = [] then Inr a
      else case ce_ResolveSecretRef env (ac_SecretRef a) of
        None \<Rightarrow> Inl (ErrConnector ''secret_ref'')
      | Some secret \<Rightarrow>
          if ac_Type a = ''api_key'' then
            (if ac_APIKey a \<noteq> [] then Inl (ErrConnector ''auth: set api_key or secret_ref, not both'') else Inr (a\<lparr>ac_APIKey := secret\<rparr>))
          else if ac_Type a = ''bearer'' then
            (if ac_BearerToken a \<noteq> [] then Inl (ErrConnector ''auth: set bearer_token or secret_ref, not both'') else Inr (a\<lparr>ac_BearerToken := secret\<rparr>))
          else if ac_Type a = ''oauth2_client_credentials'' \<or> ac_Type a = ''oauth2_token_exchange'' then
            (if ac_ClientSecret a \<noteq> [] then Inl (ErrConnector ''auth: set client_secret or secret_ref, not both'')
             else Inr (a\<lparr>ac_ClientSecret := secret\<rparr>))
          else Inl (ErrConnector ''auth: secret_ref unsupported''))"

fun Join :: "string list \<Rightarrow> string \<Rightarrow> string" where
  "Join [] sep = []"
| "Join [s] sep = s"
| "Join (s # ss) sep = s @ sep @ Join ss sep"

definition scope_param :: "AuthConfig \<Rightarrow> (string \<times> string) list" where
  "scope_param cfg = (if ac_Scopes cfg = [] then [] else [(''scope'', Join (ac_Scopes cfg) '' '')])"

definition token_of_reply :: "int \<Rightarrow> token_reply \<Rightarrow> conn_error + CachedToken" where
  "token_of_reply now reply =
     (case reply of
        TokenUnreachable \<Rightarrow> Inl (ErrConnector ''token request failed'')
      | TokenReply status body \<Rightarrow>
          if status \<noteq> 200 then Inl (ErrConnector ''token endpoint status'')
          else case body of
            None \<Rightarrow> Inl (ErrConnector ''parse token response'')
          | Some r \<Rightarrow>
              if tr_access_token r = [] then Inl (ErrConnector ''token endpoint returned empty access_token'')
              else Inr \<lparr>ct_AccessToken = tr_access_token r, ct_RefreshToken = tr_refresh_token r,
                        ct_ExpiresAt = now + (if tr_expires_in r \<le> 0 then 3600 else tr_expires_in r) * 1000000000,
                        ct_InstanceURL = tr_instance_url r\<rparr>)"

definition oauth2ClientCredentials :: "ConnEnv \<Rightarrow> AuthConfig \<Rightarrow> conn_error + CachedToken" where
  "oauth2ClientCredentials env cfg =
     (if ac_TokenURL cfg = [] then Inl (ErrConnector ''token_url required for oauth2_client_credentials'')
      else token_of_reply (ce_now env) (ce_post_form env (ac_TokenURL cfg)
        ([(''grant_type'', ''client_credentials''), (''client_id'', ac_ClientID cfg), (''client_secret'', ac_ClientSecret cfg)] @ scope_param cfg)))"

definition oauth2TokenExchange :: "ConnEnv \<Rightarrow> AuthConfig \<Rightarrow> string \<Rightarrow> conn_error + CachedToken" where
  "oauth2TokenExchange env cfg ssoToken =
     (let tokenURL = (if ac_TokenURL cfg = [] \<and> ac_Issuer cfg \<noteq> [] then TrimSuffix (ac_Issuer cfg) ''/'' @ ''/oauth2/token'' else ac_TokenURL cfg) in
      if tokenURL = [] then Inl (ErrConnector ''token_url or issuer required for oauth2_token_exchange'')
      else token_of_reply (ce_now env) (ce_post_form env tokenURL
        ([(''grant_type'', ''urn:ietf:params:oauth:grant-type:token-exchange''), (''subject_token'', ssoToken),
          (''subject_token_type'', ''urn:ietf:params:oauth:token-type:access_token''),
          (''requested_token_type'', ''urn:ietf:params:oauth:token-type:access_token''),
          (''client_id'', ac_ClientID cfg), (''client_secret'', ac_ClientSecret cfg)] @ scope_param cfg)))"

definition StaticCredentialSessionTTL :: int where "StaticCredentialSessionTTL = 3600 * 1000000000"

text \<open>A network call for a token under the breaker.\<close>

definition guarded_fetch :: "ConnEnv \<Rightarrow> (conn_error + CachedToken) \<Rightarrow> Connector \<Rightarrow> (conn_error + CachedToken) \<times> Connector" where
  "guarded_fetch env answer c =
     (case Allow (ce_now env) (cn_breaker c) of
        (False, cb) \<Rightarrow> (Inl (ErrCircuitOpen (cn_Name c)), c\<lparr>cn_breaker := cb\<rparr>)
      | (True, cb) \<Rightarrow>
          (case answer of
             Inl e \<Rightarrow> (Inl e, c\<lparr>cn_breaker := RecordFailure (ce_now env) cb\<rparr>)
           | Inr t \<Rightarrow> (Inr t, c\<lparr>cn_breaker := RecordSuccess cb\<rparr>)))"

definition getClientCredentialsToken :: "ConnEnv \<Rightarrow> AuthConfig \<Rightarrow> Connector \<Rightarrow> (conn_error + CachedToken) \<times> Connector" where
  "getClientCredentialsToken env cfg c =
     (let fetch = (case guarded_fetch env (oauth2ClientCredentials env cfg) c of
                     (Inl e, c') \<Rightarrow> (Inl e, c')
                   | (Inr t, c') \<Rightarrow> (Inr t, c'\<lparr>cn_cachedToken := Some t\<rparr>))
      in case cn_cachedToken c of
           Some t \<Rightarrow> if ce_now env + 60 * 1000000000 < ct_ExpiresAt t then (Inr t, c) else fetch
         | None \<Rightarrow> fetch)"

definition getToken :: "ConnEnv \<Rightarrow> (string \<rightharpoonup> json) \<Rightarrow> Connector \<Rightarrow> (conn_error + CachedToken) \<times> Connector" where
  "getToken env userCtx c =
     (case materializeAuthSecret env (cc_Auth (cn_Config c)) of
        Inl e \<Rightarrow> (Inl e, c)
      | Inr cfg \<Rightarrow>
          let fixed = (\<lambda>v. \<lparr>ct_AccessToken = v, ct_RefreshToken = [], ct_ExpiresAt = ce_now env + StaticCredentialSessionTTL, ct_InstanceURL = []\<rparr>) in
          if ac_Type cfg = ''api_key'' then (Inr (fixed (ac_APIKey cfg)), c)
          else if ac_Type cfg = ''bearer'' then (Inr (fixed (ac_BearerToken cfg)), c)
          else if ac_Type cfg = ''oauth2_client_credentials'' then getClientCredentialsToken env cfg c
          else if ac_Type cfg = ''oauth2_token_exchange'' then
            (case userCtx ''sso_token'' of
               Some (JStr ssoToken) \<Rightarrow>
                 if ssoToken = [] then (Inl (ErrConnector ''sso_token required for token_exchange''), c)
                 else guarded_fetch env (oauth2TokenExchange env cfg ssoToken) c
             | _ \<Rightarrow> (Inl (ErrConnector ''sso_token required for token_exchange''), c))
          else (Inl (ErrConnector ''unsupported auth type''), c))"

section \<open>Reading JSON-RPC requests (mcp_request.go)\<close>

text \<open>strings.EqualFold against a name of lower-case ASCII letters: besides the ASCII letters, the long s
  (U+017F) and the Kelvin sign (U+212A) fold to such letters.\<close>

fun fold_name :: "string \<Rightarrow> string" where
  "fold_name [] = []"
| "fold_name [c] = ToLower [c]"
| "fold_name [c, d] = (if [c, d] = [CHR 0xC5, CHR 0xBF] then ''s'' else ToLower [c] @ ToLower [d])"
| "fold_name (c # d # e # cs) =
     (if [c, d] = [CHR 0xC5, CHR 0xBF] then CHR ''s'' # fold_name (e # cs)
      else if [c, d, e] = [CHR 0xE2, CHR 0x84, CHR 0xAA] then CHR ''k'' # fold_name cs
      else ToLower [c] @ fold_name (d # e # cs))"

definition EqualFold :: "string \<Rightarrow> string \<Rightarrow> bool" where
  "EqualFold key name \<longleftrightarrow> fold_name key = name"

definition strictRPCObject :: "json \<Rightarrow> string list \<Rightarrow> (string \<times> json) list option" where
  "strictRPCObject v reserved =
     (case v of
        JObj kvs \<Rightarrow>
          if list_ex (\<lambda>kv. list_ex (\<lambda>name. fst kv \<noteq> name \<and> EqualFold (fst kv) name) reserved) kvs then None
          else if \<not> distinct (map fst kvs) then None
          else Some kvs
      | _ \<Rightarrow> None)"

record MCPRequest =
  mr_ID :: "json option"
  mr_Method :: string
  mr_Tool :: string
  mr_Arguments :: "json option"
  mr_Body :: json

text \<open>json.Unmarshal into a string: null leaves it empty.\<close>

definition json_string :: "json option \<Rightarrow> string option" where
  "json_string v = (case v of Some (JStr s) \<Rightarrow> Some s | Some JNull \<Rightarrow> Some [] | _ \<Rightarrow> None)"

definition params_of :: "string \<Rightarrow> (string \<times> json) list \<Rightarrow> (string \<times> json option) option" where
  "params_of m params =
     (if m \<noteq> ''tools/call'' then Some ([], None)
      else case (case map_of params ''name'' of None \<Rightarrow> Some [] | Some v \<Rightarrow> json_string (Some v)) of
        None \<Rightarrow> None
      | Some tool \<Rightarrow>
          (case map_of params ''arguments'' of
             None \<Rightarrow> Some (tool, None)
           | Some (JObj kvs) \<Rightarrow> Some (tool, Some (JObj kvs))
           | Some _ \<Rightarrow> None))"

definition ParseMCPRequest :: "json option \<Rightarrow> MCPRequest option" where
  "ParseMCPRequest doc =
     (case Option.bind doc (\<lambda>v. strictRPCObject v [''jsonrpc'', ''id'', ''method'', ''params'']) of
        None \<Rightarrow> None
      | Some envelope \<Rightarrow>
          if json_string (map_of envelope ''jsonrpc'') \<noteq> Some ''2.0'' then None
          else case json_string (map_of envelope ''method'') of
            None \<Rightarrow> None
          | Some m \<Rightarrow>
              if m = [] then None
              else case map_of envelope ''params'' of
                None \<Rightarrow>
                  if m = ''tools/call'' then None
                  else Some \<lparr>mr_ID = map_of envelope ''id'', mr_Method = m, mr_Tool = [], mr_Arguments = None, mr_Body = JObj envelope\<rparr>
              | Some raw \<Rightarrow>
                  (case strictRPCObject raw [''name'', ''arguments''] of
                     None \<Rightarrow> None
                   | Some params \<Rightarrow>
                       (case params_of m params of
                          None \<Rightarrow> None
                        | Some (tool, args) \<Rightarrow>
                            Some \<lparr>mr_ID = map_of envelope ''id'', mr_Method = m, mr_Tool = tool, mr_Arguments = args,
                                  mr_Body = JObj (AList.update ''params'' (JObj params) envelope)\<rparr>)))"

section \<open>Tool filter (registry.go, mcpproxy.go)\<close>

definition isAllowed :: "ToolFilter option \<Rightarrow> string \<Rightarrow> bool" where
  "isAllowed flt tool =
     (case flt of
        None \<Rightarrow> True
      | Some f \<Rightarrow>
          if list_ex (\<lambda>d. d = tool) (tf_Deny f) then False
          else if tf_Allow f \<noteq> [] then list_ex (\<lambda>a. a = tool) (tf_Allow f)
          else True)"

text \<open>json.Unmarshal into a map of raw messages: the last of repeated members counts, null is the nil map.\<close>

definition raw_map :: "json \<Rightarrow> (string \<times> json) list option option" where
  "raw_map v = (case v of JObj kvs \<Rightarrow> Some (Some (AList.clearjunk (rev kvs))) | JNull \<Rightarrow> Some None | _ \<Rightarrow> None)"

definition members_or_nil :: "(string \<times> json) list option \<Rightarrow> (string \<times> json) list" where
  "members_or_nil m = (case m of None \<Rightarrow> [] | Some kvs \<Rightarrow> kvs)"

definition keeps_tool :: "ToolFilter option \<Rightarrow> json \<Rightarrow> bool" where
  "keeps_tool flt raw =
     (case raw_map raw of
        None \<Rightarrow> False
      | Some m \<Rightarrow> (case json_string (map_of (members_or_nil m) ''name'') of None \<Rightarrow> False | Some name \<Rightarrow> isAllowed flt name))"

datatype mcp_body = JsonBody json | OtherBody string

definition filterToolsListResponse :: "mcp_body \<Rightarrow> ToolFilter option \<Rightarrow> mcp_body" where
  "filterToolsListResponse body flt =
     (case (flt, body) of
        (Some f, JsonBody v) \<Rightarrow>
          (case raw_map v of
             None \<Rightarrow> body
           | Some resp \<Rightarrow>
               (case Option.bind (map_of (members_or_nil resp) ''result'') raw_map of
                  Some (Some result) \<Rightarrow>
                    (case map_of result ''tools'' of
                       Some (JArr tools) \<Rightarrow>
                         JsonBody (JObj (AList.update ''result''
                           (JObj (AList.update ''tools'' (JArr (filter (keeps_tool flt) tools)) result)) (members_or_nil resp)))
                     | Some JNull \<Rightarrow>
                         JsonBody (JObj (AList.update ''result'' (JObj (AList.update ''tools'' (JArr []) result)) (members_or_nil resp)))
                     | _ \<Rightarrow> body)
                | _ \<Rightarrow> body))
      | _ \<Rightarrow> body)"

section \<open>Sessions and the proxy (registry.go, mcpproxy.go)\<close>

type_synonym Registry = "string \<rightharpoonup> Connector"

record MCPSession =
  ms_URL :: string
  ms_Tools :: "string list"

record SessionResponse =
  sr_Credentials :: "(string \<times> string) list"
  sr_ExpiresAt :: int
  sr_SessionToken :: string
  sr_MCP :: "MCPSession option"

definition allowedTools :: "Connector \<Rightarrow> string list" where
  "allowedTools c = (case cc_Tools (cn_Config c) of None \<Rightarrow> [] | Some f \<Rightarrow> tf_Allow f)"

definition session_response :: "string \<Rightarrow> Connector \<Rightarrow> CachedToken \<Rightarrow> SessionResponse" where
  "session_response name c token =
     (case cc_MCP (cn_Config c) of
        None \<Rightarrow>
          \<lparr>sr_Credentials = [(''access_token'', ct_AccessToken token)]
             @ (if ct_InstanceURL token \<noteq> [] then [(''instance_url'', ct_InstanceURL token)] else [])
             @ (if ct_RefreshToken token \<noteq> [] then [(''refresh_token'', ct_RefreshToken token)] else []),
           sr_ExpiresAt = ct_ExpiresAt token, sr_SessionToken = [], sr_MCP = None\<rparr>
      | Some _ \<Rightarrow>
          \<lparr>sr_Credentials = [], sr_ExpiresAt = ct_ExpiresAt token, sr_SessionToken = [],
           sr_MCP = Some \<lparr>ms_URL = ''/internal/connectors/'' @ name @ ''/mcp'', ms_Tools = allowedTools c\<rparr>\<rparr>)"

definition GetSession :: "ConnEnv \<Rightarrow> string \<Rightarrow> (string \<rightharpoonup> json) \<Rightarrow> Registry \<Rightarrow> (conn_error + SessionResponse) \<times> Registry" where
  "GetSession env name userCtx r =
     (case r name of
        None \<Rightarrow> (Inl ErrConnectorNotFound, r)
      | Some c \<Rightarrow>
          (case getToken env userCtx c of
             (Inl e, c') \<Rightarrow> (Inl e, r(name \<mapsto> c'))
           | (Inr token, c') \<Rightarrow> (Inr (session_response name c token), r(name \<mapsto> c'))))"

text \<open>The answer of the proxy: the refusal of a tool, or the response of the downstream server with its
  status. \<open>downstream\<close> is the exchange with that server, given the endpoint, the credential and the
  request; the last component of the result is the request that was sent, if any.\<close>

datatype proxy_reply = ToolRefused "json option" string string | Proxied mcp_body nat

type_synonym downstream = "MCPConfig \<Rightarrow> string \<Rightarrow> MCPRequest \<Rightarrow> conn_error + (mcp_body \<times> nat)"

definition ProxyMCPRequest ::
  "ConnEnv \<Rightarrow> downstream \<Rightarrow> string \<Rightarrow> (string \<rightharpoonup> json) \<Rightarrow> json option \<Rightarrow> Registry
     \<Rightarrow> (conn_error + proxy_reply) \<times> Registry \<times> MCPRequest option" where
  "ProxyMCPRequest env downstream name userCtx body r =
     (case r name of
        None \<Rightarrow> (Inl ErrConnectorNotFound, r, None)
      | Some c \<Rightarrow>
          (case cc_MCP (cn_Config c) of
             None \<Rightarrow> (Inl (ErrConnector ''no MCP endpoint configured''), r, None)
           | Some mcp \<Rightarrow>
               if mc_Transport mcp \<notin> set [[], ''json'', ''streamable_http''] then (Inl (ErrConnector ''unsupported MCP transport''), r, None)
               else case ParseMCPRequest body of
                 None \<Rightarrow> (Inl (ErrConnector ''invalid JSON-RPC request''), r, None)
               | Some req \<Rightarrow>
                   if mr_Method req = ''tools/call'' \<and> (mr_Tool req = [] \<or> \<not> isAllowed (cc_Tools (cn_Config c)) (mr_Tool req))
                   then (Inr (ToolRefused (mr_ID req) name (mr_Tool req)), r, None)
                   else case Allow (ce_now env) (cn_breaker c) of
                     (False, cb) \<Rightarrow> (Inl (ErrCircuitOpen (cn_Name c)), r(name \<mapsto> c\<lparr>cn_breaker := cb\<rparr>), None)
                   | (True, cb) \<Rightarrow>
                       (case getToken env userCtx (c\<lparr>cn_breaker := cb\<rparr>) of
                          (Inl e, c1) \<Rightarrow> (Inl e, r(name \<mapsto> c1\<lparr>cn_breaker := RecordFailure (ce_now env) (cn_breaker c1)\<rparr>), None)
                        | (Inr token, c1) \<Rightarrow>
                            (case downstream mcp (ct_AccessToken token) req of
                               Inl e \<Rightarrow> (Inl e, r(name \<mapsto> c1\<lparr>cn_breaker := RecordFailure (ce_now env) (cn_breaker c1)\<rparr>), Some req)
                             | Inr (resp, status) \<Rightarrow>
                                 (Inr (Proxied (if mr_Method req = ''tools/list'' then filterToolsListResponse resp (cc_Tools (cn_Config c)) else resp) status),
                                  r(name \<mapsto> c1\<lparr>cn_breaker := RecordSuccess (cn_breaker c1)\<rparr>), Some req)))))"

section \<open>What a request that was sent is\<close>

lemma json_string_Some: "json_string v = Some s \<longleftrightarrow> v = Some (JStr s) \<or> v = Some JNull \<and> s = []"
  by (auto simp: json_string_def split: option.splits json.splits)

lemma ParseMCPRequest_Some:
  assumes "ParseMCPRequest doc = Some req"
  obtains envelope where "mr_Body req = JObj envelope" "map_of envelope ''jsonrpc'' = Some (JStr ''2.0'')"
    "map_of envelope ''method'' = Some (JStr (mr_Method req))" "map_of envelope ''id'' = mr_ID req"
    "mr_Method req = ''tools/call'' \<Longrightarrow> \<exists>params. map_of envelope ''params'' = Some (JObj params)
       \<and> (mr_Tool req \<noteq> [] \<longrightarrow> map_of params ''name'' = Some (JStr (mr_Tool req))) \<and> map_of params ''arguments'' = mr_Arguments req"
proof -
  from assms obtain v envelope where v: "doc = Some v" "strictRPCObject v [''jsonrpc'', ''id'', ''method'', ''params''] = Some envelope"
    by (auto simp: ParseMCPRequest_def split: option.splits bind_splits)
  have js: "map_of envelope ''jsonrpc'' = Some (JStr ''2.0'')"
    using assms v by (auto simp: ParseMCPRequest_def json_string_Some split: if_splits)
  obtain m where m: "json_string (map_of envelope ''method'') = Some m" "m \<noteq> []"
    using assms v by (auto simp: ParseMCPRequest_def split: if_splits option.splits)
  then have mm: "map_of envelope ''method'' = Some (JStr m)" by (auto simp: json_string_Some)
  show thesis
  proof (cases "map_of envelope ''params''")
    case None
    then have "req = \<lparr>mr_ID = map_of envelope ''id'', mr_Method = m, mr_Tool = [], mr_Arguments = None, mr_Body = JObj envelope\<rparr>" "m \<noteq> ''tools/call''"
      using assms v js m by (auto simp: ParseMCPRequest_def json_string_Some split: if_splits)
    then show thesis using js mm by (intro that [of envelope]) simp_all
  next
    case (Some raw)
    then obtain params tool args where p: "params_of m params = Some (tool, args)"
      and req: "req = \<lparr>mr_ID = map_of envelope ''id'', mr_Method = m, mr_Tool = tool, mr_Arguments = args,
          mr_Body = JObj (AList.update ''params'' (JObj params) envelope)\<rparr>"
      using assms v js m by (auto simp: ParseMCPRequest_def split: if_splits option.splits)
    have "m = ''tools/call'' \<Longrightarrow> (tool \<noteq> [] \<longrightarrow> map_of params ''name'' = Some (JStr tool)) \<and> map_of params ''arguments'' = args"
      using p by (auto simp: params_of_def json_string_Some split: option.splits json.splits)
    then show thesis using js mm by (intro that [of "AList.update ''params'' (JObj params) envelope"]) (simp_all add: req update_conv')
  qed
qed

lemma isAllowed_iff:
  "isAllowed flt tool \<longleftrightarrow> (case flt of None \<Rightarrow> True | Some f \<Rightarrow> tool \<notin> set (tf_Deny f) \<and> (tf_Allow f = [] \<or> tool \<in> set (tf_Allow f)))"
  by (auto simp: isAllowed_def list_ex_iff split: option.splits)

lemma proxy_sent:
  assumes "ProxyMCPRequest env downstream name userCtx body r = (res, r', Some req)"
  obtains c mcp where "r name = Some c" "cc_MCP (cn_Config c) = Some mcp" "ParseMCPRequest body = Some req"
    "mr_Method req = ''tools/call'' \<Longrightarrow> mr_Tool req \<noteq> [] \<and> isAllowed (cc_Tools (cn_Config c)) (mr_Tool req)"
  using assms unfolding ProxyMCPRequest_def
  by (auto split: option.splits if_splits prod.splits sum.splits bool.splits)

section \<open>The breaker under proxied requests\<close>

text \<open>Connectors whose credential is not at hand: the next one has to be fetched under the breaker.\<close>

definition must_fetch :: "Connector \<Rightarrow> bool" where
  "must_fetch c \<longleftrightarrow> ac_Type (cc_Auth (cn_Config c)) = ''oauth2_token_exchange''
     \<or> ac_Type (cc_Auth (cn_Config c)) = ''oauth2_client_credentials'' \<and> cn_cachedToken c = None"

lemma materialize_type: "materializeAuthSecret env a = Inr a' \<Longrightarrow> ac_Type a' = ac_Type a"
  by (auto simp: materializeAuthSecret_def split: if_splits option.splits)

lemma half_open_fetch:
  assumes "must_fetch c" "cb_state (cn_breaker c) = stateHalfOpen"
  shows "\<exists>e. getToken env userCtx c = (Inl e, c)"
proof (cases "materializeAuthSecret env (cc_Auth (cn_Config c))")
  case (Inl e)
  then show ?thesis by (simp add: getToken_def)
next
  case (Inr cfg)
  have "guarded_fetch env ans c = (Inl (ErrCircuitOpen (cn_Name c)), c)" for ans
    using assms(2) by (simp add: guarded_fetch_def Allow_def)
  then show ?thesis
    using assms(1) materialize_type [OF Inr]
    by (auto simp: getToken_def Inr must_fetch_def getClientCredentialsToken_def Let_def split: option.splits json.splits)
qed

lemma RecordFailure_half_open: "cb_state cb = stateHalfOpen \<Longrightarrow> cb_state (RecordFailure now cb) = stateOpen"
  by (simp add: RecordFailure_def)

lemma proxy_while_open:
  assumes "r name = Some c" "must_fetch c" "cb_state (cn_breaker c) = stateOpen"
    and "ProxyMCPRequest env downstream name userCtx body r = (res, r', sent)"
  shows "sent = None \<and> (\<exists>c'. r' name = Some c' \<and> must_fetch c' \<and> cb_state (cn_breaker c') = stateOpen)"
proof (cases "Allow (ce_now env) (cn_breaker c)")
  case (Pair ok cb)
  show ?thesis
  proof (cases ok)
    case False
    then have "cb = cn_breaker c" using Pair assms(3) by (auto simp: Allow_def split: if_splits)
    then show ?thesis using assms Pair False
      by (auto simp: ProxyMCPRequest_def must_fetch_def split: option.splits if_splits)
  next
    case True
    then have half: "cb_state (cn_breaker (c\<lparr>cn_breaker := cb\<rparr>)) = stateHalfOpen" using Pair assms(3) by (auto simp: Allow_def split: if_splits)
    moreover have "must_fetch (c\<lparr>cn_breaker := cb\<rparr>)" using assms(2) by (simp add: must_fetch_def)
    ultimately obtain e where e: "getToken env userCtx (c\<lparr>cn_breaker := cb\<rparr>) = (Inl e, c\<lparr>cn_breaker := cb\<rparr>)"
      using half_open_fetch by blast
    show ?thesis using assms Pair True e half RecordFailure_half_open [of cb]
      by (auto simp: ProxyMCPRequest_def must_fetch_def split: option.splits if_splits)
  qed
qed

text \<open>The calls on a breaker, with their times, and the times of the trial calls that it lets through.\<close>

datatype breaker_op = OpAllow int | OpFailure int | OpSuccess int

fun op_time :: "breaker_op \<Rightarrow> int" where
  "op_time (OpAllow t) = t"
| "op_time (OpFailure t) = t"
| "op_time (OpSuccess t) = t"

fun trials :: "breaker_op list \<Rightarrow> CircuitBreaker \<Rightarrow> int list" where
  "trials [] cb = []"
| "trials (OpAllow t # ops) cb =
     (case Allow t cb of (ok, cb') \<Rightarrow> (if ok \<and> cb_state cb \<noteq> stateClosed then [t] else []) @ trials ops cb')"
| "trials (OpFailure t # ops) cb = trials ops (RecordFailure t cb)"
| "trials (OpSuccess t # ops) cb = trials ops (RecordSuccess cb)"

lemma cfg_kept [simp]:
  "cb_cfg (snd (Allow t cb)) = cb_cfg cb" "cb_cfg (RecordFailure t cb) = cb_cfg cb" "cb_cfg (RecordSuccess cb) = cb_cfg cb"
  by (simp_all add: Allow_def RecordFailure_def RecordSuccess_def Let_def split: breakerState.splits)

lemma trials_after:
  assumes "sorted (map op_time ops)" "\<forall>x\<in>set ops. L \<le> op_time x" "cb_state cb = stateOpen \<longrightarrow> L \<le> cb_openedAt cb"
  shows "\<forall>t\<in>set (trials ops cb). L + cooldown cb \<le> t"
  using assms
proof (induction ops cb rule: trials.induct)
  case (2 t ops cb)
  obtain ok cb' where a: "Allow t cb = (ok, cb')" by (cases "Allow t cb")
  have c: "cooldown cb' = cooldown cb" using cfg_kept(1) [of t cb] a by (simp add: cooldown_def)
  have "cb_state cb' = stateOpen \<longrightarrow> L \<le> cb_openedAt cb'"
    using a "2.prems"(3) by (auto simp: Allow_def split: breakerState.splits if_splits)
  then have "\<forall>t\<in>set (trials ops cb'). L + cooldown cb \<le> t" using "2.IH" [OF a [symmetric]] "2.prems" c by simp
  moreover have "L + cooldown cb \<le> t" if "ok" "cb_state cb \<noteq> stateClosed"
    using that a "2.prems"(3) by (auto simp: Allow_def split: breakerState.splits if_splits)
  ultimately show ?case by (auto simp: a)
next
  case (3 t ops cb)
  have "cb_state (RecordFailure t cb) = stateOpen \<longrightarrow> L \<le> cb_openedAt (RecordFailure t cb)"
    using "3.prems"(2,3) by (auto simp: RecordFailure_def Let_def split: if_splits)
  then show ?case using 3 by (simp add: cooldown_def)
next
  case (4 t ops cb)
  then show ?case by (simp add: cooldown_def RecordSuccess_def)
qed simp

text \<open>A sequence of proxied requests to one connector, with what was sent for each.\<close>

fun proxy_all ::
  "string \<Rightarrow> (ConnEnv \<times> downstream \<times> (string \<rightharpoonup> json) \<times> json option) list \<Rightarrow> Registry \<Rightarrow> MCPRequest option list \<times> Registry" where
  "proxy_all name [] r = ([], r)"
| "proxy_all name ((env, downstream, userCtx, body) # reqs) r =
     (case ProxyMCPRequest env downstream name userCtx body r of
        (_, r1, sent) \<Rightarrow> (case proxy_all name reqs r1 of (rest, r2) \<Rightarrow> (sent # rest, r2)))"

section \<open>Samples\<close>

definition sample_connector :: Connector where
  "sample_connector = \<lparr>cn_Name = ''crm'',
     cn_Config = \<lparr>cc_Auth = \<lparr>ac_Type = ''oauth2_token_exchange'', ac_Issuer = [], ac_TokenURL = ''https://idp/token'', ac_ClientID = [], ac_ClientSecret = [],
                     ac_Scopes = [], ac_APIKey = [], ac_BearerToken = [], ac_SecretRef = []\<rparr>,
                   cc_MCP = Some \<lparr>mc_URL = ''https://crm/mcp'', mc_Transport = []\<rparr>, cc_Tools = Some \<lparr>tf_Allow = [], tf_Deny = [''drop'']\<rparr>\<rparr>,
     cn_cachedToken = None, cn_breaker = NewCircuitBreaker None\<rparr>"

definition sample_rpc :: json where
  "sample_rpc = JObj [(''jsonrpc'', JStr ''2.0''), (''id'', JNum ''1''), (''method'', JStr ''tools/call''),
     (''params'', JObj [(''name'', JStr ''query''), (''arguments'', JObj [])])]"

definition sample_idp :: ConnEnv where
  "sample_idp = \<lparr>ce_now = 0, ce_ResolveSecretRef = (\<lambda>_. None),
     ce_post_form = (\<lambda>_ _. TokenReply 200 (Some \<lparr>tr_access_token = ''tok'', tr_refresh_token = [], tr_expires_in = 0, tr_instance_url = []\<rparr>))\<rparr>"

section \<open>Properties\<close>

text \<open>What the proxy sends is what it judged. When a request reaches a downstream server, it is the
  parsed request, whose members method, params, name and arguments are exactly those that the filter and
  the policy see; a tools/call names a tool that the connector's allow and deny lists admit. A refused
  tool leaves the registry unchanged.\<close>

theorem proxied_request_was_judged:
  assumes "ProxyMCPRequest env downstream name userCtx body r = (res, r', sent)"
  shows "(\<forall>req. sent = Some req \<longrightarrow> ParseMCPRequest body = Some req
      \<and> (\<exists>c. r name = Some c \<and> (mr_Method req = ''tools/call'' \<longrightarrow> mr_Tool req \<noteq> [] \<and>
            (case cc_Tools (cn_Config c) of None \<Rightarrow> True
             | Some f \<Rightarrow> mr_Tool req \<notin> set (tf_Deny f) \<and> (tf_Allow f = [] \<or> mr_Tool req \<in> set (tf_Allow f)))))
      \<and> (\<exists>envelope. mr_Body req = JObj envelope \<and> map_of envelope ''method'' = Some (JStr (mr_Method req))
          \<and> (mr_Method req = ''tools/call'' \<longrightarrow> (\<exists>params. map_of envelope ''params'' = Some (JObj params)
               \<and> map_of params ''name'' = Some (JStr (mr_Tool req)) \<and> map_of params ''arguments'' = mr_Arguments req))))
    \<and> (\<forall>i n t. res = Inr (ToolRefused i n t) \<longrightarrow> sent = None \<and> r' = r)"
proof (intro conjI allI impI)
  fix i n t
  assume "res = Inr (ToolRefused i n t)"
  then show "sent = None" "r' = r"
    using assms unfolding ProxyMCPRequest_def by (auto split: option.splits if_splits prod.splits sum.splits bool.splits)
next
  fix req
  assume "sent = Some req"
  with assms have p: "ProxyMCPRequest env downstream name userCtx body r = (res, r', Some req)" by simp
  from proxy_sent [OF p] obtain c mcp where c: "r name = Some c" "ParseMCPRequest body = Some req"
    "mr_Method req = ''tools/call'' \<Longrightarrow> mr_Tool req \<noteq> [] \<and> isAllowed (cc_Tools (cn_Config c)) (mr_Tool req)" by blast
  from ParseMCPRequest_Some [OF c(2)] obtain envelope where e: "mr_Body req = JObj envelope"
    "map_of envelope ''method'' = Some (JStr (mr_Method req))"
    "mr_Method req = ''tools/call'' \<Longrightarrow> \<exists>params. map_of envelope ''params'' = Some (JObj params)
       \<and> (mr_Tool req \<noteq> [] \<longrightarrow> map_of params ''name'' = Some (JStr (mr_Tool req))) \<and> map_of params ''arguments'' = mr_Arguments req" by blast
  show "ParseMCPRequest body = Some req" by (rule c(2))
  show "\<exists>c. r name = Some c \<and> (mr_Method req = ''tools/call'' \<longrightarrow> mr_Tool req \<noteq> [] \<and>
      (case cc_Tools (cn_Config c) of None \<Rightarrow> True
       | Some f \<Rightarrow> mr_Tool req \<notin> set (tf_Deny f) \<and> (tf_Allow f = [] \<or> mr_Tool req \<in> set (tf_Allow f))))"
    using c(1,3) unfolding isAllowed_iff by blast
  show "\<exists>envelope. mr_Body req = JObj envelope \<and> map_of envelope ''method'' = Some (JStr (mr_Method req))
      \<and> (mr_Method req = ''tools/call'' \<longrightarrow> (\<exists>params. map_of envelope ''params'' = Some (JObj params)
           \<and> map_of params ''name'' = Some (JStr (mr_Tool req)) \<and> map_of params ''arguments'' = mr_Arguments req))"
    using e c(3) by blast
qed

theorem proxied_request_was_judged_witness:
  "\<exists>res r' req. ProxyMCPRequest sample_idp (\<lambda>_ _ _. Inr (OtherBody [], 200)) ''crm'' [''sso_token'' \<mapsto> JStr ''s''] (Some sample_rpc)
      [''crm'' \<mapsto> sample_connector] = (res, r', Some req) \<and> ParseMCPRequest (Some sample_rpc) = Some req \<and> mr_Tool req = ''query''"
proof -
  have p: "ParseMCPRequest (Some sample_rpc) = Some \<lparr>mr_ID = Some (JNum ''1''), mr_Method = ''tools/call'', mr_Tool = ''query'',
      mr_Arguments = Some (JObj []), mr_Body = sample_rpc\<rparr>"
    by code_simp
  have "\<exists>res r' req. ProxyMCPRequest sample_idp (\<lambda>_ _ _. Inr (OtherBody [], 200)) ''crm'' [''sso_token'' \<mapsto> JStr ''s''] (Some sample_rpc)
      [''crm'' \<mapsto> sample_connector] = (res, r', Some req)"
    by (simp add: ProxyMCPRequest_def p sample_connector_def isAllowed_def Allow_def NewCircuitBreaker_def getToken_def
        materializeAuthSecret_def TrimSpace_Nil guarded_fetch_def oauth2TokenExchange_def token_of_reply_def sample_idp_def Let_def)
  then obtain res r' req where q: "ProxyMCPRequest sample_idp (\<lambda>_ _ _. Inr (OtherBody [], 200)) ''crm'' [''sso_token'' \<mapsto> JStr ''s''] (Some sample_rpc)
      [''crm'' \<mapsto> sample_connector] = (res, r', Some req)" by blast
  then show ?thesis using proxied_request_was_judged [OF q] p by auto
qed

text \<open>A listing through the proxy shows admitted tools only. If a connector has a filter and the answer
  to tools/list is a result with a tool array, every entry that the runner gets is an object whose name
  the filter admits, and every such entry of the downstream answer is kept, in order.\<close>

theorem listed_tools_are_admitted:
  assumes "ProxyMCPRequest env (\<lambda>_ _ _. Inr (JsonBody (JObj resp), status)) name userCtx body r = (Inr (Proxied out code), r', Some req)"
    and "r name = Some c" "cc_Tools (cn_Config c) = Some f" "mr_Method req = ''tools/list''"
    and "distinct (map fst resp)" "map_of resp ''result'' = Some (JObj result)" "distinct (map fst result)"
    and "map_of result ''tools'' = Some (JArr tools)"
  shows "\<exists>resp' result'. out = JsonBody (JObj resp') \<and> map_of resp' ''result'' = Some (JObj result')
    \<and> map_of result' ''tools'' = Some (JArr (filter (keeps_tool (Some f)) tools))
    \<and> (\<forall>k. k \<noteq> ''result'' \<longrightarrow> map_of resp' k = map_of resp k) \<and> (\<forall>k. k \<noteq> ''tools'' \<longrightarrow> map_of result' k = map_of result k)"
proof -
  have out: "out = filterToolsListResponse (JsonBody (JObj resp)) (Some f)"
    using assms(1-4) unfolding ProxyMCPRequest_def by (auto split: option.splits if_splits prod.splits sum.splits bool.splits)
  have last: "map_of (AList.clearjunk (rev kvs)) = map_of kvs" if "distinct (map fst kvs)" for kvs :: "(string \<times> json) list"
    using that map_of_inject_set [of "rev kvs" kvs] by (simp add: map_of_clearjunk rev_map [symmetric])
  show ?thesis
    unfolding out using assms(5-8)
    by (auto simp: filterToolsListResponse_def raw_map_def members_or_nil_def last update_conv')
qed

theorem listed_tools_are_admitted_witness:
  "\<exists>out code r' req. ProxyMCPRequest sample_idp (\<lambda>_ _ _. Inr (JsonBody (JObj [(''result'', JObj [(''tools'', JArr [JObj [(''name'', JStr ''drop'')], JObj [(''name'', JStr ''query'')]])])]), 200))
      ''crm'' [''sso_token'' \<mapsto> JStr ''s''] (Some (JObj [(''jsonrpc'', JStr ''2.0''), (''method'', JStr ''tools/list'')])) [''crm'' \<mapsto> sample_connector]
      = (Inr (Proxied out code), r', Some req)
    \<and> (\<exists>resp' result'. out = JsonBody (JObj resp') \<and> map_of resp' ''result'' = Some (JObj result') \<and> map_of result' ''tools'' = Some (JArr [JObj [(''name'', JStr ''query'')]]))"
proof -
  let ?tools = "[JObj [(''name'', JStr ''drop'')], JObj [(''name'', JStr ''query'')]]"
  let ?down = "(\<lambda>_ _ _. Inr (JsonBody (JObj [(''result'', JObj [(''tools'', JArr ?tools)])]), 200)) :: downstream"
  let ?doc = "Some (JObj [(''jsonrpc'', JStr ''2.0''), (''method'', JStr ''tools/list'')])"
  have p: "ParseMCPRequest ?doc = Some \<lparr>mr_ID = None, mr_Method = ''tools/list'', mr_Tool = [], mr_Arguments = None,
      mr_Body = JObj [(''jsonrpc'', JStr ''2.0''), (''method'', JStr ''tools/list'')]\<rparr>" by code_simp
  have "\<exists>out code r' req. ProxyMCPRequest sample_idp ?down ''crm'' [''sso_token'' \<mapsto> JStr ''s''] ?doc [''crm'' \<mapsto> sample_connector]
      = (Inr (Proxied out code), r', Some req) \<and> mr_Method req = ''tools/list''"
    by (simp add: ProxyMCPRequest_def p sample_connector_def Allow_def NewCircuitBreaker_def getToken_def
        materializeAuthSecret_def guarded_fetch_def oauth2TokenExchange_def token_of_reply_def sample_idp_def Let_def)
  then obtain out code r' req where q: "ProxyMCPRequest sample_idp ?down ''crm'' [''sso_token'' \<mapsto> JStr ''s''] ?doc [''crm'' \<mapsto> sample_connector]
      = (Inr (Proxied out code), r', Some req)" "mr_Method req = ''tools/list''" by blast
  have f: "filter (keeps_tool (Some \<lparr>tf_Allow = [], tf_Deny = [''drop'']\<rparr>)) ?tools = [JObj [(''name'', JStr ''query'')]]" by code_simp
  have "\<exists>resp' result'. out = JsonBody (JObj resp') \<and> map_of resp' ''result'' = Some (JObj result')
      \<and> map_of result' ''tools'' = Some (JArr (filter (keeps_tool (Some \<lparr>tf_Allow = [], tf_Deny = [''drop'']\<rparr>)) ?tools))
      \<and> (\<forall>k. k \<noteq> ''result'' \<longrightarrow> map_of resp' k = map_of [(''result'', JObj [(''tools'', JArr ?tools)])] k)
      \<and> (\<forall>k. k \<noteq> ''tools'' \<longrightarrow> map_of result' k = map_of [(''tools'', JArr ?tools)] k)"
    by (rule listed_tools_are_admitted [where c = sample_connector, OF q(1) _ _ q(2)]) (simp_all add: sample_connector_def)
  then obtain resp' result' where o: "out = JsonBody (JObj resp')" "map_of resp' ''result'' = Some (JObj result')"
    and t: "map_of result' ''tools'' = Some (JArr [JObj [(''name'', JStr ''query'')]])"
    unfolding f by (elim exE conjE)
  show ?thesis by (intro exI conjI) (rule q(1), rule o(1), rule o(2), rule t)
qed

text \<open>Trial calls are spaced by the cooldown. Whatever calls on the breaker follow each other, late reports
  of earlier calls included, as long as the clock does not go back: two calls that it lets through while
  it is not closed are at least the cooldown apart.\<close>

theorem trial_calls_are_spaced:
  assumes "sorted (map op_time ops)"
  shows "sorted_wrt (\<lambda>s t. s + cooldown cb \<le> t) (trials ops cb)"
  using assms
proof (induction ops cb rule: trials.induct)
  case (2 t ops cb)
  obtain ok cb' where a: "Allow t cb = (ok, cb')" by (cases "Allow t cb")
  have c: "cooldown cb' = cooldown cb" using cfg_kept(1) [of t cb] a by (simp add: cooldown_def)
  have rest: "sorted_wrt (\<lambda>s t. s + cooldown cb \<le> t) (trials ops cb')" using "2.IH" [OF a [symmetric]] "2.prems" c by simp
  show ?case
  proof (cases "ok \<and> cb_state cb \<noteq> stateClosed")
    case True
    then have "cb_state cb' = stateHalfOpen" using a by (auto simp: Allow_def split: breakerState.splits if_splits)
    then have "\<forall>u\<in>set (trials ops cb'). t + cooldown cb' \<le> u" using "2.prems" by (intro trials_after) auto
    then show ?thesis using rest True by (simp add: a c)
  next
    case False
    then show ?thesis using rest by (auto simp: a)
  qed
qed (simp_all add: cooldown_def)

theorem trial_calls_are_spaced_witness:
  "trials [OpFailure 0, OpAllow 30000000000, OpFailure 31000000000, OpAllow 61000000000] (NewCircuitBreaker (Some \<lparr>FailureThreshold = 1, CooldownSeconds = 30\<rparr>))
     = [30000000000, 61000000000]
   \<and> sorted_wrt (\<lambda>s t. s + cooldown (NewCircuitBreaker (Some \<lparr>FailureThreshold = 1, CooldownSeconds = 30\<rparr>)) \<le> t)
       (trials [OpFailure 0, OpAllow 30000000000, OpFailure 31000000000, OpAllow 61000000000] (NewCircuitBreaker (Some \<lparr>FailureThreshold = 1, CooldownSeconds = 30\<rparr>)))"
proof (rule conjI)
  show "trials [OpFailure 0, OpAllow 30000000000, OpFailure 31000000000, OpAllow 61000000000] (NewCircuitBreaker (Some \<lparr>FailureThreshold = 1, CooldownSeconds = 30\<rparr>))
     = [30000000000, 61000000000]"
    by (simp add: NewCircuitBreaker_def RecordFailure_def Allow_def cooldown_def DefaultCircuitBreakerConfig_def Let_def)
qed (rule trial_calls_are_spaced, simp)

text \<open>C36: A proxied request can never close an open breaker of a connector that fetches its credential by
  token exchange, or by client credentials with none cached. The proxy passes the breaker as the single
  trial call and then fetches the credential under the same breaker, which refuses a second call during
  a trial; the refusal is recorded as the failure of the trial. However many requests are proxied, at
  whatever times and whatever the servers would answer, nothing is sent and the breaker stays open.\<close>

theorem proxied_trial_refuses_itself:
  assumes "r name = Some c" "must_fetch c" "cb_state (cn_breaker c) = stateOpen" "proxy_all name reqs r = (sent, r')"
  shows "(\<forall>x\<in>set sent. x = None) \<and> (\<exists>c'. r' name = Some c' \<and> cb_state (cn_breaker c') = stateOpen)"
  using assms
proof (induction reqs arbitrary: r c sent)
  case (Cons q reqs)
  obtain env downstream userCtx body where q: "q = (env, downstream, userCtx, body)" by (cases q) auto
  obtain res r1 s1 where p: "ProxyMCPRequest env downstream name userCtx body r = (res, r1, s1)"
    by (cases "ProxyMCPRequest env downstream name userCtx body r") auto
  obtain s2 where rest: "proxy_all name reqs r1 = (s2, r')" "sent = s1 # s2"
    using Cons.prems(4) by (auto simp: q p split: prod.splits)
  obtain c' where "s1 = None" "r1 name = Some c'" "must_fetch c'" "cb_state (cn_breaker c') = stateOpen"
    using proxy_while_open [OF Cons.prems(1-3) p] by blast
  then show ?case using Cons.IH [OF _ _ _ rest(1)] rest(2) by simp
qed simp

theorem proxied_trial_refuses_itself_witness:
  "\<exists>sent r'. proxy_all ''crm'' [(sample_idp\<lparr>ce_now := 10 ^ 12\<rparr>, (\<lambda>_ _ _. Inr (OtherBody [], 200)), [''sso_token'' \<mapsto> JStr ''s''], Some sample_rpc)]
      [''crm'' \<mapsto> sample_connector\<lparr>cn_breaker := RecordFailure 0 (NewCircuitBreaker (Some \<lparr>FailureThreshold = 1, CooldownSeconds = 30\<rparr>))\<rparr>] = (sent, r')
    \<and> (\<forall>x\<in>set sent. x = None)"
proof -
  let ?c = "sample_connector\<lparr>cn_breaker := RecordFailure 0 (NewCircuitBreaker (Some \<lparr>FailureThreshold = 1, CooldownSeconds = 30\<rparr>))\<rparr>"
  let ?reqs = "[(sample_idp\<lparr>ce_now := 10 ^ 12\<rparr>, (\<lambda>_ _ _. Inr (OtherBody [], 200)), [''sso_token'' \<mapsto> JStr ''s''], Some sample_rpc)] ::
    (ConnEnv \<times> downstream \<times> (string \<rightharpoonup> json) \<times> json option) list"
  obtain sent r' where q: "proxy_all ''crm'' ?reqs [''crm'' \<mapsto> ?c] = (sent, r')" by (cases "proxy_all ''crm'' ?reqs [''crm'' \<mapsto> ?c]")
  have "must_fetch ?c" "cb_state (cn_breaker ?c) = stateOpen"
    by (simp_all add: must_fetch_def sample_connector_def RecordFailure_def NewCircuitBreaker_def Let_def)
  from proxied_trial_refuses_itself [OF _ this q] q show ?thesis by auto
qed

end
