(* ===== verification/Finops.thy ===== *)
theory Finops
  imports Connectors Admin_Tables Permissions
begin

text \<open>
  Model prices, budget caps and their live overlay: src/internal/finops (pricebook.go, budget.go,
  merge.go, validate.go), the stored overlay of src/internal/state/sqlite/finops_overlay.go and the
  Admin API of src/internal/api/admin_finops.go. A Go map is an association list with distinct keys, a
  nil map the empty one. Money is exact: a float64 is the rational number it is read from or computed
  as, rounding is left out, and there are no infinities, which neither JSON nor these computations
  give. How strconv prints a float64 and how package time reads and prints durations are arguments.
\<close>

section \<open>Prices (pricebook.go)\<close>

type_synonym float64 = rat

record ModelPrice =
  mp_InputPer1k :: float64
  mp_OutputPer1k :: float64

type_synonym Pricebook = "(string \<times> ModelPrice) list"

text \<open>strings.LastIndex of the separator, and the text after it.\<close>

definition after_last :: "char \<Rightarrow> string \<Rightarrow> string" where
  "after_last c s = rev (takeWhile (\<lambda>d. d \<noteq> c) (rev s))"

definition price_lookup :: "Pricebook \<Rightarrow> string \<Rightarrow> ModelPrice option" where
  "price_lookup p model =
     (if p = [] \<or> model = [] then None
      else case map_of p model of
        Some mp \<Rightarrow> Some mp
      | None \<Rightarrow> if CHR ''/'' \<in> set model \<and> after_last CHR ''/'' model \<noteq> [] then map_of p (after_last CHR ''/'' model) else None)"

definition EstimateUSD :: "Pricebook \<Rightarrow> string \<Rightarrow> int64 \<Rightarrow> int64 \<Rightarrow> float64 \<Rightarrow> float64" where
  "EstimateUSD p model tokensIn tokensOut costUSD =
     (if costUSD > 0 then costUSD
      else case price_lookup p model of
        None \<Rightarrow> 0
      | Some mp \<Rightarrow>
          (if tokensIn > 0 \<and> mp_InputPer1k mp \<noteq> 0 then of_int tokensIn / 1000 * mp_InputPer1k mp else 0)
          + (if tokensOut > 0 \<and> mp_OutputPer1k mp \<noteq> 0 then of_int tokensOut / 1000 * mp_OutputPer1k mp else 0))"

definition HasModel :: "Pricebook \<Rightarrow> string \<Rightarrow> bool" where
  "HasModel p model \<longleftrightarrow> price_lookup p model \<noteq> None"

section \<open>Budgets (budget.go)\<close>

record BudgetCap =
  bc_MaxUSDPerDay :: float64
  bc_MaxTokensPerDay :: int64
  bc_MaxRunsPerDay :: int64
  bc_Soft :: bool

record Budgets =
  bu_Tenants :: "(string \<times> BudgetCap) list"
  bu_Agents :: "(string \<times> BudgetCap) list"

record AlertsConfig =
  al_SoftPct :: float64

record ReservationAmount =
  ra_USDPerRun :: float64
  ra_TokensPerRun :: int64

record ReservationConfig =
  rc_USDPerRun :: float64
  rc_TokensPerRun :: int64
  rc_HoldTTL :: int
  rc_Agents :: "(string \<times> ReservationAmount) list"

record RoutingConfig =
  rt_Enabled :: bool
  rt_SoftPct :: float64
  rt_Aliases :: "(string \<times> string list) list"

record FinConfig =
  cf_Pricebook :: Pricebook
  cf_Budgets :: Budgets
  cf_Alerts :: AlertsConfig
  cf_Reservation :: ReservationConfig
  cf_Routing :: RoutingConfig
  cf_OnHardBreach :: string

definition OnHardBreachCancelInflight :: string where "OnHardBreachCancelInflight = ''cancel_inflight''"

definition SoftPct :: "FinConfig option \<Rightarrow> float64" where
  "SoftPct c = (case c of Some cfg \<Rightarrow> if al_SoftPct (cf_Alerts cfg) > 0 then al_SoftPct (cf_Alerts cfg) else 80 | None \<Rightarrow> 80)"

definition RoutingSoftPct :: "FinConfig option \<Rightarrow> float64" where
  "RoutingSoftPct c =
     (case c of Some cfg \<Rightarrow> if rt_SoftPct (cf_Routing cfg) > 0 then rt_SoftPct (cf_Routing cfg) else SoftPct c | None \<Rightarrow> SoftPct c)"

definition ReservationEnabled :: "FinConfig option \<Rightarrow> bool" where
  "ReservationEnabled c =
     (case c of
        None \<Rightarrow> False
      | Some cfg \<Rightarrow>
          if rc_USDPerRun (cf_Reservation cfg) > 0 \<or> rc_TokensPerRun (cf_Reservation cfg) > 0 then True
          else list_ex (\<lambda>kv. ra_USDPerRun (snd kv) > 0 \<or> ra_TokensPerRun (snd kv) > 0) (rc_Agents (cf_Reservation cfg)))"

definition agent_key :: "string \<Rightarrow> string \<Rightarrow> string" where
  "agent_key tenantID agentID = tenantID @ ''/'' @ agentID"

definition ReservationFor :: "FinConfig option \<Rightarrow> string \<Rightarrow> string \<Rightarrow> float64 \<times> int64" where
  "ReservationFor c tenantID agentID =
     (case c of
        None \<Rightarrow> (0, 0)
      | Some cfg \<Rightarrow>
          let r = cf_Reservation cfg; global = (rc_USDPerRun r, rc_TokensPerRun r) in
          if agentID = [] \<or> rc_Agents r = [] then global
          else case map_of (rc_Agents r) (agent_key tenantID agentID) of
            Some a \<Rightarrow> (ra_USDPerRun a, ra_TokensPerRun a)
          | None \<Rightarrow> global)"

definition CancelInflightOnHardBreach :: "FinConfig option \<Rightarrow> bool" where
  "CancelInflightOnHardBreach c = (case c of None \<Rightarrow> False | Some cfg \<Rightarrow> cf_OnHardBreach cfg = OnHardBreachCancelInflight)"

definition fin_Enabled :: "FinConfig option \<Rightarrow> bool" where
  "fin_Enabled c = (case c of None \<Rightarrow> False | Some cfg \<Rightarrow> bu_Tenants (cf_Budgets cfg) \<noteq> [] \<or> bu_Agents (cf_Budgets cfg) \<noteq> [])"

definition LookupCaps :: "FinConfig option \<Rightarrow> string \<Rightarrow> string \<Rightarrow> BudgetCap option \<times> BudgetCap option" where
  "LookupCaps c tenantID agentID =
     (case c of
        None \<Rightarrow> (None, None)
      | Some cfg \<Rightarrow>
          (if tenantID \<noteq> [] then map_of (bu_Tenants (cf_Budgets cfg)) tenantID else None,
           if tenantID \<noteq> [] \<and> agentID \<noteq> [] then map_of (bu_Agents (cf_Budgets cfg)) (agent_key tenantID agentID) else None))"

record UsageSnapshot =
  us_TokensIn :: int64
  us_TokensOut :: int64
  us_USD :: float64
  us_Runs :: int64

definition Tokens :: "UsageSnapshot \<Rightarrow> int64" where
  "Tokens u = i64 (us_TokensIn u + us_TokensOut u)"

record BudgetVerdict =
  bv_Allow :: bool
  bv_Soft :: bool
  bv_Hard :: bool
  bv_Reason :: string
  bv_Scope :: string
  bv_CapKind :: string

definition allow_verdict :: BudgetVerdict where
  "allow_verdict = \<lparr>bv_Allow = True, bv_Soft = False, bv_Hard = False, bv_Reason = [], bv_Scope = [], bv_CapKind = []\<rparr>"

text \<open>The three checks run in the order usd, tokens, runs; the first one over a hard cap returns, the
  first one over a soft cap is kept.\<close>

definition cap_over :: "BudgetCap \<Rightarrow> UsageSnapshot \<Rightarrow> (string \<times> bool) list" where
  "cap_over cap snap =
     [(''usd'', bc_MaxUSDPerDay cap > 0 \<and> us_USD snap \<ge> bc_MaxUSDPerDay cap),
      (''tokens'', bc_MaxTokensPerDay cap > 0 \<and> Tokens snap \<ge> bc_MaxTokensPerDay cap),
      (''runs'', bc_MaxRunsPerDay cap > 0 \<and> us_Runs snap \<ge> bc_MaxRunsPerDay cap)]"

definition EvaluateCap :: "BudgetCap option \<Rightarrow> UsageSnapshot \<Rightarrow> string \<Rightarrow> BudgetVerdict" where
  "EvaluateCap c snap scope =
     (case c of
        None \<Rightarrow> allow_verdict
      | Some cap \<Rightarrow>
          (case find snd (cap_over cap snap) of
             None \<Rightarrow> allow_verdict
           | Some (what, _) \<Rightarrow>
               \<lparr>bv_Allow = bc_Soft cap, bv_Soft = bc_Soft cap, bv_Hard = (\<not> bc_Soft cap),
                bv_Reason = scope @ '' '' @ what @ '' budget exceeded'', bv_Scope = scope, bv_CapKind = what\<rparr>))"

definition cap_near :: "BudgetCap \<Rightarrow> UsageSnapshot \<Rightarrow> float64 \<Rightarrow> (string \<times> bool) list" where
  "cap_near cap snap share =
     (let near = (\<lambda>used max. \<not> (max \<le> 0 \<or> used < max * share \<or> used \<ge> max)) in
      [(''usd'', near (us_USD snap) (bc_MaxUSDPerDay cap)),
       (''tokens'', near (of_int (Tokens snap)) (of_int (bc_MaxTokensPerDay cap))),
       (''runs'', near (of_int (us_Runs snap)) (of_int (bc_MaxRunsPerDay cap)))])"

definition ApproachCap :: "BudgetCap option \<Rightarrow> UsageSnapshot \<Rightarrow> string \<Rightarrow> float64 \<Rightarrow> BudgetVerdict option" where
  "ApproachCap c snap scope softPct =
     (case c of
        None \<Rightarrow> None
      | Some cap \<Rightarrow>
          if bc_Soft cap then None
          else
            let pct = (if softPct \<le> 0 then 80 else if softPct > 100 then 100 else softPct) in
            map_option (\<lambda>kn. \<lparr>bv_Allow = True, bv_Soft = True, bv_Hard = False, bv_Reason = scope @ '' '' @ fst kn @ '' budget approaching'',
                               bv_Scope = scope, bv_CapKind = fst kn\<rparr>)
              (find snd (cap_near cap snap (pct / 100))))"

section \<open>Merging an overlay (merge.go)\<close>

definition Merge :: "FinConfig option \<Rightarrow> FinConfig option \<Rightarrow> FinConfig option" where
  "Merge base overlay =
     (case overlay of
        None \<Rightarrow> base
      | Some ov \<Rightarrow>
          (case base of
             None \<Rightarrow> Some ov
           | Some b \<Rightarrow>
               let rb = cf_Reservation b; ro = cf_Reservation ov; tb = cf_Routing b; to = cf_Routing ov in
               Some (b\<lparr>cf_Pricebook := AList.merge (cf_Pricebook b) (cf_Pricebook ov),
                      cf_Budgets := \<lparr>bu_Tenants = AList.merge (bu_Tenants (cf_Budgets b)) (bu_Tenants (cf_Budgets ov)),
                                     bu_Agents = AList.merge (bu_Agents (cf_Budgets b)) (bu_Agents (cf_Budgets ov))\<rparr>,
                      cf_Alerts := (if al_SoftPct (cf_Alerts ov) > 0 then cf_Alerts ov else cf_Alerts b),
                      cf_Reservation :=
                        (if rc_USDPerRun ro > 0 \<or> rc_TokensPerRun ro > 0 \<or> rc_HoldTTL ro > 0 \<or> rc_Agents ro \<noteq> [] then
                           \<lparr>rc_USDPerRun = (if rc_USDPerRun ro > 0 then rc_USDPerRun ro else rc_USDPerRun rb),
                            rc_TokensPerRun = (if rc_TokensPerRun ro > 0 then rc_TokensPerRun ro else rc_TokensPerRun rb),
                            rc_HoldTTL = (if rc_HoldTTL ro > 0 then rc_HoldTTL ro else rc_HoldTTL rb),
                            rc_Agents = AList.merge (rc_Agents rb) (rc_Agents ro)\<rparr>
                         else rb),
                      cf_Routing :=
                        (if rt_Enabled to \<or> rt_SoftPct to > 0 \<or> rt_Aliases to \<noteq> [] then
                           \<lparr>rt_Enabled = (rt_Enabled tb \<or> rt_Enabled to),
                            rt_SoftPct = (if rt_SoftPct to > 0 then rt_SoftPct to else rt_SoftPct tb),
                            rt_Aliases = AList.merge (rt_Aliases tb) (rt_Aliases to)\<rparr>
                         else tb),
                      cf_OnHardBreach := (if cf_OnHardBreach ov \<noteq> [] then cf_OnHardBreach ov else cf_OnHardBreach b)\<rparr>)))"

section \<open>Validation (validate.go)\<close>

definition maxPer1kUSD :: float64 where "maxPer1kUSD = 100"
definition maxBudgetUSDDay :: float64 where "maxBudgetUSDDay = 1000000"
definition maxBudgetTokens :: int64 where "maxBudgetTokens = 1000000000"
definition maxBudgetRuns :: int64 where "maxBudgetRuns = 10000000"
definition maxHoldUSD :: float64 where "maxHoldUSD = 10000"
definition maxHoldTokens :: int64 where "maxHoldTokens = 10000000"

definition price_ok :: "string \<times> ModelPrice \<Rightarrow> bool" where
  "price_ok kv =
     (case kv of (model, p) \<Rightarrow>
        TrimSpace model \<noteq> [] \<and> \<not> mp_InputPer1k p < 0 \<and> \<not> mp_OutputPer1k p < 0
        \<and> \<not> (mp_InputPer1k p > maxPer1kUSD \<or> mp_OutputPer1k p > maxPer1kUSD)
        \<and> \<not> (mp_InputPer1k p > 0 \<and> mp_OutputPer1k p > 0 \<and> mp_InputPer1k p > mp_OutputPer1k p * 20))"

definition checkCap :: "BudgetCap \<Rightarrow> bool" where
  "checkCap c \<longleftrightarrow> \<not> bc_MaxUSDPerDay c < 0 \<and> \<not> bc_MaxUSDPerDay c > maxBudgetUSDDay
     \<and> \<not> (bc_MaxTokensPerDay c < 0 \<or> bc_MaxTokensPerDay c > maxBudgetTokens)
     \<and> \<not> (bc_MaxRunsPerDay c < 0 \<or> bc_MaxRunsPerDay c > maxBudgetRuns)"

definition tenant_cap_ok :: "string \<times> BudgetCap \<Rightarrow> bool" where
  "tenant_cap_ok kc \<longleftrightarrow> TrimSpace (fst kc) \<noteq> [] \<and> checkCap (snd kc)"

definition agent_cap_ok :: "string \<times> BudgetCap \<Rightarrow> bool" where
  "agent_cap_ok kc \<longleftrightarrow> TrimSpace (fst kc) \<noteq> [] \<and> Contains (fst kc) ''/'' \<and> checkCap (snd kc)"

definition hold_ok :: "string \<times> ReservationAmount \<Rightarrow> bool" where
  "hold_ok ka \<longleftrightarrow> TrimSpace (fst ka) \<noteq> [] \<and> Contains (fst ka) ''/''
     \<and> \<not> (ra_USDPerRun (snd ka) < 0 \<or> ra_USDPerRun (snd ka) > maxHoldUSD
          \<or> ra_TokensPerRun (snd ka) < 0 \<or> ra_TokensPerRun (snd ka) > maxHoldTokens)"

definition alias_ok :: "string \<times> string list \<Rightarrow> bool" where
  "alias_ok kt \<longleftrightarrow> TrimSpace (fst kt) \<noteq> [] \<and> snd kt \<noteq> [] \<and> list_all (\<lambda>t. TrimSpace t \<noteq> []) (snd kt)"

definition ValidateOverlay :: "FinConfig option \<Rightarrow> bool" where
  "ValidateOverlay c =
     (case c of
        None \<Rightarrow> False
      | Some cfg \<Rightarrow>
          list_all price_ok (cf_Pricebook cfg)
          \<and> list_all tenant_cap_ok (bu_Tenants (cf_Budgets cfg))
          \<and> list_all agent_cap_ok (bu_Agents (cf_Budgets cfg))
          \<and> \<not> (al_SoftPct (cf_Alerts cfg) < 0 \<or> al_SoftPct (cf_Alerts cfg) > 100)
          \<and> \<not> (rc_USDPerRun (cf_Reservation cfg) < 0 \<or> rc_USDPerRun (cf_Reservation cfg) > maxHoldUSD)
          \<and> \<not> (rc_TokensPerRun (cf_Reservation cfg) < 0 \<or> rc_TokensPerRun (cf_Reservation cfg) > maxHoldTokens)
          \<and> \<not> rc_HoldTTL (cf_Reservation cfg) < 0
          \<and> list_all hold_ok (rc_Agents (cf_Reservation cfg))
          \<and> \<not> (rt_SoftPct (cf_Routing cfg) < 0 \<or> rt_SoftPct (cf_Routing cfg) > 100)
          \<and> list_all alias_ok (rt_Aliases (cf_Routing cfg))
          \<and> (cf_OnHardBreach cfg = [] \<or> cf_OnHardBreach cfg = OnHardBreachCancelInflight))"

section \<open>The overlay as JSON (merge.go)\<close>

text \<open>json.Unmarshal into a struct goes through the members in order and looks the name up among the
  fields, without regard to case; a repeated member overwrites, null leaves the field alone, a value of
  the wrong kind makes the whole call fail. A field without a tag has its Go name.\<close>

fun fold_opt :: "('a \<Rightarrow> 's \<Rightarrow> 's option) \<Rightarrow> 'a list \<Rightarrow> 's \<Rightarrow> 's option" where
  "fold_opt f [] s = Some s"
| "fold_opt f (x # xs) s = (case f x s of None \<Rightarrow> None | Some s' \<Rightarrow> fold_opt f xs s')"

definition float_of :: "string \<Rightarrow> float64 option" where
  "float_of n = (if num_valid n \<and> \<bar>num_value n\<bar> < 2 ^ 1024 - 2 ^ 970 then Some (num_value n) else None)"

definition into_float :: "(float64 \<Rightarrow> 's \<Rightarrow> 's) \<Rightarrow> json \<Rightarrow> 's \<Rightarrow> 's option" where
  "into_float upd v s = (case v of JNum n \<Rightarrow> map_option (\<lambda>x. upd x s) (float_of n) | JNull \<Rightarrow> Some s | _ \<Rightarrow> None)"

definition into_int :: "(int64 \<Rightarrow> 's \<Rightarrow> 's) \<Rightarrow> json \<Rightarrow> 's \<Rightarrow> 's option" where
  "into_int upd v s = (case v of JNum n \<Rightarrow> map_option (\<lambda>x. upd x s) (Atoi n) | JNull \<Rightarrow> Some s | _ \<Rightarrow> None)"

definition into_bool :: "(bool \<Rightarrow> 's \<Rightarrow> 's) \<Rightarrow> json \<Rightarrow> 's \<Rightarrow> 's option" where
  "into_bool upd v s = (case v of JBool b \<Rightarrow> Some (upd b s) | JNull \<Rightarrow> Some s | _ \<Rightarrow> None)"

definition into_string :: "(string \<Rightarrow> 's \<Rightarrow> 's) \<Rightarrow> json \<Rightarrow> 's \<Rightarrow> 's option" where
  "into_string upd v s = (case v of JStr t \<Rightarrow> Some (upd t s) | JNull \<Rightarrow> Some s | _ \<Rightarrow> None)"

definition into_struct :: "(string \<times> (json \<Rightarrow> 's \<Rightarrow> 's option)) list \<Rightarrow> json \<Rightarrow> 's \<Rightarrow> 's option" where
  "into_struct flds v s =
     (case v of
        JObj kvs \<Rightarrow>
          fold_opt (\<lambda>kv s. case find (\<lambda>f. EqualFold (fst kv) (fst f)) flds of None \<Rightarrow> Some s | Some f \<Rightarrow> snd f (snd kv) s) kvs s
      | JNull \<Rightarrow> Some s
      | _ \<Rightarrow> None)"

text \<open>The elements of a map and of a slice start from the zero value.\<close>

definition into_map :: "(json \<Rightarrow> 'e \<Rightarrow> 'e option) \<Rightarrow> 'e \<Rightarrow> json \<Rightarrow> (string \<times> 'e) list \<Rightarrow> (string \<times> 'e) list option" where
  "into_map elem zero v m =
     (case v of
        JObj kvs \<Rightarrow> fold_opt (\<lambda>kv m. map_option (\<lambda>e. AList.update (fst kv) e m) (elem (snd kv) zero)) kvs m
      | JNull \<Rightarrow> Some []
      | _ \<Rightarrow> None)"

definition into_strings :: "json \<Rightarrow> string list \<Rightarrow> string list option" where
  "into_strings v old =
     (case v of
        JArr xs \<Rightarrow> those (map (\<lambda>x. into_string (\<lambda>t _. t) x []) xs)
      | JNull \<Rightarrow> Some []
      | _ \<Rightarrow> None)"

definition into_pointer :: "(json \<Rightarrow> 'e \<Rightarrow> 'e option) \<Rightarrow> 'e \<Rightarrow> json \<Rightarrow> 'e option \<Rightarrow> 'e option option" where
  "into_pointer elem zero v p =
     (case v of JNull \<Rightarrow> Some None | _ \<Rightarrow> map_option Some (elem v (case p of None \<Rightarrow> zero | Some e \<Rightarrow> e)))"

definition in_field :: "(json \<Rightarrow> 'f \<Rightarrow> 'f option) \<Rightarrow> ('s \<Rightarrow> 'f) \<Rightarrow> ('f \<Rightarrow> 's \<Rightarrow> 's) \<Rightarrow> json \<Rightarrow> 's \<Rightarrow> 's option" where
  "in_field into get put v s = map_option (\<lambda>f. put f s) (into v (get s))"

definition price_fields :: "(string \<times> (json \<Rightarrow> ModelPrice \<Rightarrow> ModelPrice option)) list" where
  "price_fields =
     [(''input_per_1k'', into_float (\<lambda>x. mp_InputPer1k_update (\<lambda>_. x))), (''output_per_1k'', into_float (\<lambda>x. mp_OutputPer1k_update (\<lambda>_. x)))]"

definition cap_fields :: "(string \<times> (json \<Rightarrow> BudgetCap \<Rightarrow> BudgetCap option)) list" where
  "cap_fields =
     [(''max_usd_per_day'', into_float (\<lambda>x. bc_MaxUSDPerDay_update (\<lambda>_. x))),
      (''max_tokens_per_day'', into_int (\<lambda>x. bc_MaxTokensPerDay_update (\<lambda>_. x))),
      (''max_runs_per_day'', into_int (\<lambda>x. bc_MaxRunsPerDay_update (\<lambda>_. x))),
      (''soft'', into_bool (\<lambda>x. bc_Soft_update (\<lambda>_. x)))]"

definition zero_price :: ModelPrice where "zero_price = \<lparr>mp_InputPer1k = 0, mp_OutputPer1k = 0\<rparr>"
definition zero_cap :: BudgetCap where "zero_cap = \<lparr>bc_MaxUSDPerDay = 0, bc_MaxTokensPerDay = 0, bc_MaxRunsPerDay = 0, bc_Soft = False\<rparr>"
definition zero_budgets :: Budgets where "zero_budgets = \<lparr>bu_Tenants = [], bu_Agents = []\<rparr>"
definition zero_alerts :: AlertsConfig where "zero_alerts = \<lparr>al_SoftPct = 0\<rparr>"
definition zero_amount :: ReservationAmount where "zero_amount = \<lparr>ra_USDPerRun = 0, ra_TokensPerRun = 0\<rparr>"
definition zero_routing :: RoutingConfig where "zero_routing = \<lparr>rt_Enabled = False, rt_SoftPct = 0, rt_Aliases = []\<rparr>"

definition budgets_fields :: "(string \<times> (json \<Rightarrow> Budgets \<Rightarrow> Budgets option)) list" where
  "budgets_fields =
     [(''tenants'', in_field (into_map (into_struct cap_fields) zero_cap) bu_Tenants (\<lambda>x. bu_Tenants_update (\<lambda>_. x))),
      (''agents'', in_field (into_map (into_struct cap_fields) zero_cap) bu_Agents (\<lambda>x. bu_Agents_update (\<lambda>_. x)))]"

definition alerts_fields :: "(string \<times> (json \<Rightarrow> AlertsConfig \<Rightarrow> AlertsConfig option)) list" where
  "alerts_fields = [(''softpct'', into_float (\<lambda>x. al_SoftPct_update (\<lambda>_. x)))]"

definition amount_fields :: "(string \<times> (json \<Rightarrow> ReservationAmount \<Rightarrow> ReservationAmount option)) list" where
  "amount_fields =
     [(''usdperrun'', into_float (\<lambda>x. ra_USDPerRun_update (\<lambda>_. x))), (''tokensperrun'', into_int (\<lambda>x. ra_TokensPerRun_update (\<lambda>_. x)))]"

definition routing_fields :: "(string \<times> (json \<Rightarrow> RoutingConfig \<Rightarrow> RoutingConfig option)) list" where
  "routing_fields =
     [(''enabled'', into_bool (\<lambda>x. rt_Enabled_update (\<lambda>_. x))), (''softpct'', into_float (\<lambda>x. rt_SoftPct_update (\<lambda>_. x))),
      (''aliases'', in_field (into_map into_strings []) rt_Aliases (\<lambda>x. rt_Aliases_update (\<lambda>_. x)))]"

record overlayReservation =
  or_USDPerRun :: float64
  or_TokensPerRun :: int64
  or_HoldTTL :: string
  or_Agents :: "(string \<times> ReservationAmount) list"

definition zero_overlayReservation :: overlayReservation where
  "zero_overlayReservation = \<lparr>or_USDPerRun = 0, or_TokensPerRun = 0, or_HoldTTL = [], or_Agents = []\<rparr>"

definition overlayReservation_fields :: "(string \<times> (json \<Rightarrow> overlayReservation \<Rightarrow> overlayReservation option)) list" where
  "overlayReservation_fields =
     [(''usd_per_run'', into_float (\<lambda>x. or_USDPerRun_update (\<lambda>_. x))), (''tokens_per_run'', into_int (\<lambda>x. or_TokensPerRun_update (\<lambda>_. x))),
      (''hold_ttl'', into_string (\<lambda>x. or_HoldTTL_update (\<lambda>_. x))),
      (''agents'', in_field (into_map (into_struct amount_fields) zero_amount) or_Agents (\<lambda>x. or_Agents_update (\<lambda>_. x)))]"

record overlayWire =
  ow_Pricebook :: Pricebook
  ow_Budgets :: "Budgets option"
  ow_Alerts :: "AlertsConfig option"
  ow_Reservation :: "overlayReservation option"
  ow_Routing :: "RoutingConfig option"
  ow_OnHardBreach :: string

definition zero_overlayWire :: overlayWire where
  "zero_overlayWire = \<lparr>ow_Pricebook = [], ow_Budgets = None, ow_Alerts = None, ow_Reservation = None, ow_Routing = None, ow_OnHardBreach = []\<rparr>"

definition overlayWire_fields :: "(string \<times> (json \<Rightarrow> overlayWire \<Rightarrow> overlayWire option)) list" where
  "overlayWire_fields =
     [(''pricebook'', in_field (into_map (into_struct price_fields) zero_price) ow_Pricebook (\<lambda>x. ow_Pricebook_update (\<lambda>_. x))),
      (''budgets'', in_field (into_pointer (into_struct budgets_fields) zero_budgets) ow_Budgets (\<lambda>x. ow_Budgets_update (\<lambda>_. x))),
      (''alerts'', in_field (into_pointer (into_struct alerts_fields) zero_alerts) ow_Alerts (\<lambda>x. ow_Alerts_update (\<lambda>_. x))),
      (''reservation'', in_field (into_pointer (into_struct overlayReservation_fields) zero_overlayReservation) ow_Reservation (\<lambda>x. ow_Reservation_update (\<lambda>_. x))),
      (''routing'', in_field (into_pointer (into_struct routing_fields) zero_routing) ow_Routing (\<lambda>x. ow_Routing_update (\<lambda>_. x))),
      (''on_hard_breach'', into_string (\<lambda>x. ow_OnHardBreach_update (\<lambda>_. x)))]"

text \<open>The standard library: strconv prints floats, time reads and prints durations (nanoseconds).\<close>

record StdText =
  sx_FormatFloat :: "float64 \<Rightarrow> string"
  sx_ParseDuration :: "string \<Rightarrow> int option"
  sx_DurationString :: "int \<Rightarrow> string"

definition hold_ttl_of :: "StdText \<Rightarrow> string \<Rightarrow> int option" where
  "hold_ttl_of sx ttl =
     (if ttl = [] \<or> ttl = ''0'' then Some 0
      else case sx_ParseDuration sx ttl of None \<Rightarrow> None | Some d \<Rightarrow> Some (if d > 0 then d else 0))"

text \<open>The payload is the parsed document, None if the text is not JSON; an empty text reads as null.\<close>

definition DecodeOverlayPayload :: "StdText \<Rightarrow> json option \<Rightarrow> FinConfig option" where
  "DecodeOverlayPayload sx raw =
     (case Option.bind raw (\<lambda>v. into_struct overlayWire_fields v zero_overlayWire) of
        None \<Rightarrow> None
      | Some w \<Rightarrow>
          let r = (case ow_Reservation w of None \<Rightarrow> zero_overlayReservation | Some r \<Rightarrow> r) in
          map_option (\<lambda>ttl.
            \<lparr>cf_Pricebook = ow_Pricebook w,
             cf_Budgets = (case ow_Budgets w of None \<Rightarrow> zero_budgets | Some b \<Rightarrow> b),
             cf_Alerts = (case ow_Alerts w of None \<Rightarrow> zero_alerts | Some a \<Rightarrow> a),
             cf_Reservation = \<lparr>rc_USDPerRun = or_USDPerRun r, rc_TokensPerRun = or_TokensPerRun r, rc_HoldTTL = ttl, rc_Agents = or_Agents r\<rparr>,
             cf_Routing = (case ow_Routing w of None \<Rightarrow> zero_routing | Some t \<Rightarrow> t),
             cf_OnHardBreach = ow_OnHardBreach w\<rparr>) (hold_ttl_of sx (or_HoldTTL r)))"

text \<open>json.Marshal prints a map with sorted keys and leaves out zero fields that are tagged omitempty.\<close>

definition num_member :: "StdText \<Rightarrow> string \<Rightarrow> float64 \<Rightarrow> (string \<times> json) list" where
  "num_member sx name x = (if x = 0 then [] else [(name, JNum (sx_FormatFloat sx x))])"

definition int_member :: "string \<Rightarrow> int64 \<Rightarrow> (string \<times> json) list" where
  "int_member name x = (if x = 0 then [] else [(name, JNum (Itoa x))])"

definition map_value :: "('e \<Rightarrow> json) \<Rightarrow> (string \<times> 'e) list \<Rightarrow> json" where
  "map_value f m = JObj (map (\<lambda>kv. (fst kv, f (snd kv))) (sort_key fst m))"

definition map_member :: "string \<Rightarrow> ('e \<Rightarrow> json) \<Rightarrow> (string \<times> 'e) list \<Rightarrow> (string \<times> json) list" where
  "map_member name f m = (if m = [] then [] else [(name, map_value f m)])"

definition price_value :: "StdText \<Rightarrow> ModelPrice \<Rightarrow> json" where
  "price_value sx p =
     JObj [(''input_per_1k'', JNum (sx_FormatFloat sx (mp_InputPer1k p))), (''output_per_1k'', JNum (sx_FormatFloat sx (mp_OutputPer1k p)))]"

definition cap_value :: "StdText \<Rightarrow> BudgetCap \<Rightarrow> json" where
  "cap_value sx c =
     JObj (num_member sx ''max_usd_per_day'' (bc_MaxUSDPerDay c) @ int_member ''max_tokens_per_day'' (bc_MaxTokensPerDay c)
       @ int_member ''max_runs_per_day'' (bc_MaxRunsPerDay c) @ (if bc_Soft c then [(''soft'', JBool True)] else []))"

definition amount_value :: "StdText \<Rightarrow> ReservationAmount \<Rightarrow> json" where
  "amount_value sx a = JObj [(''USDPerRun'', JNum (sx_FormatFloat sx (ra_USDPerRun a))), (''TokensPerRun'', JNum (Itoa (ra_TokensPerRun a)))]"

definition budgets_value :: "StdText \<Rightarrow> Budgets \<Rightarrow> json" where
  "budgets_value sx b = JObj (map_member ''tenants'' (cap_value sx) (bu_Tenants b) @ map_member ''agents'' (cap_value sx) (bu_Agents b))"

definition reservation_value :: "StdText \<Rightarrow> ReservationConfig \<Rightarrow> json" where
  "reservation_value sx r =
     JObj (num_member sx ''usd_per_run'' (rc_USDPerRun r) @ int_member ''tokens_per_run'' (rc_TokensPerRun r)
       @ (if rc_HoldTTL r > 0 \<and> sx_DurationString sx (rc_HoldTTL r) \<noteq> [] then [(''hold_ttl'', JStr (sx_DurationString sx (rc_HoldTTL r)))] else [])
       @ map_member ''agents'' (amount_value sx) (rc_Agents r))"

definition routing_value :: "StdText \<Rightarrow> RoutingConfig \<Rightarrow> json" where
  "routing_value sx t =
     JObj [(''Enabled'', JBool (rt_Enabled t)), (''SoftPct'', JNum (sx_FormatFloat sx (rt_SoftPct t))),
           (''Aliases'', if rt_Aliases t = [] then JNull else map_value (\<lambda>ts. if ts = [] then JNull else JArr (map JStr ts)) (rt_Aliases t))]"

definition EncodeOverlayPayload :: "StdText \<Rightarrow> FinConfig \<Rightarrow> json" where
  "EncodeOverlayPayload sx cfg =
     (let r = cf_Reservation cfg; t = cf_Routing cfg in
      JObj (map_member ''pricebook'' (price_value sx) (cf_Pricebook cfg)
        @ [(''budgets'', budgets_value sx (cf_Budgets cfg))]
        @ (if al_SoftPct (cf_Alerts cfg) > 0 then [(''alerts'', JObj [(''SoftPct'', JNum (sx_FormatFloat sx (al_SoftPct (cf_Alerts cfg))))])] else [])
        @ (if rc_USDPerRun r > 0 \<or> rc_TokensPerRun r > 0 \<or> rc_HoldTTL r > 0 \<or> rc_Agents r \<noteq> [] then [(''reservation'', reservation_value sx r)] else [])
        @ (if rt_Enabled t \<or> rt_SoftPct t > 0 \<or> rt_Aliases t \<noteq> [] then [(''routing'', routing_value sx t)] else [])
        @ (if cf_OnHardBreach cfg = [] then [] else [(''on_hard_breach'', JStr (cf_OnHardBreach cfg))])))"

section \<open>The stored overlay and its Admin API (finops_overlay.go, admin_finops.go)\<close>

definition FinOpsOverlayID :: string where "FinOpsOverlayID = ''default''"

record FinOpsOverlay =
  ov_Payload :: json
  ov_UpdatedAt :: instant
  ov_UpdatedBy :: string

record FinopsState =
  fo_baseline :: "FinConfig option"
  fo_effective :: "FinConfig option"
  fo_overlay :: "FinOpsOverlay option"
  fo_audit :: "AuditEvent list"

definition SetFinOps :: "FinConfig option \<Rightarrow> FinopsState \<Rightarrow> FinopsState" where
  "SetFinOps cfg s = s\<lparr>fo_baseline := cfg, fo_effective := cfg\<rparr>"

definition ReloadFinOpsOverlays :: "StdText \<Rightarrow> FinopsState \<Rightarrow> FinopsState" where
  "ReloadFinOpsOverlays sx s =
     (case fo_overlay s of
        None \<Rightarrow> s\<lparr>fo_effective := Merge (fo_baseline s) None\<rparr>
      | Some row \<Rightarrow>
          (case DecodeOverlayPayload sx (Some (ov_Payload row)) of
             None \<Rightarrow> s
           | Some overlay \<Rightarrow> s\<lparr>fo_effective := Merge (fo_baseline s) (Some overlay)\<rparr>))"

definition zero_audit :: AuditEvent where
  "zero_audit =
     \<lparr>a_ID = [], a_TenantID = [], a_Actor = [], a_Action = [], a_ResourceType = [], a_ResourceID = [], a_Decision = [],
      a_ReasonCode = [], a_RuleID = [], a_LatencyMs = 0, a_RunID = [], a_Generation = 0, a_AgentID = [], a_Connector = [],
      a_Tool = [], a_Attrs = []\<rparr>"

text \<open>A security event is written when its identifier is minted and the table takes it (Some).\<close>

definition writeSecurityAudit :: "string option \<Rightarrow> AuditEvent \<Rightarrow> AuditEvent list \<Rightarrow> AuditEvent list" where
  "writeSecurityAudit sfx ev audit =
     (case sfx of None \<Rightarrow> audit | Some x \<Rightarrow> audit @ [if a_ID ev = [] then ev\<lparr>a_ID := ''sec-'' @ x\<rparr> else ev])"

definition empty_config :: FinConfig where
  "empty_config =
     \<lparr>cf_Pricebook = [], cf_Budgets = zero_budgets, cf_Alerts = zero_alerts,
      cf_Reservation = \<lparr>rc_USDPerRun = 0, rc_TokensPerRun = 0, rc_HoldTTL = 0, rc_Agents = []\<rparr>, cf_Routing = zero_routing, cf_OnHardBreach = []\<rparr>"

record adminFinOpsView =
  fv_File :: FinConfig
  fv_Overlay :: FinConfig
  fv_Effective :: FinConfig
  fv_HasOverlay :: bool

definition handleAdminGetFinOps :: "StdText \<Rightarrow> FinopsState \<Rightarrow> adminFinOpsView replied" where
  "handleAdminGetFinOps sx s =
     (let file = (case fo_baseline s of None \<Rightarrow> empty_config | Some c \<Rightarrow> c);
          eff = (case fo_effective s of None \<Rightarrow> file | Some c \<Rightarrow> c) in
      case fo_overlay s of
        None \<Rightarrow> RepliedWith 200 \<lparr>fv_File = file, fv_Overlay = empty_config, fv_Effective = eff, fv_HasOverlay = False\<rparr>
      | Some row \<Rightarrow>
          (case DecodeOverlayPayload sx (Some (ov_Payload row)) of
             None \<Rightarrow> Replied 500
           | Some overlay \<Rightarrow> RepliedWith 200 \<lparr>fv_File = file, fv_Overlay = overlay, fv_Effective = eff, fv_HasOverlay = True\<rparr>))"

definition finops_audit :: "string \<Rightarrow> string \<Rightarrow> string \<Rightarrow> (string \<times> json) list \<Rightarrow> AuditEvent" where
  "finops_audit actor act reasonCode attrs =
     zero_audit\<lparr>a_TenantID := DefaultTenant, a_Actor := actor, a_Action := act, a_ResourceType := ''finops'', a_ResourceID := FinOpsOverlayID,
       a_Decision := EffectAllow, a_ReasonCode := reasonCode, a_Attrs := attrs\<rparr>"

definition handleAdminPutFinOps ::
  "StdText \<Rightarrow> instant \<Rightarrow> string option \<Rightarrow> AuthResult option \<Rightarrow> json option \<Rightarrow> FinopsState \<Rightarrow> adminFinOpsView replied \<times> FinopsState" where
  "handleAdminPutFinOps sx now sfx ar raw s =
     (case DecodeOverlayPayload sx raw of
        None \<Rightarrow> (Replied 400, s)
      | Some body \<Rightarrow>
          if \<not> ValidateOverlay (Some body) then (Replied 400, s)
          else
            let actor = identity_of ar;
                s1 = s\<lparr>fo_overlay := Some \<lparr>ov_Payload = EncodeOverlayPayload sx body, ov_UpdatedAt = now, ov_UpdatedBy = actor\<rparr>\<rparr>;
                s2 = ReloadFinOpsOverlays sx s1;
                s3 = s2\<lparr>fo_audit := writeSecurityAudit sfx (finops_audit actor ''finops.overlay.put'' ''finops_overlay_put''
                       [(''pricebook_models'', JNum (nat_digits (length (cf_Pricebook body)))),
                        (''budget_tenants'', JNum (nat_digits (length (bu_Tenants (cf_Budgets body))))),
                        (''budget_agents'', JNum (nat_digits (length (bu_Agents (cf_Budgets body)))))]) (fo_audit s2)\<rparr>
            in (handleAdminGetFinOps sx s3, s3))"

definition handleAdminDeleteFinOps :: "StdText \<Rightarrow> string option \<Rightarrow> AuthResult option \<Rightarrow> FinopsState \<Rightarrow> nat \<times> FinopsState" where
  "handleAdminDeleteFinOps sx sfx ar s =
     (let s1 = ReloadFinOpsOverlays sx (s\<lparr>fo_overlay := None\<rparr>) in
      (204, s1\<lparr>fo_audit := writeSecurityAudit sfx (finops_audit (identity_of ar) ''finops.overlay.delete'' ''finops_overlay_delete'' []) (fo_audit s1)\<rparr>))"

section \<open>Merging keeps configurations valid\<close>

lemma update_all: "list_all P al \<Longrightarrow> P (k, v) \<Longrightarrow> list_all P (AList.update k v al)"
  by (induction al) auto

lemma merge_all: "list_all P xs \<Longrightarrow> list_all P ys \<Longrightarrow> list_all P (AList.merge xs ys)"
  unfolding AList.merge_def by (induction ys) (auto intro: update_all)

lemma Merge_valid:
  assumes "ValidateOverlay (Some b)" "ValidateOverlay (Some ov)"
  shows "ValidateOverlay (Merge (Some b) (Some ov))"
  using assms unfolding ValidateOverlay_def Merge_def Let_def by (auto intro!: merge_all)

lemma Merge_map:
  "map_of (cf_Pricebook (the (Merge (Some b) (Some ov)))) = map_of (cf_Pricebook b) ++ map_of (cf_Pricebook ov)"
  "map_of (bu_Tenants (cf_Budgets (the (Merge (Some b) (Some ov))))) = map_of (bu_Tenants (cf_Budgets b)) ++ map_of (bu_Tenants (cf_Budgets ov))"
  "map_of (bu_Agents (cf_Budgets (the (Merge (Some b) (Some ov))))) = map_of (bu_Agents (cf_Budgets b)) ++ map_of (bu_Agents (cf_Budgets ov))"
  by (simp_all add: Merge_def Let_def merge_conv')

section \<open>Reading back what was printed\<close>

lemma fold_opt_append [simp]: "fold_opt f (xs @ ys) s = Option.bind (fold_opt f xs s) (fold_opt f ys)"
  by (induction xs arbitrary: s) (auto split: option.splits)

lemma update_fresh: "k \<notin> fst ` set al \<Longrightarrow> AList.update k v al = al @ [(k, v)]"
  by (induction al) auto

lemma fold_map_elems:
  assumes "distinct (map fst (acc @ m))" "\<forall>kv\<in>set m. elem (f (snd kv)) zero = Some (snd kv)"
  shows "fold_opt (\<lambda>kv m. map_option (\<lambda>e. AList.update (fst kv) e m) (elem (snd kv) zero)) (map (\<lambda>kv. (fst kv, f (snd kv))) m) acc = Some (acc @ m)"
  using assms
proof (induction m arbitrary: acc)
  case (Cons kv m)
  have "fst kv \<notin> fst ` set acc" using Cons.prems(1) by auto
  then show ?case using Cons.IH [of "acc @ [kv]"] Cons.prems by (simp add: update_fresh)
qed simp

lemma into_map_value:
  assumes "distinct (map fst m)" "\<forall>kv\<in>set m. elem (f (snd kv)) zero = Some (snd kv)"
  shows "into_map elem zero (map_value f m) [] = Some (sort_key fst m)"
proof -
  have "distinct (map fst (sort_key fst m))" using assms(1) by (simp add: distinct_map)
  then show ?thesis using fold_map_elems [of "[]" "sort_key fst m" elem f zero] assms(2)
    by (simp add: into_map_def map_value_def)
qed

definition float_printed :: "StdText \<Rightarrow> float64 \<Rightarrow> bool" where
  "float_printed sx x \<longleftrightarrow> float_of (sx_FormatFloat sx x) = Some x"

declare fold_name.simps [simp del]

lemma fold_names [simp]:
  "fold_name ''input_per_1k'' = ''input_per_1k''" "fold_name ''output_per_1k'' = ''output_per_1k''"
  "fold_name ''max_usd_per_day'' = ''max_usd_per_day''" "fold_name ''max_tokens_per_day'' = ''max_tokens_per_day''"
  "fold_name ''max_runs_per_day'' = ''max_runs_per_day''" "fold_name ''soft'' = ''soft''"
  "fold_name ''USDPerRun'' = ''usdperrun''" "fold_name ''TokensPerRun'' = ''tokensperrun''"
  "fold_name ''tenants'' = ''tenants''" "fold_name ''agents'' = ''agents''"
  "fold_name ''usd_per_run'' = ''usd_per_run''" "fold_name ''tokens_per_run'' = ''tokens_per_run''" "fold_name ''hold_ttl'' = ''hold_ttl''"
  "fold_name ''Enabled'' = ''enabled''" "fold_name ''SoftPct'' = ''softpct''" "fold_name ''Aliases'' = ''aliases''"
  "fold_name ''pricebook'' = ''pricebook''" "fold_name ''budgets'' = ''budgets''" "fold_name ''alerts'' = ''alerts''"
  "fold_name ''reservation'' = ''reservation''" "fold_name ''routing'' = ''routing''" "fold_name ''on_hard_breach'' = ''on_hard_breach''"
  by code_simp+

lemmas into_defs = into_struct_def into_float_def into_int_def into_bool_def into_string_def EqualFold_def

lemma price_reads: "float_printed sx (mp_InputPer1k p) \<Longrightarrow> float_printed sx (mp_OutputPer1k p) \<Longrightarrow>
  into_struct price_fields (price_value sx p) zero_price = Some p"
  by (simp add: into_defs price_fields_def price_value_def zero_price_def float_printed_def)

lemma cap_reads: "float_printed sx (bc_MaxUSDPerDay c) \<Longrightarrow> is_int64 (bc_MaxTokensPerDay c) \<Longrightarrow> is_int64 (bc_MaxRunsPerDay c) \<Longrightarrow>
  into_struct cap_fields (cap_value sx c) zero_cap = Some c"
  by (simp add: into_defs cap_fields_def cap_value_def zero_cap_def float_printed_def num_member_def int_member_def Atoi_Itoa)

lemma amount_reads: "float_printed sx (ra_USDPerRun a) \<Longrightarrow> is_int64 (ra_TokensPerRun a) \<Longrightarrow>
  into_struct amount_fields (amount_value sx a) zero_amount = Some a"
  by (simp add: into_defs amount_fields_def amount_value_def zero_amount_def float_printed_def Atoi_Itoa)

definition caps_printable :: "StdText \<Rightarrow> (string \<times> BudgetCap) list \<Rightarrow> bool" where
  "caps_printable sx m \<longleftrightarrow> distinct (map fst m)
     \<and> (\<forall>kc\<in>set m. float_printed sx (bc_MaxUSDPerDay (snd kc)) \<and> is_int64 (bc_MaxTokensPerDay (snd kc)) \<and> is_int64 (bc_MaxRunsPerDay (snd kc)))"

text \<open>A configuration whose maps have distinct keys, whose integers are 64 bits wide and whose amounts and
  hold time are read back from their text.\<close>

definition printable :: "StdText \<Rightarrow> FinConfig \<Rightarrow> bool" where
  "printable sx cfg \<longleftrightarrow>
     distinct (map fst (cf_Pricebook cfg))
     \<and> (\<forall>kp\<in>set (cf_Pricebook cfg). float_printed sx (mp_InputPer1k (snd kp)) \<and> float_printed sx (mp_OutputPer1k (snd kp)))
     \<and> caps_printable sx (bu_Tenants (cf_Budgets cfg)) \<and> caps_printable sx (bu_Agents (cf_Budgets cfg))
     \<and> float_printed sx (al_SoftPct (cf_Alerts cfg))
     \<and> float_printed sx (rc_USDPerRun (cf_Reservation cfg)) \<and> is_int64 (rc_TokensPerRun (cf_Reservation cfg))
     \<and> (rc_HoldTTL (cf_Reservation cfg) > 0 \<longrightarrow>
          sx_DurationString sx (rc_HoldTTL (cf_Reservation cfg)) \<notin> {[], ''0''}
          \<and> sx_ParseDuration sx (sx_DurationString sx (rc_HoldTTL (cf_Reservation cfg))) = Some (rc_HoldTTL (cf_Reservation cfg)))
     \<and> distinct (map fst (rc_Agents (cf_Reservation cfg)))
     \<and> (\<forall>ka\<in>set (rc_Agents (cf_Reservation cfg)). float_printed sx (ra_USDPerRun (snd ka)) \<and> is_int64 (ra_TokensPerRun (snd ka)))
     \<and> float_printed sx (rt_SoftPct (cf_Routing cfg)) \<and> distinct (map fst (rt_Aliases (cf_Routing cfg)))"

definition sorted_config :: "FinConfig \<Rightarrow> FinConfig" where
  "sorted_config cfg =
     cfg\<lparr>cf_Pricebook := sort_key fst (cf_Pricebook cfg),
         cf_Budgets := \<lparr>bu_Tenants = sort_key fst (bu_Tenants (cf_Budgets cfg)), bu_Agents = sort_key fst (bu_Agents (cf_Budgets cfg))\<rparr>,
         cf_Reservation := (cf_Reservation cfg)\<lparr>rc_Agents := sort_key fst (rc_Agents (cf_Reservation cfg))\<rparr>,
         cf_Routing := (cf_Routing cfg)\<lparr>rt_Aliases := sort_key fst (rt_Aliases (cf_Routing cfg))\<rparr>\<rparr>"

lemma map_of_sorted: "distinct (map fst xs) \<Longrightarrow> map_of (sort_key fst xs) = map_of (xs :: (string \<times> 'v) list)"
  by (intro map_of_inject_set [THEN iffD2]) (auto simp: distinct_map)

lemma sorted_Nil: "sort_key fst xs = [] \<longleftrightarrow> xs = ([] :: (string \<times> 'v) list)"
  by (metis length_0_conv length_sort)

lemma sorted_config_lookup:
  assumes "printable sx cfg"
  shows "LookupCaps (Some (sorted_config cfg)) t a = LookupCaps (Some cfg) t a"
    "ReservationFor (Some (sorted_config cfg)) t a = ReservationFor (Some cfg) t a"
    "price_lookup (cf_Pricebook (sorted_config cfg)) m = price_lookup (cf_Pricebook cfg) m"
proof -
  have d: "distinct (map fst (cf_Pricebook cfg))" "distinct (map fst (bu_Tenants (cf_Budgets cfg)))" "distinct (map fst (bu_Agents (cf_Budgets cfg)))"
    "distinct (map fst (rc_Agents (cf_Reservation cfg)))"
    using assms by (simp_all add: printable_def caps_printable_def)
  show "LookupCaps (Some (sorted_config cfg)) t a = LookupCaps (Some cfg) t a"
    by (simp add: sorted_config_def LookupCaps_def map_of_sorted d)
  show "ReservationFor (Some (sorted_config cfg)) t a = ReservationFor (Some cfg) t a"
    by (simp add: sorted_config_def ReservationFor_def map_of_sorted d sorted_Nil Let_def split: option.split)
  show "price_lookup (cf_Pricebook (sorted_config cfg)) m = price_lookup (cf_Pricebook cfg) m"
    by (auto simp: sorted_config_def price_lookup_def map_of_sorted d sorted_Nil split: option.split)
qed

lemma sorted_config_valid: "ValidateOverlay (Some (sorted_config cfg)) = ValidateOverlay (Some cfg)"
  by (simp add: ValidateOverlay_def sorted_config_def list_all_iff)

lemma budgets_reads:
  assumes "caps_printable sx (bu_Tenants b)" "caps_printable sx (bu_Agents b)"
  shows "into_struct budgets_fields (budgets_value sx b) zero_budgets
    = Some \<lparr>bu_Tenants = sort_key fst (bu_Tenants b), bu_Agents = sort_key fst (bu_Agents b)\<rparr>"
proof -
  have "into_map (into_struct cap_fields) zero_cap (map_value (cap_value sx) m) [] = Some (sort_key fst m)" if "caps_printable sx m" for m
    using that unfolding caps_printable_def by (intro into_map_value) (auto intro: cap_reads)
  then show ?thesis
    using assms by (simp add: into_struct_def budgets_fields_def budgets_value_def zero_budgets_def map_member_def EqualFold_def in_field_def)
qed

lemma reservation_reads:
  assumes "printable sx cfg" "rc_HoldTTL (cf_Reservation cfg) \<ge> 0"
  shows "\<exists>w. into_struct overlayReservation_fields (reservation_value sx (cf_Reservation cfg)) zero_overlayReservation = Some w
    \<and> or_USDPerRun w = rc_USDPerRun (cf_Reservation cfg) \<and> or_TokensPerRun w = rc_TokensPerRun (cf_Reservation cfg)
    \<and> hold_ttl_of sx (or_HoldTTL w) = Some (rc_HoldTTL (cf_Reservation cfg)) \<and> or_Agents w = sort_key fst (rc_Agents (cf_Reservation cfg))"
proof -
  let ?r = "cf_Reservation cfg"
  have "into_map (into_struct amount_fields) zero_amount (map_value (amount_value sx) (rc_Agents ?r)) [] = Some (sort_key fst (rc_Agents ?r))"
    using assms(1) unfolding printable_def by (intro into_map_value) (auto intro: amount_reads)
  then show ?thesis
    using assms
    by (auto simp: into_defs printable_def overlayReservation_fields_def reservation_value_def zero_overlayReservation_def num_member_def int_member_def
        map_member_def float_printed_def Atoi_Itoa hold_ttl_of_def in_field_def)
qed

lemma routing_reads:
  assumes "float_printed sx (rt_SoftPct t)" "distinct (map fst (rt_Aliases t))"
  shows "into_struct routing_fields (routing_value sx t) zero_routing = Some (t\<lparr>rt_Aliases := sort_key fst (rt_Aliases t)\<rparr>)"
proof -
  have strings: "those (map (\<lambda>x. into_string (\<lambda>t _. t) x []) (map JStr ts)) = Some ts" for ts
    by (induction ts) (simp_all add: into_string_def)
  have "into_map into_strings [] (map_value (\<lambda>ts. if ts = [] then JNull else JArr (map JStr ts)) (rt_Aliases t)) [] = Some (sort_key fst (rt_Aliases t))"
    using assms(2) by (intro into_map_value) (auto simp: into_strings_def strings simp del: map_map)
  moreover have "into_map into_strings [] JNull [] = Some []" by (simp add: into_map_def)
  ultimately show ?thesis
    using assms(1) by (simp add: into_defs routing_fields_def routing_value_def zero_routing_def float_printed_def in_field_def)
qed

lemma pricebook_reads:
  assumes "printable sx cfg"
  shows "into_map (into_struct price_fields) zero_price (map_value (price_value sx) (cf_Pricebook cfg)) [] = Some (sort_key fst (cf_Pricebook cfg))"
  using assms unfolding printable_def by (intro into_map_value) (auto intro: price_reads)

lemma alerts_reads:
  "float_printed sx (al_SoftPct a) \<Longrightarrow> into_struct alerts_fields (JObj [(''SoftPct'', JNum (sx_FormatFloat sx (al_SoftPct a)))]) zero_alerts = Some a"
  by (simp add: into_defs alerts_fields_def zero_alerts_def float_printed_def)

lemma into_pointer_obj: "elem (JObj kvs) zero = Some e \<Longrightarrow> into_pointer elem zero (JObj kvs) None = Some (Some e)"
  by (simp add: into_pointer_def)

lemma value_obj:
  "\<exists>kvs. budgets_value sx b = JObj kvs" "\<exists>kvs. reservation_value sx r = JObj kvs" "\<exists>kvs. routing_value sx t = JObj kvs"
  by (simp_all add: budgets_value_def reservation_value_def routing_value_def)

definition wire_step :: "string \<times> json \<Rightarrow> overlayWire \<Rightarrow> overlayWire option" where
  "wire_step kv s = (case find (\<lambda>f. EqualFold (fst kv) (fst f)) overlayWire_fields of None \<Rightarrow> Some s | Some f \<Rightarrow> snd f (snd kv) s)"

lemma into_wire: "into_struct overlayWire_fields (JObj kvs) s = fold_opt wire_step kvs s"
  by (simp add: into_struct_def wire_step_def [abs_def])

lemma wire_step_simps:
  "wire_step (''pricebook'', v) s = in_field (into_map (into_struct price_fields) zero_price) ow_Pricebook (\<lambda>x. ow_Pricebook_update (\<lambda>_. x)) v s"
  "wire_step (''budgets'', v) s = in_field (into_pointer (into_struct budgets_fields) zero_budgets) ow_Budgets (\<lambda>x. ow_Budgets_update (\<lambda>_. x)) v s"
  "wire_step (''alerts'', v) s = in_field (into_pointer (into_struct alerts_fields) zero_alerts) ow_Alerts (\<lambda>x. ow_Alerts_update (\<lambda>_. x)) v s"
  "wire_step (''reservation'', v) s =
     in_field (into_pointer (into_struct overlayReservation_fields) zero_overlayReservation) ow_Reservation (\<lambda>x. ow_Reservation_update (\<lambda>_. x)) v s"
  "wire_step (''routing'', v) s = in_field (into_pointer (into_struct routing_fields) zero_routing) ow_Routing (\<lambda>x. ow_Routing_update (\<lambda>_. x)) v s"
  "wire_step (''on_hard_breach'', v) s = into_string (\<lambda>x. ow_OnHardBreach_update (\<lambda>_. x)) v s"
  by (simp_all add: wire_step_def overlayWire_fields_def EqualFold_def)

lemma overlay_reads:
  assumes "printable sx cfg" "ValidateOverlay (Some cfg)"
  shows "DecodeOverlayPayload sx (Some (EncodeOverlayPayload sx cfg)) = Some (sorted_config cfg)"
proof -
  let ?r = "cf_Reservation cfg" and ?t = "cf_Routing cfg" and ?b = "cf_Budgets cfg"
  have b: "into_pointer (into_struct budgets_fields) zero_budgets (budgets_value sx ?b) None
      = Some (Some \<lparr>bu_Tenants = sort_key fst (bu_Tenants ?b), bu_Agents = sort_key fst (bu_Agents ?b)\<rparr>)"
    using budgets_reads [of sx ?b] assms(1) value_obj(1) [of sx ?b] by (auto simp: printable_def intro: into_pointer_obj)
  have ttl: "rc_HoldTTL ?r \<ge> 0" using assms(2) by (simp add: ValidateOverlay_def)
  obtain w where w: "into_pointer (into_struct overlayReservation_fields) zero_overlayReservation (reservation_value sx ?r) None = Some (Some w)"
    "or_USDPerRun w = rc_USDPerRun ?r" "or_TokensPerRun w = rc_TokensPerRun ?r" "hold_ttl_of sx (or_HoldTTL w) = Some (rc_HoldTTL ?r)"
    "or_Agents w = sort_key fst (rc_Agents ?r)"
    using reservation_reads [OF assms(1) ttl] value_obj(2) [of sx ?r] by (metis into_pointer_obj)
  have t: "into_pointer (into_struct routing_fields) zero_routing (routing_value sx ?t) None = Some (Some (?t\<lparr>rt_Aliases := sort_key fst (rt_Aliases ?t)\<rparr>))"
    using routing_reads [of sx ?t] assms(1) value_obj(3) [of sx ?t] by (auto simp: printable_def intro: into_pointer_obj)
  have a: "into_pointer (into_struct alerts_fields) zero_alerts (JObj [(''SoftPct'', JNum (sx_FormatFloat sx (al_SoftPct (cf_Alerts cfg))))]) None = Some (Some (cf_Alerts cfg))"
    using alerts_reads [of sx "cf_Alerts cfg"] assms(1) by (auto simp: printable_def intro: into_pointer_obj)
  have zero: "\<not> al_SoftPct (cf_Alerts cfg) > 0 \<Longrightarrow> cf_Alerts cfg = zero_alerts"
    "\<not> (rc_USDPerRun ?r > 0 \<or> rc_TokensPerRun ?r > 0 \<or> rc_HoldTTL ?r > 0 \<or> rc_Agents ?r \<noteq> []) \<Longrightarrow>
      ?r = \<lparr>rc_USDPerRun = 0, rc_TokensPerRun = 0, rc_HoldTTL = 0, rc_Agents = []\<rparr>"
    "\<not> (rt_Enabled ?t \<or> rt_SoftPct ?t > 0 \<or> rt_Aliases ?t \<noteq> []) \<Longrightarrow> ?t = zero_routing"
    using assms(2) by (auto simp: ValidateOverlay_def zero_alerts_def zero_routing_def)
  have seg: "fold_opt wire_step (map_member ''pricebook'' (price_value sx) (cf_Pricebook cfg)) zero_overlayWire
      = Some (zero_overlayWire\<lparr>ow_Pricebook := sort_key fst (cf_Pricebook cfg)\<rparr>)"
    using pricebook_reads [OF assms(1)] by (simp add: map_member_def wire_step_simps in_field_def zero_overlayWire_def)
  have "into_struct overlayWire_fields (EncodeOverlayPayload sx cfg) zero_overlayWire
      = Some \<lparr>ow_Pricebook = sort_key fst (cf_Pricebook cfg), ow_Budgets = Some \<lparr>bu_Tenants = sort_key fst (bu_Tenants ?b), bu_Agents = sort_key fst (bu_Agents ?b)\<rparr>,
              ow_Alerts = (if al_SoftPct (cf_Alerts cfg) > 0 then Some (cf_Alerts cfg) else None),
              ow_Reservation = (if rc_USDPerRun ?r > 0 \<or> rc_TokensPerRun ?r > 0 \<or> rc_HoldTTL ?r > 0 \<or> rc_Agents ?r \<noteq> [] then Some w else None),
              ow_Routing = (if rt_Enabled ?t \<or> rt_SoftPct ?t > 0 \<or> rt_Aliases ?t \<noteq> [] then Some (?t\<lparr>rt_Aliases := sort_key fst (rt_Aliases ?t)\<rparr>) else None),
              ow_OnHardBreach = cf_OnHardBreach cfg\<rparr>"
    unfolding EncodeOverlayPayload_def Let_def into_wire fold_opt_append seg
    by (simp add: wire_step_simps in_field_def zero_overlayWire_def b w(1) t a into_string_def cong: if_cong)
  moreover
  let ?w = "case (if rc_USDPerRun ?r > 0 \<or> rc_TokensPerRun ?r > 0 \<or> rc_HoldTTL ?r > 0 \<or> rc_Agents ?r \<noteq> [] then Some w else None) of
      None \<Rightarrow> zero_overlayReservation | Some r \<Rightarrow> r"
  have "or_USDPerRun ?w = rc_USDPerRun ?r" "or_TokensPerRun ?w = rc_TokensPerRun ?r" "hold_ttl_of sx (or_HoldTTL ?w) = Some (rc_HoldTTL ?r)"
    "or_Agents ?w = sort_key fst (rc_Agents ?r)"
    using w(2-5) zero(2) by (auto simp: zero_overlayReservation_def hold_ttl_of_def)
  moreover have "(case (if al_SoftPct (cf_Alerts cfg) > 0 then Some (cf_Alerts cfg) else None) of None \<Rightarrow> zero_alerts | Some a \<Rightarrow> a) = cf_Alerts cfg"
    using zero(1) by auto
  moreover have "(case (if rt_Enabled ?t \<or> rt_SoftPct ?t > 0 \<or> rt_Aliases ?t \<noteq> [] then Some (?t\<lparr>rt_Aliases := sort_key fst (rt_Aliases ?t)\<rparr>) else None) of
      None \<Rightarrow> zero_routing | Some t \<Rightarrow> t) = ?t\<lparr>rt_Aliases := sort_key fst (rt_Aliases ?t)\<rparr>"
    using zero(3) by (auto simp: zero_routing_def)
  ultimately show ?thesis
    by (simp add: DecodeOverlayPayload_def Let_def sorted_config_def del: not_less if_split cong: option.case_cong)
qed

section \<open>Histories of the overlay\<close>

datatype finops_op =
    PutOverlay instant "string option" "AuthResult option" "json option"
  | DeleteOverlay "string option" "AuthResult option"
  | PollOverlay

fun finops_exec :: "StdText \<Rightarrow> finops_op \<Rightarrow> FinopsState \<Rightarrow> FinopsState" where
  "finops_exec sx (PutOverlay now sfx ar raw) s = snd (handleAdminPutFinOps sx now sfx ar raw s)"
| "finops_exec sx (DeleteOverlay sfx ar) s = snd (handleAdminDeleteFinOps sx sfx ar s)"
| "finops_exec sx PollOverlay s = ReloadFinOpsOverlays sx s"

text \<open>What the calls mean: the overlay is the last accepted document, or none.\<close>

fun overlay_spec :: "StdText \<Rightarrow> finops_op \<Rightarrow> FinConfig option \<Rightarrow> FinConfig option" where
  "overlay_spec sx (PutOverlay now sfx ar raw) ov =
     (case DecodeOverlayPayload sx raw of
        None \<Rightarrow> ov
      | Some body \<Rightarrow> if ValidateOverlay (Some body) then Some (sorted_config body) else ov)"
| "overlay_spec sx (DeleteOverlay sfx ar) ov = None"
| "overlay_spec sx PollOverlay ov = ov"

definition op_printable :: "StdText \<Rightarrow> finops_op \<Rightarrow> bool" where
  "op_printable sx p \<longleftrightarrow>
     (case p of PutOverlay now sfx ar raw \<Rightarrow>
        (case DecodeOverlayPayload sx raw of None \<Rightarrow> True | Some body \<Rightarrow> printable sx body) | _ \<Rightarrow> True)"

text \<open>The stored row holds the overlay, and the effective configuration is the merge.\<close>

definition overlay_sim :: "StdText \<Rightarrow> FinConfig option \<Rightarrow> FinConfig option \<Rightarrow> FinopsState \<Rightarrow> bool" where
  "overlay_sim sx base ov s \<longleftrightarrow> fo_baseline s = base \<and> fo_effective s = Merge base ov
     \<and> Option.bind (fo_overlay s) (\<lambda>row. DecodeOverlayPayload sx (Some (ov_Payload row))) = ov
     \<and> (fo_overlay s = None \<longleftrightarrow> ov = None) \<and> (\<forall>c. ov = Some c \<longrightarrow> ValidateOverlay (Some c))"

lemma reload_sim:
  assumes "fo_baseline s = base" "Option.bind (fo_overlay s) (\<lambda>row. DecodeOverlayPayload sx (Some (ov_Payload row))) = ov"
    "fo_overlay s = None \<longleftrightarrow> ov = None" "\<forall>c. ov = Some c \<longrightarrow> ValidateOverlay (Some c)"
  shows "overlay_sim sx base ov (ReloadFinOpsOverlays sx s)"
  using assms by (cases "fo_overlay s") (auto simp: overlay_sim_def ReloadFinOpsOverlays_def split: option.splits)

lemma overlay_sim_audit: "overlay_sim sx base ov (s\<lparr>fo_audit := as\<rparr>) = overlay_sim sx base ov s"
  by (simp add: overlay_sim_def)

lemma finops_exec_sim:
  assumes "overlay_sim sx base ov s" "op_printable sx p"
  shows "overlay_sim sx base (overlay_spec sx p ov) (finops_exec sx p s)"
proof (cases p)
  case (PutOverlay now sfx ar raw)
  show ?thesis
  proof (cases "\<exists>body. DecodeOverlayPayload sx raw = Some body \<and> ValidateOverlay (Some body)")
    case True
    then obtain body where b: "DecodeOverlayPayload sx raw = Some body" "ValidateOverlay (Some body)" by blast
    then have "printable sx body" using assms(2) PutOverlay by (simp add: op_printable_def)
    then have "overlay_sim sx base (Some (sorted_config body))
        (ReloadFinOpsOverlays sx (s\<lparr>fo_overlay := Some \<lparr>ov_Payload = EncodeOverlayPayload sx body, ov_UpdatedAt = now, ov_UpdatedBy = identity_of ar\<rparr>\<rparr>))"
      using overlay_reads [of sx body] b assms(1) sorted_config_valid [of body] by (intro reload_sim) (auto simp: overlay_sim_def)
    then show ?thesis by (simp add: PutOverlay handleAdminPutFinOps_def b Let_def overlay_sim_audit)
  next
    case False
    then show ?thesis using assms(1) by (auto simp: PutOverlay handleAdminPutFinOps_def split: option.splits)
  qed
next
  case (DeleteOverlay sfx ar)
  have "overlay_sim sx base None (ReloadFinOpsOverlays sx (s\<lparr>fo_overlay := None\<rparr>))"
    using assms(1) by (intro reload_sim) (auto simp: overlay_sim_def)
  then show ?thesis by (simp add: DeleteOverlay handleAdminDeleteFinOps_def Let_def overlay_sim_audit)
next
  case PollOverlay
  have "overlay_sim sx base ov (ReloadFinOpsOverlays sx s)" using assms(1) by (intro reload_sim) (auto simp: overlay_sim_def)
  then show ?thesis by (simp add: PollOverlay)
qed

lemma finops_run_sim:
  "overlay_sim sx base ov s \<Longrightarrow> \<forall>p\<in>set ps. op_printable sx p \<Longrightarrow>
   overlay_sim sx base (fold (overlay_spec sx) ps ov) (fold (finops_exec sx) ps s)"
  by (induction ps arbitrary: ov s) (simp_all add: finops_exec_sim)

lemma Merge_valid_opt:
  assumes "base = None \<or> ValidateOverlay base" "\<forall>c. ov = Some c \<longrightarrow> ValidateOverlay (Some c)"
  shows "Merge base ov = None \<or> ValidateOverlay (Merge base ov)"
proof (cases ov)
  case (Some c)
  then show ?thesis using assms Merge_valid [of "the base" c] by (cases base) (auto simp: Merge_def)
qed (use assms in \<open>auto simp: Merge_def\<close>)

section \<open>Sample values\<close>

definition sample_text :: StdText where
  "sample_text = \<lparr>sx_FormatFloat = (\<lambda>x. if x = 0 then ''0'' else ''5''), sx_ParseDuration = (\<lambda>s. if s = ''24h0m0s'' then Some 86400000000000 else None),
     sx_DurationString = (\<lambda>_. ''24h0m0s'')\<rparr>"

definition sample_finops :: FinConfig where
  "sample_finops = empty_config\<lparr>cf_Budgets := \<lparr>bu_Tenants = [(''acme'', zero_cap\<lparr>bc_MaxUSDPerDay := 5\<rparr>)], bu_Agents = []\<rparr>,
     cf_Reservation := \<lparr>rc_USDPerRun = 5, rc_TokensPerRun = 100, rc_HoldTTL = 86400000000000, rc_Agents = []\<rparr>\<rparr>"

definition override_doc :: "string \<Rightarrow> string \<Rightarrow> string \<Rightarrow> json" where
  "override_doc key usd tokens =
     JObj [(''reservation'', JObj [(''agents'', JObj [(key, JObj [(''usd_per_run'', JNum usd), (''tokens_per_run'', JNum tokens)])])])]"

lemma sample_tokens: "num_valid ''0'' \<and> num_value ''0'' = 0" "num_valid ''5'' \<and> num_value ''5'' = 5"
  by code_simp+

lemma sample_floats: "float_of ''0'' = Some 0" "float_of ''5'' = Some 5"
  by (simp_all add: float_of_def sample_tokens)

lemma sample_printable: "printable sample_text sample_finops"
  by (simp add: printable_def sample_text_def sample_finops_def empty_config_def zero_budgets_def zero_alerts_def zero_routing_def zero_cap_def
      caps_printable_def float_printed_def sample_floats is_int64_def)

lemma sample_valid: "ValidateOverlay (Some sample_finops)"
proof -
  have "TrimSpace ''acme'' \<noteq> []" by code_simp
  then show ?thesis
    by (simp add: ValidateOverlay_def sample_finops_def empty_config_def zero_alerts_def zero_routing_def zero_cap_def tenant_cap_ok_def checkCap_def
        maxHoldUSD_def maxHoldTokens_def maxBudgetUSDDay_def maxBudgetTokens_def maxBudgetRuns_def)
qed

section \<open>Properties\<close>

text \<open>C38: A stored overlay is read back as it was accepted. Whatever configuration passes validation, the
  document that is stored for it decodes to the same configuration, with the maps in the order of their
  keys: prices, caps, thresholds, holds, routing and the breach mode all survive, although zero members
  are left out. Assumed of the standard library is that a printed amount and a printed duration of the
  configuration read back as themselves.\<close>

theorem overlay_payload_roundtrip:
  assumes "printable sx cfg" "ValidateOverlay (Some cfg)"
  shows "DecodeOverlayPayload sx (Some (EncodeOverlayPayload sx cfg)) = Some (sorted_config cfg)
    \<and> LookupCaps (Some (sorted_config cfg)) t a = LookupCaps (Some cfg) t a
    \<and> ReservationFor (Some (sorted_config cfg)) t a = ReservationFor (Some cfg) t a"
  using overlay_reads [OF assms] sorted_config_lookup [OF assms(1)] by blast

theorem overlay_payload_roundtrip_witness:
  "DecodeOverlayPayload sample_text (Some (EncodeOverlayPayload sample_text sample_finops)) = Some (sorted_config sample_finops)
    \<and> ReservationFor (Some (sorted_config sample_finops)) ''acme'' ''bot'' = (5, 100)"
proof -
  have "ReservationFor (Some sample_finops) ''acme'' ''bot'' = (5, 100)" by (simp add: ReservationFor_def sample_finops_def Let_def)
  then show ?thesis using overlay_payload_roundtrip [OF sample_printable sample_valid, of "''acme''" "''bot''"] by simp
qed

text \<open>C37: The live configuration is the file with the last accepted overlay on top. Whatever Admin writes,
  deletions and polls of the stored row follow each other, the configuration that admission uses is the
  merge of the file's with the last accepted document, or the file's alone; refused documents have no
  effect; and if the file's configuration is valid, so is the live one.\<close>

theorem finops_overlay_governs:
  assumes "fo_baseline s = base" "fo_effective s = base" "fo_overlay s = None" "base = None \<or> ValidateOverlay base"
    and "\<forall>p\<in>set ps. op_printable sx p"
  shows "fo_effective (fold (finops_exec sx) ps s) = Merge base (fold (overlay_spec sx) ps None)
    \<and> (fo_effective (fold (finops_exec sx) ps s) = None \<or> ValidateOverlay (fo_effective (fold (finops_exec sx) ps s)))"
proof -
  have "overlay_sim sx base None s" using assms(1-3) by (simp add: overlay_sim_def Merge_def)
  then have sim: "overlay_sim sx base (fold (overlay_spec sx) ps None) (fold (finops_exec sx) ps s)" using assms(5) by (rule finops_run_sim)
  then have "fo_effective (fold (finops_exec sx) ps s) = Merge base (fold (overlay_spec sx) ps None)" by (simp add: overlay_sim_def)
  then show ?thesis using Merge_valid_opt [OF assms(4)] sim unfolding overlay_sim_def by metis
qed

theorem finops_overlay_governs_witness:
  "\<exists>s :: FinopsState. fo_effective (fold (finops_exec sample_text)
       [PutOverlay (''2026-01-01T00:00:00'', 0) None None (Some (EncodeOverlayPayload sample_text sample_finops)), PollOverlay] s)
     = Some (sorted_config sample_finops)"
proof -
  let ?ps = "[PutOverlay (''2026-01-01T00:00:00'', 0) None None (Some (EncodeOverlayPayload sample_text sample_finops)), PollOverlay]"
  let ?s = "\<lparr>fo_baseline = None, fo_effective = None, fo_overlay = None, fo_audit = []\<rparr>"
  have d: "DecodeOverlayPayload sample_text (Some (EncodeOverlayPayload sample_text sample_finops)) = Some (sorted_config sample_finops)"
    by (rule overlay_reads [OF sample_printable sample_valid])
  have sorted: "sorted_config sample_finops = sample_finops"
    by (simp add: sorted_config_def sample_finops_def empty_config_def zero_routing_def)
  have "fo_effective (fold (finops_exec sample_text) ?ps ?s) = Merge None (fold (overlay_spec sample_text) ?ps None)"
    by (rule conjunct1 [OF finops_overlay_governs]) (simp_all add: op_printable_def d sorted sample_printable)
  then show ?thesis using d sample_valid by (intro exI [of _ ?s]) (simp add: sorted Merge_def)
qed

text \<open>C39: A per-agent hold written as the Admin API documents it switches the holds of that agent off. The
  documented members \<open>usd_per_run\<close> and \<open>tokens_per_run\<close> of an entry of \<open>reservation.agents\<close> are not the
  names that are decoded there; the entry is accepted, stored with both amounts zero, and it replaces the
  global amounts, so that whatever amounts were asked for, runs of the agent reserve nothing.\<close>

theorem documented_hold_override_disables_hold:
  assumes "float_printed sx 0" "t \<noteq> []" "a \<noteq> []" "TrimSpace (agent_key t a) \<noteq> []"
    and "handleAdminPutFinOps sx now sfx ar (Some (override_doc (agent_key t a) usd tokens)) s = (reply, s')"
  shows "(\<exists>view. reply = RepliedWith 200 view) \<and> ReservationFor (fo_effective s') t a = (0, 0)"
proof -
  let ?cfg = "empty_config\<lparr>cf_Reservation := \<lparr>rc_USDPerRun = 0, rc_TokensPerRun = 0, rc_HoldTTL = 0, rc_Agents = [(agent_key t a, zero_amount)]\<rparr>\<rparr>"
  have d: "DecodeOverlayPayload sx (Some (override_doc (agent_key t a) usd tokens)) = Some ?cfg"
    by (simp add: DecodeOverlayPayload_def override_doc_def overlayWire_fields_def in_field_def into_pointer_def into_struct_def
        overlayReservation_fields_def EqualFold_def into_map_def amount_fields_def zero_overlayWire_def zero_overlayReservation_def hold_ttl_of_def
        empty_config_def Let_def)
  have slash: "Contains (agent_key t a) ''/''" 
    by (auto simp: Contains_def agent_key_def list_ex_iff HasPrefix_def intro!: bexI [of _ "length t"])
  then have v: "ValidateOverlay (Some ?cfg)"
    using assms(4) by (simp add: ValidateOverlay_def empty_config_def zero_budgets_def zero_alerts_def zero_routing_def hold_ok_def zero_amount_def
        maxHoldUSD_def maxHoldTokens_def)
  have "printable sx ?cfg"
    using assms(1) by (simp add: printable_def empty_config_def zero_budgets_def zero_alerts_def zero_routing_def zero_amount_def caps_printable_def is_int64_def)
  then have r: "DecodeOverlayPayload sx (Some (EncodeOverlayPayload sx ?cfg)) = Some ?cfg"
    using overlay_reads [of sx ?cfg] v by (simp add: sorted_config_def empty_config_def zero_budgets_def zero_routing_def)
  have "ReservationFor (Merge (fo_baseline s) (Some ?cfg)) t a = (0, 0)"
    using assms(3)
    by (cases "fo_baseline s") (auto simp: Merge_def ReservationFor_def Let_def empty_config_def zero_amount_def zero_routing_def AList.merge_def update_conv')
  then show ?thesis
    using assms(5) v r by (auto simp: handleAdminPutFinOps_def d ReloadFinOpsOverlays_def handleAdminGetFinOps_def Let_def)
qed

theorem documented_hold_override_disables_hold_witness:
  "\<exists>s' :: FinopsState. ReservationFor (fo_effective s') ''acme'' ''bot'' = (0, 0) \<and> fo_baseline s' = Some sample_finops"
proof -
  let ?s = "\<lparr>fo_baseline = Some sample_finops, fo_effective = Some sample_finops, fo_overlay = None, fo_audit = []\<rparr>"
  obtain reply s' where p: "handleAdminPutFinOps sample_text (''2026-01-01T00:00:00'', 0) None None (Some (override_doc (agent_key ''acme'' ''bot'') ''5'' ''100'')) ?s
      = (reply, s')" by (cases "handleAdminPutFinOps sample_text (''2026-01-01T00:00:00'', 0) None None (Some (override_doc (agent_key ''acme'' ''bot'') ''5'' ''100'')) ?s")
  have "ReservationFor (fo_effective s') ''acme'' ''bot'' = (0, 0)"
    by (rule conjunct2 [OF documented_hold_override_disables_hold [OF _ _ _ _ p]]) (simp_all add: float_printed_def sample_text_def sample_floats agent_key_def, code_simp)
  moreover have "fo_baseline s' = Some sample_finops"
    using p by (auto simp: handleAdminPutFinOps_def ReloadFinOpsOverlays_def Let_def split: option.splits if_splits)
  ultimately show ?thesis by blast
qed

end
