(* ===== verification/Kill_Drain.thy ===== *)
theory Kill_Drain
  imports Admin_Tables Runner_Bridge Permissions
begin

text \<open>
  Cancelling runs and the Admin handlers of kill switches: \<open>SearchRuns\<close> of
  src/internal/state/sqlite/sqlite.go with the filters that are used here, \<open>cancelRunSingle\<close> of
  src/internal/api/runs.go, and the drain and the handlers of src/internal/api/admin_kill.go. The broker
  is closed by a goroutine five seconds after a cancellation that does not wait; the definitions leave
  that step out. A security audit row is written when the write succeeds, which is an argument.
\<close>

section \<open>Searching runs (sqlite.go)\<close>

record RunSearchRequest =
  rs_Status :: "RunStatus option"
  rs_ThreadID :: string
  rs_AgentID :: string
  rs_Limit :: int
  rs_Offset :: int

definition run_matches :: "ctx \<Rightarrow> RunSearchRequest \<Rightarrow> run_row \<Rightarrow> bool" where
  "run_matches c req r \<longleftrightarrow> tenant_scope c (run_tenant r)
     \<and> (case rs_Status req of None \<Rightarrow> True | Some s \<Rightarrow> run_status r = s)
     \<and> search_eq (rs_ThreadID req) (run_thread r) \<and> search_eq (rs_AgentID req) (run_agent r)"

definition SearchRuns :: "ctx \<Rightarrow> RunSearchRequest \<Rightarrow> store \<Rightarrow> run_row list" where
  "SearchRuns c req st =
     map (\<lambda>r. r\<lparr>run_meta := reload_meta (run_meta r)\<rparr>)
       (take (nat (if rs_Limit req \<le> 0 then 10 else rs_Limit req))
         (drop (nat (rs_Offset req)) (rev (sort_key (\<lambda>r. (run_created r, run_id r)) (filter (run_matches c req) (st_runs st))))))"

section \<open>Cancelling a run (runs.go)\<close>

datatype cancel_error = CompletionFailed api_error | LookupFailed store_error | PublishFailed

definition cancel_completion :: "string \<Rightarrow> RunCompletion" where
  "cancel_completion runID = (plain_completion runID 0 RunStatusInterrupted [])\<lparr>c_CancelCurrentAttempt := True\<rparr>"

definition publish_cancel :: "string \<Rightarrow> Plane \<Rightarrow> Plane option" where
  "publish_cancel runID p = map_option (\<lambda>b. p\<lparr>p_bus := b\<rparr>) (PublishCancel runID (p_bus p))"

definition close_broker :: "string \<Rightarrow> Plane \<Rightarrow> Plane" where
  "close_broker runID p = (case broker_Close runID (p_broker p) of None \<Rightarrow> p | Some b \<Rightarrow> p\<lparr>p_broker := b\<rparr>)"

definition cancelRunSingle :: "Env \<Rightarrow> run_row \<Rightarrow> bool \<Rightarrow> Plane \<Rightarrow> (cancel_error + run_row option) \<times> Plane" where
  "cancelRunSingle env run wait p =
     (let runID = run_id run in
      if TerminalRunStatus (run_status run) \<and> run_status run \<noteq> RunStatusInterrupted then (Inr (Some run), p)
      else case api_CompleteRun env (cancel_completion runID) p of
        ((accepted, Some e), p1) \<Rightarrow>
          (Inl (CompletionFailed e),
           if accepted then (case publish_cancel runID p1 of None \<Rightarrow> p1 | Some p2 \<Rightarrow> p2) else p1)
      | ((accepted, None), p1) \<Rightarrow>
          (case (if accepted then Inr None
                 else case GetRun (env_ctx env) (p_store p1) runID of
                   Inl e \<Rightarrow> Inl e
                 | Inr current \<Rightarrow> Inr (if run_status current \<noteq> RunStatusInterrupted then Some current else None)) of
             Inl e \<Rightarrow> (Inl (LookupFailed e), p1)
           | Inr (Some current) \<Rightarrow> (Inr (Some current), p1)
           | Inr None \<Rightarrow>
               let p2 = p1\<lparr>p_queue := Cancel runID (p_queue p1)\<rparr> in
               (case publish_cancel runID p2 of
                  None \<Rightarrow> (Inl PublishFailed, p2)
                | Some p3 \<Rightarrow>
                    let p4 = (if wait then close_broker runID p3 else p3) in
                    (Inr (case GetRun (env_ctx env) (p_store p4) runID of Inl _ \<Rightarrow> None | Inr r \<Rightarrow> Some r), p4))))"

section \<open>The drain and the handlers (admin_kill.go)\<close>

definition killDrainPageSize :: int where "killDrainPageSize = 200"

definition killDrainMaxPages :: nat where "killDrainMaxPages = 1000"

fun drain_runs :: "Env \<Rightarrow> run_row list \<Rightarrow> Plane \<Rightarrow> nat \<times> Plane" where
  "drain_runs env [] p = (0, p)"
| "drain_runs env (run # runs) p =
     (if TerminalRunStatus (run_status run) then drain_runs env runs p
      else case cancelRunSingle env run False p of
        (Inl _, p') \<Rightarrow> drain_runs env runs p'
      | (Inr _, p') \<Rightarrow> (case drain_runs env runs p' of (n, p'') \<Rightarrow> (Suc n, p'')))"

definition drain_request :: "RunStatus \<Rightarrow> string \<Rightarrow> RunSearchRequest" where
  "drain_request st agentID = \<lparr>rs_Status = Some st, rs_ThreadID = [], rs_AgentID = agentID, rs_Limit = killDrainPageSize, rs_Offset = 0\<rparr>"

fun drain_pages :: "Env \<Rightarrow> RunStatus \<Rightarrow> string \<Rightarrow> nat \<Rightarrow> Plane \<Rightarrow> nat \<times> Plane" where
  "drain_pages env st agentID 0 p = (0, p)"
| "drain_pages env st agentID (Suc pages) p =
     (let runs = SearchRuns (env_ctx env) (drain_request st agentID) (p_store p) in
      if runs = [] then (0, p)
      else case drain_runs env runs p of
        (pageCancelled, p1) \<Rightarrow>
          if pageCancelled = 0 then (0, p1)
          else if int (length runs) < killDrainPageSize then (pageCancelled, p1)
          else case drain_pages env st agentID pages p1 of (n, p2) \<Rightarrow> (pageCancelled + n, p2))"

definition drainKillScope :: "Env \<Rightarrow> ctx \<Rightarrow> string \<Rightarrow> string \<Rightarrow> Plane \<Rightarrow> nat \<times> Plane" where
  "drainKillScope env c tenantID agentID p =
     (let env' = env\<lparr>env_ctx := WithContext c tenantID\<rparr> in
      case drain_pages env' RunStatusPending agentID killDrainMaxPages p of
        (n1, p1) \<Rightarrow>
          (case drain_pages env' RunStatusRunning agentID killDrainMaxPages p1 of (n2, p2) \<Rightarrow> (n1 + n2, p2)))"

record killSwitchBody =
  kb_ID :: string
  kb_TenantID :: string
  kb_AgentID :: string
  kb_PauseOnly :: bool
  kb_Reason :: string

definition kill_id :: "string \<Rightarrow> string \<Rightarrow> string \<Rightarrow> string" where
  "kill_id given tenantID agentID =
     (if TrimSpace given \<noteq> [] then TrimSpace given
      else if agentID \<noteq> [] then ''kill-'' @ tenantID @ ''-'' @ agentID else ''kill-'' @ tenantID)"

definition ReasonKillActivate :: string where "ReasonKillActivate = ''kill_activate''"

definition ReasonKillClear :: string where "ReasonKillClear = ''kill_clear''"

definition kill_audit :: "string \<Rightarrow> string \<Rightarrow> string \<Rightarrow> string \<Rightarrow> string \<Rightarrow> string \<Rightarrow> string \<Rightarrow> (string \<times> json) list \<Rightarrow> AuditEvent" where
  "kill_audit sfx tenantID actor action reasonCode i agentID attrs =
     \<lparr>a_ID = ''sec-'' @ sfx, a_TenantID = tenantID, a_Actor = actor, a_Action = action, a_ResourceType = ''kill_switch'', a_ResourceID = i,
      a_Decision = EffectAllow, a_ReasonCode = reasonCode, a_RuleID = i, a_LatencyMs = 0, a_RunID = [], a_Generation = 0,
      a_AgentID = agentID, a_Connector = [], a_Tool = [], a_Attrs = attrs\<rparr>"

record Kill_State =
  k_switches :: "KillSwitch list"
  k_plane :: Plane
  k_audit :: "AuditEvent list"

definition handleAdminCreateKillSwitch ::
  "Env \<Rightarrow> instant \<Rightarrow> string \<Rightarrow> bool \<Rightarrow> AuthResult option \<Rightarrow> killSwitchBody \<Rightarrow> Kill_State
     \<Rightarrow> (KillSwitch \<times> nat) replied \<times> Kill_State" where
  "handleAdminCreateKillSwitch env now sfx audited ar body s =
     (let tenantID = TrimSpace (kb_TenantID body); agentID = TrimSpace (kb_AgentID body) in
      if tenantID = [] then (Replied 400, s)
      else
        let i = kill_id (kb_ID body) tenantID agentID;
            createdBy = identity_of ar;
            k = \<lparr>ks_ID = i, ks_TenantID = tenantID, ks_AgentID = agentID, ks_PauseOnly = kb_PauseOnly body,
                 ks_Reason = kb_Reason body, ks_CreatedBy = createdBy, ks_CreatedAt = zero_time, ks_UpdatedAt = zero_time\<rparr>
        in case UpsertKillSwitch now k (k_switches s) of
             (Some e, rows) \<Rightarrow> (Replied 409, s\<lparr>k_switches := rows\<rparr>)
           | (None, rows) \<Rightarrow>
               (case (if kb_PauseOnly body then (0, k_plane s)
                      else drainKillScope env (SystemContext (env_ctx env)) tenantID agentID (k_plane s)) of
                  (cancelled, p) \<Rightarrow>
                    let s' = s\<lparr>k_switches := rows, k_plane := p\<rparr> in
                    (case GetKillSwitch i rows of
                       Inl _ \<Rightarrow> (Replied 404, s')
                     | Inr out \<Rightarrow>
                         (RepliedWith 201 (out, cancelled),
                          s'\<lparr>k_audit := (if audited then
                              k_audit s @ [kill_audit sfx tenantID createdBy ''kill.activate'' ReasonKillActivate i agentID
                                [(''reason'', JStr (kb_Reason body)), (''pause_only'', JBool (kb_PauseOnly body)),
                                 (''cancelled'', JNum (nat_digits cancelled))]]
                            else k_audit s)\<rparr>))))"

definition handleAdminDeleteKillSwitch ::
  "string \<Rightarrow> bool \<Rightarrow> AuthResult option \<Rightarrow> string \<Rightarrow> Kill_State \<Rightarrow> nat \<times> Kill_State" where
  "handleAdminDeleteKillSwitch sfx audited ar i s =
     (case GetKillSwitch i (k_switches s) of
        Inl _ \<Rightarrow> (404, s)
      | Inr existing \<Rightarrow>
          (204, s\<lparr>k_switches := DeleteKillSwitch i (k_switches s),
                 k_audit := (if audited then
                     k_audit s @ [kill_audit sfx (ks_TenantID existing) (identity_of ar) ''kill.clear'' ReasonKillClear i
                       (ks_AgentID existing) [(''reason'', JStr (ks_Reason existing))]]
                   else k_audit s)\<rparr>))"

section \<open>A cancellation ends the run\<close>

text \<open>A plane on which cancellations go through: keys and channels are consistent and every active run
  can be completed.\<close>

definition drainable :: "Plane \<Rightarrow> bool" where
  "drainable p \<longleftrightarrow> keys_ok (p_store p) \<and> broker_inv (p_broker p) \<and> bus_inv (p_bus p)
     \<and> (\<forall>i r. run_of (p_store p) i = Some r \<longrightarrow> active_status (run_status r) \<longrightarrow> completable (p_store p) r)"

definition same_threads :: "store \<Rightarrow> store \<Rightarrow> bool" where
  "same_threads st st' \<longleftrightarrow> map (\<lambda>t. (thr_id t, thr_tenant t)) (st_threads st') = map (\<lambda>t. (thr_id t, thr_tenant t)) (st_threads st)"

lemma same_threads_ex:
  assumes "same_threads st st'"
  shows "list_ex (\<lambda>t. thr_id t = i \<and> thr_tenant t = j) (st_threads st') = list_ex (\<lambda>t. thr_id t = i \<and> thr_tenant t = j) (st_threads st)"
proof -
  have e: "list_ex (\<lambda>t. thr_id t = i \<and> thr_tenant t = j) ts \<longleftrightarrow> (i, j) \<in> set (map (\<lambda>t. (thr_id t, thr_tenant t)) ts)" for ts
    by (auto simp: list_ex_iff)
  show ?thesis unfolding e using assms unfolding same_threads_def by (rule arg_cong)
qed

lemma same_threads_update:
  "(\<And>t. thr_id (f t) = thr_id t \<and> thr_tenant (f t) = thr_tenant t) \<Longrightarrow> same_threads st (st\<lparr>st_threads := sql_update q f (st_threads st)\<rparr>)"
  by (auto simp: same_threads_def sql_update_def)

lemma cancel_commit:
  assumes k: "keys_ok st" and r: "run_of st i = Some r" "completable st r" and scope: "tenant_scope cx (run_tenant r)"
    and c: "c_CancelCurrentAttempt c" "c_Status c = RunStatusInterrupted" "c_RunID c = i"
  shows "\<exists>st'. CompleteRun None now cx st c = (Inr \<lparr>Accepted = True, Applied = True\<rparr>, st') \<and> same_threads st st'"
proof -
  let ?m = "meta_map (row_meta r)"
  let ?c = "ResolveCompletion ?m c"
  have gen: "c_Generation ?c = MetadataGeneration ?m AttemptGenerationKey" "c_Status ?c = RunStatusInterrupted"
    "c_CancelCurrentAttempt ?c" "c_RunID ?c = i"
    using c by (simp_all add: ResolveCompletion_def Let_def)
  then have "CheckCompletion ?m (run_status r) ?c = \<lparr>Accepted = True, Applied = True\<rparr>"
    using r(2) by (simp add: CheckCompletion_def completable_def TerminalRunStatus_def)
  then show ?thesis
    using r scope gen c
    by (auto simp: CompleteRun_def CompleteRunInTx_def load_run_of [OF k] Let_def release_completed_thread_def completable_def
        same_threads_def sql_update_def row_meta_def [symmetric] split: option.splits)
qed


lemma cancel_completes:
  assumes d: "drainable p" and r: "run_of (p_store p) i = Some r" "active_status (run_status r)"
    and env: "finalizes env" "env_validate env = None"
  shows "\<exists>p' r'. api_CompleteRun env (cancel_completion i) p = ((True, None), p')
    \<and> (\<forall>j. run_of (p_store p') j = (if j = i then Some r' else run_of (p_store p) j))
    \<and> run_status r' = RunStatusInterrupted \<and> run_tenant r' = run_tenant r \<and> same_threads (p_store p) (p_store p')
    \<and> keys_ok (p_store p') \<and> broker_inv (p_broker p') \<and> p_queue p' = p_queue p \<and> p_bus p' = p_bus p"
proof -
  have k: "keys_ok (p_store p)" and b: "broker_inv (p_broker p)" and comp: "completable (p_store p) r"
    using d r by (auto simp: drainable_def)
  let ?run = "r\<lparr>run_meta := row_meta r\<rparr>" and ?cx = "WithContext (env_ctx env) (run_tenant r)"
  let ?c = "capture_usage env ?run (cancel_completion i) p"
  have c: "c_CancelCurrentAttempt ?c" "c_Status ?c = RunStatusInterrupted" "c_RunID ?c = i"
    by (simp_all add: cancel_completion_def plain_completion_def capture_usage_def Let_def)
  have scope: "tenant_scope ?cx (run_tenant r)" using comp by (simp add: completable_def with_context_scope)
  obtain st' where st': "CompleteRun None (env_now env) ?cx (p_store p) ?c = (Inr \<lparr>Accepted = True, Applied = True\<rparr>, st')"
    and thr: "same_threads (p_store p) st'"
    using cancel_commit [OF k r(1) comp scope c] by blast
  have k': "keys_ok st'" using CompleteRun_keys [OF k] st' by (metis snd_conv)
  have run': "run_of st' j = (if j = i then Some (completed_row ?c r) else run_of (p_store p) j)" for j
    using st' k by (cases rule: CompleteRun_effect) (use r c in auto)
  have row: "run_status (completed_row ?c r) = RunStatusInterrupted" "run_tenant (completed_row ?c r) = run_tenant r"
    using c by (simp_all add: completed_row_def)
  obtain committed where committed: "GetRun ?cx st' i = Inr committed"
    using run' scope row by (simp add: GetRun_run_of [OF k'])
  let ?p1 = "p\<lparr>p_store := st'\<rparr>"
  have fin: "finalizeCommittedRun env committed True ?p1 = (None, ?p1\<lparr>p_broker := the (broker_Close (run_id committed) (p_broker p))\<rparr>)"
    using env b by (simp add: finalizeCommittedRun_def finalizes_def broker_Close_result)
  let ?p2 = "?p1\<lparr>p_broker := the (broker_Close (run_id committed) (p_broker p))\<rparr>"
  have inv: "broker_inv (p_broker ?p2)"
    using broker_inv_Close [OF b, of "run_id committed" "the (broker_Close (run_id committed) (p_broker p))"]
    by (simp add: broker_Close_result [OF b])
  have "commit_completion env ?cx ?c p = ((\<lparr>Accepted = True, Applied = True\<rparr>, None), ?p2)"
    using st' committed fin env c by (simp add: commit_completion_def)
  then have "completeRunResult env (cancel_completion i) p = ((\<lparr>Accepted = True, Applied = True\<rparr>, None), ?p2)"
    using r by (simp add: completeRunResult_def GetRun_run_of [OF k] cancel_completion_def plain_completion_def check_runner_kind_def
        Let_def TerminalRunStatus_def)
  then have "api_CompleteRun env (cancel_completion i) p = ((True, None), ?p2)" by (simp add: api_CompleteRun_def)
  then show ?thesis using run' row thr k' inv by (intro exI [of _ ?p2] exI [of _ "completed_row ?c r"]) simp
qed

text \<open>What cancelling some runs does to the plane: they are interrupted and have no lease, the other runs
  keep their rows and leases.\<close>

definition interrupts :: "string set \<Rightarrow> Plane \<Rightarrow> Plane \<Rightarrow> bool" where
  "interrupts ids p p' \<longleftrightarrow> drainable p'
     \<and> (\<forall>j\<in>ids. (\<exists>r'. run_of (p_store p') j = Some r' \<and> run_status r' = RunStatusInterrupted) \<and> LookupInflight j (p_queue p') = None)
     \<and> (\<forall>j. j \<notin> ids \<longrightarrow> run_of (p_store p') j = run_of (p_store p) j \<and> LookupInflight j (p_queue p') = LookupInflight j (p_queue p))"

lemma interrupts_none: "drainable p \<Longrightarrow> interrupts {} p p"
  by (simp add: interrupts_def)

lemma interrupts_trans:
  assumes "interrupts A p p1" "interrupts B p1 p2"
  shows "interrupts (A \<union> B) p p2"
  unfolding interrupts_def
proof (intro conjI ballI allI impI)
  show "drainable p2" using assms(2) by (simp add: interrupts_def)
  fix j
  assume j: "j \<in> A \<union> B"
  show "\<exists>r'. run_of (p_store p2) j = Some r' \<and> run_status r' = RunStatusInterrupted" "LookupInflight j (p_queue p2) = None"
    using assms j by (cases "j \<in> B"; auto simp: interrupts_def)+
next
  fix j
  assume "j \<notin> A \<union> B"
  then show "run_of (p_store p2) j = run_of (p_store p) j" "LookupInflight j (p_queue p2) = LookupInflight j (p_queue p)"
    using assms by (simp_all add: interrupts_def)
qed

lemma cancel_interrupts:
  assumes d: "drainable p" and r: "run_of (p_store p) i = Some r" "active_status (run_status r)"
    and run: "run_id run = i" "run_status run = run_status r"
    and env: "finalizes env" "env_validate env = None"
  shows "\<exists>out p'. cancelRunSingle env run wait p = (Inr out, p') \<and> interrupts {i} p p'"
proof -
  obtain p1 r' where c: "api_CompleteRun env (cancel_completion i) p = ((True, None), p1)"
    and rows: "\<And>j. run_of (p_store p1) j = (if j = i then Some r' else run_of (p_store p) j)"
    and r': "run_status r' = RunStatusInterrupted" and thr: "same_threads (p_store p) (p_store p1)"
    and inv: "keys_ok (p_store p1)" "broker_inv (p_broker p1)" "p_queue p1 = p_queue p" "p_bus p1 = p_bus p"
    using cancel_completes [OF d r env] by blast
  have bus: "bus_inv (p_bus p)" using d by (simp add: drainable_def)
  obtain b where b1: "PublishCancel i (p_bus p) = Some b" by (simp add: PublishCancel_result [OF bus])
  note b = b1 bus_inv_ops(4) [OF bus b1]
  let ?p2 = "p1\<lparr>p_queue := Cancel i (p_queue p), p_bus := b\<rparr>"
  let ?p3 = "if wait then close_broker i ?p2 else ?p2"
  have cl: "broker_inv (p_broker (close_broker i ?p2))"
    using inv(2) broker_inv_Close [OF inv(2)] by (simp add: close_broker_def broker_Close_result)
  have store: "p_store ?p3 = p_store p1" "p_queue ?p3 = Cancel i (p_queue p)" "p_bus ?p3 = b"
    by (simp_all add: close_broker_def split: option.splits)
  have "completable (p_store p1) x" if "run_of (p_store p1) j = Some x" "active_status (run_status x)" for j x
  proof -
    have "j \<noteq> i" using that rows r' by (auto simp: active_status_def)
    then have "completable (p_store p) x" using that rows d by (simp add: drainable_def)
    then show ?thesis using same_threads_ex [OF thr] by (simp add: completable_def)
  qed
  then have "drainable ?p3" using inv b cl store by (auto simp: drainable_def)
  moreover have "LookupInflight j (Cancel i (p_queue p)) = (if j = i then None else LookupInflight j (p_queue p))" for j
    by (simp add: LookupInflight_def Cancel_def)
  ultimately have "interrupts {i} p ?p3"
    using rows r' by (auto simp: interrupts_def store)
  moreover have "\<not> TerminalRunStatus (run_status r)"
    using r by (auto simp: active_status_def TerminalRunStatus_def)
  then have "\<exists>out. cancelRunSingle env run wait p = (Inr out, ?p3)"
    using c b inv run by (simp add: cancelRunSingle_def publish_cancel_def Let_def)
  ultimately show ?thesis by blast
qed

section \<open>The drain ends every run that it selects\<close>

lemma drain_runs_interrupts:
  assumes "drainable p" "finalizes env" "env_validate env = None" "distinct (map run_id runs)"
    and "\<forall>run\<in>set runs. \<exists>r. run_of (p_store p) (run_id run) = Some r \<and> run_status run = run_status r \<and> active_status (run_status r)"
  shows "\<exists>p'. drain_runs env runs p = (length runs, p') \<and> interrupts (run_id ` set runs) p p'"
  using assms
proof (induction runs arbitrary: p)
  case Nil
  then show ?case by (simp add: interrupts_none)
next
  case (Cons run runs)
  obtain r where r: "run_of (p_store p) (run_id run) = Some r" "run_status run = run_status r" "active_status (run_status r)"
    using Cons.prems(5) by auto
  obtain out p1 where c: "cancelRunSingle env run False p = (Inr out, p1)" and i: "interrupts {run_id run} p p1"
    using cancel_interrupts [OF Cons.prems(1) r(1,3) refl r(2) Cons.prems(2,3)] by blast
  have "\<exists>p'. drain_runs env runs p1 = (length runs, p') \<and> interrupts (run_id ` set runs) p1 p'"
  proof (rule Cons.IH)
    show "drainable p1" using i by (simp add: interrupts_def)
    show "\<forall>run\<in>set runs. \<exists>r. run_of (p_store p1) (run_id run) = Some r \<and> run_status run = run_status r \<and> active_status (run_status r)"
    proof
      fix x
      assume x: "x \<in> set runs"
      then have "run_id x \<noteq> run_id run" using Cons.prems(4) by (metis distinct.simps(2) image_eqI list.set_map list.simps(9))
      then have "run_of (p_store p1) (run_id x) = run_of (p_store p) (run_id x)" using i by (simp add: interrupts_def)
      then show "\<exists>r. run_of (p_store p1) (run_id x) = Some r \<and> run_status x = run_status r \<and> active_status (run_status r)"
        using Cons.prems(5) x by simp
    qed
  qed (use Cons.prems in simp_all)
  moreover have "\<not> TerminalRunStatus (run_status run)" using r by (auto simp: active_status_def TerminalRunStatus_def)
  ultimately show ?case using c interrupts_trans [OF i] by fastforce
qed

definition matching :: "ctx \<Rightarrow> RunStatus \<Rightarrow> string \<Rightarrow> store \<Rightarrow> string set" where
  "matching c s agentID st = {i. \<exists>r. run_of st i = Some r \<and> run_matches c (drain_request s agentID) r}"

lemma run_of_mem: "keys_ok st \<Longrightarrow> r \<in> set (st_runs st) \<Longrightarrow> run_of st (run_id r) = Some r"
proof -
  assume k: "keys_ok st" and r: "r \<in> set (st_runs st)"
  then obtain r' where r': "run_of st (run_id r) = Some r'" unfolding run_of_def by (metis (mono_tags, lifting) find_None_iff option.exhaust)
  then have "r' \<in> set (st_runs st)" "run_id r' = run_id r" by (auto simp: run_of_def find_Some_iff)
  then show ?thesis using k r r' by (auto simp: keys_ok_def distinct_map inj_on_def)
qed

lemma matching_ids:
  assumes "keys_ok st"
  shows "matching c s agentID st = run_id ` set (filter (run_matches c (drain_request s agentID)) (st_runs st))"
proof -
  have "\<exists>r. run_of st i = Some r \<and> run_matches c (drain_request s agentID) r \<Longrightarrow> i \<in> run_id ` {r \<in> set (st_runs st). run_matches c (drain_request s agentID) r}" for i
    by (auto simp: run_of_def find_Some_iff)
  then show ?thesis using run_of_mem [OF assms] by (auto simp: matching_def)
qed

lemma matching_finite: "keys_ok st \<Longrightarrow> finite (matching c s agentID st)"
  by (simp add: matching_ids)

text \<open>The page of a drain: distinct runs of the scope, all of them if they are fewer than a page.\<close>

lemma drain_page:
  assumes "keys_ok st" "runs = SearchRuns c (drain_request s agentID) st"
  shows "distinct (map run_id runs)" "run_id ` set runs \<subseteq> matching c s agentID st"
    "length runs = min 200 (card (matching c s agentID st))"
    "run \<in> set runs \<Longrightarrow> \<exists>r. run_of st (run_id run) = Some r \<and> run_status run = run_status r \<and> run_status r = s"
proof -
  let ?hits = "filter (run_matches c (drain_request s agentID)) (st_runs st)"
  let ?sorted = "rev (sort_key (\<lambda>r. (run_created r, run_id r)) ?hits)"
  have runs: "runs = map (\<lambda>r. r\<lparr>run_meta := reload_meta (run_meta r)\<rparr>) (take 200 ?sorted)"
    using assms(2) by (simp add: SearchRuns_def drain_request_def killDrainPageSize_def)
  have ids: "map run_id runs = take 200 (map run_id ?sorted)" by (simp add: runs take_map)
  have d: "distinct (map run_id ?hits)" using assms(1) by (simp add: keys_ok_def distinct_map_filter)
  then have "distinct (map run_id ?sorted)" by (simp add: distinct_map)
  then show "distinct (map run_id runs)" unfolding ids by (rule distinct_take)
  have sub: "set (take 200 ?sorted) \<subseteq> set ?hits" using set_take_subset by fastforce
  then show "run_id ` set runs \<subseteq> matching c s agentID st" unfolding matching_ids [OF assms(1)] runs by auto
  have "card (matching c s agentID st) = length ?hits"
    using distinct_card [OF d] unfolding matching_ids [OF assms(1)] by simp
  then show "length runs = min 200 (card (matching c s agentID st))" by (simp add: runs)
  assume "run \<in> set runs"
  then obtain r where "r \<in> set ?hits" "run = r\<lparr>run_meta := reload_meta (run_meta r)\<rparr>" using sub runs by auto
  then show "\<exists>r. run_of st (run_id run) = Some r \<and> run_status run = run_status r \<and> run_status r = s"
    using run_of_mem [OF assms(1)] by (auto simp: run_matches_def drain_request_def)
qed

lemma matching_after:
  assumes "interrupts ids p p'" "s \<noteq> RunStatusInterrupted"
  shows "matching c s agentID (p_store p') = matching c s agentID (p_store p) - ids"
proof
  show "matching c s agentID (p_store p') \<subseteq> matching c s agentID (p_store p) - ids"
  proof
    fix j
    assume "j \<in> matching c s agentID (p_store p')"
    then obtain r where r: "run_of (p_store p') j = Some r" "run_matches c (drain_request s agentID) r" by (auto simp: matching_def)
    then have "run_status r = s" by (simp add: run_matches_def drain_request_def)
    then have "j \<notin> ids" using assms r by (auto simp: interrupts_def)
    then show "j \<in> matching c s agentID (p_store p) - ids" using assms r by (auto simp: interrupts_def matching_def)
  qed
  show "matching c s agentID (p_store p) - ids \<subseteq> matching c s agentID (p_store p')"
    using assms by (auto simp: interrupts_def matching_def)
qed

lemma drain_pages_clears:
  assumes "drainable p" "finalizes env" "env_validate env = None" "active_status s"
    and "card (matching (env_ctx env) s agentID (p_store p)) \<le> 200 * pages"
  shows "\<exists>n p'. drain_pages env s agentID pages p = (n, p') \<and> interrupts (matching (env_ctx env) s agentID (p_store p)) p p'"
  using assms
proof (induction pages arbitrary: p)
  case 0
  then have "matching (env_ctx env) s agentID (p_store p) = {}" using matching_finite by (simp add: drainable_def)
  then show ?case using 0 by (simp add: interrupts_none)
next
  case (Suc pages)
  let ?M = "matching (env_ctx env) s agentID" and ?runs = "SearchRuns (env_ctx env) (drain_request s agentID) (p_store p)"
  have k: "keys_ok (p_store p)" using Suc.prems(1) by (simp add: drainable_def)
  note page = drain_page [where c = "env_ctx env" and s = s and agentID = agentID, OF k refl]
  have fin: "finite (?M (p_store p))" using matching_finite [OF k] .
  have s: "s \<noteq> RunStatusInterrupted" using Suc.prems(4) by (auto simp: active_status_def)
  obtain p1 where d: "drain_runs env ?runs p = (length ?runs, p1)" and i: "interrupts (run_id ` set ?runs) p p1"
    using drain_runs_interrupts [OF Suc.prems(1-3) page(1)] page(4) Suc.prems(4) by blast
  show ?case
  proof (cases "?runs = []")
    case True
    then have "card (?M (p_store p)) = 0" using page(3) by (simp add: min_def split: if_splits)
    then have "?M (p_store p) = {}" using fin by simp
    then show ?thesis using True Suc.prems(1) by (simp add: interrupts_none)
  next
    case ne: False
    have len: "length ?runs = card (run_id ` set ?runs)" using distinct_card [OF page(1)] by simp
    show ?thesis
    proof (cases "length ?runs < 200")
      case True
      then have "card (run_id ` set ?runs) = card (?M (p_store p))" using page(3) len by simp
      then have "run_id ` set ?runs = ?M (p_store p)" using card_subset_eq [OF fin page(2)] by simp
      then show ?thesis using d i ne True by (simp add: killDrainPageSize_def)
    next
      case False
      then have n: "length ?runs = 200" using page(3) by simp
      have after: "?M (p_store p1) = ?M (p_store p) - run_id ` set ?runs" using matching_after [OF i s] .
      then have "card (?M (p_store p1)) = card (?M (p_store p)) - 200"
        using card_Diff_subset [OF _ page(2)] len n by simp
      then have "card (?M (p_store p1)) \<le> 200 * pages" using Suc.prems(5) by simp
      moreover have "drainable p1" using i by (simp add: interrupts_def)
      ultimately obtain m p' where r: "drain_pages env s agentID pages p1 = (m, p')" and j: "interrupts (?M (p_store p1)) p1 p'"
        using Suc.IH Suc.prems(2-4) by blast
      have "run_id ` set ?runs \<union> ?M (p_store p1) = ?M (p_store p)" using after page(2) by blast
      then show ?thesis using d n r ne interrupts_trans [OF i j] by (simp add: killDrainPageSize_def)
    qed
  qed
qed

lemma matching_bound: "keys_ok st \<Longrightarrow> card (matching c s agentID st) \<le> length (st_runs st)"
  unfolding matching_ids by (metis card_image_le card_length filter_is_subset finite_set card_mono le_trans)

text \<open>The context that the handlers pass is a system context, so the drain selects by agent and not by
  tenant.\<close>

definition drained :: "string \<Rightarrow> store \<Rightarrow> string set" where
  "drained agentID st = {i. \<exists>r. run_of st i = Some r \<and> active_status (run_status r) \<and> search_eq agentID (run_agent r)}"

lemma drain_selects:
  "matching (WithContext (SystemContext c) t) RunStatusPending a st \<union> matching (WithContext (SystemContext c) t) RunStatusRunning a st = drained a st"
proof -
  have "tenant_scope (WithContext (SystemContext c) t) x" for x
    by (simp add: tenant_scope_def WithContext_def SystemContext_def IsSystem_def)
  then show ?thesis
    by (auto simp: drained_def matching_def run_matches_def drain_request_def search_eq_def active_status_def)
qed

lemma drainKillScope_clears:
  assumes d: "drainable p" and env: "finalizes env" "env_validate env = None" and few: "length (st_runs (p_store p)) \<le> 200 * killDrainMaxPages"
  shows "\<exists>n p'. drainKillScope env (SystemContext c) t a p = (n, p') \<and> interrupts (drained a (p_store p)) p p'"
proof -
  let ?cx = "WithContext (SystemContext c) t"
  let ?env = "env\<lparr>env_ctx := ?cx\<rparr>"
  have k: "keys_ok (p_store p)" using d by (simp add: drainable_def)
  have env': "finalizes ?env" "env_validate ?env = None" using env by (simp_all add: finalizes_def)
  note bound = le_trans [OF matching_bound [OF k] few]
  obtain n1 p1 where p1: "drain_pages ?env RunStatusPending a killDrainMaxPages p = (n1, p1)"
    and i1: "interrupts (matching ?cx RunStatusPending a (p_store p)) p p1"
    using drain_pages_clears [OF d env', of RunStatusPending a killDrainMaxPages] bound by (auto simp: active_status_def)
  have m: "matching ?cx RunStatusRunning a (p_store p1) = matching ?cx RunStatusRunning a (p_store p) - matching ?cx RunStatusPending a (p_store p)"
    using matching_after [OF i1] by simp
  have "card (matching ?cx RunStatusRunning a (p_store p1)) \<le> card (matching ?cx RunStatusRunning a (p_store p))"
    unfolding m using matching_finite [OF k] by (intro card_mono) auto
  then have "card (matching ?cx RunStatusRunning a (p_store p1)) \<le> 200 * killDrainMaxPages" using bound le_trans by blast
  moreover have "drainable p1" using i1 by (simp add: interrupts_def)
  ultimately obtain n2 p2 where p2: "drain_pages ?env RunStatusRunning a killDrainMaxPages p1 = (n2, p2)"
    and i2: "interrupts (matching ?cx RunStatusRunning a (p_store p1)) p1 p2"
    using drain_pages_clears [OF _ env', of p1 RunStatusRunning a killDrainMaxPages] by (auto simp: active_status_def)
  have "matching ?cx RunStatusPending a (p_store p) \<union> matching ?cx RunStatusRunning a (p_store p1) = drained a (p_store p)"
    unfolding m using drain_selects [of c t a "p_store p"] by blast
  then show ?thesis using p1 p2 interrupts_trans [OF i1 i2] by (simp add: drainKillScope_def Let_def)
qed

lemma activation_effect:
  assumes "handleAdminCreateKillSwitch env now sfx audited ar body s = (RepliedWith code out, s')" and "\<not> kb_PauseOnly body"
    and "drainable (k_plane s)" "finalizes env" "env_validate env = None"
    and "length (st_runs (p_store (k_plane s))) \<le> 200 * killDrainMaxPages"
  shows "interrupts (drained (TrimSpace (kb_AgentID body)) (p_store (k_plane s))) (k_plane s) (k_plane s')"
proof -
  obtain n p' where "drainKillScope env (SystemContext (env_ctx env)) (TrimSpace (kb_TenantID body)) (TrimSpace (kb_AgentID body)) (k_plane s) = (n, p')"
    and i: "interrupts (drained (TrimSpace (kb_AgentID body)) (p_store (k_plane s))) (k_plane s) p'"
    using drainKillScope_clears [OF assms(3-6)] by blast
  then have "k_plane s' = p'"
    using assms(1,2) by (auto simp: handleAdminCreateKillSwitch_def Let_def split: if_splits prod.splits option.splits sum.splits)
  then show ?thesis using i by simp
qed

section \<open>Samples\<close>

definition sample_kill_body :: "string \<Rightarrow> string \<Rightarrow> killSwitchBody" where
  "sample_kill_body t a = \<lparr>kb_ID = [], kb_TenantID = t, kb_AgentID = a, kb_PauseOnly = False, kb_Reason = ''breach''\<rparr>"

definition sample_kill_state :: Kill_State where
  "sample_kill_state = \<lparr>k_switches = [], k_plane = bridge_plane, k_audit = []\<rparr>"

lemma sample_drainable: "drainable bridge_plane"
proof -
  have "list_ex (\<lambda>t. thr_id t = run_thread sample_run \<and> thr_tenant t = run_tenant sample_run) (st_threads sample_begun)"
    by (simp add: sample_begun_eq sample_defs)
  then show ?thesis
    using bridge_run bridge_keys broker_inv_New bus_inv_ops(1)
    by (auto simp: drainable_def bridge_plane_def completable_def TerminalRunStatus_def sample_begun_eq run_of_def sample_defs active_status_def
        split: if_splits)
qed

lemma sample_env_ok: "finalizes bridge_env" "env_validate bridge_env = None" "length (st_runs (p_store (k_plane sample_kill_state))) \<le> 200 * killDrainMaxPages"
  by (simp_all add: bridge_env_def finalizes_def sample_kill_state_def bridge_plane_def sample_begun_eq sample_defs killDrainMaxPages_def)

lemma sample_activation:
  assumes "TrimSpace t \<noteq> []"
  shows "\<exists>out s'. handleAdminCreateKillSwitch bridge_env now sfx True None (sample_kill_body t a) sample_kill_state = (RepliedWith 201 out, s')"
  using assms
  by (simp add: handleAdminCreateKillSwitch_def sample_kill_body_def sample_kill_state_def UpsertKillSwitch_def sql_upsert_def GetKillSwitch_def
      Let_def split: prod.splits)

section \<open>Properties\<close>

text \<open>C8: Activating a kill switch ends the runs in its scope. When the handler has answered an activation
  that is not pause-only, on a store of up to 200,000 runs whose active runs can be completed, no pending
  or running run of the tenant and agent is left: each is durably interrupted and has lost its lease. The
  switch is found by the next admission of that tenant and agent, and it is in the audit log. The handler
  is one step here, in which no search for runs fails and no run is admitted.\<close>

theorem kill_switch_ends_runs:
  assumes "handleAdminCreateKillSwitch env now sfx True ar body s = (RepliedWith code out, s')" and "\<not> kb_PauseOnly body"
    and "drainable (k_plane s)" "finalizes env" "env_validate env = None"
    and "length (st_runs (p_store (k_plane s))) \<le> 200 * killDrainMaxPages"
    and "run_of (p_store (k_plane s)) i = Some r" "active_status (run_status r)" "run_tenant r = TrimSpace (kb_TenantID body)"
    and "TrimSpace (kb_AgentID body) = [] \<or> run_agent r = TrimSpace (kb_AgentID body)"
    and "table_ok ks_ID kill_scope (k_switches s)"
  shows "(\<exists>r'. run_of (p_store (k_plane s')) i = Some r' \<and> run_status r' = RunStatusInterrupted)
    \<and> LookupInflight i (p_queue (k_plane s')) = None
    \<and> FindActiveKill (run_tenant r) (run_agent r) (k_switches s') \<noteq> None
    \<and> (\<exists>e\<in>set (k_audit s'). a_Action e = ''kill.activate'' \<and> a_TenantID e = run_tenant r)"
proof -
  let ?t = "TrimSpace (kb_TenantID body)" and ?a = "TrimSpace (kb_AgentID body)"
  have "i \<in> drained ?a (p_store (k_plane s))" using assms(7,8,10) by (auto simp: drained_def search_eq_def)
  then have ended: "(\<exists>r'. run_of (p_store (k_plane s')) i = Some r' \<and> run_status r' = RunStatusInterrupted) \<and> LookupInflight i (p_queue (k_plane s')) = None"
    using activation_effect [OF assms(1-6)] by (simp add: interrupts_def)
  obtain k where k: "UpsertKillSwitch now k (k_switches s) = (None, k_switches s')" "ks_TenantID k = ?t" "ks_AgentID k = ?a"
    using assms(1) by (auto simp: handleAdminCreateKillSwitch_def Let_def split: if_splits prod.splits option.splits sum.splits)
  obtain x where x: "kill_scope x = kill_scope k" "x \<in> set (k_switches s')"
    using kill_table.upsert_done [OF assms(11) k(1)] by blast
  then have "FindActiveKill (run_tenant r) (run_agent r) (k_switches s') \<noteq> None"
    using k assms(9,10) by (auto simp: FindActiveKill_def kill_scope_def filter_empty_conv)
  moreover have "\<exists>e\<in>set (k_audit s'). a_Action e = ''kill.activate'' \<and> a_TenantID e = run_tenant r"
    using assms(1,9) by (auto simp: handleAdminCreateKillSwitch_def kill_audit_def Let_def split: if_splits prod.splits option.splits sum.splits)
  ultimately show ?thesis using ended by blast
qed

theorem kill_switch_ends_runs_witness:
  "\<exists>out s'. handleAdminCreateKillSwitch bridge_env zero_time ''x'' True None (sample_kill_body ''acme'' []) sample_kill_state = (RepliedWith 201 out, s')
     \<and> LookupInflight ''r1'' (p_queue (k_plane s')) = None"
proof -
  have t: "TrimSpace ''acme'' = ''acme''" by code_simp
  obtain out s' where h: "handleAdminCreateKillSwitch bridge_env zero_time ''x'' True None (sample_kill_body ''acme'' []) sample_kill_state = (RepliedWith 201 out, s')"
    using sample_activation [where t = "''acme''" and a = "[]" and now = zero_time and sfx = "''x''"] t by auto
  have r: "run_of (p_store (k_plane sample_kill_state)) ''r1'' = Some (sample_run\<lparr>run_status := RunStatusRunning,
      run_meta := (run_meta sample_run)\<lparr>rm_attempt := Some 2\<rparr>\<rparr>)"
    using bridge_run by (simp add: sample_kill_state_def bridge_plane_def)
  have "LookupInflight ''r1'' (p_queue (k_plane s')) = None"
    using kill_switch_ends_runs [OF h _ _ sample_env_ok r] sample_drainable t
    by (simp add: sample_kill_body_def sample_kill_state_def active_status_def sample_run_def table_ok_def)
  then show ?thesis using h by blast
qed

text \<open>C31: The drain does not stop at the tenant. The handler marks its context as a system context before it
  sets the switch's tenant, and a search under a system context has no tenant condition: activating a
  switch for a whole tenant interrupts every pending and running run of every other tenant as well.\<close>

theorem kill_drain_crosses_tenants:
  assumes "handleAdminCreateKillSwitch env now sfx audited ar body s = (RepliedWith code out, s')" and "\<not> kb_PauseOnly body"
    and "drainable (k_plane s)" "finalizes env" "env_validate env = None"
    and "length (st_runs (p_store (k_plane s))) \<le> 200 * killDrainMaxPages"
    and "TrimSpace (kb_AgentID body) = []"
    and "run_of (p_store (k_plane s)) i = Some r" "active_status (run_status r)" "run_tenant r \<noteq> TrimSpace (kb_TenantID body)"
  shows "\<exists>r'. run_of (p_store (k_plane s')) i = Some r' \<and> run_status r' = RunStatusInterrupted"
proof -
  have "i \<in> drained [] (p_store (k_plane s))" using assms(8,9) by (auto simp: drained_def search_eq_def)
  then show ?thesis using activation_effect [OF assms(1-6)] assms(7) by (simp add: interrupts_def)
qed

theorem kill_drain_crosses_tenants_witness:
  "\<exists>out s' r'. handleAdminCreateKillSwitch bridge_env zero_time ''x'' True None (sample_kill_body ''globex'' []) sample_kill_state = (RepliedWith 201 out, s')
     \<and> run_of (p_store (k_plane s')) ''r1'' = Some r' \<and> run_status r' = RunStatusInterrupted \<and> run_tenant sample_run = ''acme''"
proof -
  have t: "TrimSpace ''globex'' = ''globex''" by code_simp
  obtain out s' where h: "handleAdminCreateKillSwitch bridge_env zero_time ''x'' True None (sample_kill_body ''globex'' []) sample_kill_state = (RepliedWith 201 out, s')"
    using sample_activation [where t = "''globex''" and a = "[]" and now = zero_time and sfx = "''x''"] t by auto
  have r: "run_of (p_store (k_plane sample_kill_state)) ''r1'' = Some (sample_run\<lparr>run_status := RunStatusRunning,
      run_meta := (run_meta sample_run)\<lparr>rm_attempt := Some 2\<rparr>\<rparr>)"
    using bridge_run by (simp add: sample_kill_state_def bridge_plane_def)
  have "\<exists>r'. run_of (p_store (k_plane s')) ''r1'' = Some r' \<and> run_status r' = RunStatusInterrupted"
    using kill_drain_crosses_tenants [OF h _ _ sample_env_ok _ r] sample_drainable t
    by (simp add: sample_kill_body_def sample_kill_state_def active_status_def sample_run_def)
  then show ?thesis using h by (auto simp: sample_run_def)
qed

text \<open>Activating one kill switch can silently lift another tenant's. The identifier that the handler
  derives joins tenant and agent with a hyphen, so the switch for agent \<open>x-y\<close> of tenant \<open>t\<close> and the switch
  for agent \<open>y\<close> of tenant \<open>t-x\<close> have the same identifier; the second activation answers 201 and moves the
  one row, and the first agent is admitted again.\<close>

theorem kill_activation_lifts_other:
  assumes "handleAdminCreateKillSwitch env_first now_first sfx_first au_first ar_first (b_first\<lparr>kb_ID := [], kb_TenantID := t, kb_AgentID := x @ ''-'' @ y\<rparr>)
      \<lparr>k_switches = [], k_plane = p, k_audit = events\<rparr> = (RepliedWith 201 out_first, s_mid)"
    and "handleAdminCreateKillSwitch env_second now_second sfx_second au_second ar_second (b_second\<lparr>kb_ID := [], kb_TenantID := t @ ''-'' @ x, kb_AgentID := y\<rparr>) s_mid = (reply, s_end)"
    and "TrimSpace t = t" "TrimSpace (x @ ''-'' @ y) = x @ ''-'' @ y" "TrimSpace (t @ ''-'' @ x) = t @ ''-'' @ x" "TrimSpace y = y" "y \<noteq> []"
  shows "FindActiveKill t (x @ ''-'' @ y) (k_switches s_mid) \<noteq> None
    \<and> (\<exists>out. reply = RepliedWith 201 out) \<and> FindActiveKill t (x @ ''-'' @ y) (k_switches s_end) = None"
proof -
  obtain k where k: "k_switches s_mid = [k]" "ks_ID k = ''kill-'' @ t @ ''-'' @ x @ ''-'' @ y" "ks_TenantID k = t" "ks_AgentID k = x @ ''-'' @ y"
    using assms(1,3,4)
    by (auto simp: handleAdminCreateKillSwitch_def UpsertKillSwitch_def sql_upsert_def kill_id_def Let_def split: if_splits prod.splits sum.splits)
  have "(\<exists>out. reply = RepliedWith 201 out) \<and> (\<exists>k'. k_switches s_end = [k'] \<and> ks_TenantID k' = t @ ''-'' @ x)"
    using assms(2,5-7) k
    by (auto simp: handleAdminCreateKillSwitch_def UpsertKillSwitch_def sql_upsert_def sql_update_def GetKillSwitch_def kill_id_def Let_def
        split: if_splits prod.splits sum.splits)
  then show ?thesis using k by (auto simp: FindActiveKill_def first_row_def)
qed

theorem kill_activation_lifts_other_witness:
  "\<exists>out1 s1 reply s2.
     handleAdminCreateKillSwitch bridge_env zero_time ''x'' True None (sample_kill_body ''acme'' ''eu-bot'') sample_kill_state = (RepliedWith 201 out1, s1)
     \<and> handleAdminCreateKillSwitch bridge_env zero_time ''y'' True None (sample_kill_body ''acme-eu'' ''bot'') s1 = (reply, s2)
     \<and> FindActiveKill ''acme'' ''eu-bot'' (k_switches s1) \<noteq> None \<and> FindActiveKill ''acme'' ''eu-bot'' (k_switches s2) = None"
proof -
  have t: "TrimSpace ''acme'' = ''acme''" "TrimSpace ''eu-bot'' = ''eu-bot''" "TrimSpace ''acme-eu'' = ''acme-eu''" "TrimSpace ''bot'' = ''bot''"
    by code_simp+
  obtain out1 s1 where h1: "handleAdminCreateKillSwitch bridge_env zero_time ''x'' True None (sample_kill_body ''acme'' ''eu-bot'') sample_kill_state = (RepliedWith 201 out1, s1)"
    using sample_activation [where t = "''acme''" and a = "''eu-bot''" and now = zero_time and sfx = "''x''"] t by auto
  obtain reply s2 where h2: "handleAdminCreateKillSwitch bridge_env zero_time ''y'' True None (sample_kill_body ''acme-eu'' ''bot'') s1 = (reply, s2)"
    by fastforce
  show ?thesis
    using kill_activation_lifts_other [where t = "''acme''" and x = "''eu''" and y = "''bot''" and p = bridge_plane and events = "[]"
        and b_first = "sample_kill_body [] []" and b_second = "sample_kill_body [] []" and env_first = bridge_env and env_second = bridge_env and now_first = zero_time
        and now_second = zero_time and sfx_first = "''x''" and sfx_second = "''y''" and au_first = True and au_second = True and ar_first = None and ar_second = None
        and out_first = out1 and s_mid = s1 and s_end = s2 and reply = reply] h1 h2 t
    by (auto simp: sample_kill_body_def sample_kill_state_def)
qed

end
