(* ===== verification/Spend_Control.thy ===== *)
theory Spend_Control
  imports Finops Kill_Drain
begin

text \<open>
  Spending: the tables of usage and of open holds (src/internal/state/sqlite/usage.go and holds.go), and
  what the control plane does with them (src/internal/api/usage.go and budget_kill.go): admission against
  the day caps, holds, routing to a cheaper agent, recording the usage of an ended run and draining a
  scope whose hard cap is breached. A point in time is the seconds since the epoch with the nanoseconds.
  A timestamp column holds the RFC 3339 text of it, and the queries compare texts: all texts have the
  same length up to the second and sort there as the seconds do, so that a column is the seconds with
  the rest of the text. Goroutines that drain a scope are recorded when they start and run as steps of
  their own. Queries fail only on a sum that is not a 64-bit integer.
\<close>

section \<open>Usage rows (sqlite/usage.go)\<close>

type_synonym moment = "int \<times> nat"

definition column :: "moment \<Rightarrow> int \<times> string" where
  "column t = (fst t, rfc3339nano [] (snd t))"

definition col_le :: "int \<times> string \<Rightarrow> int \<times> string \<Rightarrow> bool" where
  "col_le x y \<longleftrightarrow> fst x < fst y \<or> fst x = fst y \<and> snd x \<le> snd y"

definition col_less :: "int \<times> string \<Rightarrow> int \<times> string \<Rightarrow> bool" where
  "col_less x y \<longleftrightarrow> fst x < fst y \<or> fst x = fst y \<and> snd x < snd y"

definition UTCDayWindow :: "moment \<Rightarrow> moment \<times> moment" where
  "UTCDayWindow t = (let day0 = fst t - fst t mod 86400 in ((day0, 0), (day0 + 86400, 0)))"

record UsageEvent =
  ue_ID :: string
  ue_TS :: "moment option"
  ue_TenantID :: string
  ue_RunID :: string
  ue_AgentID :: string
  ue_Principal :: string
  ue_Model :: string
  ue_TokensIn :: int64
  ue_TokensOut :: int64
  ue_USDEstimate :: float64
  ue_Source :: string

definition UsageSourceTerminalOutput :: string where "UsageSourceTerminalOutput = ''terminal_output''"

definition event_row :: "ctx \<Rightarrow> moment \<Rightarrow> UsageEvent \<Rightarrow> UsageEvent" where
  "event_row cx now ev =
     ev\<lparr>ue_TenantID := (if ue_TenantID ev = [] then FromContext cx else ue_TenantID ev),
        ue_TS := Some (case ue_TS ev of None \<Rightarrow> now | Some t \<Rightarrow> t),
        ue_Source := (if ue_Source ev = [] then UsageSourceTerminalOutput else ue_Source ev)\<rparr>"

text \<open>The insert: on a row of the same run and source everything but the identifier is replaced; an
  identifier of another row is an error (None).\<close>

definition WriteUsageEvent :: "ctx \<Rightarrow> moment \<Rightarrow> UsageEvent \<Rightarrow> UsageEvent list \<Rightarrow> UsageEvent list option" where
  "WriteUsageEvent cx now ev rows =
     (let new = event_row cx now ev; same = (\<lambda>r. ue_RunID r = ue_RunID new \<and> ue_Source r = ue_Source new) in
      if list_ex same rows then Some (sql_update same (\<lambda>r. new\<lparr>ue_ID := ue_ID r\<rparr>) rows)
      else if list_ex (\<lambda>r. ue_ID r = ue_ID new) rows then None
      else Some (rows @ [new]))"

definition in_window :: "string \<Rightarrow> string \<Rightarrow> moment \<Rightarrow> moment \<Rightarrow> string \<Rightarrow> string \<Rightarrow> moment \<Rightarrow> bool" where
  "in_window tenantID agentID day0 until tid aid ts \<longleftrightarrow>
     tid = tenantID \<and> col_le (column day0) (column ts) \<and> col_less (column ts) (column until) \<and> (agentID \<noteq> [] \<longrightarrow> aid = agentID)"

definition event_counts :: "string \<Rightarrow> string \<Rightarrow> moment \<Rightarrow> moment \<Rightarrow> UsageEvent \<Rightarrow> bool" where
  "event_counts tenantID agentID day0 until e =
     (case ue_TS e of None \<Rightarrow> False | Some ts \<Rightarrow> in_window tenantID agentID day0 until (ue_TenantID e) (ue_AgentID e) ts)"

definition SumUsage :: "string \<Rightarrow> string \<Rightarrow> moment \<Rightarrow> moment \<Rightarrow> UsageEvent list \<Rightarrow> (int64 \<times> int64 \<times> float64) option" where
  "SumUsage tenantID agentID day0 until rows =
     (let es = filter (event_counts tenantID agentID day0 until) rows;
          tin = sum_list (map ue_TokensIn es); tout = sum_list (map ue_TokensOut es) in
      if is_int64 tin \<and> is_int64 tout then Some (tin, tout, sum_list (map ue_USDEstimate es)) else None)"

section \<open>Holds (sqlite/holds.go)\<close>

record UsageHold =
  uh_RunID :: string
  uh_TenantID :: string
  uh_AgentID :: string
  uh_USDHold :: float64
  uh_TokensHold :: int64
  uh_CreatedAt :: moment

definition UpsertUsageHold :: "ctx \<Rightarrow> UsageHold \<Rightarrow> UsageHold list \<Rightarrow> UsageHold list" where
  "UpsertUsageHold cx h rows =
     (if uh_RunID h = [] then rows
      else
        let new = h\<lparr>uh_TenantID := (if uh_TenantID h = [] then FromContext cx else uh_TenantID h)\<rparr> in
        if list_ex (\<lambda>r. uh_RunID r = uh_RunID h) rows then sql_update (\<lambda>r. uh_RunID r = uh_RunID h) (\<lambda>_. new) rows else rows @ [new])"

definition ReleaseUsageHold :: "string \<Rightarrow> UsageHold list \<Rightarrow> UsageHold list" where
  "ReleaseUsageHold runID rows = (if runID = [] then rows else sql_delete (\<lambda>r. uh_RunID r = runID) rows)"

definition SumUsageHolds :: "ctx \<Rightarrow> string \<Rightarrow> string \<Rightarrow> moment \<Rightarrow> moment \<Rightarrow> UsageHold list \<Rightarrow> (float64 \<times> int64 \<times> nat) option" where
  "SumUsageHolds cx tenantID agentID day0 until rows =
     (let tid = (if tenantID = [] then FromContext cx else tenantID);
          hs = filter (\<lambda>h. in_window tid agentID day0 until (uh_TenantID h) (uh_AgentID h) (uh_CreatedAt h)) rows;
          toks = sum_list (map uh_TokensHold hs) in
      if is_int64 toks then Some (sum_list (map uh_USDHold hs), toks, length hs) else None)"

definition ExpireUsageHolds :: "moment \<Rightarrow> UsageHold list \<Rightarrow> nat \<times> UsageHold list" where
  "ExpireUsageHolds olderThan rows =
     (let gone = (\<lambda>h. col_less (column (uh_CreatedAt h)) (column olderThan)) in
      (length (filter gone rows), sql_delete gone rows))"

section \<open>Admission (api/usage.go)\<close>

text \<open>\<open>sp_sql\<close> tells whether the state backend has the usage tables at all.\<close>

record Spend =
  sp_config :: "FinConfig option"
  sp_sql :: bool
  sp_events :: "UsageEvent list"
  sp_holds :: "UsageHold list"
  sp_plane :: Plane
  sp_audit :: "AuditEvent list"
  sp_alerts :: "(string \<times> string) list"
  sp_seen :: "(string \<times> int) list"
  sp_drains :: "(string \<times> string \<times> string) list"

record SpendEnv =
  se_ctx :: ctx
  se_now :: moment
  se_actor :: "AuthResult option"
  se_suffix :: "string option"
  se_sinks :: bool

definition ReasonBudgetExceeded :: string where "ReasonBudgetExceeded = ''budget_exceeded''"
definition ReasonBudgetSoft :: string where "ReasonBudgetSoft = ''budget_soft''"
definition ReasonBudgetAlert :: string where "ReasonBudgetAlert = ''budget_alert''"
definition ReasonBudgetKill :: string where "ReasonBudgetKill = ''budget_kill''"
definition ReasonUsageUnpriced :: string where "ReasonUsageUnpriced = ''usage_unpriced''"
definition ReasonUsageUnmetered :: string where "ReasonUsageUnmetered = ''usage_unmetered''"

definition create_audit :: "string \<Rightarrow> string \<Rightarrow> string \<Rightarrow> string \<Rightarrow> string \<Rightarrow> (string \<times> json) list \<Rightarrow> AuditEvent" where
  "create_audit tenantID agentID runID decision reasonCode attrs =
     zero_audit\<lparr>a_TenantID := tenantID, a_Action := StageRunCreate, a_ResourceType := ''agent'', a_ResourceID := agentID,
       a_Decision := decision, a_ReasonCode := reasonCode, a_AgentID := agentID, a_RunID := runID, a_Attrs := attrs\<rparr>"

definition writeAdmissionDenyAudit :: "string option \<Rightarrow> AuthResult option \<Rightarrow> string \<Rightarrow> string \<Rightarrow> string \<Rightarrow> string \<Rightarrow> string \<Rightarrow> AuditEvent list \<Rightarrow> AuditEvent list" where
  "writeAdmissionDenyAudit sfx ar tenantID agentID runID reasonCode reason audit =
     writeSecurityAudit sfx ((create_audit tenantID agentID runID EffectDeny reasonCode [(''reason'', JStr reason)])\<lparr>a_Actor := identity_of ar\<rparr>) audit"

text \<open>An alert that reaches the sinks: its reason code and its text.\<close>

definition emitBudgetAlert :: "SpendEnv \<Rightarrow> string \<Rightarrow> BudgetVerdict \<Rightarrow> Spend \<Rightarrow> Spend" where
  "emitBudgetAlert env reasonCode v s = (if se_sinks env then s\<lparr>sp_alerts := sp_alerts s @ [(reasonCode, bv_Reason v)]\<rparr> else s)"

definition shouldEmitApproachAlert :: "string \<Rightarrow> string \<Rightarrow> string \<Rightarrow> string \<Rightarrow> moment \<Rightarrow> Spend \<Rightarrow> bool \<times> Spend" where
  "shouldEmitApproachAlert tenantID agentID scope capKind now s =
     (let key = (tenantID @ ''|'' @ agentID @ ''|'' @ scope @ ''|'' @ capKind, fst now div 86400) in
      if key \<in> set (sp_seen s) then (False, s) else (True, s\<lparr>sp_seen := key # sp_seen s\<rparr>))"

definition loadSnap :: "SpendEnv \<Rightarrow> string \<Rightarrow> string \<Rightarrow> Spend \<Rightarrow> UsageSnapshot option" where
  "loadSnap env tenantID agent s =
     (case UTCDayWindow (se_now env) of (day0, until) \<Rightarrow>
        (case SumUsage tenantID agent day0 until (sp_events s) of
           None \<Rightarrow> None
         | Some (tin, tout, usd) \<Rightarrow>
             (case SumUsageHolds (se_ctx env) tenantID agent day0 until (sp_holds s) of
                None \<Rightarrow> None
              | Some (holdUSD, holdTok, _) \<Rightarrow>
                  Some \<lparr>us_TokensIn = i64 (tin + holdTok), us_TokensOut = tout, us_USD = usd + holdUSD,
                        us_Runs = int (countSince tenantID (p_store (sp_plane s)) (fst day0) agent)\<rparr>)))"

datatype scan = ScanFailed | OverHard BudgetVerdict | Passed "BudgetVerdict option" "BudgetVerdict option"

fun budget_scan :: "(string \<Rightarrow> UsageSnapshot option) \<Rightarrow> float64 \<Rightarrow> (BudgetCap option \<times> string \<times> string) list
    \<Rightarrow> BudgetVerdict option \<Rightarrow> BudgetVerdict option \<Rightarrow> scan" where
  "budget_scan snaps softPct [] soft approach = Passed soft approach"
| "budget_scan snaps softPct ((None, agent, scope) # ps) soft approach = budget_scan snaps softPct ps soft approach"
| "budget_scan snaps softPct ((Some cap, agent, scope) # ps) soft approach =
     (case snaps agent of
        None \<Rightarrow> ScanFailed
      | Some snap \<Rightarrow>
          let v = EvaluateCap (Some cap) snap scope in
          if bv_Hard v then OverHard v
          else
            let soft' = (if bv_Soft v \<and> soft = None then Some v else soft) in
            budget_scan snaps softPct ps soft'
              (if soft' = None \<and> approach = None then ApproachCap (Some cap) snap scope softPct else approach))"

definition budget_pairs :: "Spend \<Rightarrow> string \<Rightarrow> string \<Rightarrow> (BudgetCap option \<times> string \<times> string) list" where
  "budget_pairs s tenantID agentID =
     (case LookupCaps (sp_config s) tenantID agentID of (tenantCap, agentCap) \<Rightarrow>
        [(tenantCap, [], ''tenant''), (agentCap, agentID, ''agent'')])"

definition soft_audit :: "string \<Rightarrow> string \<Rightarrow> string \<Rightarrow> string \<Rightarrow> BudgetVerdict \<Rightarrow> (string \<times> json) list \<Rightarrow> AuditEvent" where
  "soft_audit tenantID agentID runID reasonCode v extra =
     create_audit tenantID agentID runID EffectAllow reasonCode
       ([(''reason'', JStr (bv_Reason v)), (''scope'', JStr (bv_Scope v)), (''kind'', JStr (bv_CapKind v))] @ extra)"

definition checkBudgetAdmission :: "StdText \<Rightarrow> SpendEnv \<Rightarrow> string \<Rightarrow> string \<Rightarrow> string \<Rightarrow> Spend \<Rightarrow> (bool \<times> string) \<times> Spend" where
  "checkBudgetAdmission sx env tenantID agentID runID s =
     (if \<not> fin_Enabled (sp_config s) \<or> \<not> sp_sql s then ((True, []), s)
      else case LookupCaps (sp_config s) tenantID agentID of (tenantCap, agentCap) \<Rightarrow>
        if tenantCap = None \<and> agentCap = None then ((True, []), s)
        else case budget_scan (\<lambda>agent. loadSnap env tenantID agent s) (SoftPct (sp_config s)) (budget_pairs s tenantID agentID) None None of
          ScanFailed \<Rightarrow> ((False, ''budget lookup failed''), s)
        | OverHard v \<Rightarrow>
            let s1 = s\<lparr>sp_audit := writeAdmissionDenyAudit (se_suffix env) (se_actor env) tenantID agentID runID ReasonBudgetExceeded (bv_Reason v) (sp_audit s)\<rparr>;
                s2 = emitBudgetAlert env ReasonBudgetExceeded v s1;
                s3 = (if CancelInflightOnHardBreach (sp_config s)
                      then s2\<lparr>sp_drains := sp_drains s2 @ [(tenantID, if bv_Scope v = ''agent'' then agentID else [], ''admission'')]\<rparr> else s2)
            in ((False, bv_Reason v), s3)
        | Passed (Some v) _ \<Rightarrow>
            ((True, []), emitBudgetAlert env ReasonBudgetSoft v
               (s\<lparr>sp_audit := writeSecurityAudit (se_suffix env) (soft_audit tenantID agentID runID ReasonBudgetSoft v []) (sp_audit s)\<rparr>))
        | Passed None (Some v) \<Rightarrow>
            ((True, []),
             case shouldEmitApproachAlert tenantID agentID (bv_Scope v) (bv_CapKind v) (se_now env) s of
               (False, s1) \<Rightarrow> s1
             | (True, s1) \<Rightarrow>
                 emitBudgetAlert env ReasonBudgetAlert v
                   (s1\<lparr>sp_audit := writeSecurityAudit (se_suffix env) (soft_audit tenantID agentID runID ReasonBudgetAlert v
                       [(''soft_pct'', JNum (sx_FormatFloat sx (SoftPct (sp_config s))))]) (sp_audit s1)\<rparr>))
        | Passed None None \<Rightarrow> ((True, []), s))"

section \<open>Holds and routing (api/usage.go)\<close>

text \<open>The fields of a run that spending reads.\<close>

record TerminalRun =
  tr_RunID :: string
  tr_TenantID :: string
  tr_AgentID :: string
  tr_Status :: RunStatus
  tr_Output :: "json option"
  tr_UpdatedAt :: moment
  tr_Simulation :: bool
  tr_CacheHit :: bool

definition placeUsageHold :: "SpendEnv \<Rightarrow> TerminalRun \<Rightarrow> Spend \<Rightarrow> Spend" where
  "placeUsageHold env run s =
     (if \<not> ReservationEnabled (sp_config s) \<or> tr_Simulation run \<or> \<not> sp_sql s then s
      else case ReservationFor (sp_config s) (tr_TenantID run) (tr_AgentID run) of (usd, tokens) \<Rightarrow>
        if usd \<le> 0 \<and> tokens \<le> 0 then s
        else s\<lparr>sp_holds := UpsertUsageHold (se_ctx env)
               \<lparr>uh_RunID = tr_RunID run, uh_TenantID = tr_TenantID run, uh_AgentID = tr_AgentID run, uh_USDHold = usd, uh_TokensHold = tokens,
                uh_CreatedAt = se_now env\<rparr> (sp_holds s)\<rparr>)"

definition releaseUsageHold :: "string \<Rightarrow> Spend \<Rightarrow> Spend" where
  "releaseUsageHold runID s = (if sp_sql s then s\<lparr>sp_holds := ReleaseUsageHold runID (sp_holds s)\<rparr> else s)"

definition routing_targets :: "FinConfig \<Rightarrow> string \<Rightarrow> string \<Rightarrow> string list" where
  "routing_targets cfg aliasKey agentID =
     (let targets = (\<lambda>key. if key = [] then [] else case map_of (rt_Aliases (cf_Routing cfg)) key of None \<Rightarrow> [] | Some t \<Rightarrow> t) in
      if targets aliasKey \<noteq> [] then targets aliasKey else targets agentID)"

text \<open>Here and after the end of a run a failed sum of holds counts as none, and a failed sum of usage
  passes over the cap.\<close>

definition load_lenient :: "SpendEnv \<Rightarrow> string \<Rightarrow> string \<Rightarrow> Spend \<Rightarrow> UsageSnapshot option" where
  "load_lenient env tenantID agent s =
     (case UTCDayWindow (se_now env) of (day0, until) \<Rightarrow>
        (case SumUsage tenantID agent day0 until (sp_events s) of
           None \<Rightarrow> None
         | Some (tin, tout, usd) \<Rightarrow>
             let runs = int (countSince tenantID (p_store (sp_plane s)) (fst day0) agent) in
             (case SumUsageHolds (se_ctx env) tenantID agent day0 until (sp_holds s) of
                None \<Rightarrow> Some \<lparr>us_TokensIn = tin, us_TokensOut = tout, us_USD = usd, us_Runs = runs\<rparr>
              | Some (hu, ht, _) \<Rightarrow> Some \<lparr>us_TokensIn = i64 (tin + ht), us_TokensOut = tout, us_USD = usd + hu, us_Runs = runs\<rparr>)))"

definition near_cap :: "(string \<Rightarrow> UsageSnapshot option) \<Rightarrow> float64 \<Rightarrow> BudgetCap option \<times> string \<times> string \<Rightarrow> bool" where
  "near_cap snaps pct pair =
     (case pair of (c, agent, scope) \<Rightarrow>
        c \<noteq> None \<and> (case snaps agent of
          None \<Rightarrow> False
        | Some snap \<Rightarrow> ApproachCap c snap scope pct \<noteq> None \<or> bv_Soft (EvaluateCap c snap scope) \<or> bv_Hard (EvaluateCap c snap scope)))"

definition applyFinOpsRouting :: "SpendEnv \<Rightarrow> string \<Rightarrow> string \<Rightarrow> string \<Rightarrow> Spend \<Rightarrow> (string \<times> string) \<times> Spend" where
  "applyFinOpsRouting env tenantID agentID aliasKey s =
     (case sp_config s of
        None \<Rightarrow> ((agentID, []), s)
      | Some cfg \<Rightarrow>
          if \<not> rt_Enabled (cf_Routing cfg) \<or> rt_Aliases (cf_Routing cfg) = [] then ((agentID, []), s)
          else case routing_targets cfg aliasKey agentID of
            [] \<Rightarrow> ((agentID, []), s)
          | to_agent # _ \<Rightarrow>
              if \<not> sp_sql s then ((agentID, []), s)
              else if \<not> list_ex (near_cap (\<lambda>agent. load_lenient env tenantID agent s) (RoutingSoftPct (sp_config s))) (budget_pairs s tenantID agentID)
              then ((agentID, []), s)
              else ((to_agent, agentID),
                    s\<lparr>sp_audit := writeSecurityAudit (se_suffix env)
                        (create_audit tenantID to_agent [] EffectAllow ''budget_route''
                           [(''from_agent_id'', JStr agentID), (''to_agent_id'', JStr to_agent)]) (sp_audit s)\<rparr>))"

section \<open>Recording the usage of an ended run (api/usage.go, a2a.go)\<close>

record RunUsage =
  ru_PromptTokens :: int64
  ru_CompletionTokens :: int64
  ru_TotalTokens :: int64
  ru_CostUSD :: float64
  ru_Unmetered :: bool

record usage_doc = RunUsage +
  ud_Model :: string

definition zero_usage :: usage_doc where
  "zero_usage = \<lparr>ru_PromptTokens = 0, ru_CompletionTokens = 0, ru_TotalTokens = 0, ru_CostUSD = 0, ru_Unmetered = False, ud_Model = []\<rparr>"

definition usage_fields :: "(string \<times> (json \<Rightarrow> usage_doc \<Rightarrow> usage_doc option)) list" where
  "usage_fields =
     [(''prompt_tokens'', into_int (\<lambda>x. ru_PromptTokens_update (\<lambda>_. x))), (''completion_tokens'', into_int (\<lambda>x. ru_CompletionTokens_update (\<lambda>_. x))),
      (''total_tokens'', into_int (\<lambda>x. ru_TotalTokens_update (\<lambda>_. x))), (''cost_usd'', into_float (\<lambda>x. ru_CostUSD_update (\<lambda>_. x))),
      (''unmetered'', into_bool (\<lambda>x. ru_Unmetered_update (\<lambda>_. x))), (''model'', into_string (\<lambda>x. ud_Model_update (\<lambda>_. x)))]"

definition extractRunUsageWithModel :: "json \<Rightarrow> usage_doc" where
  "extractRunUsageWithModel output =
     (case into_struct [(''usage'', into_struct usage_fields)] output zero_usage of
        None \<Rightarrow> zero_usage
      | Some u \<Rightarrow>
          if ru_TotalTokens u = 0 \<and> (ru_PromptTokens u > 0 \<or> ru_CompletionTokens u > 0)
          then u\<lparr>ru_TotalTokens := i64 (ru_PromptTokens u + ru_CompletionTokens u)\<rparr> else u)"

definition usage_audit :: "TerminalRun \<Rightarrow> string \<Rightarrow> (string \<times> json) list \<Rightarrow> AuditEvent" where
  "usage_audit run reasonCode attrs = create_audit (tr_TenantID run) (tr_AgentID run) (tr_RunID run) EffectAllow reasonCode attrs"

definition usage_alerts :: "SpendEnv \<Rightarrow> Pricebook \<Rightarrow> TerminalRun \<Rightarrow> usage_doc \<Rightarrow> AuditEvent list \<Rightarrow> AuditEvent list" where
  "usage_alerts env pb run u audit =
     (let unpriced = (if ru_CostUSD u = 0 \<and> (ru_PromptTokens u > 0 \<or> ru_CompletionTokens u > 0) \<and> pb \<noteq> [] \<and> \<not> HasModel pb (ud_Model u)
                      then writeSecurityAudit (se_suffix env) (usage_audit run ReasonUsageUnpriced
                             [(''model'', JStr (ud_Model u)), (''prompt_tokens'', JNum (Itoa (ru_PromptTokens u))),
                              (''completion_tokens'', JNum (Itoa (ru_CompletionTokens u)))]) audit
                      else audit) in
      if ru_Unmetered u then writeSecurityAudit (se_suffix env) (usage_audit run ReasonUsageUnmetered [(''model'', JStr (ud_Model u))]) unpriced
      else unpriced)"

definition usage_event :: "Pricebook \<Rightarrow> TerminalRun \<Rightarrow> usage_doc \<Rightarrow> UsageEvent" where
  "usage_event pb run u =
     \<lparr>ue_ID = ''usage-'' @ tr_RunID run, ue_TS = Some (tr_UpdatedAt run), ue_TenantID = tr_TenantID run, ue_RunID = tr_RunID run,
      ue_AgentID = tr_AgentID run, ue_Principal = [], ue_Model = ud_Model u, ue_TokensIn = ru_PromptTokens u, ue_TokensOut = ru_CompletionTokens u,
      ue_USDEstimate = EstimateUSD pb (ud_Model u) (ru_PromptTokens u) (ru_CompletionTokens u) (ru_CostUSD u),
      ue_Source = UsageSourceTerminalOutput\<rparr>"

definition metered :: "TerminalRun \<Rightarrow> usage_doc option" where
  "metered run =
     (case tr_Output run of
        None \<Rightarrow> None
      | Some output \<Rightarrow>
          let u = extractRunUsageWithModel output in
          if tr_Simulation run \<or> tr_CacheHit run \<or> \<not> TerminalRunStatus (tr_Status run) then None
          else if ru_PromptTokens u = 0 \<and> ru_CompletionTokens u = 0 \<and> ru_CostUSD u = 0 \<and> \<not> ru_Unmetered u then None
          else Some u)"

definition persistTerminalUsage :: "SpendEnv \<Rightarrow> TerminalRun \<Rightarrow> bool \<Rightarrow> Spend \<Rightarrow> bool \<times> Spend" where
  "persistTerminalUsage env run alerts s =
     (case metered run of
        None \<Rightarrow> (True, s)
      | Some u \<Rightarrow>
          if \<not> sp_sql s then (True, s)
          else
            let pb = (case sp_config s of None \<Rightarrow> [] | Some cfg \<Rightarrow> cf_Pricebook cfg);
                s1 = (if alerts then s\<lparr>sp_audit := usage_alerts env pb run u (sp_audit s)\<rparr> else s) in
            (case WriteUsageEvent (se_ctx env) (se_now env) (usage_event pb run u) (sp_events s1) of
               None \<Rightarrow> (False, s1)
             | Some rows \<Rightarrow> (True, s1\<lparr>sp_events := rows\<rparr>)))"

section \<open>Draining a breached scope (api/budget_kill.go)\<close>

definition cancelInflightForBudget :: "Env \<Rightarrow> SpendEnv \<Rightarrow> string \<Rightarrow> string \<Rightarrow> string \<Rightarrow> Spend \<Rightarrow> Spend" where
  "cancelInflightForBudget penv env tenantID agentID trigger s =
     (if \<not> CancelInflightOnHardBreach (sp_config s) \<or> tenantID = [] then s
      else case drainKillScope penv (se_ctx env) tenantID agentID (sp_plane s) of (n, p) \<Rightarrow>
        s\<lparr>sp_plane := p,
          sp_audit := writeSecurityAudit (se_suffix env)
            (create_audit tenantID agentID [] EffectDeny ReasonBudgetKill
               [(''trigger'', JStr trigger), (''cancelled'', JNum (nat_digits n)), (''scope'', JStr (if agentID = [] then ''tenant'' else ''agent''))])
            (sp_audit s)\<rparr>)"

definition hard_breach :: "(string \<Rightarrow> UsageSnapshot option) \<Rightarrow> BudgetCap option \<times> string \<times> string \<Rightarrow> bool" where
  "hard_breach snaps pair =
     (case pair of (c, agent, scope) \<Rightarrow>
        c \<noteq> None \<and> (case snaps agent of None \<Rightarrow> False | Some snap \<Rightarrow> bv_Hard (EvaluateCap c snap scope)))"

definition maybeCancelInflightAfterTerminal :: "SpendEnv \<Rightarrow> TerminalRun \<Rightarrow> Spend \<Rightarrow> Spend" where
  "maybeCancelInflightAfterTerminal env run s =
     (if \<not> CancelInflightOnHardBreach (sp_config s) \<or> \<not> fin_Enabled (sp_config s) \<or> \<not> sp_sql s then s
      else case find (hard_breach (\<lambda>agent. load_lenient env (tr_TenantID run) agent s)) (budget_pairs s (tr_TenantID run) (tr_AgentID run)) of
        None \<Rightarrow> s
      | Some (_, _, scope) \<Rightarrow>
          s\<lparr>sp_drains := sp_drains s @ [(tr_TenantID run, if scope = ''agent'' then tr_AgentID run else [], ''terminal_ingest'')]\<rparr>)"

text \<open>The part of the finalization of a run that concerns spending (completion.go).\<close>

definition finalize_spend :: "SpendEnv \<Rightarrow> TerminalRun \<Rightarrow> bool \<Rightarrow> Spend \<Rightarrow> bool \<times> Spend" where
  "finalize_spend env run applied s =
     (case persistTerminalUsage env run applied s of
        (False, s1) \<Rightarrow> (False, s1)
      | (True, s1) \<Rightarrow> (True, maybeCancelInflightAfterTerminal env run (releaseUsageHold (tr_RunID run) s1)))"

section \<open>The verdict of admission\<close>

lemma find_None_list_ex: "find P xs = None \<longleftrightarrow> \<not> list_ex P xs"
  by (auto simp: find_None_iff list_ex_iff)

definition cap_reached :: "BudgetCap \<Rightarrow> UsageSnapshot \<Rightarrow> bool" where
  "cap_reached cap snap \<longleftrightarrow> (bc_MaxUSDPerDay cap > 0 \<and> us_USD snap \<ge> bc_MaxUSDPerDay cap)
     \<or> (bc_MaxTokensPerDay cap > 0 \<and> Tokens snap \<ge> bc_MaxTokensPerDay cap) \<or> (bc_MaxRunsPerDay cap > 0 \<and> us_Runs snap \<ge> bc_MaxRunsPerDay cap)"

lemma EvaluateCap_hard: "bv_Hard (EvaluateCap (Some cap) snap scope) \<longleftrightarrow> \<not> bc_Soft cap \<and> cap_reached cap snap"
proof (cases "find snd (cap_over cap snap)")
  case None
  then have "\<not> list_ex snd (cap_over cap snap)" using find_None_list_ex [of snd "cap_over cap snap"] by simp
  then show ?thesis using None by (auto simp: EvaluateCap_def allow_verdict_def cap_over_def cap_reached_def)
next
  case (Some kv)
  then have "list_ex snd (cap_over cap snap)" using find_None_list_ex [of snd "cap_over cap snap"] by simp
  then show ?thesis using Some by (auto simp: EvaluateCap_def cap_over_def cap_reached_def split: prod.splits)
qed

lemma EvaluateCap_scope: "bv_Hard (EvaluateCap (Some cap) snap scope) \<Longrightarrow> bv_Scope (EvaluateCap (Some cap) snap scope) = scope"
  by (auto simp: EvaluateCap_def allow_verdict_def split: option.splits)

lemma budget_scan_passes:
  "(\<exists>x y. budget_scan snaps pct ps soft approach = Passed x y)
    \<longleftrightarrow> (\<forall>(c, agent, scope)\<in>set ps. \<forall>cap. c = Some cap \<longrightarrow> (\<exists>snap. snaps agent = Some snap \<and> \<not> bv_Hard (EvaluateCap (Some cap) snap scope)))"
  by (induction snaps pct ps soft approach rule: budget_scan.induct) (auto simp: Let_def split: option.splits)

section \<open>Histories of the tables\<close>

datatype spend_op =
    HoldPlaced SpendEnv TerminalRun
  | RunFinalized SpendEnv TerminalRun bool
  | HoldReleased string
  | HoldsExpired moment

fun spend_exec :: "spend_op \<Rightarrow> Spend \<Rightarrow> Spend" where
  "spend_exec (HoldPlaced env run) s = placeUsageHold env run s"
| "spend_exec (RunFinalized env run applied) s = snd (finalize_spend env run applied s)"
| "spend_exec (HoldReleased runID) s = releaseUsageHold runID s"
| "spend_exec (HoldsExpired olderThan) s = s\<lparr>sp_holds := snd (ExpireUsageHolds olderThan (sp_holds s))\<rparr>"

definition events_ok :: "UsageEvent list \<Rightarrow> bool" where
  "events_ok es \<longleftrightarrow> distinct (map ue_RunID es) \<and> (\<forall>e\<in>set es. ue_ID e = ''usage-'' @ ue_RunID e \<and> ue_Source e = UsageSourceTerminalOutput)"

definition spend_ok :: "Spend \<Rightarrow> bool" where
  "spend_ok s \<longleftrightarrow> events_ok (sp_events s) \<and> distinct (map uh_RunID (sp_holds s))"

lemma source_nonempty [simp]: "UsageSourceTerminalOutput \<noteq> []" "[] \<noteq> UsageSourceTerminalOutput"
  by (simp_all add: UsageSourceTerminalOutput_def)

lemma event_row_usage: "event_row cx now (usage_event pb run u)
   = (usage_event pb run u)\<lparr>ue_TenantID := (if tr_TenantID run = [] then FromContext cx else tr_TenantID run)\<rparr>"
  by (simp add: event_row_def usage_event_def)

lemma update_keeps_key: "(\<And>r. g (f r) = g r \<or> \<not> p r) \<Longrightarrow> map g (sql_update p f rows) = map g rows"
  by (induction rows) (auto simp: sql_update_def)

text \<open>Writing the usage of a run never fails on consistent tables, replaces the row of the run or adds it.\<close>

lemma write_usage:
  assumes "events_ok rows" "new = event_row cx now (usage_event pb run u)"
  obtains rows' where "WriteUsageEvent cx now (usage_event pb run u) rows = Some rows'" "events_ok rows'"
    "\<And>e. e \<in> set rows' \<longleftrightarrow> e = new \<or> e \<in> set rows \<and> ue_RunID e \<noteq> tr_RunID run"
proof -
  let ?same = "\<lambda>r. ue_RunID r = ue_RunID new \<and> ue_Source r = ue_Source new"
  have new: "ue_RunID new = tr_RunID run" "ue_ID new = ''usage-'' @ tr_RunID run" "ue_Source new = UsageSourceTerminalOutput"
    unfolding assms(2) event_row_usage by (simp_all add: usage_event_def)
  have rows: "distinct (map ue_RunID rows)" "\<And>e. e \<in> set rows \<Longrightarrow> ue_ID e = ''usage-'' @ ue_RunID e \<and> ue_Source e = UsageSourceTerminalOutput"
    using assms(1) by (auto simp: events_ok_def)
  show thesis
  proof (cases "list_ex ?same rows")
    case True
    let ?rows = "sql_update ?same (\<lambda>r. new\<lparr>ue_ID := ue_ID r\<rparr>) rows"
    have keep: "new\<lparr>ue_ID := ue_ID r\<rparr> = new" if "r \<in> set rows" "ue_RunID r = ue_RunID new" for r
      using rows(2) [OF that(1)] that(2) new by simp
    have mem: "e \<in> set ?rows \<longleftrightarrow> e = new \<or> e \<in> set rows \<and> ue_RunID e \<noteq> tr_RunID run" for e
      using True keep rows(2) new by (auto simp: sql_update_def list_ex_iff image_iff)
    have "map ue_RunID ?rows = map ue_RunID rows" using new by (intro update_keeps_key) auto
    then have "events_ok ?rows" using rows mem new unfolding events_ok_def by auto
    moreover have "WriteUsageEvent cx now (usage_event pb run u) rows = Some ?rows"
      using True by (simp add: WriteUsageEvent_def Let_def assms(2) [symmetric])
    ultimately show thesis using mem that by blast
  next
    case False
    then have fresh: "ue_RunID e \<noteq> tr_RunID run" if "e \<in> set rows" for e using rows(2) [OF that] that new by (auto simp: list_ex_iff)
    then have id: "\<not> list_ex (\<lambda>r. ue_ID r = ue_ID new) rows" using rows(2) new by (auto simp: list_ex_iff)
    have "WriteUsageEvent cx now (usage_event pb run u) rows = Some (rows @ [new])"
      using False id by (simp add: WriteUsageEvent_def Let_def assms(2) [symmetric])
    moreover have "tr_RunID run \<notin> ue_RunID ` set rows" by (metis fresh imageE)
    then have "events_ok (rows @ [new])" using rows new by (auto simp: events_ok_def)
    ultimately show thesis using fresh by (intro that [of "rows @ [new]"]) auto
  qed
qed

lemma persist_usage:
  assumes "spend_ok s" "persistTerminalUsage env run alerts s = (ok, s')"
  shows "ok" "spend_ok s'" "sp_holds s' = sp_holds s" "sp_sql s' = sp_sql s" "sp_config s' = sp_config s"
    "metered run = None \<or> \<not> sp_sql s \<Longrightarrow> sp_events s' = sp_events s"
    "metered run = Some u \<Longrightarrow> sp_sql s \<Longrightarrow> e \<in> set (sp_events s') \<longleftrightarrow>
       e = event_row (se_ctx env) (se_now env) (usage_event (case sp_config s of None \<Rightarrow> [] | Some cfg \<Rightarrow> cf_Pricebook cfg) run u)
       \<or> e \<in> set (sp_events s) \<and> ue_RunID e \<noteq> tr_RunID run"
proof -
  have "ok \<and> spend_ok s' \<and> sp_holds s' = sp_holds s \<and> sp_sql s' = sp_sql s \<and> sp_config s' = sp_config s
    \<and> (metered run = None \<or> \<not> sp_sql s \<longrightarrow> sp_events s' = sp_events s)
    \<and> (\<forall>u e. metered run = Some u \<longrightarrow> sp_sql s \<longrightarrow> (e \<in> set (sp_events s') \<longleftrightarrow>
       e = event_row (se_ctx env) (se_now env) (usage_event (case sp_config s of None \<Rightarrow> [] | Some cfg \<Rightarrow> cf_Pricebook cfg) run u)
       \<or> e \<in> set (sp_events s) \<and> ue_RunID e \<noteq> tr_RunID run))"
  proof (cases "metered run = None \<or> \<not> sp_sql s")
    case True
    then show ?thesis using assms by (auto simp: persistTerminalUsage_def split: option.splits)
  next
    case False
    then obtain u where u: "metered run = Some u" "sp_sql s" by auto
    let ?pb = "case sp_config s of None \<Rightarrow> [] | Some cfg \<Rightarrow> cf_Pricebook cfg"
    obtain rows' where w: "WriteUsageEvent (se_ctx env) (se_now env) (usage_event ?pb run u) (sp_events s) = Some rows'" "events_ok rows'"
      "\<And>e. e \<in> set rows' \<longleftrightarrow> e = event_row (se_ctx env) (se_now env) (usage_event ?pb run u) \<or> e \<in> set (sp_events s) \<and> ue_RunID e \<noteq> tr_RunID run"
      using write_usage [OF _ refl] assms(1) unfolding spend_ok_def by metis
    have "ok" "s' = (if alerts then s\<lparr>sp_audit := usage_alerts env ?pb run u (sp_audit s)\<rparr> else s)\<lparr>sp_events := rows'\<rparr>"
      using assms(2) u w(1) by (auto simp: persistTerminalUsage_def Let_def split: if_splits)
    then show ?thesis using assms(1) u w(2,3) by (simp add: spend_ok_def)
  qed
  then show "ok" "spend_ok s'" "sp_holds s' = sp_holds s" "sp_sql s' = sp_sql s" "sp_config s' = sp_config s"
    "metered run = None \<or> \<not> sp_sql s \<Longrightarrow> sp_events s' = sp_events s"
    "metered run = Some u \<Longrightarrow> sp_sql s \<Longrightarrow> e \<in> set (sp_events s') \<longleftrightarrow>
       e = event_row (se_ctx env) (se_now env) (usage_event (case sp_config s of None \<Rightarrow> [] | Some cfg \<Rightarrow> cf_Pricebook cfg) run u)
       \<or> e \<in> set (sp_events s) \<and> ue_RunID e \<noteq> tr_RunID run"
    by blast+
qed

lemma after_terminal_frame:
  "sp_events (maybeCancelInflightAfterTerminal env run s) = sp_events s" "sp_holds (maybeCancelInflightAfterTerminal env run s) = sp_holds s"
  "sp_sql (maybeCancelInflightAfterTerminal env run s) = sp_sql s" "sp_config (maybeCancelInflightAfterTerminal env run s) = sp_config s"
  by (auto simp: maybeCancelInflightAfterTerminal_def split: option.splits prod.splits)

lemma release_frame:
  "sp_events (releaseUsageHold i s) = sp_events s" "sp_sql (releaseUsageHold i s) = sp_sql s" "sp_config (releaseUsageHold i s) = sp_config s"
  "sp_holds (releaseUsageHold i s) = (if sp_sql s \<and> i \<noteq> [] then filter (\<lambda>h. uh_RunID h \<noteq> i) (sp_holds s) else sp_holds s)"
  by (simp_all add: releaseUsageHold_def ReleaseUsageHold_def sql_delete_def)

lemma finalize_spend_unfold:
  assumes "spend_ok s"
  obtains s1 where "persistTerminalUsage env run applied s = (True, s1)"
    "finalize_spend env run applied s = (True, maybeCancelInflightAfterTerminal env run (releaseUsageHold (tr_RunID run) s1))"
proof -
  obtain ok s1 where p: "persistTerminalUsage env run applied s = (ok, s1)" by (cases "persistTerminalUsage env run applied s")
  moreover have "ok" by (rule persist_usage(1) [OF assms p])
  ultimately show thesis using that [of s1] by (simp add: finalize_spend_def)
qed

lemma distinct_filter_map: "distinct (map f xs) \<Longrightarrow> distinct (map f (filter p xs))"
  by (induction xs) auto

lemma finalize_ok:
  assumes "spend_ok s"
  shows "spend_ok (snd (finalize_spend env run applied s))"
proof -
  obtain s1 where s1: "persistTerminalUsage env run applied s = (True, s1)"
    "finalize_spend env run applied s = (True, maybeCancelInflightAfterTerminal env run (releaseUsageHold (tr_RunID run) s1))"
    by (rule finalize_spend_unfold [OF assms])
  have "spend_ok s1" by (rule persist_usage(2) [OF assms s1(1)])
  then show ?thesis by (simp add: s1(2) spend_ok_def after_terminal_frame release_frame distinct_filter_map)
qed

lemma upsert_hold_distinct:
  assumes "distinct (map uh_RunID rows)"
  shows "distinct (map uh_RunID (UpsertUsageHold cx h rows))"
proof -
  have "map uh_RunID (sql_update (\<lambda>r. uh_RunID r = uh_RunID h) (\<lambda>_. h\<lparr>uh_TenantID := x\<rparr>) rows) = map uh_RunID rows" for x
    by (induction rows) (auto simp: sql_update_def)
  then show ?thesis using assms by (auto simp: UpsertUsageHold_def Let_def list_ex_iff)
qed

lemma spend_exec_ok: "spend_ok s \<Longrightarrow> spend_ok (spend_exec op s)"
proof (cases op)
  case (HoldPlaced env run)
  assume "spend_ok s"
  then show ?thesis using upsert_hold_distinct by (auto simp: HoldPlaced placeUsageHold_def spend_ok_def split: prod.splits)
next
  case (RunFinalized env run applied)
  assume "spend_ok s"
  then show ?thesis by (simp add: RunFinalized finalize_ok)
next
  case (HoldReleased i)
  assume "spend_ok s"
  then show ?thesis by (simp add: HoldReleased spend_ok_def release_frame distinct_filter_map)
next
  case (HoldsExpired t)
  assume "spend_ok s"
  then show ?thesis by (simp add: HoldsExpired spend_ok_def ExpireUsageHolds_def sql_delete_def distinct_filter_map)
qed

lemma spend_run_ok: "spend_ok s \<Longrightarrow> spend_ok (fold spend_exec ops s)"
  by (induction ops arbitrary: s) (simp_all add: spend_exec_ok)

section \<open>Sample values\<close>

definition sample_spend :: "Plane \<Rightarrow> Spend" where
  "sample_spend p = \<lparr>sp_config = Some sample_finops, sp_sql = True, sp_events = [], sp_holds = [], sp_plane = p, sp_audit = [], sp_alerts = [],
     sp_seen = [], sp_drains = []\<rparr>"

definition sample_spend_env :: SpendEnv where
  "sample_spend_env = \<lparr>se_ctx = \<lparr>ctx_tenant = None, ctx_system = False\<rparr>, se_now = (86400, 0), se_actor = None, se_suffix = None, se_sinks = False\<rparr>"

definition sample_ended :: TerminalRun where
  "sample_ended = \<lparr>tr_RunID = ''r1'', tr_TenantID = ''acme'', tr_AgentID = ''bot'', tr_Status = RunStatusSuccess,
     tr_Output = Some (JObj [(''usage'', JObj [(''cost_usd'', JNum ''5'')])]), tr_UpdatedAt = (86400, 0), tr_Simulation = False, tr_CacheHit = False\<rparr>"

section \<open>Properties\<close>

lemma budget_gate_ok:
  assumes "LookupCaps (sp_config s) t a = (tenantCap, agentCap)"
  shows "fst (fst (checkBudgetAdmission sx env t a run s)) \<longleftrightarrow> \<not> sp_sql s \<or> (\<forall>(c, agent)\<in>{(tenantCap, []), (agentCap, a)}. \<forall>cap. c = Some cap \<longrightarrow>
            (\<exists>snap. loadSnap env t agent s = Some snap \<and> (bc_Soft cap \<or> \<not> cap_reached cap snap)))"
proof -
  have off: "tenantCap = None \<and> agentCap = None" if "\<not> fin_Enabled (sp_config s)"
    using that assms by (auto simp: fin_Enabled_def LookupCaps_def split: option.splits)
  let ?scan = "budget_scan (\<lambda>agent. loadSnap env t agent s) (SoftPct (sp_config s)) (budget_pairs s t a) None None"
  have "fst (fst (checkBudgetAdmission sx env t a run s)) \<longleftrightarrow> \<not> sp_sql s \<or> (\<exists>x y. ?scan = Passed x y)"
    using off
    by (auto simp: checkBudgetAdmission_def assms budget_pairs_def Let_def split: if_splits scan.splits option.splits prod.splits)
  moreover have "(\<exists>x y. ?scan = Passed x y) \<longleftrightarrow> (\<forall>(c, agent)\<in>{(tenantCap, []), (agentCap, a)}. \<forall>cap. c = Some cap \<longrightarrow>
      (\<exists>snap. loadSnap env t agent s = Some snap \<and> (bc_Soft cap \<or> \<not> cap_reached cap snap)))"
    unfolding budget_scan_passes by (auto simp: budget_pairs_def assms EvaluateCap_hard)
  ultimately show ?thesis by blast
qed

text \<open>A hard cap that is reached, for the agent or, with the empty name, for the tenant.\<close>

definition breached :: "SpendEnv \<Rightarrow> string \<Rightarrow> BudgetCap option \<Rightarrow> string \<Rightarrow> Spend \<Rightarrow> bool" where
  "breached env tenantID c agent s \<longleftrightarrow>
     (\<exists>cap snap. c = Some cap \<and> loadSnap env tenantID agent s = Some snap \<and> \<not> bc_Soft cap \<and> cap_reached cap snap)"

lemma over_kept: "budget_scan snaps pct ps soft approach = OverHard v \<Longrightarrow> budget_scan snaps pct ps soft' approach' = OverHard v"
proof (induction ps arbitrary: soft approach soft' approach')
  case (Cons p ps)
  obtain c agent scope where p: "p = (c, agent, scope)" by (cases p)
  show ?case
  proof (cases c)
    case None
    then show ?thesis using Cons.prems by (simp add: p) (rule Cons.IH)
  next
    case (Some cap)
    with Cons.prems obtain snap where snap: "snaps agent = Some snap" by (auto simp: p split: option.splits)
    show ?thesis
    proof (cases "bv_Hard (EvaluateCap (Some cap) snap scope)")
      case True
      then show ?thesis using Cons.prems by (simp add: p Some snap)
    next
      case False
      then obtain x y where "budget_scan snaps pct ps x y = OverHard v" using Cons.prems by (simp add: p Some snap Let_def)
      then have "budget_scan snaps pct ps x' y' = OverHard v" for x' y' by (rule Cons.IH)
      then show ?thesis using False by (simp add: p Some snap Let_def)
    qed
  qed
qed simp

lemma over_independent: "budget_scan snaps pct ps soft approach = OverHard v \<longleftrightarrow> budget_scan snaps pct ps None None = OverHard v"
  using over_kept by blast

lemma over_cons:
  "budget_scan snaps pct ((c, agent, scope) # ps) soft approach = OverHard v \<longleftrightarrow>
     (case c of
        None \<Rightarrow> budget_scan snaps pct ps None None = OverHard v
      | Some cap \<Rightarrow> \<exists>snap. snaps agent = Some snap \<and>
          (if \<not> bc_Soft cap \<and> cap_reached cap snap then v = EvaluateCap (Some cap) snap scope \<and> bv_Scope v = scope
           else budget_scan snaps pct ps None None = OverHard v))"
proof (cases c)
  case None
  then show ?thesis using over_independent [of snaps pct ps soft approach v] by simp
next
  case (Some cap)
  show ?thesis
  proof (cases "snaps agent")
    case (Some snap)
    then show ?thesis using \<open>c = Some cap\<close> over_independent [of snaps pct ps _ _ v] EvaluateCap_hard [of cap snap scope]
        EvaluateCap_scope [of cap snap scope] by (auto simp: Let_def)
  qed (simp add: Some)
qed

lemma scan_over:
  assumes "LookupCaps (sp_config s) t a = (tenantCap, agentCap)"
    and "scan = budget_scan (\<lambda>agent. loadSnap env t agent s) pct (budget_pairs s t a) None None"
  shows "(case scan of OverHard v \<Rightarrow> [if bv_Scope v = ''agent'' then a else []] | _ \<Rightarrow> []) =
     (if breached env t tenantCap [] s then [[]]
      else if (tenantCap = None \<or> loadSnap env t [] s \<noteq> None) \<and> breached env t agentCap a s then [a] else [])"
proof -
  have pairs: "budget_pairs s t a = [(tenantCap, [], ''tenant''), (agentCap, a, ''agent'')]" by (simp add: budget_pairs_def assms(1))
  have scope: "\<not> bc_Soft cap \<Longrightarrow> cap_reached cap snap \<Longrightarrow> bv_Scope (EvaluateCap (Some cap) snap x) = x" for cap snap x
    using EvaluateCap_scope EvaluateCap_hard by simp
  show ?thesis
  proof (cases "breached env t tenantCap [] s")
    case True
    then obtain cap snap where c: "tenantCap = Some cap" "loadSnap env t [] s = Some snap" "\<not> bc_Soft cap" "cap_reached cap snap"
      unfolding breached_def by blast
    then have "scan = OverHard (EvaluateCap (Some cap) snap ''tenant'')" unfolding assms(2) pairs over_cons by (simp add: scope)
    then show ?thesis using True c(3,4) by (simp add: scope)
  next
    case tenant: False
    show ?thesis
    proof (cases "(tenantCap = None \<or> loadSnap env t [] s \<noteq> None) \<and> breached env t agentCap a s")
      case True
      then obtain cap snap where c: "agentCap = Some cap" "loadSnap env t a s = Some snap" "\<not> bc_Soft cap" "cap_reached cap snap"
        unfolding breached_def by blast
      have "scan = OverHard (EvaluateCap (Some cap) snap ''agent'')"
        unfolding assms(2) pairs over_cons using c True tenant by (auto simp: scope breached_def split: option.split)
      then show ?thesis using True tenant c(3,4) by (simp add: scope)
    next
      case False
      have nt: "\<not> (\<not> bc_Soft cap \<and> cap_reached cap snap)" if "tenantCap = Some cap" "loadSnap env t [] s = Some snap" for cap snap
        using tenant that unfolding breached_def by blast
      have na: "\<not> (\<not> bc_Soft cap \<and> cap_reached cap snap)"
        if "tenantCap = None \<or> loadSnap env t [] s \<noteq> None" "agentCap = Some cap" "loadSnap env t a s = Some snap" for cap snap
        using False that unfolding breached_def by blast
      have agent: "budget_scan (\<lambda>agent. loadSnap env t agent s) pct [(agentCap, a, ''agent'')] x y \<noteq> OverHard v"
        if "tenantCap = None \<or> loadSnap env t [] s \<noteq> None" for x y v
      proof (cases agentCap)
        case (Some cap)
        then show ?thesis using na [OF that Some] by (cases "loadSnap env t a s") (auto simp: EvaluateCap_hard Let_def)
      qed simp
      have "scan \<noteq> OverHard v" for v
      proof (cases tenantCap)
        case None
        then show ?thesis unfolding assms(2) pairs using agent by simp
      next
        case (Some cap)
        show ?thesis
        proof (cases "loadSnap env t [] s")
          case None
          then show ?thesis unfolding assms(2) pairs Some by simp
        next
          case (Some snap)
          then have "\<not> bv_Hard (EvaluateCap (Some cap) snap ''tenant'')" using nt [OF \<open>tenantCap = Some cap\<close>] by (simp add: EvaluateCap_hard)
          then show ?thesis unfolding assms(2) pairs \<open>tenantCap = Some cap\<close> using agent Some by (simp add: Let_def del: budget_scan.simps(1))
        qed
      qed
      then show ?thesis using False tenant by (auto split: scan.split)
    qed
  qed
qed

text \<open>C9: A run is admitted exactly while no hard cap is reached. Where the usage tables exist, admission
  succeeds if and only if for each configured cap of the tenant and of the agent the day's spending can
  be read (usage rows plus open holds, and the runs created today) and, unless the cap is soft, lies below it in
  every dimension. If the configuration asks for it, a refusal for a reached cap starts one drain of
  exactly the breached scope: the tenant if its cap is reached, and the agent alone if only the agent's is.
  Nothing else starts a drain.\<close>

theorem budget_gate_exact:
  assumes "LookupCaps (sp_config s) t a = (tenantCap, agentCap)" "checkBudgetAdmission sx env t a run s = ((ok, reason), s')"
  shows "(ok \<longleftrightarrow> \<not> sp_sql s \<or> (\<forall>(c, agent)\<in>{(tenantCap, []), (agentCap, a)}. \<forall>cap. c = Some cap \<longrightarrow>
            (\<exists>snap. loadSnap env t agent s = Some snap \<and> (bc_Soft cap \<or> \<not> cap_reached cap snap))))
    \<and> sp_drains s' = sp_drains s @
         (if \<not> sp_sql s \<or> \<not> CancelInflightOnHardBreach (sp_config s) then []
          else if breached env t tenantCap [] s then [(t, [], ''admission'')]
          else if (tenantCap = None \<or> loadSnap env t [] s \<noteq> None) \<and> breached env t agentCap a s then [(t, a, ''admission'')]
          else [])"
proof
  show "ok \<longleftrightarrow> \<not> sp_sql s \<or> (\<forall>(c, agent)\<in>{(tenantCap, []), (agentCap, a)}. \<forall>cap. c = Some cap \<longrightarrow>
      (\<exists>snap. loadSnap env t agent s = Some snap \<and> (bc_Soft cap \<or> \<not> cap_reached cap snap)))"
    using budget_gate_ok [OF assms(1), of sx env run] assms(2) by simp
next
  have off: "tenantCap = None \<and> agentCap = None" if "\<not> fin_Enabled (sp_config s)"
    using that assms(1) by (auto simp: fin_Enabled_def LookupCaps_def split: option.splits)
  define scan where "scan = budget_scan (\<lambda>agent. loadSnap env t agent s) (SoftPct (sp_config s)) (budget_pairs s t a) None None"
  have none: "scan = Passed None None" if "tenantCap = None" "agentCap = None"
    unfolding scan_def budget_pairs_def assms(1) that by simp
  have "sp_drains s' = sp_drains s @ (if sp_sql s \<and> CancelInflightOnHardBreach (sp_config s)
      then map (\<lambda>agent. (t, agent, ''admission'')) (case scan of OverHard v \<Rightarrow> [if bv_Scope v = ''agent'' then a else []] | _ \<Rightarrow> []) else [])"
  proof (cases "fin_Enabled (sp_config s) \<and> sp_sql s \<and> (tenantCap \<noteq> None \<or> agentCap \<noteq> None)")
    case True
    then show ?thesis using assms(2)
      by (cases scan) (auto simp: checkBudgetAdmission_def scan_def [symmetric] assms(1) Let_def emitBudgetAlert_def shouldEmitApproachAlert_def
          split: if_splits option.splits)
  next
    case False
    then have "s' = s" using assms(2) by (auto simp: checkBudgetAdmission_def assms(1) split: if_splits)
    then show ?thesis using False off none by auto
  qed
  then show "sp_drains s' = sp_drains s @
      (if \<not> sp_sql s \<or> \<not> CancelInflightOnHardBreach (sp_config s) then []
       else if breached env t tenantCap [] s then [(t, [], ''admission'')]
       else if (tenantCap = None \<or> loadSnap env t [] s \<noteq> None) \<and> breached env t agentCap a s then [(t, a, ''admission'')]
       else [])"
    unfolding scan_over [OF assms(1) scan_def] by auto
qed

definition sample_breach :: "Plane \<Rightarrow> Spend" where
  "sample_breach p = (sample_spend p)\<lparr>sp_events := [usage_event [] sample_ended (zero_usage\<lparr>ru_CostUSD := 5\<rparr>)],
     sp_config := Some (sample_finops\<lparr>cf_OnHardBreach := OnHardBreachCancelInflight,
       cf_Budgets := \<lparr>bu_Tenants = [(''acme'', zero_cap\<lparr>bc_MaxUSDPerDay := 9\<rparr>)], bu_Agents = [(agent_key ''acme'' ''bot'', zero_cap\<lparr>bc_MaxUSDPerDay := 5\<rparr>)]\<rparr>\<rparr>)\<rparr>"

lemma sample_reached:
  "agent = [] \<or> agent = ''bot'' \<Longrightarrow> loadSnap sample_spend_env ''acme'' agent (sample_breach p)
    = Some \<lparr>us_TokensIn = 0, us_TokensOut = 0, us_USD = 5, us_Runs = int (countSince ''acme'' (p_store p) 86400 agent)\<rparr>"
  by (auto simp: loadSnap_def UTCDayWindow_def sample_spend_env_def sample_breach_def sample_spend_def SumUsage_def SumUsageHolds_def event_counts_def
      in_window_def usage_event_def sample_ended_def zero_usage_def EstimateUSD_def column_def col_le_def col_less_def is_int64_def i64_def Let_def)

theorem budget_gate_exact_witness:
  "\<forall>p. \<exists>reason s'. checkBudgetAdmission sample_text sample_spend_env ''acme'' ''bot'' ''r2'' (sample_breach p) = ((False, reason), s')
     \<and> sp_drains s' = [(''acme'', ''bot'', ''admission'')]"
proof
  fix p
  let ?s = "sample_breach p"
  obtain ok reason s' where c: "checkBudgetAdmission sample_text sample_spend_env ''acme'' ''bot'' ''r2'' ?s = ((ok, reason), s')"
    by (metis prod.collapse)
  have l: "LookupCaps (sp_config ?s) ''acme'' ''bot'' = (Some (zero_cap\<lparr>bc_MaxUSDPerDay := 9\<rparr>), Some (zero_cap\<lparr>bc_MaxUSDPerDay := 5\<rparr>))"
    by (simp add: LookupCaps_def sample_breach_def)
  have s: "sp_sql ?s" "CancelInflightOnHardBreach (sp_config ?s)" "sp_drains ?s = []"
    by (simp_all add: sample_breach_def sample_spend_def CancelInflightOnHardBreach_def)
  have "\<not> ok" using conjunct1 [OF budget_gate_exact [OF l c]] s(1) by (simp add: sample_reached zero_cap_def cap_reached_def)
  moreover have "sp_drains s' = [(''acme'', ''bot'', ''admission'')]"
    using conjunct2 [OF budget_gate_exact [OF l c]] s by (simp add: sample_reached breached_def zero_cap_def cap_reached_def)
  ultimately show "\<exists>reason s'. checkBudgetAdmission sample_text sample_spend_env ''acme'' ''bot'' ''r2'' ?s = ((False, reason), s')
     \<and> sp_drains s' = [(''acme'', ''bot'', ''admission'')]" using c by simp
qed

text \<open>C15: The usage of a run is counted once. After any sequence of holds, finalizations, releases and expiries
  on tables that start empty, ending a run succeeds, leaves its hold released and its usage in exactly
  one row, whatever was recorded for it before; and finalizing it again, as a retried completion or the
  reaper does, changes neither table.\<close>

theorem usage_counted_once:
  assumes "sp_events s0 = []" "sp_holds s0 = []" "s = fold spend_exec ops s0" "sp_sql s" "tr_RunID run \<noteq> []" "tr_TenantID run \<noteq> []"
    and "finalize_spend env run applied s = (ok, s')"
  shows "ok \<and> tr_RunID run \<notin> uh_RunID ` set (sp_holds s') \<and> distinct (map ue_RunID (sp_events s')) \<and> distinct (map uh_RunID (sp_holds s'))
    \<and> (\<forall>u. metered run = Some u \<longrightarrow> (\<exists>e\<in>set (sp_events s'). ue_RunID e = tr_RunID run \<and> ue_TokensIn e = ru_PromptTokens u \<and> ue_TokensOut e = ru_CompletionTokens u))
    \<and> (\<forall>env' again. sp_holds (snd (finalize_spend env' run again s')) = sp_holds s'
         \<and> set (sp_events (snd (finalize_spend env' run again s'))) = set (sp_events s'))"
proof -
  have ok: "spend_ok s" unfolding assms(3) by (rule spend_run_ok) (simp add: spend_ok_def events_ok_def assms(1,2))
  obtain s1 where s1: "persistTerminalUsage env run applied s = (True, s1)"
    "finalize_spend env run applied s = (True, maybeCancelInflightAfterTerminal env run (releaseUsageHold (tr_RunID run) s1))"
    by (rule finalize_spend_unfold [OF ok])
  have s': "ok" "s' = maybeCancelInflightAfterTerminal env run (releaseUsageHold (tr_RunID run) s1)" using s1(2) assms(7) by simp_all
  have ok': "spend_ok s'" using finalize_ok [OF ok, of env run applied] assms(7) by simp
  note p = persist_usage [OF ok s1(1)]
  let ?pb = "case sp_config s of None \<Rightarrow> [] | Some cfg \<Rightarrow> cf_Pricebook cfg"
  have frame: "sp_events s' = sp_events s1" "sp_holds s' = filter (\<lambda>h. uh_RunID h \<noteq> tr_RunID run) (sp_holds s)" "sp_sql s'" "sp_config s' = sp_config s"
    using p(3-5) assms(4,5) by (simp_all add: s'(2) after_terminal_frame release_frame)
  have row: "event_row cx now (usage_event pb run u) = usage_event pb run u" for cx now pb u
    using assms(6) by (simp add: event_row_usage) (simp add: usage_event_def)
  have again: "sp_holds (snd (finalize_spend env' run again s')) = sp_holds s' \<and> set (sp_events (snd (finalize_spend env' run again s'))) = set (sp_events s')" for env' again
  proof -
    obtain s2 where s2: "persistTerminalUsage env' run again s' = (True, s2)"
      "finalize_spend env' run again s' = (True, maybeCancelInflightAfterTerminal env' run (releaseUsageHold (tr_RunID run) s2))"
      by (rule finalize_spend_unfold [OF ok'])
    note q = persist_usage [OF ok' s2(1)]
    have "sp_holds (snd (finalize_spend env' run again s')) = sp_holds s'"
      using q(3,4) by (simp add: s2(2) after_terminal_frame release_frame frame(2))
    moreover have "set (sp_events s2) = set (sp_events s')"
    proof (cases "metered run")
      case (Some u)
      then show ?thesis using q(7) [OF Some frame(3)] p(7) [OF Some assms(4)] unfolding frame(1,4) row by blast
    qed (use q(6) in simp)
    ultimately show ?thesis by (simp add: s2(2) after_terminal_frame release_frame)
  qed
  have "\<exists>e\<in>set (sp_events s'). ue_RunID e = tr_RunID run \<and> ue_TokensIn e = ru_PromptTokens u \<and> ue_TokensOut e = ru_CompletionTokens u"
    if "metered run = Some u" for u
    using p(7) [OF that assms(4)] unfolding frame(1) row by (intro bexI [of _ "usage_event ?pb run u"]) (simp_all add: usage_event_def)
  then show ?thesis using s'(1) ok' again frame(2) by (auto simp: spend_ok_def events_ok_def)
qed

theorem usage_counted_once_witness:
  "\<forall>p. fst (finalize_spend sample_spend_env sample_ended True (spend_exec (HoldPlaced sample_spend_env sample_ended) (sample_spend p)))
     \<and> ''r1'' \<notin> uh_RunID ` set (sp_holds (snd (finalize_spend sample_spend_env sample_ended True (spend_exec (HoldPlaced sample_spend_env sample_ended) (sample_spend p)))))"
proof
  fix p
  let ?s = "spend_exec (HoldPlaced sample_spend_env sample_ended) (sample_spend p)"
  obtain ok s' where f: "finalize_spend sample_spend_env sample_ended True ?s = (ok, s')" by (metis prod.collapse)
  have r: "tr_RunID sample_ended = ''r1''" by (simp add: sample_ended_def)
  have "sp_sql ?s" by (simp add: placeUsageHold_def sample_spend_def split: prod.splits)
  then have "ok \<and> tr_RunID sample_ended \<notin> uh_RunID ` set (sp_holds s')"
    using usage_counted_once [of "sample_spend p" ?s "[HoldPlaced sample_spend_env sample_ended]" sample_ended sample_spend_env True ok s'] f
    by (simp add: sample_spend_def sample_ended_def)
  then show "fst (finalize_spend sample_spend_env sample_ended True ?s) \<and> ''r1'' \<notin> uh_RunID ` set (sp_holds (snd (finalize_spend sample_spend_env sample_ended True ?s)))"
    unfolding f by (simp add: r)
qed

text \<open>C40: What is spent in the first second of a day escapes the caps of that day. The bounds of the day are
  compared with the stored texts, and the text of the whole second, which ends in Z, sorts after the text
  of every later instant of that second, which goes on with a point. A row of that second is therefore
  left out of the sum of its own day.\<close>

theorem first_second_usage_not_counted:
  assumes "ue_TS e = Some (fst (fst (UTCDayWindow now)), n)" "0 < n"
  shows "SumUsage t a (fst (UTCDayWindow now)) (snd (UTCDayWindow now)) (rows @ [e]) = SumUsage t a (fst (UTCDayWindow now)) (snd (UTCDayWindow now)) rows"
proof -
  have "\<not> event_counts t a (fst (UTCDayWindow now)) (snd (UTCDayWindow now)) e"
    using assms by (simp add: event_counts_def in_window_def col_le_def column_def UTCDayWindow_def rfc3339nano_def Let_def)
  then show ?thesis by (simp add: SumUsage_def Let_def)
qed

theorem first_second_usage_not_counted_witness:
  "SumUsage ''acme'' [] (86400, 0) (172800, 0) [(usage_event [] sample_ended (zero_usage\<lparr>ru_CostUSD := 5\<rparr>))\<lparr>ue_TS := Some (86400, 500000000)\<rparr>] = Some (0, 0, 0)"
  using first_second_usage_not_counted [of "(usage_event [] sample_ended (zero_usage\<lparr>ru_CostUSD := 5\<rparr>))\<lparr>ue_TS := Some (86400, 500000000)\<rparr>" "(86400, 0)" 500000000 "''acme''" "[]" "[]"]
  by (simp add: UTCDayWindow_def SumUsage_def is_int64_def Let_def)

end
