(* ===== verification/Sessions.thy ===== *)
theory Sessions
  imports Permissions
begin

text \<open>
  The process-local token stores: browser sessions of the Admin UI
  (src/internal/auth/adminsession.go), whose expiry slides with every use, and the capability tokens of
  MCP connectors (src/internal/connector/session.go), whose lifetime is absolute. Both keep a map from
  random tokens to sessions; the fresh token and the clock (nanoseconds) are arguments. The locale
  \<open>token_store\<close> is what both promise to their callers.
\<close>

section \<open>Admin sessions\<close>

record AdminSession =
  as_ID :: string
  as_CSRF :: string
  as_Result :: AuthResult
  as_Expires :: int

record AdminSessionStore =
  as_sessions :: "string \<rightharpoonup> AdminSession"
  as_ttl :: int

definition AdminSessionTTL :: int where "AdminSessionTTL = 12 * 3600 * 1000000000"

definition NewAdminSessionStore :: "int \<Rightarrow> AdminSessionStore" where
  "NewAdminSessionStore ttl = \<lparr>as_sessions = Map.empty, as_ttl = (if ttl \<le> 0 then AdminSessionTTL else ttl)\<rparr>"

definition admin_Create :: "int \<Rightarrow> string \<Rightarrow> string \<Rightarrow> AuthResult \<Rightarrow> AdminSessionStore \<Rightarrow> AdminSession \<times> AdminSessionStore" where
  "admin_Create now sid csrf result s =
     (let sess = \<lparr>as_ID = sid, as_CSRF = csrf, as_Result = result, as_Expires = now + as_ttl s\<rparr>
      in (sess, s\<lparr>as_sessions := (as_sessions s)(sid \<mapsto> sess)\<rparr>))"

definition admin_Get :: "int \<Rightarrow> string \<Rightarrow> AdminSessionStore \<Rightarrow> AdminSession option \<times> AdminSessionStore" where
  "admin_Get now sid s =
     (if sid = [] then (None, s)
      else case as_sessions s sid of
        None \<Rightarrow> (None, s)
      | Some sess \<Rightarrow>
          if now > as_Expires sess then (None, s\<lparr>as_sessions := (as_sessions s)(sid := None)\<rparr>)
          else let sess' = sess\<lparr>as_Expires := now + as_ttl s\<rparr>
               in (Some sess', s\<lparr>as_sessions := (as_sessions s)(sid \<mapsto> sess')\<rparr>))"

definition admin_Delete :: "string \<Rightarrow> AdminSessionStore \<Rightarrow> AdminSessionStore" where
  "admin_Delete sid s = (if sid = [] then s else s\<lparr>as_sessions := (as_sessions s)(sid := None)\<rparr>)"

definition admin_sweep :: "int \<Rightarrow> AdminSessionStore \<Rightarrow> AdminSessionStore" where
  "admin_sweep now s =
     s\<lparr>as_sessions := (\<lambda>sid. case as_sessions s sid of
          Some sess \<Rightarrow> if now > as_Expires sess then None else Some sess | None \<Rightarrow> None)\<rparr>"

definition hasAuthHeader :: "Request \<Rightarrow> bool" where
  "hasAuthHeader r \<longleftrightarrow> header_get r ''Authorization'' \<noteq> [] \<or> header_get r ''X-Api-Key'' \<noteq> []"

definition isMutatingMethod :: "string \<Rightarrow> bool" where
  "isMutatingMethod m \<longleftrightarrow> m \<in> set [''POST'', ''PUT'', ''PATCH'', ''DELETE'']"

definition csrfTokenMatch :: "string \<Rightarrow> string \<Rightarrow> bool" where
  "csrfTokenMatch got want \<longleftrightarrow> got = want"

section \<open>Connector sessions\<close>

record ConnectorSession =
  cs_Token :: string
  cs_Connector :: string
  cs_RunID :: string
  cs_Generation :: int64
  cs_TenantID :: string
  cs_AgentID :: string
  cs_Expires :: int

record ConnectorSessionStore =
  cs_sessions :: "string \<rightharpoonup> ConnectorSession"
  cs_ttl :: int

definition ConnectorSessionTTL :: int where "ConnectorSessionTTL = 15 * 60 * 1000000000"

definition NewMemoryConnectorSessionStore :: "int \<Rightarrow> ConnectorSessionStore" where
  "NewMemoryConnectorSessionStore ttl =
     \<lparr>cs_sessions = Map.empty, cs_ttl = (if ttl \<le> 0 then ConnectorSessionTTL else ttl)\<rparr>"

definition connector_Create ::
  "int \<Rightarrow> string \<Rightarrow> string \<Rightarrow> string \<Rightarrow> int64 \<Rightarrow> string \<Rightarrow> string \<Rightarrow> ConnectorSessionStore \<Rightarrow> ConnectorSession \<times> ConnectorSessionStore" where
  "connector_Create now tok connector runID generation tenantID agentID s =
     (let sess = \<lparr>cs_Token = tok, cs_Connector = connector, cs_RunID = runID, cs_Generation = generation,
                  cs_TenantID = tenantID, cs_AgentID = agentID, cs_Expires = now + cs_ttl s\<rparr>
      in (sess, s\<lparr>cs_sessions := (cs_sessions s)(tok \<mapsto> sess)\<rparr>))"

definition connector_Get :: "int \<Rightarrow> string \<Rightarrow> ConnectorSessionStore \<Rightarrow> ConnectorSession option \<times> ConnectorSessionStore" where
  "connector_Get now tok s =
     (if tok = [] then (None, s)
      else case cs_sessions s tok of
        None \<Rightarrow> (None, s)
      | Some sess \<Rightarrow>
          if now > cs_Expires sess then (None, s\<lparr>cs_sessions := (cs_sessions s)(tok := None)\<rparr>)
          else (Some sess, s))"

definition connector_Delete :: "string \<Rightarrow> ConnectorSessionStore \<Rightarrow> ConnectorSessionStore" where
  "connector_Delete tok s = (if tok = [] then s else s\<lparr>cs_sessions := (cs_sessions s)(tok := None)\<rparr>)"

definition connector_sweep :: "int \<Rightarrow> ConnectorSessionStore \<Rightarrow> ConnectorSessionStore" where
  "connector_sweep now s =
     s\<lparr>cs_sessions := (\<lambda>tok. case cs_sessions s tok of
          Some sess \<Rightarrow> if now > cs_Expires sess then None else Some sess | None \<Rightarrow> None)\<rparr>"

section \<open>The contract of a token store\<close>

text \<open>\<open>owner\<close> is what a token stands for, if the store has it; \<open>lives\<close> says until when. The laws: only
  \<open>mint\<close> brings a token into the store, only \<open>revoke\<close>, an expired \<open>fetch\<close> and \<open>sweep\<close> remove one, and a
  fetch succeeds exactly for a token that is there and has not expired.\<close>

locale token_store =
  fixes owner :: "'s \<Rightarrow> string \<Rightarrow> 'v option"
    and lives :: "'s \<Rightarrow> string \<Rightarrow> int"
    and mint :: "int \<Rightarrow> string \<Rightarrow> 'v \<Rightarrow> 's \<Rightarrow> 's"
    and fetch :: "int \<Rightarrow> string \<Rightarrow> 's \<Rightarrow> 'v option \<times> 's"
    and revoke :: "string \<Rightarrow> 's \<Rightarrow> 's"
    and sweep :: "int \<Rightarrow> 's \<Rightarrow> 's"
  assumes fetch_iff: "fst (fetch now k s) = Some v \<longleftrightarrow> k \<noteq> [] \<and> owner s k = Some v \<and> now \<le> lives s k"
    and fetch_owner: "owner (snd (fetch now k s)) k' = owner s k' \<or> owner (snd (fetch now k s)) k' = None"
    and mint_owner: "owner (mint now k v s) k' = (if k' = k then Some v else owner s k')"
    and revoke_owner: "k \<noteq> [] \<Longrightarrow> owner (revoke k s) k' = (if k' = k then None else owner s k')"
    and revoke_empty: "revoke [] s = s"
    and sweep_owner: "owner (sweep now s) k' = owner s k' \<or> owner (sweep now s) k' = None"

datatype 'v token_op = Mint int string 'v | Fetch int string | Revoke string | Sweep int

context token_store
begin

fun perform :: "'v token_op \<Rightarrow> 's \<Rightarrow> 's" where
  "perform (Mint now k v) s = mint now k v s"
| "perform (Fetch now k) s = snd (fetch now k s)"
| "perform (Revoke k) s = revoke k s"
| "perform (Sweep now) s = sweep now s"

definition mints :: "string \<Rightarrow> 'v token_op list \<Rightarrow> 'v set" where
  "mints k ops = {v. \<exists>now. Mint now k v \<in> set ops}"

lemma perform_owner:
  "owner (perform op s) k = Some v \<Longrightarrow> owner s k = Some v \<or> (\<exists>now. op = Mint now k v)"
  using fetch_owner sweep_owner revoke_owner revoke_empty mint_owner
  by (cases op) (auto split: if_splits, metis option.distinct(1), metis option.distinct(1), metis option.distinct(1))

lemma fold_owner: "owner (fold perform ops s) k = Some v \<Longrightarrow> owner s k = Some v \<or> v \<in> mints k ops"
proof (induction ops arbitrary: s)
  case (Cons op ops)
  then have "owner (perform op s) k = Some v \<or> v \<in> mints k ops" by simp
  then show ?case using perform_owner [of op s k v] by (auto simp: mints_def)
qed simp

lemma only_minted_tokens:
  assumes "owner s k = None" "fst (fetch now k (fold perform ops s)) = Some v"
  shows "v \<in> mints k ops"
  using assms fold_owner [of ops s k v] fetch_iff by auto

lemma revoked_stays_dead:
  assumes "k \<noteq> []" "mints k ops = {}"
  shows "fst (fetch now k (fold perform ops (revoke k s))) = None"
proof (rule ccontr)
  assume "fst (fetch now k (fold perform ops (revoke k s))) \<noteq> None"
  then obtain v where "fst (fetch now k (fold perform ops (revoke k s))) = Some v" by blast
  from only_minted_tokens [OF _ this] revoke_owner [OF assms(1), of s k] assms(2) show False by simp
qed

end

text \<open>Both stores satisfy it: the owner of an Admin token is its CSRF token and identity, that of a
  connector token the run, generation and scope it was minted for.\<close>

definition admin_owner :: "AdminSessionStore \<Rightarrow> string \<Rightarrow> (string \<times> AuthResult) option" where
  "admin_owner s k = map_option (\<lambda>x. (as_CSRF x, as_Result x)) (as_sessions s k)"

definition admin_lives :: "AdminSessionStore \<Rightarrow> string \<Rightarrow> int" where
  "admin_lives s k = (case as_sessions s k of Some x \<Rightarrow> as_Expires x | None \<Rightarrow> 0)"

interpretation admin_tokens: token_store admin_owner admin_lives
  "\<lambda>now k v s. snd (admin_Create now k (fst v) (snd v) s)"
  "\<lambda>now k s. map_prod (map_option (\<lambda>x. (as_CSRF x, as_Result x))) id (admin_Get now k s)"
  admin_Delete admin_sweep
  by unfold_locales
    (auto simp: admin_owner_def admin_lives_def admin_Create_def admin_Get_def admin_Delete_def admin_sweep_def Let_def
      split: option.splits if_splits)

type_synonym capability = "string \<times> string \<times> int64 \<times> string \<times> string"

definition capability_of :: "ConnectorSession \<Rightarrow> capability" where
  "capability_of x = (cs_Connector x, cs_RunID x, cs_Generation x, cs_TenantID x, cs_AgentID x)"

definition connector_owner :: "ConnectorSessionStore \<Rightarrow> string \<Rightarrow> capability option" where
  "connector_owner s k = map_option capability_of (cs_sessions s k)"

definition connector_lives :: "ConnectorSessionStore \<Rightarrow> string \<Rightarrow> int" where
  "connector_lives s k = (case cs_sessions s k of Some x \<Rightarrow> cs_Expires x | None \<Rightarrow> 0)"

definition connector_mint :: "int \<Rightarrow> string \<Rightarrow> capability \<Rightarrow> ConnectorSessionStore \<Rightarrow> ConnectorSessionStore" where
  "connector_mint now tok v s =
     (case v of (c, r, g, t, a) \<Rightarrow> snd (connector_Create now tok c r g t a s))"

interpretation connector_tokens: token_store connector_owner connector_lives connector_mint
  "\<lambda>now k s. map_prod (map_option capability_of) id (connector_Get now k s)"
  connector_Delete connector_sweep
  by unfold_locales
    (auto simp: connector_owner_def connector_lives_def connector_mint_def connector_Create_def connector_Get_def
      connector_Delete_def connector_sweep_def capability_of_def Let_def split: option.splits if_splits prod.splits)

section \<open>Lifetimes\<close>

lemma connector_Get_absolute:
  "cs_sessions (snd (connector_Get now k s)) k' = cs_sessions s k' \<or> cs_sessions (snd (connector_Get now k s)) k' = None"
  by (auto simp: connector_Get_def split: option.splits)

end
