(* ===== verification/Access_Control.thy ===== *)
theory Access_Control
  imports Sessions Run_Store Job_Queue "HOL-Library.AList"
begin

text \<open>
  The three trust boundaries in front of the API (src/internal/auth/auth.go, runner.go, runbind.go and
  the gRPC interceptors of src/internal/bridge/interceptors.go): client credentials, the Admin UI, and
  runners, whose calls on run-bound paths must prove a live assignment. Providers, the clock and the
  lookup of an assignment are arguments. A response is either the context the next handler gets or a
  status with a reason code.
\<close>

section \<open>Runner credentials (runner.go)\<close>

record RunnerTokens =
  rt_tokens :: "(string \<times> string list) list"
  rt_tenants :: "(string \<times> string list) list"

definition no_runner_tokens :: RunnerTokens where
  "no_runner_tokens = \<lparr>rt_tokens = [], rt_tenants = []\<rparr>"

definition maxRunnerTokensPerKind :: nat where "maxRunnerTokensPerKind = 16"

definition EnvPrefix :: string where "EnvPrefix = ''RUNNER_TOKEN_''"

definition TenantsEnvPrefix :: string where "TenantsEnvPrefix = ''RUNNER_TENANTS_''"

fun token_loop :: "string list \<Rightarrow> string list \<Rightarrow> string list" where
  "token_loop [] out = out"
| "token_loop (part # parts) out =
     (let tok = TrimSpace part in
      if tok = [] then token_loop parts out
      else if length out \<ge> maxRunnerTokensPerKind then out
      else token_loop parts (out @ [tok]))"

definition parseTokenAllowList :: "string \<Rightarrow> string list" where
  "parseTokenAllowList v = token_loop (Split (CHR '','') v) []"

definition parseTenantAllowList :: "string \<Rightarrow> string list" where
  "parseTenantAllowList v = filter (\<lambda>t. t \<noteq> []) (map TrimSpace (Split (CHR '','') v))"

definition envKeyToRunnerKind :: "string \<Rightarrow> string" where
  "envKeyToRunnerKind k = ToLower (map (\<lambda>c. if c = CHR ''_'' then CHR ''-'' else c) k)"

definition load_env :: "string \<Rightarrow> RunnerTokens \<Rightarrow> RunnerTokens" where
  "load_env kv rt =
     (case IndexByte kv (CHR ''='') of
        None \<Rightarrow> rt
      | Some i \<Rightarrow>
          let k = take i kv; v = drop (Suc i) kv in
          if v = [] then rt
          else if HasPrefix k EnvPrefix then
            let kind = envKeyToRunnerKind (TrimPrefix k EnvPrefix); lst = parseTokenAllowList v
            in if lst \<noteq> [] then rt\<lparr>rt_tokens := AList.update kind lst (rt_tokens rt)\<rparr> else rt
          else if HasPrefix k TenantsEnvPrefix then
            let kind = envKeyToRunnerKind (TrimPrefix k TenantsEnvPrefix)
            in rt\<lparr>rt_tenants := AList.update kind (parseTenantAllowList v) (rt_tenants rt)\<rparr>
          else rt)"

definition LoadRunnerTokensFromEnv :: "string list \<Rightarrow> RunnerTokens" where
  "LoadRunnerTokensFromEnv environ = fold load_env environ no_runner_tokens"

definition rt_Enabled :: "RunnerTokens \<Rightarrow> bool" where
  "rt_Enabled rt \<longleftrightarrow> rt_tokens rt \<noteq> []"

definition Validate :: "RunnerTokens \<Rightarrow> string \<Rightarrow> string \<Rightarrow> bool" where
  "Validate rt kind token =
     (if \<not> rt_Enabled rt then True
      else case map_of (rt_tokens rt) kind of
        None \<Rightarrow> False
      | Some want \<Rightarrow> want \<noteq> [] \<and> list_ex (\<lambda>cand. cand = token) want)"

definition AllowsTenant :: "RunnerTokens \<Rightarrow> string \<Rightarrow> string \<Rightarrow> bool" where
  "AllowsTenant rt kind tenantID =
     (if \<not> rt_Enabled rt then True
      else case map_of (rt_tenants rt) kind of
        None \<Rightarrow> True
      | Some allow \<Rightarrow> if allow = [] then True else (if tenantID = [] then DefaultTenant else tenantID) \<in> set allow)"

definition TenantAllowListsComplete :: "RunnerTokens \<Rightarrow> bool" where
  "TenantAllowListsComplete rt \<longleftrightarrow>
     list_all (\<lambda>(kind, _). case map_of (rt_tenants rt) kind of None \<Rightarrow> False | Some allow \<Rightarrow> allow \<noteq> []) (rt_tokens rt)"

section \<open>Runner authentication of gRPC calls (interceptors.go)\<close>

definition firstOrEmpty :: "string list \<Rightarrow> string" where
  "firstOrEmpty vals = (case vals of [] \<Rightarrow> [] | v # _ \<Rightarrow> v)"

text \<open>The metadata of a call, if it has any; the result is the authenticated kind, empty in local
  mode.\<close>

definition authenticateRunner :: "RunnerTokens \<Rightarrow> (string \<Rightarrow> string list) option \<Rightarrow> unit + string" where
  "authenticateRunner rt md =
     (if \<not> rt_Enabled rt then Inr []
      else case md of
        None \<Rightarrow> Inl ()
      | Some m \<Rightarrow>
          let kind = firstOrEmpty (m ''runner-kind''); token = firstOrEmpty (m ''runner-token'') in
          if kind = [] \<or> token = [] then Inl ()
          else if \<not> Validate rt kind token then Inl ()
          else Inr kind)"

section \<open>Run binding (runbind.go)\<close>

definition ValidRunID :: "string \<Rightarrow> bool" where
  "ValidRunID i \<longleftrightarrow> TrimSpace i = i \<and> utf8_valid i \<and> \<not> has_control i"

definition exactIdentityHeader :: "Request \<Rightarrow> string \<Rightarrow> string \<Rightarrow> string \<times> bool" where
  "exactIdentityHeader r rawName encodedName =
     (let rawValues = rq_header r rawName; encodedValues = rq_header r encodedName;
          raw = header_get r rawName; encoded = header_get r encodedName
      in if length rawValues > 1 \<or> length encodedValues > 1 \<or> (rawValues \<noteq> [] \<and> encodedValues \<noteq> []) then ([], False)
         else if encodedValues \<noteq> [] then
           (case DecodeString encoded of
              None \<Rightarrow> ([], False)
            | Some data \<Rightarrow>
                if data = [] \<or> \<not> utf8_valid data \<or> EncodeToString data \<noteq> encoded then ([], False)
                else (data, True))
         else (raw, ValidRunID raw))"

record RunBinding =
  rb_RunID :: string
  rb_Generation :: int64
  rb_TenantID :: string
  rb_AgentID :: string
  rb_ThreadID :: string
  rb_User :: "UserContext option"

record ReqCtx =
  rc_ctx :: ctx
  rc_auth :: "AuthResult option"
  rc_binding :: "RunBinding option"

datatype reason =
    ReasonRunnerCredentialsInvalid
  | ReasonRunnerTenantDenied
  | ReasonRunBindingRequired
  | ReasonRunNotInflight
  | ReasonRunGenerationMismatch
  | ReasonRunBindingLookupFailed
  | ReasonRunRunnerKindMismatch
  | ReasonCSRF
  | ReasonAdminCredential
  | ReasonUnauthenticated auth_error
  | ReasonPermissions

datatype response = Served ReqCtx | Denied nat reason

definition requiresRunBinding :: "string \<Rightarrow> bool" where
  "requiresRunBinding p \<longleftrightarrow>
     HasPrefix p ''/internal/store'' \<or> HasPrefix p ''/internal/vectors'' \<or> HasPrefix p ''/internal/checkpoints''
     \<or> HasPrefix p ''/internal/connectors/'' \<and> (HasSuffix p ''/session'' \<or> HasSuffix p ''/mcp'')"

definition user_result :: "UserContext \<Rightarrow> string \<Rightarrow> AuthResult" where
  "user_result u tenantID =
     \<lparr>ar_Identity = uc_Identity u, ar_Permissions = uc_Permissions u, ar_TenantID = tenantID,
      ar_DisplayName = uc_DisplayName u, ar_Extra = uc_Extra u\<rparr>"

text \<open>\<open>lookup\<close> is the queue's LookupInflight; Inl is a failed lookup.\<close>

type_synonym inflight_lookup = "string \<Rightarrow> unit + RunAssignment option"

definition bind_assignment :: "ReqCtx \<Rightarrow> string \<Rightarrow> RunAssignment \<Rightarrow> ReqCtx" where
  "bind_assignment base runID a =
     (let tenantID = (if AssignTenantID a = [] then DefaultTenant else AssignTenantID a);
          binding = \<lparr>rb_RunID = runID, rb_Generation = Generation a, rb_TenantID = tenantID, rb_AgentID = GraphID a,
                     rb_ThreadID = ThreadID a, rb_User = User a\<rparr>;
          c = base\<lparr>rc_ctx := WithContext (rc_ctx base) tenantID, rc_binding := Some binding\<rparr>
      in case User a of
           Some u \<Rightarrow> if uc_Identity u \<noteq> [] then c\<lparr>rc_auth := Some (user_result u tenantID)\<rparr> else c
         | None \<Rightarrow> c)"

definition bindInternalRun :: "ReqCtx \<Rightarrow> Request \<Rightarrow> string \<Rightarrow> RunnerTokens \<Rightarrow> inflight_lookup \<Rightarrow> response" where
  "bindInternalRun base r kind tokens lookup =
     (case exactIdentityHeader r ''X-Runkite-Run-Id'' ''X-Runkite-Run-Id-B64'' of
        (runID, valid) \<Rightarrow>
          let genRaw = TrimSpace (header_get r ''X-Runkite-Generation'') in
          if \<not> valid \<or> runID = [] \<or> genRaw = [] then Denied 401 ReasonRunBindingRequired
          else case Atoi genRaw of
            None \<Rightarrow> Denied 401 ReasonRunBindingRequired
          | Some generation \<Rightarrow>
              (case lookup runID of
                 Inl _ \<Rightarrow> Denied 503 ReasonRunBindingLookupFailed
               | Inr None \<Rightarrow> Denied 403 ReasonRunNotInflight
               | Inr (Some a) \<Rightarrow>
                   if rt_Enabled tokens \<and> RunnerKind a \<noteq> kind then Denied 403 ReasonRunRunnerKindMismatch
                   else if generation \<noteq> Generation a then Denied 403 ReasonRunGenerationMismatch
                   else if rt_Enabled tokens
                     \<and> \<not> AllowsTenant tokens kind (if AssignTenantID a = [] then DefaultTenant else AssignTenantID a)
                   then Denied 403 ReasonRunnerTenantDenied
                   else Served (bind_assignment base runID a)))"

section \<open>The middleware (auth.go)\<close>

definition session_paths :: "string list" where
  "session_paths = [''/admin-api/session'', ''/admin-api/session/'']"

definition probe_paths :: "string list" where
  "probe_paths = [''/health'', ''/health/'', ''/livez'', ''/livez/'', ''/readyz'', ''/readyz/'', ''/admin'']"

definition isPublicPath :: "string \<Rightarrow> string \<Rightarrow> bool" where
  "isPublicPath m p =
     (if p \<in> set session_paths \<and> (m = ''POST'' \<or> m = ''GET'' \<or> m = ''HEAD'') then True
      else if m \<noteq> ''GET'' \<and> m \<noteq> ''HEAD'' then False
      else if p \<in> set probe_paths then True
      else HasPrefix p ''/admin/'')"

definition isInternalPath :: "string \<Rightarrow> bool" where
  "isInternalPath p \<longleftrightarrow> p = ''/internal'' \<or> HasPrefix p ''/internal/''"

definition isAdminAPIPath :: "string \<Rightarrow> bool" where
  "isAdminAPIPath p \<longleftrightarrow> p = ''/admin-api'' \<or> HasPrefix p ''/admin-api/''"

type_synonym provider = "Request \<Rightarrow> auth_error + AuthResult"

record MiddlewareOpts =
  mo_StrictPermissions :: bool
  mo_Inflight :: "inflight_lookup option"

definition as_caller :: "ReqCtx \<Rightarrow> AuthResult \<Rightarrow> ReqCtx" where
  "as_caller base res = base\<lparr>rc_auth := Some res, rc_ctx := WithContext (rc_ctx base) (ar_TenantID res)\<rparr>"

definition internal_request :: "ReqCtx \<Rightarrow> Request \<Rightarrow> RunnerTokens \<Rightarrow> MiddlewareOpts \<Rightarrow> response" where
  "internal_request base r tokens opts =
     (let kind = header_get r ''X-Runner-Kind''; token = header_get r ''X-Runner-Token'' in
      if rt_Enabled tokens \<and> (kind = [] \<or> token = [] \<or> \<not> Validate tokens kind token)
      then Denied 401 ReasonRunnerCredentialsInvalid
      else case (mo_Inflight opts, requiresRunBinding (rq_path r)) of
        (Some lookup, True) \<Rightarrow> bindInternalRun base r kind tokens lookup
      | _ \<Rightarrow>
          (case exactIdentityHeader r ''X-Runkite-Tenant-Id'' ''X-Runkite-Tenant-Id-B64'' of
             (claimed, valid) \<Rightarrow>
               if \<not> valid then Denied 403 ReasonRunnerTenantDenied
               else if rt_Enabled tokens \<and> \<not> AllowsTenant tokens kind claimed then Denied 403 ReasonRunnerTenantDenied
               else Served (if claimed \<noteq> [] then base\<lparr>rc_ctx := WithContext (rc_ctx base) claimed\<rparr> else base)))"

definition primary_request :: "ReqCtx \<Rightarrow> provider option \<Rightarrow> Request \<Rightarrow> MiddlewareOpts \<Rightarrow> response" where
  "primary_request base provider r opts =
     (case provider of
        None \<Rightarrow> Served base
      | Some authenticate \<Rightarrow>
          (case authenticate r of
             Inl e \<Rightarrow> Denied (case e of ErrForbidden _ \<Rightarrow> 403 | _ \<Rightarrow> 401) (ReasonUnauthenticated e)
           | Inr res \<Rightarrow>
               if isAdminAPIPath (rq_path r) then
                 (if authorizedAdmin (Some res) (mo_StrictPermissions opts) then Served (as_caller base res)
                  else Denied 403 ReasonPermissions)
               else if authorized (Some res) (rq_method r) (rq_path r) (mo_StrictPermissions opts)
               then Served (as_caller base res) else Denied 403 ReasonPermissions))"

definition admin_or_primary :: "ReqCtx \<Rightarrow> provider option \<Rightarrow> provider option \<Rightarrow> Request \<Rightarrow> MiddlewareOpts \<Rightarrow> response" where
  "admin_or_primary base provider adminProvider r opts =
     (case (isAdminAPIPath (rq_path r), adminProvider) of
        (True, Some admin) \<Rightarrow>
          (case admin r of
             Inr res \<Rightarrow> Served (as_caller base res)
           | Inl _ \<Rightarrow> if provider = None then Denied 401 ReasonAdminCredential else primary_request base provider r opts)
      | _ \<Rightarrow> primary_request base provider r opts)"

text \<open>The Admin UI's sessions are None when they are not configured; looking one up slides its
  expiry.\<close>

definition MiddlewareWithOpts ::
  "int \<Rightarrow> ReqCtx \<Rightarrow> provider option \<Rightarrow> provider option \<Rightarrow> RunnerTokens \<Rightarrow> MiddlewareOpts \<Rightarrow> Request
     \<Rightarrow> AdminSessionStore option \<Rightarrow> response \<times> AdminSessionStore option" where
  "MiddlewareWithOpts now base provider adminProvider tokens opts r sessions =
     (if isPublicPath (rq_method r) (rq_path r) then (Served base, sessions)
      else if isInternalPath (rq_path r) then (internal_request base r tokens opts, sessions)
      else case sessions of
        Some store \<Rightarrow>
          if isAdminAPIPath (rq_path r) \<and> \<not> hasAuthHeader r then
            (case admin_Get now (rq_cookie r) store of
               (Some sess, store') \<Rightarrow>
                 (if isMutatingMethod (rq_method r) \<and> \<not> csrfTokenMatch (header_get r ''X-Csrf-Token'') (as_CSRF sess)
                  then Denied 403 ReasonCSRF else Served (as_caller base (as_Result sess)), Some store')
             | (None, store') \<Rightarrow> (admin_or_primary base provider adminProvider r opts, Some store'))
          else (admin_or_primary base provider adminProvider r opts, sessions)
      | None \<Rightarrow> (admin_or_primary base provider adminProvider r opts, sessions))"

section \<open>Lemmas\<close>

lemma HasPrefix_take: "HasPrefix p w \<Longrightarrow> n \<le> length w \<Longrightarrow> take n p = take n w"
  by (metis HasPrefix_def min_absorb1 take_take)

lemma internal_take: "isInternalPath p \<Longrightarrow> take 2 p = ''/i''"
  unfolding isInternalPath_def by (erule disjE) (simp, drule HasPrefix_take [of _ _ 2], simp_all)

lemma public_take: "isPublicPath m p \<Longrightarrow> take 2 p \<noteq> ''/i''"
proof -
  assume "isPublicPath m p"
  then consider "p \<in> set session_paths" | "p \<in> set probe_paths" | "HasPrefix p ''/admin/''"
    unfolding isPublicPath_def by (auto split: if_splits)
  then show ?thesis
  proof cases
    case 3
    then show ?thesis using HasPrefix_take [OF 3, of 2] by simp
  qed (auto simp: session_paths_def probe_paths_def)
qed

lemma internal_not_public: "isInternalPath p \<Longrightarrow> \<not> isPublicPath m p"
  using internal_take public_take by blast

lemma runBound_internal: "requiresRunBinding p \<Longrightarrow> isInternalPath p"
proof -
  assume "requiresRunBinding p"
  then obtain w where "HasPrefix p w" "w \<in> set [''/internal/store'', ''/internal/vectors'', ''/internal/checkpoints'', ''/internal/connectors/'']"
    unfolding requiresRunBinding_def by auto
  then have "take 10 p = ''/internal/''"
    using HasPrefix_take [of p w 10] by auto
  then show ?thesis by (simp add: isInternalPath_def HasPrefix_def eval_nat_numeral)
qed

lemma token_loop_bounded:
  "length out \<le> maxRunnerTokensPerKind \<Longrightarrow> list_all (\<lambda>t. t \<noteq> []) out \<Longrightarrow>
     length (token_loop parts out) \<le> maxRunnerTokensPerKind \<and> list_all (\<lambda>t. t \<noteq> []) (token_loop parts out)"
  by (induction parts out rule: token_loop.induct) (auto simp: Let_def)

lemma load_env_bounded:
  assumes "list_all (\<lambda>(k, ts). ts \<noteq> [] \<and> length ts \<le> maxRunnerTokensPerKind \<and> list_all (\<lambda>t. t \<noteq> []) ts) (rt_tokens rt)"
  shows "list_all (\<lambda>(k, ts). ts \<noteq> [] \<and> length ts \<le> maxRunnerTokensPerKind \<and> list_all (\<lambda>t. t \<noteq> []) ts) (rt_tokens (load_env kv rt))"
proof -
  have upd: "list_all P (AList.update k v xs)" if "list_all P xs" "P (k, v)" for P k v and xs :: "(string \<times> string list) list"
    using that by (induction xs) auto
  have "length (parseTokenAllowList v) \<le> maxRunnerTokensPerKind \<and> list_all (\<lambda>t. t \<noteq> []) (parseTokenAllowList v)" for v
    unfolding parseTokenAllowList_def by (rule token_loop_bounded) simp_all
  then show ?thesis using assms by (auto simp: load_env_def Let_def split: option.splits intro!: upd)
qed

text \<open>Every token that the environment configures is non-empty, and a kind has between one and sixteen
  of them.\<close>

lemma runner_tokens_bounded:
  "list_all (\<lambda>(k, ts). ts \<noteq> [] \<and> length ts \<le> maxRunnerTokensPerKind \<and> list_all (\<lambda>t. t \<noteq> []) ts)
     (rt_tokens (LoadRunnerTokensFromEnv environ))"
proof -
  have "list_all (\<lambda>(k, ts). ts \<noteq> [] \<and> length ts \<le> maxRunnerTokensPerKind \<and> list_all (\<lambda>t. t \<noteq> []) ts)
     (rt_tokens (fold load_env environ rt))"
    if "list_all (\<lambda>(k, ts). ts \<noteq> [] \<and> length ts \<le> maxRunnerTokensPerKind \<and> list_all (\<lambda>t. t \<noteq> []) ts) (rt_tokens rt)" for rt
    using that by (induction environ arbitrary: rt) (simp_all add: load_env_bounded)
  then show ?thesis by (simp add: LoadRunnerTokensFromEnv_def no_runner_tokens_def)
qed

lemma bind_assignment_fields:
  "rc_binding (bind_assignment base runID a) =
     Some \<lparr>rb_RunID = runID, rb_Generation = Generation a,
           rb_TenantID = (if AssignTenantID a = [] then DefaultTenant else AssignTenantID a), rb_AgentID = GraphID a,
           rb_ThreadID = ThreadID a, rb_User = User a\<rparr>"
  "FromContext (rc_ctx (bind_assignment base runID a)) = (if AssignTenantID a = [] then DefaultTenant else AssignTenantID a)"
  by (auto simp: bind_assignment_def Let_def FromContext_def WithContext_def DefaultTenant_def split: option.splits)

lemma as_caller_fields:
  "rc_auth (as_caller base res) = Some res"
  "FromContext (rc_ctx (as_caller base res)) = (if ar_TenantID res = [] then FromContext (rc_ctx base) else ar_TenantID res)"
  by (auto simp: as_caller_def FromContext_def WithContext_def)

text \<open>The queue's lookup as the middleware gets it.\<close>

definition queue_lookup :: "Queue \<Rightarrow> inflight_lookup" where
  "queue_lookup q runID = Inr (LookupInflight runID q)"

lemma bindInternalRun_served:
  assumes "bindInternalRun base r kind tokens (queue_lookup q) = Served c"
  shows "\<exists>runID a. exactIdentityHeader r ''X-Runkite-Run-Id'' ''X-Runkite-Run-Id-B64'' = (runID, True)
    \<and> LookupInflight runID q = Some a
    \<and> Atoi (TrimSpace (header_get r ''X-Runkite-Generation'')) = Some (Generation a)
    \<and> (rt_Enabled tokens \<longrightarrow> RunnerKind a = kind
        \<and> AllowsTenant tokens kind (if AssignTenantID a = [] then DefaultTenant else AssignTenantID a))
    \<and> c = bind_assignment base runID a"
proof -
  obtain runID valid where h: "exactIdentityHeader r ''X-Runkite-Run-Id'' ''X-Runkite-Run-Id-B64'' = (runID, valid)"
    by fastforce
  have v: "valid" using assms h by (auto simp: bindInternalRun_def Let_def split: if_splits)
  obtain g where g: "Atoi (TrimSpace (header_get r ''X-Runkite-Generation'')) = Some g"
    using assms h by (auto simp: bindInternalRun_def Let_def split: if_splits option.splits)
  obtain a where a: "LookupInflight runID q = Some a"
    using assms h g by (auto simp: bindInternalRun_def queue_lookup_def Let_def split: if_splits option.splits)
  show ?thesis
    using assms h v g a by (auto simp: bindInternalRun_def queue_lookup_def Let_def split: if_splits)
qed

section \<open>Examples\<close>

definition sample_request :: "string \<Rightarrow> string \<Rightarrow> (string \<times> string) list \<Rightarrow> Request" where
  "sample_request m p hs = \<lparr>rq_method = m, rq_path = p,
     rq_header = (\<lambda>n. case map_of hs n of None \<Rightarrow> [] | Some v \<Rightarrow> [v]), rq_cookie = []\<rparr>"

definition sample_base :: ReqCtx where
  "sample_base = \<lparr>rc_ctx = \<lparr>ctx_tenant = None, ctx_system = False\<rparr>, rc_auth = None, rc_binding = None\<rparr>"

definition sample_bound_call :: Request where
  "sample_bound_call = sample_request ''POST'' ''/internal/checkpoints'' [(''X-Runkite-Run-Id'', ''r1''), (''X-Runkite-Generation'', ''1'')]"

definition sample_answer :: response where
  "sample_answer = fst (MiddlewareWithOpts 0 sample_base None None no_runner_tokens
     \<lparr>mo_StrictPermissions = True, mo_Inflight = Some (queue_lookup (queue sample_leased))\<rparr> sample_bound_call None)"

lemma sample_routes: "requiresRunBinding ''/internal/checkpoints''" "isInternalPath ''/internal/checkpoints''"
  "\<not> isPublicPath ''POST'' ''/internal/checkpoints''" "\<not> isPublicPath ''GET'' ''/agents''" "\<not> isInternalPath ''/agents''"
  "\<not> isAdminAPIPath ''/agents''"
  by code_simp+

lemma sample_served: "sample_answer = Served (bind_assignment sample_base ''r1'' sample_job)"
proof -
  have h: "exactIdentityHeader sample_bound_call ''X-Runkite-Run-Id'' ''X-Runkite-Run-Id-B64'' = (''r1'', True)"
    by code_simp
  have g: "Atoi (TrimSpace (header_get sample_bound_call ''X-Runkite-Generation'')) = Some 1"
    "TrimSpace (header_get sample_bound_call ''X-Runkite-Generation'') \<noteq> []" by code_simp+
  have p: "rq_path sample_bound_call = ''/internal/checkpoints''" "rq_method sample_bound_call = ''POST''"
    by (simp_all add: sample_bound_call_def sample_request_def)
  have j: "LookupInflight ''r1'' (queue sample_leased) = Some sample_job" "Generation sample_job = 1"
    by (simp_all add: LookupInflight_def sample_leased_def sample_job_def)
  show ?thesis
    using h g j by (simp add: sample_answer_def MiddlewareWithOpts_def p sample_routes internal_request_def rt_Enabled_def
      no_runner_tokens_def bindInternalRun_def queue_lookup_def Let_def)
qed

section \<open>Properties\<close>

text \<open>C11: A run-bound call of a runner is served only for a live dispatch. The named run has a lease in
  the queue at exactly the generation of the header; with runner tokens the caller's token is valid, the
  kind is the assignment's and may act for its tenant; and the tenant, agent, run and generation that the
  handler sees are the assignment's, not the runner's claims. Once the lease is acknowledged no such call
  for the run is served.\<close>

theorem run_bound_call_needs_live_lease:
  assumes path: "requiresRunBinding (rq_path r)" and opts: "mo_Inflight opts = Some (queue_lookup q)"
    and served: "fst (MiddlewareWithOpts now base provider adminProvider tokens opts r sessions) = Served c"
  shows "\<exists>b a. rc_binding c = Some b \<and> LookupInflight (rb_RunID b) q = Some a
    \<and> Atoi (TrimSpace (header_get r ''X-Runkite-Generation'')) = Some (Generation a)
    \<and> rb_Generation b = Generation a \<and> rb_AgentID b = GraphID a
    \<and> FromContext (rc_ctx c) = rb_TenantID b \<and> rb_TenantID b = (if AssignTenantID a = [] then DefaultTenant else AssignTenantID a)
    \<and> (rt_Enabled tokens \<longrightarrow> Validate tokens (RunnerKind a) (header_get r ''X-Runner-Token'')
          \<and> AllowsTenant tokens (RunnerKind a) (rb_TenantID b))
    \<and> (\<forall>g q'. Ack (rb_RunID b) g q = (True, q') \<longrightarrow>
          \<not> (\<exists>c'. fst (MiddlewareWithOpts now base provider adminProvider tokens (opts\<lparr>mo_Inflight := Some (queue_lookup q')\<rparr>) r sessions)
                = Served c'))"
proof -
  let ?kind = "header_get r ''X-Runner-Kind''"
  have internal: "isInternalPath (rq_path r)" using path by (rule runBound_internal)
  have mw: "fst (MiddlewareWithOpts now base provider adminProvider tokens o1 r sessions) = internal_request base r tokens o1" for o1
    using internal internal_not_public by (simp add: MiddlewareWithOpts_def)
  have bind: "bindInternalRun base r ?kind tokens (queue_lookup q') = Served c' \<and>
      (rt_Enabled tokens \<longrightarrow> Validate tokens ?kind (header_get r ''X-Runner-Token''))"
    if "internal_request base r tokens o1 = Served c'" "mo_Inflight o1 = Some (queue_lookup q')" for o1 q' c'
    using that path by (auto simp: internal_request_def Let_def split: if_splits)
  have b: "bindInternalRun base r ?kind tokens (queue_lookup q) = Served c"
    and tok: "rt_Enabled tokens \<longrightarrow> Validate tokens ?kind (header_get r ''X-Runner-Token'')"
    using bind [of opts c q] served opts by (simp_all add: mw)
  obtain runID a where runID: "exactIdentityHeader r ''X-Runkite-Run-Id'' ''X-Runkite-Run-Id-B64'' = (runID, True)"
    and a: "LookupInflight runID q = Some a"
    and gen: "Atoi (TrimSpace (header_get r ''X-Runkite-Generation'')) = Some (Generation a)"
    and kind: "rt_Enabled tokens \<longrightarrow> RunnerKind a = ?kind
        \<and> AllowsTenant tokens ?kind (if AssignTenantID a = [] then DefaultTenant else AssignTenantID a)"
    and c: "c = bind_assignment base runID a"
    using bindInternalRun_served [OF b] by blast
  have dead: "\<not> (\<exists>c'. internal_request base r tokens (opts\<lparr>mo_Inflight := Some (queue_lookup q')\<rparr>) = Served c')"
    if "Ack runID g q = (True, q')" for g q'
  proof
    assume "\<exists>c'. internal_request base r tokens (opts\<lparr>mo_Inflight := Some (queue_lookup q')\<rparr>) = Served c'"
    then obtain c' where "bindInternalRun base r ?kind tokens (queue_lookup q') = Served c'"
      using bind by fastforce
    from bindInternalRun_served [OF this] obtain a' where "LookupInflight runID q' = Some a'"
      using runID by auto
    moreover have "LookupInflight runID q' = None"
      using inproc.ack_lookup [of runID g q runID] that by simp
    ultimately show False by simp
  qed
  show ?thesis
    using a gen kind tok dead unfolding c mw bind_assignment_fields by auto
qed

theorem run_bound_call_needs_live_lease_witness:
  "\<exists>c b a. sample_answer = Served c \<and> rc_binding c = Some b \<and> LookupInflight (rb_RunID b) (queue sample_leased) = Some a
     \<and> FromContext (rc_ctx c) = rb_TenantID b \<and> rb_Generation b = Generation a"
proof -
  have "requiresRunBinding (rq_path sample_bound_call)" by (simp add: sample_bound_call_def sample_request_def sample_routes)
  from run_bound_call_needs_live_lease [OF this _ sample_served [unfolded sample_answer_def], of "queue sample_leased"]
  obtain b a where "rc_binding (bind_assignment sample_base ''r1'' sample_job) = Some b"
    "LookupInflight (rb_RunID b) (queue sample_leased) = Some a" "rb_Generation b = Generation a"
    "FromContext (rc_ctx (bind_assignment sample_base ''r1'' sample_job)) = rb_TenantID b" by auto
  then show ?thesis using sample_served by blast
qed

text \<open>C5: With client authentication configured no request gets past the middleware unadmitted. A served
  request is on a public path, or on the runner surface with valid runner credentials when tokens are
  configured, or carries an authenticated caller in whose tenant it runs. On the Admin API that caller
  came from a live browser session, with the session's CSRF token if the method mutates, from the admin
  credential, or from the primary provider with admin permission; elsewhere from the primary provider
  with the permission that the route requires.\<close>

theorem served_request_was_admitted:
  assumes "provider = Some authenticate"
    and "MiddlewareWithOpts now base provider adminProvider tokens opts r sessions = (Served c, sessions')"
  shows "isPublicPath (rq_method r) (rq_path r)
    \<or> isInternalPath (rq_path r)
        \<and> (rt_Enabled tokens \<longrightarrow> Validate tokens (header_get r ''X-Runner-Kind'') (header_get r ''X-Runner-Token''))
    \<or> (\<exists>res. rc_auth c = Some res
        \<and> FromContext (rc_ctx c) = (if ar_TenantID res = [] then FromContext (rc_ctx base) else ar_TenantID res)
        \<and> (if isAdminAPIPath (rq_path r)
           then (\<exists>store csrf. sessions = Some store \<and> rq_cookie r \<noteq> [] \<and> admin_owner store (rq_cookie r) = Some (csrf, res)
                    \<and> now \<le> admin_lives store (rq_cookie r)
                    \<and> (isMutatingMethod (rq_method r) \<longrightarrow> header_get r ''X-Csrf-Token'' = csrf))
               \<or> (\<exists>admin. adminProvider = Some admin \<and> admin r = Inr res)
               \<or> authenticate r = Inr res \<and> authorizedAdmin (Some res) (mo_StrictPermissions opts)
           else authenticate r = Inr res \<and> authorized (Some res) (rq_method r) (rq_path r) (mo_StrictPermissions opts)))"
proof -
  have primary: "\<exists>res. c = as_caller base res \<and> authenticate r = Inr res
      \<and> (if isAdminAPIPath (rq_path r) then authorizedAdmin (Some res) (mo_StrictPermissions opts)
         else authorized (Some res) (rq_method r) (rq_path r) (mo_StrictPermissions opts))"
    if "primary_request base provider r opts = Served c"
    using that assms(1) by (auto simp: primary_request_def split: sum.splits if_splits)
  have either: "\<exists>res. c = as_caller base res
      \<and> (if isAdminAPIPath (rq_path r)
         then (\<exists>admin. adminProvider = Some admin \<and> admin r = Inr res)
             \<or> authenticate r = Inr res \<and> authorizedAdmin (Some res) (mo_StrictPermissions opts)
         else authenticate r = Inr res \<and> authorized (Some res) (rq_method r) (rq_path r) (mo_StrictPermissions opts))"
    if "admin_or_primary base provider adminProvider r opts = Served c"
    using that primary by (auto simp: admin_or_primary_def split: option.splits sum.splits if_splits bool.splits)
  consider "isPublicPath (rq_method r) (rq_path r)"
    | "isInternalPath (rq_path r)" "internal_request base r tokens opts = Served c"
    | store sess store' where "isAdminAPIPath (rq_path r)" "sessions = Some store" "admin_Get now (rq_cookie r) store = (Some sess, store')"
        "c = as_caller base (as_Result sess)" "isMutatingMethod (rq_method r) \<longrightarrow> header_get r ''X-Csrf-Token'' = as_CSRF sess"
    | "admin_or_primary base provider adminProvider r opts = Served c"
    using assms(2)
    by (auto simp: MiddlewareWithOpts_def csrfTokenMatch_def split: if_splits option.splits prod.splits)
  then show ?thesis
  proof cases
    case 2
    then show ?thesis by (auto simp: internal_request_def Let_def split: if_splits)
  next
    case (3 store sess store')
    have "admin_owner store (rq_cookie r) = Some (as_CSRF sess, as_Result sess)" "rq_cookie r \<noteq> []" "now \<le> admin_lives store (rq_cookie r)"
      using 3(3) admin_tokens.fetch_iff [of now "rq_cookie r" store "(as_CSRF sess, as_Result sess)"] by auto
    then show ?thesis using 3 as_caller_fields [of base "as_Result sess"] by auto
  next
    case 4
    from either [OF this] obtain res where "c = as_caller base res" and res: "if isAdminAPIPath (rq_path r)
         then (\<exists>admin. adminProvider = Some admin \<and> admin r = Inr res)
             \<or> authenticate r = Inr res \<and> authorizedAdmin (Some res) (mo_StrictPermissions opts)
         else authenticate r = Inr res \<and> authorized (Some res) (rq_method r) (rq_path r) (mo_StrictPermissions opts)"
      by blast
    then show ?thesis using as_caller_fields [of base res] by auto
  qed simp
qed

definition sample_caller :: AuthResult where
  "sample_caller = \<lparr>ar_Identity = ''ann'', ar_Permissions = [''read''], ar_TenantID = ''acme'', ar_DisplayName = [], ar_Extra = Map.empty\<rparr>"

theorem served_request_was_admitted_witness:
  "fst (MiddlewareWithOpts 0 sample_base (Some (\<lambda>_. Inr sample_caller)) None no_runner_tokens
      \<lparr>mo_StrictPermissions = True, mo_Inflight = None\<rparr> (sample_request ''GET'' ''/agents'' []) None) = Served (as_caller sample_base sample_caller)
   \<and> FromContext (rc_ctx (as_caller sample_base sample_caller)) = ''acme''"
proof -
  let ?o = "\<lparr>mo_StrictPermissions = True, mo_Inflight = None\<rparr>" and ?r = "sample_request ''GET'' ''/agents'' []"
  have p: "rq_path ?r = ''/agents''" "rq_method ?r = ''GET''" by (simp_all add: sample_request_def)
  have "authorized (Some sample_caller) ''GET'' ''/agents'' True" by code_simp
  then have served: "MiddlewareWithOpts 0 sample_base (Some (\<lambda>_. Inr sample_caller)) None no_runner_tokens ?o ?r None
      = (Served (as_caller sample_base sample_caller), None)"
    by (simp add: MiddlewareWithOpts_def p sample_routes admin_or_primary_def primary_request_def)
  from served_request_was_admitted [OF refl served, unfolded p] have "rc_auth (as_caller sample_base sample_caller) = Some sample_caller
      \<and> FromContext (rc_ctx (as_caller sample_base sample_caller)) = ''acme''"
    by (simp add: sample_routes as_caller_fields) (simp add: sample_caller_def)
  then show ?thesis using served by simp
qed

text \<open>A run identity crosses the header boundary unchanged. Any non-empty valid UTF-8 identifier sent
  in the encoded header alone is read back exactly, and an identifier of the accepted form also in the raw
  header; both headers together, or one twice, are refused.\<close>

theorem identity_header_roundtrip:
  assumes "runID \<noteq> []" "utf8_valid runID"
  shows "(rq_header r enc = [EncodeToString runID] \<and> rq_header r raw = [] \<longrightarrow> exactIdentityHeader r raw enc = (runID, True))
    \<and> (rq_header r raw = [runID] \<and> rq_header r enc = [] \<and> ValidRunID runID \<longrightarrow> exactIdentityHeader r raw enc = (runID, True))
    \<and> (rq_header r raw \<noteq> [] \<and> rq_header r enc \<noteq> [] \<or> 1 < length (rq_header r raw) \<longrightarrow> exactIdentityHeader r raw enc = ([], False))"
  using assms by (auto simp: exactIdentityHeader_def header_get_def Let_def)

theorem identity_header_roundtrip_witness:
  "exactIdentityHeader (sample_request ''GET'' ''/'' [(''E'', EncodeToString '' r 1'')]) ''R'' ''E'' = ('' r 1'', True)"
  using identity_header_roundtrip [of "'' r 1''" "sample_request ''GET'' ''/'' [(''E'', EncodeToString '' r 1'')]" "''E''" "''R''"]
  by (simp add: sample_request_def) (simp add: utf8_valid.simps second_ok_def byte_in_def byte_def)

end
