(* ===== verification/Governed_Calls.thy ===== *)
theory Governed_Calls
  imports Pending_Actions Spend_Control Access_Control
begin

text \<open>
  The handlers that put governance together: the policy check of a connector call with the break-glass
  bypass (src/internal/api/policy.go and break_glass.go), the connector session and the MCP proxy
  endpoints (src/internal/api/server.go), the decision and poll endpoints of embedded clients
  (src/internal/api/governance_decide.go) and the admission gate of runs (src/internal/api/admission.go).
  They run on one state: policy engine, approvals, audit log, break-glass windows, kill switches,
  capability tokens, connectors and spending. Random identifiers, clocks, the servers behind the
  connectors and the rewriting of large results are arguments; the messages of errors are left out.
\<close>

section \<open>State and surroundings\<close>

record Control = Governance +
  gc_windows :: "BreakGlassWindow list"
  gc_switches :: "KillSwitch list"
  gc_sessions :: "ConnectorSessionStore option"
  gc_registry :: "Registry option"
  gc_spend :: Spend

text \<open>\<open>ge_hex\<close> gives the random suffix that is minted for a purpose, None when the source of randomness
  fails; \<open>ge_now\<close>, \<open>ge_clock\<close> and \<open>ge_moment\<close> are the same time as timestamps, sessions and spending
  have it.\<close>

record GovEnv =
  ge_policy :: PolicyEnv
  ge_now :: instant
  ge_clock :: int
  ge_moment :: moment
  ge_hex :: "string \<Rightarrow> string option"
  ge_run_events :: bool
  ge_sha :: "string \<Rightarrow> string"
  ge_pick :: "nat \<Rightarrow> nat"
  ge_sinks :: bool
  ge_std :: StdText
  ge_conn :: ConnEnv
  ge_downstream :: downstream
  ge_shrink :: "mcp_body \<Rightarrow> mcp_body"
  ge_inject :: "mcp_body \<Rightarrow> mcp_body"
  ge_unmarshal :: "string \<Rightarrow> json option"
  ge_utf8 :: "string \<Rightarrow> bool"
  ge_tokens :: "string \<Rightarrow> json_token list option"
  ge_allow_agent :: "string \<Rightarrow> bool"
  ge_pending_until :: instant

definition ReasonBreakGlass :: string where "ReasonBreakGlass = ''break_glass''"
definition ReasonKillActive :: string where "ReasonKillActive = ''kill_active''"
definition ReasonAuthzDeny :: string where "ReasonAuthzDeny = ''authz_deny''"

section \<open>The policy of a connector call (policy.go, break_glass.go)\<close>

definition policyInputFromRequest :: "ReqCtx \<Rightarrow> string \<Rightarrow> string \<Rightarrow> string \<Rightarrow> PolicyInput" where
  "policyInputFromRequest rc stage connectorName tool =
     (let inp = \<lparr>in_Stage = stage, in_TenantID = FromContext (rc_ctx rc), in_Principal = [], in_AgentID = [], in_RunID = [],
                 in_Generation = 0, in_Connector = connectorName, in_Tool = tool, in_Args = JNull, in_ArgsMeta = None,
                 in_ArgsDigest = [], in_Claims = Map.empty, in_Labels = Map.empty\<rparr>
      in case rc_binding rc of
           Some b \<Rightarrow>
             inp\<lparr>in_TenantID := rb_TenantID b, in_AgentID := rb_AgentID b, in_RunID := rb_RunID b, in_Generation := rb_Generation b,
                 in_Principal := (case rb_User b of None \<Rightarrow> [] | Some u \<Rightarrow> uc_Identity u)\<rparr>
         | None \<Rightarrow>
             (case rc_auth rc of
                None \<Rightarrow> inp
              | Some ar \<Rightarrow> inp\<lparr>in_Principal := ar_Identity ar, in_TenantID := (if ar_TenantID ar \<noteq> [] then ar_TenantID ar else in_TenantID inp)\<rparr>))"

text \<open>The agent and the run that a caller outside a run binding attached to the context.\<close>

definition policyInput :: "ReqCtx \<Rightarrow> string option \<Rightarrow> string option \<Rightarrow> string \<Rightarrow> string \<Rightarrow> string \<Rightarrow> PolicyInput" where
  "policyInput rc agentKey runKey stage connectorName tool =
     (let inp = policyInputFromRequest rc stage connectorName tool;
          inp1 = (case agentKey of Some v \<Rightarrow> if in_AgentID inp = [] then inp\<lparr>in_AgentID := v\<rparr> else inp | None \<Rightarrow> inp)
      in case runKey of Some v \<Rightarrow> if in_RunID inp1 = [] then inp1\<lparr>in_RunID := v\<rparr> else inp1 | None \<Rightarrow> inp1)"

definition glass_audit :: "string \<Rightarrow> string \<Rightarrow> string \<Rightarrow> PolicyInput \<Rightarrow> BreakGlassWindow \<Rightarrow> MandatoryHITLRule option \<Rightarrow> AuditEvent" where
  "glass_audit sfx tenantID actor inp win rule =
     \<lparr>a_ID = ''bg-use-'' @ sfx, a_TenantID = tenantID, a_Actor = actor, a_Action = in_Stage inp,
      a_ResourceType = (if in_Stage inp = StageRunCreate then ''run'' else ''connector''), a_ResourceID = in_Connector inp,
      a_Decision = EffectAllow, a_ReasonCode = ReasonBreakGlass, a_RuleID = bg_ID win, a_LatencyMs = 0, a_RunID = in_RunID inp,
      a_Generation = in_Generation inp, a_AgentID = in_AgentID inp, a_Connector = in_Connector inp, a_Tool = in_Tool inp,
      a_Attrs = [(''reason'', JStr (bg_Reason win)), (''window_id'', JStr (bg_ID win)), (''created_by'', JStr (bg_CreatedBy win)),
                 (''expires_at'', JStr (fst (bg_ExpiresAt win) @ ''Z''))]
        @ (case rule of
             None \<Rightarrow> []
           | Some r \<Rightarrow> [(''mandatory_hitl_bypassed'', JBool True)]
               @ (if TrimSpace (h_ID r) \<noteq> [] then [(''mandatory_hitl_rule_id'', JStr (TrimSpace (h_ID r)))] else []))\<rparr>"

definition input_tenant :: "ReqCtx \<Rightarrow> PolicyInput \<Rightarrow> string" where
  "input_tenant rc inp = (if in_TenantID inp = [] then FromContext (rc_ctx rc) else in_TenantID inp)"

definition tryBreakGlassBypass :: "GovEnv \<Rightarrow> ReqCtx \<Rightarrow> PolicyInput \<Rightarrow> Control \<Rightarrow> bool \<times> Control" where
  "tryBreakGlassBypass env rc inp s =
     (case gv_policy s of
        None \<Rightarrow> (False, s)
      | Some e \<Rightarrow>
          let tenantID = input_tenant rc inp in
          (case FindActiveBreakGlass (ge_now env) tenantID (in_AgentID inp) (gc_windows s) of
             None \<Rightarrow> (False, s)
           | Some win \<Rightarrow>
               let actor = (if in_Principal inp = [] then identity_of (rc_auth rc) else in_Principal inp) in
               (case ge_hex env ''break_glass'' of
                  None \<Rightarrow> (False, s)
                | Some sfx \<Rightarrow>
                    if \<not> pe_audit (ge_policy env) then (False, s)
                    else (True, s\<lparr>gv_audit := gv_audit s @ [glass_audit sfx tenantID actor inp win
                                   (if in_Stage inp = StageToolCall then matchMandatoryHITL (mandatoryHITL e) inp else None)]\<rparr>))))"

definition zero_decision :: PolicyDecision where
  "zero_decision = \<lparr>Effect = [], Reason = [], ReasonCode = [], RuleID = [], LatencyMs = 0\<rparr>"

definition checkConnectorPolicy :: "GovEnv \<Rightarrow> ReqCtx \<Rightarrow> PolicyInput \<Rightarrow> Control \<Rightarrow> (PolicyDecision \<times> bool) \<times> Control" where
  "checkConnectorPolicy env rc inp s =
     (case gv_policy s of
        None \<Rightarrow> ((zero_decision, False), s)
      | Some e \<Rightarrow>
          (case tryBreakGlassBypass env rc inp s of
             (True, s1) \<Rightarrow>
               ((zero_decision\<lparr>Effect := EffectAllow, Reason := ''break-glass window active'', ReasonCode := ReasonBreakGlass\<rparr>, False), s1)
           | (False, s1) \<Rightarrow>
               (case policy_Decide (ge_policy env) (FromContext (rc_ctx rc)) e inp s1 of
                  (dec, s2) \<Rightarrow> ((dec, Effect dec \<noteq> EffectAllow), s2))))"

text \<open>A failed publication leaves the stream as it is.\<close>

definition emitToolAuthEvent :: "GovEnv \<Rightarrow> PolicyInput \<Rightarrow> PolicyDecision \<Rightarrow> string \<Rightarrow> Control \<Rightarrow> Control" where
  "emitToolAuthEvent env inp dec actionID s =
     (if \<not> ge_run_events env \<or> in_RunID inp = [] then s
      else
        let payload = [(''stage'', JStr (in_Stage inp)), (''effect'', JStr (Effect dec)), (''connector'', JStr (in_Connector inp)),
                       (''tool'', JStr (in_Tool inp)), (''reason'', JStr (Reason dec)), (''reason_code'', JStr (ReasonCode dec)),
                       (''rule_id'', JStr (RuleID dec)), (''generation'', JNum (Itoa (in_Generation inp)))]
              @ (if actionID \<noteq> [] then [(''action_id'', JStr actionID)] else [])
              @ (if in_ArgsDigest inp \<noteq> [] then [(''args_digest'', JStr (in_ArgsDigest inp))] else []);
            plane = sp_plane (gc_spend s);
            seq = fold (\<lambda>ev n. if ev_Seq ev \<ge> n then i64 (ev_Seq ev + 1) else n) (Replay (in_RunID inp) 0 (p_broker plane)) 1
        in case (Marshal (JObj payload), ge_hex env ''tool_auth'') of
             (Some text, Some sfx) \<Rightarrow>
               (case Publish (in_RunID inp)
                       \<lparr>ev_Generation = in_Generation inp, ev_EventID = in_RunID inp @ ''_tool_auth_'' @ sfx, ev_Seq = seq,
                        ev_Method = ''tool_auth'', ev_Namespace = [], ev_Data = text, ev_Ts = ge_clock env div 1000000\<rparr> (p_broker plane) of
                  None \<Rightarrow> s
                | Some b \<Rightarrow> s\<lparr>gc_spend := (gc_spend s)\<lparr>sp_plane := plane\<lparr>p_broker := b\<rparr>\<rparr>\<rparr>)
           | _ \<Rightarrow> s)"

definition call_of_input :: "PolicyInput \<Rightarrow> string \<Rightarrow> string \<Rightarrow> string \<Rightarrow> Call" where
  "call_of_input inp connectorName tool argsDigest =
     \<lparr>cl_TenantID = in_TenantID inp, cl_AgentID = in_AgentID inp, cl_RunID = in_RunID inp, cl_Generation = in_Generation inp,
      cl_Connector = connectorName, cl_Tool = tool, cl_ArgsDigest = argsDigest\<rparr>"

definition tryConsumePendingCapability :: "GovEnv \<Rightarrow> ReqCtx \<Rightarrow> string \<Rightarrow> string \<Rightarrow> string \<Rightarrow> Control \<Rightarrow> bool \<times> Control" where
  "tryConsumePendingCapability env rc connectorName tool argsDigest s =
     (let inp = policyInputFromRequest rc StageToolCall connectorName tool in
      if in_RunID inp = [] then (False, s)
      else case ConsumeApprovedAction (ge_now env) (call_of_input inp connectorName tool argsDigest) (gv_pending s) of
        (i, rows) \<Rightarrow> (i \<noteq> [], s\<lparr>gv_pending := rows\<rparr>))"

definition pending_row :: "string \<Rightarrow> PolicyInput \<Rightarrow> string \<Rightarrow> string \<Rightarrow> PolicyDecision \<Rightarrow> string \<Rightarrow> instant option \<Rightarrow> PendingAction" where
  "pending_row sfx inp connectorName tool dec digest expiresAt =
     \<lparr>pa_ID = pendingActionIDPrefix @ sfx, pa_RunID = in_RunID inp, pa_Generation = in_Generation inp, pa_TenantID = in_TenantID inp,
      pa_AgentID = in_AgentID inp, pa_Connector = connectorName, pa_Tool = tool, pa_RuleID = RuleID dec, pa_Reason = Reason dec,
      pa_ReasonCode = (if ReasonCode dec = [] then ReasonPolicyPending else ReasonCode dec), pa_Status = PendingStatusPending,
      pa_ArgsDigest = digest, pa_Args = in_ArgsMeta inp, pa_DecidedBy = [], pa_CreatedAt = zero_time,
      pa_UpdatedAt = zero_time, pa_ExpiresAt = expiresAt\<rparr>"

definition persistPendingAction ::
  "GovEnv \<Rightarrow> PolicyInput \<Rightarrow> string \<Rightarrow> string \<Rightarrow> PolicyDecision \<Rightarrow> instant option \<Rightarrow> Control \<Rightarrow> (store_error option + string) \<times> Control" where
  "persistPendingAction env inp connectorName tool dec expiresAt s =
     (if in_RunID inp = [] then (Inl None, s)
      else
        let digest = (if in_ArgsDigest inp = [] then digestArgs (ge_sha env) (JObj []) else in_ArgsDigest inp) in
        (case ge_hex env ''pending'' of
           None \<Rightarrow> (Inl None, s)
         | Some sfx \<Rightarrow>
             (case CreatePendingAction (ge_sha env) (ge_now env) (pending_row sfx inp connectorName tool dec digest expiresAt) (gv_pending s) of
                (Inl e, rows) \<Rightarrow> (Inl (Some e), s\<lparr>gv_pending := rows\<rparr>)
              | (Inr a, rows) \<Rightarrow> (Inr (pa_ID a), s\<lparr>gv_pending := rows\<rparr>))))"

definition policyDenyJSON :: "PolicyDecision \<Rightarrow> (string \<times> string) list" where
  "policyDenyJSON dec =
     [(''message'', if Reason dec = [] then ''denied by policy'' else Reason dec)]
     @ (if ReasonCode dec \<noteq> [] then [(''reason_code'', ReasonCode dec)] else [])"

definition mcpPolicyDenyData :: "PolicyDecision \<Rightarrow> string \<Rightarrow> (string \<times> string) list" where
  "mcpPolicyDenyData dec actionID =
     (if ReasonCode dec \<noteq> [] then [(''reason_code'', ReasonCode dec)] else [])
     @ (if RuleID dec \<noteq> [] then [(''rule_id'', RuleID dec)] else [])
     @ (if actionID \<noteq> [] then [(''action_id'', actionID)] else [])
     @ (if Effect dec \<noteq> [] then [(''effect'', Effect dec)] else [])"

section \<open>Connector sessions and the MCP proxy (server.go)\<close>

definition connector_status :: "conn_error \<Rightarrow> nat" where
  "connector_status e = (case e of ErrConnectorNotFound \<Rightarrow> 404 | ErrCircuitOpen _ \<Rightarrow> 503 | _ \<Rightarrow> 502)"

text \<open>\<open>SessionForbidden\<close> carries the body of the 403 answer, \<open>SessionGiven\<close> that of the 200 answer.\<close>

datatype session_answer = SessionStatus nat | SessionForbidden "(string \<times> string) list" | SessionGiven SessionResponse

definition handleGetConnectorSession ::
  "GovEnv \<Rightarrow> ReqCtx \<Rightarrow> string \<Rightarrow> (string \<rightharpoonup> json) option \<Rightarrow> Control \<Rightarrow> session_answer \<times> Control" where
  "handleGetConnectorSession env rc name body s =
     (case gc_registry s of
        None \<Rightarrow> (SessionStatus 404, s)
      | Some reg \<Rightarrow>
          let inp = policyInput rc None None StageConnectorSession name [] in
          (case checkConnectorPolicy env rc inp s of
             ((dec, True), s1) \<Rightarrow> (SessionForbidden (policyDenyJSON dec), emitToolAuthEvent env inp dec [] s1)
           | ((dec, False), s1) \<Rightarrow>
               (case GetSession (ge_conn env) name (case body of None \<Rightarrow> Map.empty | Some m \<Rightarrow> m) reg of
                  (Inl e, reg') \<Rightarrow> (SessionStatus (connector_status e), s1\<lparr>gc_registry := Some reg'\<rparr>)
                | (Inr sess, reg') \<Rightarrow>
                    let s2 = s1\<lparr>gc_registry := Some reg'\<rparr> in
                    if sr_MCP sess = None then (SessionGiven sess, s2)
                    else case gc_sessions s2 of
                      None \<Rightarrow> (SessionStatus 503, s2)
                    | Some st \<Rightarrow>
                        (case rc_binding rc of
                           None \<Rightarrow> (SessionStatus 401, s2)
                         | Some b \<Rightarrow>
                             (case ge_hex env ''connector_session'' of
                                None \<Rightarrow> (SessionStatus 500, s2)
                              | Some tok \<Rightarrow>
                                  (case connector_Create (ge_clock env) tok name (rb_RunID b) (rb_Generation b) (rb_TenantID b) (rb_AgentID b) st of
                                     (cap, st') \<Rightarrow>
                                       (SessionGiven (sess\<lparr>sr_SessionToken := cs_Token cap, sr_ExpiresAt := cs_Expires cap\<rparr>),
                                        s2\<lparr>gc_sessions := Some st'\<rparr>)))))))"

text \<open>None: the request may go on; otherwise the status of the answer.\<close>

definition requireConnectorSession :: "GovEnv \<Rightarrow> ReqCtx \<Rightarrow> Request \<Rightarrow> string \<Rightarrow> Control \<Rightarrow> nat option \<times> Control" where
  "requireConnectorSession env rc r connectorName s =
     (case gc_sessions s of
        None \<Rightarrow> (Some 503, s)
      | Some st \<Rightarrow>
          let tok = TrimSpace (header_get r ''X-Runkite-Connector-Session'') in
          if tok = [] then (Some 401, s)
          else case connector_Get (ge_clock env) tok st of
            (None, st') \<Rightarrow> (Some 401, s\<lparr>gc_sessions := Some st'\<rparr>)
          | (Some sess, st') \<Rightarrow>
              (case rc_binding rc of
                 None \<Rightarrow> (Some 401, s\<lparr>gc_sessions := Some st'\<rparr>)
               | Some b \<Rightarrow>
                   (if cs_Connector sess \<noteq> connectorName \<or> cs_RunID sess \<noteq> rb_RunID b \<or> cs_Generation sess \<noteq> rb_Generation b
                    then (Some 403, s\<lparr>gc_sessions := Some st'\<rparr>) else (None, s\<lparr>gc_sessions := Some st'\<rparr>))))"

text \<open>BindArgsStrict on the arguments of a parsed request: the request was decoded without repeated members
  and its arguments are an object or absent, so that decoding them again gives them back.\<close>

definition bind_call :: "GovEnv \<Rightarrow> json option \<Rightarrow> PolicyInput \<Rightarrow> PolicyInput" where
  "bind_call env args inp =
     (let parsed = (case args of None \<Rightarrow> JObj [] | Some v \<Rightarrow> v) in
      inp\<lparr>in_Args := parsed, in_ArgsDigest := digestArgs (ge_sha env) parsed, in_ArgsMeta := redactArgs (ge_pick env) parsed\<rparr>)"

text \<open>The decision on one tools/call: None lets it pass, otherwise the message and the data of the refusal.\<close>

definition judge_call ::
  "GovEnv \<Rightarrow> ReqCtx \<Rightarrow> string \<Rightarrow> MCPRequest \<Rightarrow> Control \<Rightarrow> (string \<times> (string \<times> string) list) option \<times> Control" where
  "judge_call env rc name rpc s =
     (let tool = mr_Tool rpc;
          inp = bind_call env (mr_Arguments rpc) (policyInput rc None None StageToolCall name tool) in
      case checkConnectorPolicy env rc inp s of
        ((dec, deny), s1) \<Rightarrow>
          (case (if \<not> deny \<or> Effect dec = EffectPending then tryConsumePendingCapability env rc name tool (in_ArgsDigest inp) s1 else (False, s1)) of
             (approved, s2) \<Rightarrow>
               if \<not> deny \<or> approved then (None, s2)
               else
                 (case (if Effect dec \<noteq> EffectPending then ((dec, []), s2)
                        else case persistPendingAction env inp name tool dec None s2 of
                               (Inl _, s3) \<Rightarrow>
                                 ((dec\<lparr>Effect := EffectDeny, Reason := (if Reason dec = [] then ''pending approval unavailable'' else Reason dec),
                                       ReasonCode := (if ReasonCode dec = [] then ReasonPolicyPending else ReasonCode dec)\<rparr>, []), s3)
                             | (Inr i, s3) \<Rightarrow>
                                 ((dec\<lparr>ReasonCode := (if ReasonCode dec = [] then ReasonPolicyPending else ReasonCode dec)\<rparr>, i), s3)) of
                    ((dec', actionID), s3) \<Rightarrow>
                      (Some (if Reason dec' \<noteq> [] then Reason dec'
                             else if Effect dec' = EffectPending then ''awaiting policy approval'' else ''denied by policy'',
                             mcpPolicyDenyData dec' actionID),
                       emitToolAuthEvent env inp dec' actionID s3))))"

datatype request_body = McpBodyTooLarge | McpBodyUnreadable | McpBodyRead "json option"

text \<open>\<open>PolicyRefused\<close> is the JSON-RPC error with its message and data, \<open>PayloadRetrieved\<close> hands the call to the
  store of large results, \<open>McpRelayed\<close> is the reply of the proxy.\<close>

datatype mcp_answer =
    McpStatus nat
  | PayloadRetrieved "json option" "json option"
  | PolicyRefused "json option" string "(string \<times> string) list"
  | McpRelayed proxy_reply

definition user_context_header :: "GovEnv \<Rightarrow> Request \<Rightarrow> string \<rightharpoonup> json" where
  "user_context_header env r =
     (let raw = header_get r ''X-Runkite-User-Context'' in
      if raw = [] then Map.empty
      else case ge_unmarshal env raw of Some (JObj kvs) \<Rightarrow> map_of (rev kvs) | _ \<Rightarrow> Map.empty)"

definition relay :: "GovEnv \<Rightarrow> string \<Rightarrow> conn_error + proxy_reply \<Rightarrow> mcp_answer" where
  "relay env m res =
     (case res of
        Inl e \<Rightarrow> McpStatus (connector_status e)
      | Inr (ToolRefused i n t) \<Rightarrow> McpRelayed (ToolRefused i n t)
      | Inr (Proxied body status) \<Rightarrow>
          let body1 = (if m = ''tools/call'' \<and> status = 200 then ge_shrink env body else body) in
          if status = 401 then McpStatus 502
          else McpRelayed (Proxied (if m = ''tools/list'' then ge_inject env body1 else body1) status))"

definition payload_tool :: string where "payload_tool = ''runkite_retrieve_payload''"

definition handleProxyMCPRequest ::
  "GovEnv \<Rightarrow> ReqCtx \<Rightarrow> Request \<Rightarrow> string \<Rightarrow> request_body \<Rightarrow> Control \<Rightarrow> mcp_answer \<times> Control \<times> MCPRequest option" where
  "handleProxyMCPRequest env rc r name body s =
     (case gc_registry s of
        None \<Rightarrow> (McpStatus 404, s, None)
      | Some reg \<Rightarrow>
          if reg name = None then (McpStatus 404, s, None)
          else case requireConnectorSession env rc r name s of
            (Some code, s1) \<Rightarrow> (McpStatus code, s1, None)
          | (None, s1) \<Rightarrow>
              (case body of
                 McpBodyTooLarge \<Rightarrow> (McpStatus 413, s1, None)
               | McpBodyUnreadable \<Rightarrow> (McpStatus 400, s1, None)
               | McpBodyRead doc \<Rightarrow>
                   (case ParseMCPRequest doc of
                      None \<Rightarrow> (McpStatus 400, s1, None)
                    | Some rpc \<Rightarrow>
                        if mr_Method rpc = ''tools/call'' \<and> mr_Tool rpc = payload_tool
                        then (PayloadRetrieved (mr_ID rpc) (mr_Arguments rpc), s1, None)
                        else
                          case (if mr_Method rpc = ''tools/call'' then judge_call env rc name rpc s1 else (None, s1)) of
                            (Some (msg, details), s2) \<Rightarrow> (PolicyRefused (mr_ID rpc) msg details, s2, None)
                          | (None, s2) \<Rightarrow>
                              (case ProxyMCPRequest (ge_conn env) (ge_downstream env) name (user_context_header env r) (Some (mr_Body rpc)) reg of
                                 (res, reg', sent) \<Rightarrow> (relay env (mr_Method rpc) res, s2\<lparr>gc_registry := Some reg'\<rparr>, sent)))))"

section \<open>Admission of runs (admission.go)\<close>

record HookEvent =
  he_RunID :: string
  he_AgentID :: string
  he_TenantID :: string

definition spend_env :: "GovEnv \<Rightarrow> ReqCtx \<Rightarrow> SpendEnv" where
  "spend_env env rc = \<lparr>se_ctx = rc_ctx rc, se_now = ge_moment env, se_actor = rc_auth rc, se_suffix = ge_hex env ''audit'', se_sinks = ge_sinks env\<rparr>"

definition kill_reason :: "KillSwitch \<Rightarrow> string" where
  "kill_reason k =
     (let reason = (if ks_Reason k \<noteq> [] then ks_Reason k
                    else if ks_AgentID k \<noteq> [] then ''agent kill switch active'' else ''tenant kill switch active'')
      in if ks_PauseOnly k then ''enqueue paused: '' @ reason else reason)"

definition run_create_input :: "ReqCtx \<Rightarrow> string \<Rightarrow> string \<Rightarrow> string \<Rightarrow> PolicyInput" where
  "run_create_input rc tenantID agentID runID =
     \<lparr>in_Stage = StageRunCreate, in_TenantID = tenantID, in_Principal = identity_of (rc_auth rc), in_AgentID = agentID, in_RunID = runID,
      in_Generation = 0, in_Connector = [], in_Tool = [], in_Args = JNull, in_ArgsMeta = None, in_ArgsDigest = [],
      in_Claims = Map.empty, in_Labels = Map.empty\<rparr>"

definition admission_deny :: "GovEnv \<Rightarrow> ReqCtx \<Rightarrow> string \<Rightarrow> string \<Rightarrow> string \<Rightarrow> string \<Rightarrow> string \<Rightarrow> Control \<Rightarrow> (bool \<times> string) \<times> Control" where
  "admission_deny env rc tenantID agentID runID code reason s =
     ((False, reason), s\<lparr>gv_audit := writeAdmissionDenyAudit (ge_hex env ''audit'') (rc_auth rc) tenantID agentID runID code reason (gv_audit s)\<rparr>)"

text \<open>The policy stage: the reason of a refusal, or None.\<close>

definition admission_policy :: "GovEnv \<Rightarrow> ReqCtx \<Rightarrow> PolicyInput \<Rightarrow> Control \<Rightarrow> string option \<times> Control" where
  "admission_policy env rc inp s =
     (case gv_policy s of
        None \<Rightarrow> (None, s)
      | Some e \<Rightarrow>
          (case tryBreakGlassBypass env rc inp s of
             (True, s1) \<Rightarrow> (None, s1)
           | (False, s1) \<Rightarrow>
               (case policy_Decide (ge_policy env) (FromContext (rc_ctx rc)) e inp s1 of
                  (dec, s2) \<Rightarrow>
                    (if Effect dec = EffectAllow then None
                     else Some (if Reason dec \<noteq> [] then Reason dec else if ReasonCode dec \<noteq> [] then ReasonCode dec
                                else ''run.create denied by policy''), s2))))"

definition admissionGate_Decide :: "GovEnv \<Rightarrow> ReqCtx \<Rightarrow> HookEvent \<Rightarrow> Control \<Rightarrow> (bool \<times> string) \<times> Control" where
  "admissionGate_Decide env rc event s =
     (let tenantID = (if he_TenantID event = [] then FromContext (rc_ctx rc) else he_TenantID event);
          agentID = he_AgentID event; runID = he_RunID event in
      case FindActiveKill tenantID agentID (gc_switches s) of
        Some k \<Rightarrow> admission_deny env rc tenantID agentID runID ReasonKillActive (kill_reason k) s
      | None \<Rightarrow>
          if \<not> CanRunAgent (rc_auth rc) agentID
          then admission_deny env rc tenantID agentID runID ReasonAuthzDeny (''missing permission '' @ AgentRunPermission agentID) s
          else case admission_policy env rc (run_create_input rc tenantID agentID runID) s of
            (Some reason, s1) \<Rightarrow> ((False, reason), s1)
          | (None, s1) \<Rightarrow>
              (case checkBudgetAdmission (ge_std env) (spend_env env rc) tenantID agentID runID ((gc_spend s1)\<lparr>sp_audit := gv_audit s1\<rparr>) of
                 ((allow, reason), sp) \<Rightarrow>
                   ((allow, if allow then [] else reason), s1\<lparr>gc_spend := sp, gv_audit := sp_audit sp\<rparr>)))"

section \<open>Decisions for embedded clients (governance_decide.go)\<close>

record governanceDecideRequest =
  gd_TenantID :: "string option"
  gd_AgentID :: string
  gd_Connector :: string
  gd_Tool :: string
  gd_Args :: string
  gd_RunID :: string

record governanceDecideResponse =
  gr_Effect :: string
  gr_Reason :: string
  gr_ReasonCode :: string
  gr_ActionID :: string

record governanceActionResponse =
  ga_ActionID :: string
  ga_Status :: string
  ga_Reason :: string
  ga_ReasonCode :: string

definition governanceDecideMaxIDLen :: nat where "governanceDecideMaxIDLen = 256"

definition tooLongGovernanceID :: "string \<Rightarrow> bool" where
  "tooLongGovernanceID x \<longleftrightarrow> length x > governanceDecideMaxIDLen"

definition governanceActionStatus :: "string \<Rightarrow> string" where
  "governanceActionStatus status =
     (if status \<in> {PendingStatusPending, PendingStatusApproved, PendingStatusConsumed} then status else ''rejected'')"

definition writeGovernancePending ::
  "GovEnv \<Rightarrow> PolicyInput \<Rightarrow> PolicyDecision \<Rightarrow> Control \<Rightarrow> governanceDecideResponse replied \<times> Control" where
  "writeGovernancePending env inp dec s =
     (if in_RunID inp = [] then (Replied 400, s)
      else
        let s1 = s\<lparr>gv_pending := ExpireGovernancePending (ge_now env) (gv_pending s)\<rparr> in
        (case persistPendingAction env inp (in_Connector inp) (in_Tool inp) dec (Some (ge_pending_until env)) s1 of
           (Inl None, s2) \<Rightarrow> (Replied 500, s2)
         | (Inl (Some e), s2) \<Rightarrow> (Replied (store_status e), s2)
         | (Inr i, s2) \<Rightarrow>
             (RepliedWith 200 \<lparr>gr_Effect = EffectPending, gr_Reason = Reason dec, gr_ReasonCode = ReasonCode dec, gr_ActionID = i\<rparr>, s2)))"

definition embedded_input :: "ReqCtx \<Rightarrow> governanceDecideRequest \<Rightarrow> json \<times> string \<times> (string \<times> json) list option \<Rightarrow> PolicyInput" where
  "embedded_input rc req bound =
     (case bound of (parsed, digest, meta) \<Rightarrow>
        \<lparr>in_Stage = StageToolCall, in_TenantID = FromContext (rc_ctx rc), in_Principal = identity_of (rc_auth rc),
         in_AgentID = TrimSpace (gd_AgentID req), in_RunID = TrimSpace (gd_RunID req), in_Generation = 0,
         in_Connector = TrimSpace (gd_Connector req), in_Tool = TrimSpace (gd_Tool req), in_Args = parsed, in_ArgsMeta = meta,
         in_ArgsDigest = digest, in_Claims = Map.empty, in_Labels = Map.empty\<rparr>)"

definition handleGovernanceDecide ::
  "GovEnv \<Rightarrow> ReqCtx \<Rightarrow> string \<Rightarrow> governanceDecideRequest option \<Rightarrow> Control \<Rightarrow> governanceDecideResponse replied \<times> Control" where
  "handleGovernanceDecide env rc m body s =
     (if m \<noteq> ''POST'' then (Replied 405, s)
      else case gv_policy s of
        None \<Rightarrow> (Replied 409, s)
      | Some e \<Rightarrow>
          (case body of
             None \<Rightarrow> (Replied 400, s)
           | Some req \<Rightarrow>
               let agent = TrimSpace (gd_AgentID req); conn = TrimSpace (gd_Connector req);
                   tool = TrimSpace (gd_Tool req); run = TrimSpace (gd_RunID req);
                   tenantID = FromContext (rc_ctx rc) in
               if agent = [] \<or> conn = [] \<or> tool = [] then (Replied 400, s)
               else if tooLongGovernanceID agent \<or> tooLongGovernanceID conn \<or> tooLongGovernanceID tool \<or> tooLongGovernanceID run
               then (Replied 400, s)
               else if (case gd_TenantID req of None \<Rightarrow> False | Some t \<Rightarrow> TrimSpace t \<noteq> tenantID) then (Replied 403, s)
               else if \<not> ge_allow_agent env agent then (Replied 429, s)
               else case BindArgsStrict (ge_utf8 env) (ge_tokens env) (ge_sha env) (ge_pick env) (gd_Args req) of
                 None \<Rightarrow> (Replied 400, s)
               | Some (parsed, digest, meta) \<Rightarrow>
                   let inp = embedded_input rc req (parsed, digest, meta) in
                   (case policy_Decide (ge_policy env) tenantID e inp s of
                      (dec, s1) \<Rightarrow>
                        if Effect dec = EffectPending then writeGovernancePending env inp dec s1
                        else
                          let known = Effect dec = EffectAllow \<or> Effect dec = EffectDeny in
                          (RepliedWith 200 \<lparr>gr_Effect = (if known then Effect dec else EffectDeny),
                             gr_Reason = (if \<not> known \<and> Reason dec = [] then ''denied by policy'' else Reason dec),
                             gr_ReasonCode = ReasonCode dec, gr_ActionID = []\<rparr>, s1))))"

definition handleGovernanceGetAction :: "GovEnv \<Rightarrow> ReqCtx \<Rightarrow> string \<Rightarrow> Control \<Rightarrow> governanceActionResponse replied \<times> Control" where
  "handleGovernanceGetAction env rc actionID s =
     (let s1 = s\<lparr>gv_pending := ExpireGovernancePending (ge_now env) (gv_pending s)\<rparr>; i = TrimSpace actionID in
      if i = [] then (Replied 400, s1)
      else case GetPendingAction i (gv_pending s1) of
        Inl e \<Rightarrow> (Replied (store_status e), s1)
      | Inr a \<Rightarrow>
          if pa_TenantID a \<noteq> FromContext (rc_ctx rc) then (Replied 404, s1)
          else if \<not> currentPendingBinding a \<and> (pa_Status a = PendingStatusPending \<or> pa_Status a = PendingStatusApproved)
          then (RepliedWith 200 \<lparr>ga_ActionID = pa_ID a, ga_Status = ''rejected'', ga_Reason = ''resubmit the operation for fresh approval'',
                                 ga_ReasonCode = ''approval_binding_legacy''\<rparr>, s1)
          else (RepliedWith 200 \<lparr>ga_ActionID = pa_ID a, ga_Status = governanceActionStatus (pa_Status a), ga_Reason = pa_Reason a,
                                 ga_ReasonCode = pa_ReasonCode a\<rparr>, s1))"

section \<open>What passes\<close>

lemma update_same: "map_of xs k = Some v \<Longrightarrow> AList.update k v xs = xs"
  by (induction xs) auto

lemma ParseMCPRequest_body:
  assumes "ParseMCPRequest doc = Some req"
  shows "doc = Some (mr_Body req)"
  using assms
  by (auto simp: ParseMCPRequest_def strictRPCObject_def update_same split: option.splits if_splits json.splits bind_splits prod.splits)

lemma ParseMCPRequest_again: "ParseMCPRequest doc = Some req \<Longrightarrow> ParseMCPRequest (Some (mr_Body req)) = Some req"
  using ParseMCPRequest_body by fastforce

text \<open>A window that lets a call of this tenant and agent through now.\<close>

definition glass_open :: "GovEnv \<Rightarrow> string \<Rightarrow> string \<Rightarrow> Control \<Rightarrow> BreakGlassWindow \<Rightarrow> bool" where
  "glass_open env tenantID agentID s w \<longleftrightarrow> w \<in> set (gc_windows s) \<and> bg_TenantID w = tenantID \<and> (bg_AgentID w = agentID \<or> bg_AgentID w = [])
     \<and> formatTS (bg_StartsAt w) \<le> formatTS (ge_now env) \<and> formatTS (ge_now env) < formatTS (bg_ExpiresAt w)"

lemma first_row_sort:
  "first_row (sort_key f (filter P xs)) = None \<longleftrightarrow> (\<forall>x\<in>set xs. \<not> P x)"
  "first_row (sort_key f (filter P xs)) = Some y \<Longrightarrow> y \<in> set xs \<and> P y"
proof -
  have n: "sort_key f (filter P xs) = [] \<longleftrightarrow> (\<forall>x\<in>set xs. \<not> P x)"
    by (metis filter_empty_conv length_0_conv length_sort)
  then show "first_row (sort_key f (filter P xs)) = None \<longleftrightarrow> (\<forall>x\<in>set xs. \<not> P x)"
    by (auto simp: first_row_def split: list.splits)
  assume "first_row (sort_key f (filter P xs)) = Some y"
  then obtain ys where "sort_key f (filter P xs) = y # ys" by (auto simp: first_row_def split: list.splits)
  then have "y \<in> set (sort_key f (filter P xs))" by (metis list.set_intros(1))
  then show "y \<in> set xs \<and> P y" by simp
qed

lemma FindActiveKill_None:
  "FindActiveKill t a rows = None \<longleftrightarrow> (\<forall>k\<in>set rows. \<not> (ks_TenantID k = t \<and> (ks_AgentID k = a \<or> ks_AgentID k = [])))"
  unfolding FindActiveKill_def by (rule first_row_sort)

lemma FindActiveBreakGlass_open:
  "FindActiveBreakGlass (ge_now env) t a (gc_windows s) = None \<longleftrightarrow> (\<forall>w. \<not> glass_open env t a s w)"
  "FindActiveBreakGlass (ge_now env) t a (gc_windows s) = Some w \<Longrightarrow> glass_open env t a s w"
proof -
  show "FindActiveBreakGlass (ge_now env) t a (gc_windows s) = None \<longleftrightarrow> (\<forall>w. \<not> glass_open env t a s w)"
    unfolding FindActiveBreakGlass_def glass_open_def first_row_sort(1) by blast
  assume "FindActiveBreakGlass (ge_now env) t a (gc_windows s) = Some w"
  then show "glass_open env t a s w" unfolding FindActiveBreakGlass_def glass_open_def by (rule first_row_sort(2))
qed

text \<open>A bypass is granted exactly while a window is open and its use can be recorded, and it is recorded.\<close>

lemma bypass_iff:
  "fst (tryBreakGlassBypass env rc inp s) \<longleftrightarrow> gv_policy s \<noteq> None \<and> (\<exists>w. glass_open env (input_tenant rc inp) (in_AgentID inp) s w)
     \<and> pe_audit (ge_policy env) \<and> ge_hex env ''break_glass'' \<noteq> None"
proof (cases "FindActiveBreakGlass (ge_now env) (input_tenant rc inp) (in_AgentID inp) (gc_windows s)")
  case None
  then show ?thesis using FindActiveBreakGlass_open(1) [of env "input_tenant rc inp" "in_AgentID inp" s]
    by (auto simp: tryBreakGlassBypass_def Let_def split: option.splits)
next
  case (Some w)
  then show ?thesis using FindActiveBreakGlass_open(2) [OF Some]
    by (auto simp: tryBreakGlassBypass_def Let_def split: option.splits)
qed

lemma bypass_refused: "tryBreakGlassBypass env rc inp s = (False, s') \<Longrightarrow> s' = s"
  by (auto simp: tryBreakGlassBypass_def Let_def split: option.splits if_splits)

lemma bypass_recorded:
  assumes "tryBreakGlassBypass env rc inp s = (True, s')"
  obtains w sfx actor rule where "glass_open env (input_tenant rc inp) (in_AgentID inp) s w"
    "s' = s\<lparr>gv_audit := gv_audit s @ [glass_audit sfx (input_tenant rc inp) actor inp w rule]\<rparr>"
  using assms FindActiveBreakGlass_open(2) [of env "input_tenant rc inp" "in_AgentID inp" s]
  by (auto simp: tryBreakGlassBypass_def Let_def split: option.splits if_splits)

text \<open>Policy, window or no engine: the ways in which a call passes the policy stage without an approval.\<close>

definition policy_admits :: "GovEnv \<Rightarrow> ReqCtx \<Rightarrow> PolicyInput \<Rightarrow> Control \<Rightarrow> bool" where
  "policy_admits env rc inp s \<longleftrightarrow>
     (case gv_policy s of
        None \<Rightarrow> True
      | Some e \<Rightarrow> fst (tryBreakGlassBypass env rc inp s) \<or> Effect (fst (policy_Decide (ge_policy env) (FromContext (rc_ctx rc)) e inp s)) = EffectAllow)"

lemma admission_policy_iff: "fst (admission_policy env rc inp s) = None \<longleftrightarrow> policy_admits env rc inp s"
  by (auto simp: admission_policy_def policy_admits_def dest: bypass_refused split: option.splits prod.splits bool.splits)

lemma policy_Decide_frame:
  "gv_pending (snd (policy_Decide pe t e inp s)) = gv_pending s" "gc_spend (snd (policy_Decide pe t e inp s)) = gc_spend s"
  "\<exists>ys. gv_audit (snd (policy_Decide pe t e inp s)) = gv_audit s @ ys" for s :: Control
  by (simp_all add: policy_Decide_def split: prod.splits)

lemma Decide_ignores_state:
  "fst (policy_Decide pe t e inp s) = fst (policy_Decide pe t e inp s')"
  by (simp add: policy_Decide_def split: prod.splits)

text \<open>How a recorded use of a window reads.\<close>

definition glass_used :: "GovEnv \<Rightarrow> ReqCtx \<Rightarrow> PolicyInput \<Rightarrow> Control \<Rightarrow> AuditEvent list \<Rightarrow> bool" where
  "glass_used env rc inp s audit \<longleftrightarrow> (\<exists>w. \<exists>x\<in>set audit. glass_open env (input_tenant rc inp) (in_AgentID inp) s w \<and> a_RuleID x = bg_ID w
     \<and> a_ReasonCode x = ReasonBreakGlass \<and> a_TenantID x = input_tenant rc inp \<and> a_AgentID x = in_AgentID inp \<and> a_RunID x = in_RunID inp
     \<and> a_Connector x = in_Connector inp \<and> a_Tool x = in_Tool inp)"

lemma bypass_used:
  assumes "tryBreakGlassBypass env rc inp s = (True, s')"
  shows "glass_used env rc inp s (gv_audit s')" "gv_pending s' = gv_pending s" "gc_spend s' = gc_spend s"
  using assms by (auto elim!: bypass_recorded simp: glass_used_def glass_audit_def)

lemma admission_policy_frame:
  assumes "admission_policy env rc inp s = (r, s')"
  shows "gc_spend s' = gc_spend s"
    and "r = None \<Longrightarrow> gv_policy s = Some e \<Longrightarrow> Effect (fst (policy_Decide (ge_policy env) (FromContext (rc_ctx rc)) e inp s)) = EffectAllow
      \<or> glass_used env rc inp s (gv_audit s')"
proof -
  show "gc_spend s' = gc_spend s"
    using assms by (auto simp: admission_policy_def policy_Decide_def dest: bypass_refused bypass_used(3) split: option.splits prod.splits bool.splits)
  assume "r = None" "gv_policy s = Some e"
  then show "Effect (fst (policy_Decide (ge_policy env) (FromContext (rc_ctx rc)) e inp s)) = EffectAllow \<or> glass_used env rc inp s (gv_audit s')"
    using assms by (auto simp: admission_policy_def dest: bypass_refused bypass_used(1) split: prod.splits bool.splits if_splits)
qed

lemma glass_used_later: "glass_used env rc inp s audit \<Longrightarrow> set audit \<subseteq> set audit' \<Longrightarrow> glass_used env rc inp s audit'"
  unfolding glass_used_def by blast

lemma budget_audit: "\<exists>ys. sp_audit (snd (checkBudgetAdmission sx env t a run s)) = sp_audit s @ ys"
  by (auto simp: checkBudgetAdmission_def writeAdmissionDenyAudit_def writeSecurityAudit_def emitBudgetAlert_def shouldEmitApproachAlert_def Let_def
      split: option.splits prod.splits scan.splits if_splits)

lemma loadSnap_audit: "loadSnap env t a (s\<lparr>sp_audit := audit\<rparr>) = loadSnap env t a s"
  by (simp add: loadSnap_def split: option.split prod.split)

lemma policyInput_plain: "policyInput rc None None = policyInputFromRequest rc"
  by (simp add: fun_eq_iff policyInput_def)

lemma session_required:
  assumes "requireConnectorSession env rc r name s = (None, s')"
  obtains st sess b where "s' = s" "gc_sessions s = Some st" "cs_sessions st (TrimSpace (header_get r ''X-Runkite-Connector-Session'')) = Some sess"
    "ge_clock env \<le> cs_Expires sess" "rc_binding rc = Some b" "cs_Connector sess = name" "cs_RunID sess = rb_RunID b" "cs_Generation sess = rb_Generation b"
proof -
  let ?tok = "TrimSpace (header_get r ''X-Runkite-Connector-Session'')"
  from assms obtain st where st: "gc_sessions s = Some st" "?tok \<noteq> []"
    by (auto simp: requireConnectorSession_def Let_def split: option.splits if_splits)
  with assms obtain sess st' where g: "connector_Get (ge_clock env) ?tok st = (Some sess, st')"
    by (auto simp: requireConnectorSession_def Let_def split: option.splits prod.splits)
  then have live: "cs_sessions st ?tok = Some sess" "ge_clock env \<le> cs_Expires sess" "st' = st"
    by (auto simp: connector_Get_def split: option.splits if_splits)
  from assms st g obtain b where b: "rc_binding rc = Some b" "cs_Connector sess = name" "cs_RunID sess = rb_RunID b"
      "cs_Generation sess = rb_Generation b" "s' = s\<lparr>gc_sessions := Some st'\<rparr>"
    by (auto simp: requireConnectorSession_def Let_def split: option.splits if_splits)
  have "s' = s" using b(5) live(3) st(1) by (cases s) simp
  then show thesis using that st(1) live(1,2) b(1-4) by blast
qed

lemma policy_checked:
  assumes "checkConnectorPolicy env rc inp s = ((dec, deny), s')"
  shows "gv_pending s' = gv_pending s"
    and "\<not> deny \<Longrightarrow> gv_policy s = None \<or> glass_used env rc inp s (gv_audit s')
      \<or> (\<exists>e. gv_policy s = Some e \<and> Effect (fst (policy_Decide (ge_policy env) (FromContext (rc_ctx rc)) e inp s)) = EffectAllow)"
    and "deny \<Longrightarrow> \<exists>e. gv_policy s = Some e \<and> dec = fst (policy_Decide (ge_policy env) (FromContext (rc_ctx rc)) e inp s)"
proof -
  show "gv_pending s' = gv_pending s"
    using assms
    by (auto simp: checkConnectorPolicy_def policy_Decide_def dest: bypass_refused bypass_used(2) split: option.splits prod.splits bool.splits)
  show "\<not> deny \<Longrightarrow> gv_policy s = None \<or> glass_used env rc inp s (gv_audit s')
      \<or> (\<exists>e. gv_policy s = Some e \<and> Effect (fst (policy_Decide (ge_policy env) (FromContext (rc_ctx rc)) e inp s)) = EffectAllow)"
    using assms by (auto simp: checkConnectorPolicy_def dest: bypass_refused bypass_used(1) split: option.splits prod.splits bool.splits)
  show "deny \<Longrightarrow> \<exists>e. gv_policy s = Some e \<and> dec = fst (policy_Decide (ge_policy env) (FromContext (rc_ctx rc)) e inp s)"
    using assms by (auto simp: checkConnectorPolicy_def dest: bypass_refused split: option.splits prod.splits bool.splits)
qed

text \<open>An approval of exactly this call that was open before and is consumed after.\<close>

definition approval_spent :: "Call \<Rightarrow> PendingRow list \<Rightarrow> PendingRow list \<Rightarrow> bool" where
  "approval_spent c rows rows' \<longleftrightarrow> (\<exists>row\<in>set rows. call_of row = c \<and> pa_Status row = PendingStatusApproved \<and> pa_ExpiresAt row = None
     \<and> (\<exists>row'\<in>set rows'. pa_ID row' = pa_ID row \<and> call_of row' = c \<and> pa_Status row' = PendingStatusConsumed))"

lemma capability_consumed:
  assumes "tryConsumePendingCapability env rc name tool digest s = (ok, s')"
  shows "gv_audit s' = gv_audit s"
    and "ok \<Longrightarrow> approval_spent (call_of_input (policyInputFromRequest rc StageToolCall name tool) name tool digest) (gv_pending s) (gv_pending s')"
proof -
  let ?c = "call_of_input (policyInputFromRequest rc StageToolCall name tool) name tool digest"
  show "gv_audit s' = gv_audit s"
    using assms by (auto simp: tryConsumePendingCapability_def Let_def split: if_splits prod.splits)
  assume ok
  with assms obtain i rows' where c: "ConsumeApprovedAction (ge_now env) ?c (gv_pending s) = (i, rows')" "i \<noteq> []" "gv_pending s' = rows'"
    by (auto simp: tryConsumePendingCapability_def Let_def split: if_splits prod.splits)
  from c(1) show "approval_spent ?c (gv_pending s) (gv_pending s')"
  proof (cases rule: consume_rows)
    case 1
    then show ?thesis using c(2) by simp
  next
    case (2 row)
    let ?row = "row\<lparr>pa_Status := PendingStatusConsumed, pa_UpdatedAt := ge_now env, pa_key := None\<rparr>"
    have "?row \<in> set (gv_pending s')" unfolding c(3) 2(6) using 2(1,2,4) by (force simp: sql_update_def)
    moreover have "call_of ?row = ?c" using 2(3) by (simp add: call_of_def)
    ultimately show ?thesis using 2 unfolding approval_spent_def by (intro bexI [OF _ 2(1)] conjI bexI [of _ ?row]) simp_all
  qed
qed

lemma call_judged:
  assumes "judge_call env rc name rpc s = (None, s')"
    and "inp = bind_call env (mr_Arguments rpc) (policyInput rc None None StageToolCall name (mr_Tool rpc))"
  shows "gv_policy s = None \<or> glass_used env rc inp s (gv_audit s') \<or> (\<exists>e. gv_policy s = Some e
      \<and> (let effect = Effect (fst (policy_Decide (ge_policy env) (FromContext (rc_ctx rc)) e inp s)) in
         effect = EffectAllow \<or> effect = EffectPending \<and> approval_spent (call_of_input inp name (mr_Tool rpc) (in_ArgsDigest inp)) (gv_pending s) (gv_pending s')))"
proof -
  obtain dec deny s1 where p: "checkConnectorPolicy env rc inp s = ((dec, deny), s1)" by (metis prod.collapse)
  have plain: "call_of_input (policyInputFromRequest rc StageToolCall name (mr_Tool rpc)) = call_of_input inp"
    unfolding assms(2) policyInput_plain by (simp add: fun_eq_iff call_of_input_def bind_call_def Let_def)
  show ?thesis
  proof (cases deny)
    case False
    then obtain ok where "tryConsumePendingCapability env rc name (mr_Tool rpc) (in_ArgsDigest inp) s1 = (ok, s')"
      using assms(1) p unfolding judge_call_def Let_def assms(2) [symmetric] by (auto split: prod.splits)
    then have "gv_audit s' = gv_audit s1" by (rule capability_consumed)
    then show ?thesis using policy_checked(2) [OF p False] by (auto simp: Let_def)
  next
    case True
    then have "Effect dec = EffectPending" "tryConsumePendingCapability env rc name (mr_Tool rpc) (in_ArgsDigest inp) s1 = (True, s')"
      using assms(1) p unfolding judge_call_def Let_def assms(2) [symmetric] by (auto split: prod.splits if_splits)
    then have "approval_spent (call_of_input inp name (mr_Tool rpc) (in_ArgsDigest inp)) (gv_pending s) (gv_pending s')" "Effect dec = EffectPending"
      using capability_consumed(2) policy_checked(1) [OF p] plain by fastforce+
    then show ?thesis using policy_checked(3) [OF p True] by (auto simp: Let_def)
  qed
qed

lemma request_proxied:
  assumes "handleProxyMCPRequest env rc r name body s = (ans, s', Some req)"
  obtains reg doc s2 res reg' where "gc_registry s = Some reg" "requireConnectorSession env rc r name s = (None, s)" "body = McpBodyRead (Some (mr_Body req))"
    "ParseMCPRequest (Some (mr_Body req)) = Some req" "mr_Method req = ''tools/call'' \<Longrightarrow> judge_call env rc name req s = (None, s2)"
    "ProxyMCPRequest (ge_conn env) (ge_downstream env) name (user_context_header env r) (Some (mr_Body req)) reg = (res, reg', Some req)"
    "s' = s2\<lparr>gc_registry := Some reg'\<rparr>" "mr_Method req \<noteq> ''tools/call'' \<or> mr_Tool req \<noteq> payload_tool"
proof -
  from assms obtain reg s1 where a: "gc_registry s = Some reg" "reg name \<noteq> None" "requireConnectorSession env rc r name s = (None, s1)"
    by (auto simp: handleProxyMCPRequest_def split: option.splits if_splits prod.splits)
  have s1: "s1 = s" using a(3) by (rule session_required)
  from assms a obtain doc rpc where b: "body = McpBodyRead doc" "ParseMCPRequest doc = Some rpc" "mr_Method rpc \<noteq> ''tools/call'' \<or> mr_Tool rpc \<noteq> payload_tool"
    by (auto simp: handleProxyMCPRequest_def split: request_body.splits option.splits if_splits)
  obtain verdict s2 where v: "(if mr_Method rpc = ''tools/call'' then judge_call env rc name rpc s else (None, s)) = (verdict, s2)"
    by (metis prod.collapse)
  obtain res reg' sent where x: "ProxyMCPRequest (ge_conn env) (ge_downstream env) name (user_context_header env r) (Some (mr_Body rpc)) reg = (res, reg', sent)"
    by (metis prod.collapse)
  have h: "handleProxyMCPRequest env rc r name body s = (case verdict of Some (msg, details) \<Rightarrow> (PolicyRefused (mr_ID rpc) msg details, s2, None)
      | None \<Rightarrow> (relay env (mr_Method rpc) res, s2\<lparr>gc_registry := Some reg'\<rparr>, sent))"
    unfolding handleProxyMCPRequest_def a(1,3) b(1) option.case prod.case request_body.case b(2) s1 v x using a(2) b(3) by (auto split: option.splits)
  with assms have c: "verdict = None" "sent = Some req" "s' = s2\<lparr>gc_registry := Some reg'\<rparr>" by (auto split: option.splits)
  from proxy_sent [OF x [unfolded c(2)]] have "ParseMCPRequest (Some (mr_Body rpc)) = Some req" by blast
  then have e: "rpc = req" using ParseMCPRequest_again [OF b(2)] by simp
  have doc: "doc = Some (mr_Body req)" using ParseMCPRequest_body [OF b(2)] e by simp
  show thesis
  proof (rule that)
    show "mr_Method req = ''tools/call'' \<Longrightarrow> judge_call env rc name req s = (None, s2)" using v c(1) e by simp
  qed (use a s1 b doc e x c in simp_all)
qed

lemma expire_keeps_keys: "open_keys sha rows \<Longrightarrow> open_keys sha (ExpireGovernancePending now rows)"
  using open_keys_exec [of sha rows "Expire now" "[]"] by (simp add: stmt_ok_def)

lemma action_persisted:
  assumes "persistPendingAction env inp conn tool dec expiry s = (Inr i, s')" "key_hash_ok (ge_sha env)" "in_ArgsDigest inp \<noteq> []"
    and "open_keys (ge_sha env) (gv_pending s)" "case expiry of None \<Rightarrow> True | Some t \<Rightarrow> instant_ok t \<and> t \<noteq> zero_time"
  shows "\<exists>r\<in>set (gv_pending s'). pa_ID r = i \<and> open_for (call_of_input inp conn tool (in_ArgsDigest inp)) (expiry \<noteq> None) r"
proof -
  from assms(1,3) obtain sfx a rows where c:
    "CreatePendingAction (ge_sha env) (ge_now env) (pending_row sfx inp conn tool dec (in_ArgsDigest inp) expiry) (gv_pending s) = (Inr a, rows)"
    "i = pa_ID a" "gv_pending s' = rows"
    by (auto simp: persistPendingAction_def Let_def split: if_splits option.splits prod.splits sum.splits)
  have "call_of (pending_row sfx inp conn tool dec (in_ArgsDigest inp) expiry) = call_of_input inp conn tool (in_ArgsDigest inp)"
    by (simp add: call_of_def pending_row_def call_of_input_def)
  then show ?thesis using create_finds [OF assms(4,2) _ _ c(1)] assms(5) c(2,3) by (simp add: pending_row_def expiry_ok_def)
qed

lemma digest_bound:
  "BindArgsStrict utf8 tokens sha pick raw = Some bound \<Longrightarrow> \<forall>x. sha x \<noteq> [] \<Longrightarrow> in_ArgsDigest (embedded_input rc req bound) \<noteq> []"
  by (auto simp: BindArgsStrict_def embedded_input_def digestArgs_def split: option.splits)

lemma decided:
  assumes "handleGovernanceDecide env rc m (Some req) s = (RepliedWith code resp, s')" "gv_policy s = Some e"
  obtains bound dec s1 where "BindArgsStrict (ge_utf8 env) (ge_tokens env) (ge_sha env) (ge_pick env) (gd_Args req) = Some bound"
    "policy_Decide (ge_policy env) (FromContext (rc_ctx rc)) e (embedded_input rc req bound) s = (dec, s1)"
    "\<forall>tid. gd_TenantID req = Some tid \<longrightarrow> TrimSpace tid = FromContext (rc_ctx rc)"
    "Effect dec = EffectPending \<Longrightarrow> writeGovernancePending env (embedded_input rc req bound) dec s1 = (RepliedWith code resp, s')"
    "Effect dec \<noteq> EffectPending \<Longrightarrow> code = 200 \<and> gr_Effect resp = (if Effect dec = EffectAllow then EffectAllow else EffectDeny)"
proof -
  from assms obtain bound where b: "BindArgsStrict (ge_utf8 env) (ge_tokens env) (ge_sha env) (ge_pick env) (gd_Args req) = Some bound"
    "\<forall>tid. gd_TenantID req = Some tid \<longrightarrow> TrimSpace tid = FromContext (rc_ctx rc)"
    by (auto simp: handleGovernanceDecide_def Let_def split: if_splits option.splits)
  obtain dec s1 where d: "policy_Decide (ge_policy env) (FromContext (rc_ctx rc)) e (embedded_input rc req bound) s = (dec, s1)" by (metis prod.collapse)
  have "handleGovernanceDecide env rc m (Some req) s = (if Effect dec = EffectPending then writeGovernancePending env (embedded_input rc req bound) dec s1
      else (let known = Effect dec = EffectAllow \<or> Effect dec = EffectDeny in
        (RepliedWith 200 \<lparr>gr_Effect = (if known then Effect dec else EffectDeny),
           gr_Reason = (if \<not> known \<and> Reason dec = [] then ''denied by policy'' else Reason dec), gr_ReasonCode = ReasonCode dec, gr_ActionID = []\<rparr>, s1)))"
    using assms b(1) d by (cases bound) (auto simp: handleGovernanceDecide_def Let_def split: if_splits option.splits)
  then show thesis using assms(1) by (intro that [OF b(1) d b(2)]) (auto simp: Let_def split: if_splits)
qed

section \<open>Samples\<close>

definition sample_gov_env :: GovEnv where
  "sample_gov_env = \<lparr>ge_policy = sample_policy_env, ge_now = (''2026-01-01T00:00:00'', 0), ge_clock = 0, ge_moment = (0, 0), ge_hex = (\<lambda>p. Some p),
     ge_run_events = False, ge_sha = id, ge_pick = id, ge_sinks = False, ge_std = sample_text, ge_conn = sample_idp,
     ge_downstream = (\<lambda>_ _ _. Inr (OtherBody [], 200)), ge_shrink = id, ge_inject = id, ge_unmarshal = (\<lambda>_. Some (JObj [(''sso_token'', JStr ''s'')])),
     ge_utf8 = (\<lambda>_. True), ge_tokens = (\<lambda>_. None), ge_allow_agent = (\<lambda>_. True), ge_pending_until = (''2026-01-02T00:00:00'', 0)\<rparr>"

definition sample_binding :: RunBinding where
  "sample_binding = \<lparr>rb_RunID = ''r1'', rb_Generation = 1, rb_TenantID = ''acme'', rb_AgentID = ''bot'', rb_ThreadID = [], rb_User = None\<rparr>"

definition sample_run_ctx :: ReqCtx where
  "sample_run_ctx = \<lparr>rc_ctx = \<lparr>ctx_tenant = Some ''acme'', ctx_system = False\<rparr>, rc_auth = None, rc_binding = Some sample_binding\<rparr>"

definition sample_call_request :: Request where
  "sample_call_request = \<lparr>rq_method = ''POST'', rq_path = ''/internal/connectors/crm/mcp'', rq_header = (\<lambda>_. [''tok'']), rq_cookie = []\<rparr>"

definition sample_control :: "Plane \<Rightarrow> Control" where
  "sample_control p = \<lparr>gv_pending = [], gv_policy = None, gv_audit = [], gc_windows = [],
     gc_switches = [sample_kill ''k'' ''acme''],
     gc_sessions = Some (snd (connector_Create 0 ''tok'' ''crm'' ''r1'' 1 ''acme'' ''bot'' (NewMemoryConnectorSessionStore 0))),
     gc_registry = Some [''crm'' \<mapsto> sample_connector], gc_spend = sample_spend p\<rparr>"

definition sample_decide :: governanceDecideRequest where
  "sample_decide = \<lparr>gd_TenantID = None, gd_AgentID = ''bot'', gd_Connector = ''crm'', gd_Tool = ''query'', gd_Args = [], gd_RunID = ''r1''\<rparr>"

definition tagged_env :: GovEnv where
  "tagged_env = sample_gov_env\<lparr>ge_sha := Cons (CHR ''h'')\<rparr>"

section \<open>Properties\<close>

text \<open>C1: A tool call that reaches a server behind a connector was authorised. The caller holds a live
  capability token of this connector for the run and the generation that it is bound to; the request is
  the body that was parsed, its tool passes the connector's filter; and for exactly these arguments either
  no policy engine is configured, or the audit log records the use of a break-glass window that is open for
  this tenant and agent, or the engine allows the call, or the engine asks for an approval and an open
  approval of exactly this call, not one of an embedded client, is consumed by it.\<close>

theorem proxied_call_was_authorised:
  assumes "handleProxyMCPRequest env rc r name body s = (ans, s', Some req)" "mr_Method req = ''tools/call''"
    and "inp = bind_call env (mr_Arguments req) (policyInput rc None None StageToolCall name (mr_Tool req))"
  shows "(\<exists>st sess b. gc_sessions s = Some st \<and> rc_binding rc = Some b
        \<and> cs_sessions st (TrimSpace (header_get r ''X-Runkite-Connector-Session'')) = Some sess \<and> ge_clock env \<le> cs_Expires sess
        \<and> cs_Connector sess = name \<and> cs_RunID sess = rb_RunID b \<and> cs_Generation sess = rb_Generation b
        \<and> in_TenantID inp = rb_TenantID b \<and> in_AgentID inp = rb_AgentID b \<and> in_RunID inp = rb_RunID b \<and> in_Generation inp = rb_Generation b)
    \<and> body = McpBodyRead (Some (mr_Body req)) \<and> ParseMCPRequest (Some (mr_Body req)) = Some req
    \<and> (\<exists>reg c. gc_registry s = Some reg \<and> reg name = Some c \<and> mr_Tool req \<noteq> [] \<and> isAllowed (cc_Tools (cn_Config c)) (mr_Tool req))
    \<and> (gv_policy s = None \<or> glass_used env rc inp s (gv_audit s') \<or> (\<exists>e. gv_policy s = Some e
        \<and> (let effect = Effect (fst (policy_Decide (ge_policy env) (FromContext (rc_ctx rc)) e inp s)) in
           effect = EffectAllow \<or> effect = EffectPending \<and> approval_spent (call_of_input inp name (mr_Tool req) (in_ArgsDigest inp)) (gv_pending s) (gv_pending s'))))"
proof -
  from request_proxied [OF assms(1)] obtain reg s2 res reg' where q: "gc_registry s = Some reg"
    "requireConnectorSession env rc r name s = (None, s)" "body = McpBodyRead (Some (mr_Body req))" "ParseMCPRequest (Some (mr_Body req)) = Some req"
    "judge_call env rc name req s = (None, s2)"
    "ProxyMCPRequest (ge_conn env) (ge_downstream env) name (user_context_header env r) (Some (mr_Body req)) reg = (res, reg', Some req)"
    "s' = s2\<lparr>gc_registry := Some reg'\<rparr>" using assms(2) by metis
  from session_required [OF q(2)] obtain st sess b where c: "gc_sessions s = Some st"
    "cs_sessions st (TrimSpace (header_get r ''X-Runkite-Connector-Session'')) = Some sess" "ge_clock env \<le> cs_Expires sess" "rc_binding rc = Some b"
    "cs_Connector sess = name" "cs_RunID sess = rb_RunID b" "cs_Generation sess = rb_Generation b" by blast
  have b: "in_TenantID inp = rb_TenantID b" "in_AgentID inp = rb_AgentID b" "in_RunID inp = rb_RunID b" "in_Generation inp = rb_Generation b"
    unfolding assms(3) policyInput_plain by (simp_all add: bind_call_def Let_def policyInputFromRequest_def c(4))
  from proxy_sent [OF q(6)] obtain cn where cn: "reg name = Some cn" "mr_Tool req \<noteq> []" "isAllowed (cc_Tools (cn_Config cn)) (mr_Tool req)"
    using assms(2) by blast
  have s': "gv_audit s' = gv_audit s2" "gv_pending s' = gv_pending s2" using q(7) by simp_all
  show ?thesis using q(1,3,4) c b cn call_judged [OF q(5) assms(3)] unfolding s' by blast
qed

theorem proxied_call_was_authorised_witness:
  "\<forall>p. \<exists>ans s' req c. handleProxyMCPRequest sample_gov_env sample_run_ctx sample_call_request ''crm'' (McpBodyRead (Some sample_rpc)) (sample_control p) = (ans, s', Some req)
     \<and> mr_Tool req = ''query'' \<and> (\<exists>reg. gc_registry (sample_control p) = Some reg \<and> reg ''crm'' = Some c \<and> isAllowed (cc_Tools (cn_Config c)) (mr_Tool req))"
proof
  fix p
  let ?req = "\<lparr>mr_ID = Some (JNum ''1''), mr_Method = ''tools/call'', mr_Tool = ''query'', mr_Arguments = Some (JObj []), mr_Body = sample_rpc\<rparr>"
  have t: "TrimSpace ''tok'' = ''tok''" and r: "ParseMCPRequest (Some sample_rpc) = Some ?req" by code_simp+
  have "requireConnectorSession sample_gov_env sample_run_ctx sample_call_request ''crm'' (sample_control p) = (None, sample_control p)"
    by (simp add: requireConnectorSession_def sample_control_def sample_call_request_def header_get_def t connector_Get_def connector_Create_def
        NewMemoryConnectorSessionStore_def ConnectorSessionTTL_def sample_gov_env_def sample_run_ctx_def sample_binding_def Let_def)
  moreover have "\<exists>s2. judge_call sample_gov_env sample_run_ctx ''crm'' ?req (sample_control p) = (None, s2)"
    by (simp add: judge_call_def checkConnectorPolicy_def sample_control_def Let_def split: prod.splits)
  moreover have "\<exists>res r'. ProxyMCPRequest (ge_conn sample_gov_env) (ge_downstream sample_gov_env) ''crm'' (user_context_header sample_gov_env sample_call_request)
      (Some sample_rpc) [''crm'' \<mapsto> sample_connector] = (res, r', Some ?req)"
    by (simp add: ProxyMCPRequest_def r sample_connector_def isAllowed_def Allow_def NewCircuitBreaker_def getToken_def sample_gov_env_def
        user_context_header_def sample_call_request_def header_get_def materializeAuthSecret_def TrimSpace_Nil guarded_fetch_def oauth2TokenExchange_def
        token_of_reply_def sample_idp_def Let_def)
  ultimately have "\<exists>ans s'. handleProxyMCPRequest sample_gov_env sample_run_ctx sample_call_request ''crm'' (McpBodyRead (Some sample_rpc)) (sample_control p) = (ans, s', Some ?req)"
    by (auto simp: handleProxyMCPRequest_def sample_control_def r payload_tool_def)
  then obtain ans s' where h: "handleProxyMCPRequest sample_gov_env sample_run_ctx sample_call_request ''crm'' (McpBodyRead (Some sample_rpc)) (sample_control p) = (ans, s', Some ?req)"
    by blast
  then show "\<exists>ans s' req c. handleProxyMCPRequest sample_gov_env sample_run_ctx sample_call_request ''crm'' (McpBodyRead (Some sample_rpc)) (sample_control p) = (ans, s', Some req)
     \<and> mr_Tool req = ''query'' \<and> (\<exists>reg. gc_registry (sample_control p) = Some reg \<and> reg ''crm'' = Some c \<and> isAllowed (cc_Tools (cn_Config c)) (mr_Tool req))"
    using proxied_call_was_authorised [OF h _ refl] by fastforce
qed

text \<open>C2: A run is admitted exactly when every gate lets it pass: no kill switch or pause covers its tenant
  or agent, the caller may run the agent, the policy engine is off or allows the run or a break-glass
  window is open whose use can be recorded, and for each cap that applies, soft ones included, the
  spending can be read and no hard one is reached, also under break-glass. A run that the engine did not allow leaves the use of the window in the audit log.\<close>

theorem admitted_run_passed_every_gate:
  assumes "admissionGate_Decide env rc event s = ((allow, reason), s')" "LookupCaps (sp_config (gc_spend s)) t a = (tenantCap, agentCap)"
    and "t = (if he_TenantID event = [] then FromContext (rc_ctx rc) else he_TenantID event)" "a = he_AgentID event" "t \<noteq> []"
    and "inp = run_create_input rc t a (he_RunID event)"
  shows "(allow \<longleftrightarrow> (\<forall>k\<in>set (gc_switches s). \<not> (ks_TenantID k = t \<and> (ks_AgentID k = a \<or> ks_AgentID k = [])))
      \<and> CanRunAgent (rc_auth rc) a
      \<and> (\<forall>e. gv_policy s = Some e \<longrightarrow> Effect (fst (policy_Decide (ge_policy env) (FromContext (rc_ctx rc)) e inp s)) = EffectAllow
           \<or> (\<exists>w. glass_open env t a s w) \<and> pe_audit (ge_policy env) \<and> ge_hex env ''break_glass'' \<noteq> None)
      \<and> (\<not> sp_sql (gc_spend s) \<or> (\<forall>(c, agent)\<in>{(tenantCap, []), (agentCap, a)}. \<forall>cap. c = Some cap \<longrightarrow>
            (\<exists>snap. loadSnap (spend_env env rc) t agent (gc_spend s) = Some snap \<and> (bc_Soft cap \<or> \<not> cap_reached cap snap)))))
    \<and> (\<forall>e. allow \<and> gv_policy s = Some e \<and> Effect (fst (policy_Decide (ge_policy env) (FromContext (rc_ctx rc)) e inp s)) \<noteq> EffectAllow
         \<longrightarrow> glass_used env rc inp s (gv_audit s'))"
proof -
  obtain verdict s1 where p: "admission_policy env rc inp s = (verdict, s1)" by (metis prod.collapse)
  let ?sp = "(gc_spend s1)\<lparr>sp_audit := gv_audit s1\<rparr>"
  obtain ok why sp where b: "checkBudgetAdmission (ge_std env) (spend_env env rc) t a (he_RunID event) ?sp = ((ok, why), sp)" by (metis prod.collapse)
  have frame: "gc_spend s1 = gc_spend s" using admission_policy_frame(1) [OF p] .
  have h: "admissionGate_Decide env rc event s =
      (case FindActiveKill t a (gc_switches s) of
         Some k \<Rightarrow> admission_deny env rc t a (he_RunID event) ReasonKillActive (kill_reason k) s
       | None \<Rightarrow> if \<not> CanRunAgent (rc_auth rc) a then admission_deny env rc t a (he_RunID event) ReasonAuthzDeny (''missing permission '' @ AgentRunPermission a) s
           else case verdict of Some why' \<Rightarrow> ((False, why'), s1) | None \<Rightarrow> ((ok, if ok then [] else why), s1\<lparr>gc_spend := sp, gv_audit := sp_audit sp\<rparr>))"
    unfolding admissionGate_Decide_def Let_def assms(3) [symmetric] assms(4) [symmetric] assms(6) [symmetric] p prod.case b
    by (simp split: option.splits)
  have allow: "allow \<longleftrightarrow> FindActiveKill t a (gc_switches s) = None \<and> CanRunAgent (rc_auth rc) a \<and> verdict = None \<and> ok"
    using assms(1) unfolding h by (auto simp: admission_deny_def split: option.splits if_splits)
  have pol: "verdict = None \<longleftrightarrow> policy_admits env rc inp s" using admission_policy_iff [of env rc inp s] p by simp
  have inp: "input_tenant rc inp = t" "in_AgentID inp = a" using assms(5,6) by (simp_all add: input_tenant_def run_create_input_def)
  have "policy_admits env rc inp s \<longleftrightarrow> (\<forall>e. gv_policy s = Some e \<longrightarrow> Effect (fst (policy_Decide (ge_policy env) (FromContext (rc_ctx rc)) e inp s)) = EffectAllow
      \<or> (\<exists>w. glass_open env t a s w) \<and> pe_audit (ge_policy env) \<and> ge_hex env ''break_glass'' \<noteq> None)"
    unfolding policy_admits_def bypass_iff inp by (auto split: option.splits)
  moreover have "ok \<longleftrightarrow> \<not> sp_sql (gc_spend s) \<or> (\<forall>(c, agent)\<in>{(tenantCap, []), (agentCap, a)}. \<forall>cap. c = Some cap \<longrightarrow>
      (\<exists>snap. loadSnap (spend_env env rc) t agent (gc_spend s) = Some snap \<and> (bc_Soft cap \<or> \<not> cap_reached cap snap)))"
    using budget_gate_ok [of ?sp t a tenantCap agentCap "ge_std env" "spend_env env rc" "he_RunID event"] assms(2) b frame by (simp add: loadSnap_audit)
  moreover have "glass_used env rc inp s (gv_audit s')" if "allow" "gv_policy s = Some e"
      "Effect (fst (policy_Decide (ge_policy env) (FromContext (rc_ctx rc)) e inp s)) \<noteq> EffectAllow" for e
  proof -
    have "glass_used env rc inp s (gv_audit s1)" using admission_policy_frame(2) [OF p _ that(2)] that(1,3) allow by blast
    moreover have "gv_audit s' = sp_audit sp" using assms(1) that(1) allow unfolding h by auto
    moreover have "set (gv_audit s1) \<subseteq> set (sp_audit sp)" using budget_audit [of "ge_std env" "spend_env env rc" t a "he_RunID event" ?sp] b by auto
    ultimately show ?thesis using glass_used_later by simp
  qed
  ultimately show ?thesis unfolding allow pol FindActiveKill_None by blast
qed

lemma sample_unspent:
  "loadSnap (spend_env sample_gov_env sample_run_ctx) ''acme'' [] (sample_spend p)
    = Some \<lparr>us_TokensIn = 0, us_TokensOut = 0, us_USD = 0, us_Runs = int (countSince ''acme'' (p_store p) 0 [])\<rparr>"
  by (simp add: loadSnap_def UTCDayWindow_def spend_env_def sample_gov_env_def sample_spend_def SumUsage_def SumUsageHolds_def column_def is_int64_def i64_def Let_def)

theorem admitted_run_passed_every_gate_witness:
  "\<forall>p. (let gate = (\<lambda>s. fst (fst (admissionGate_Decide sample_gov_env sample_run_ctx \<lparr>he_RunID = ''r2'', he_AgentID = ''bot'', he_TenantID = ''acme''\<rparr> s))) in
     \<not> gate (sample_control p) \<and> gate ((sample_control p)\<lparr>gc_switches := []\<rparr>))"
proof
  fix p
  let ?e = "\<lparr>he_RunID = ''r2'', he_AgentID = ''bot'', he_TenantID = ''acme''\<rparr>"
  let ?s = "(sample_control p)\<lparr>gc_switches := []\<rparr>"
  obtain allow reason s1 where h: "admissionGate_Decide sample_gov_env sample_run_ctx ?e (sample_control p) = ((allow, reason), s1)" by (metis prod.collapse)
  obtain allow' reason' s2 where h': "admissionGate_Decide sample_gov_env sample_run_ctx ?e ?s = ((allow', reason'), s2)" by (metis prod.collapse)
  have l: "LookupCaps (sp_config (gc_spend (sample_control p))) ''acme'' ''bot'' = (Some (zero_cap\<lparr>bc_MaxUSDPerDay := 5\<rparr>), None)"
    by (simp add: sample_control_def LookupCaps_def sample_spend_def sample_finops_def)
  then have l': "LookupCaps (sp_config (gc_spend ?s)) ''acme'' ''bot'' = (Some (zero_cap\<lparr>bc_MaxUSDPerDay := 5\<rparr>), None)" by simp
  have t: "TrimSpace ''bot'' = ''bot''" by code_simp
  have "\<not> allow" using conjunct1 [OF admitted_run_passed_every_gate [OF h l _ _ _ refl]] by (simp add: sample_control_def sample_kill_def)
  moreover have "allow'" using conjunct1 [OF admitted_run_passed_every_gate [OF h' l' _ _ _ refl]]
    by (simp add: sample_control_def sample_unspent zero_cap_def cap_reached_def CanRunAgent_def t sample_run_ctx_def [THEN arg_cong, of rc_auth])
  ultimately show "let gate = (\<lambda>s. fst (fst (admissionGate_Decide sample_gov_env sample_run_ctx ?e s))) in
     \<not> gate (sample_control p) \<and> gate ?s" by (simp add: h h')
qed

text \<open>C18: An embedded client is told what the policy engine decides, for the tenant that it authenticated
  as. The answer is allow exactly when the engine allows the call under the digest of its arguments, and
  pending exactly when the engine asks for an approval; then the action in the answer is open for this
  call and expires, so that no proxied call can consume its approval. Anything else is a denial.\<close>

theorem embedded_answer_exact:
  assumes "handleGovernanceDecide env rc m (Some req) s = (RepliedWith code resp, s')" "gv_policy s = Some e"
    and "key_hash_ok (ge_sha env)" "\<forall>x. ge_sha env x \<noteq> []" "open_keys (ge_sha env) (gv_pending s)"
    and "instant_ok (ge_pending_until env)" "ge_pending_until env \<noteq> zero_time"
  shows "(\<forall>tid. gd_TenantID req = Some tid \<longrightarrow> TrimSpace tid = FromContext (rc_ctx rc)) \<and> code = 200
    \<and> (\<exists>bound. BindArgsStrict (ge_utf8 env) (ge_tokens env) (ge_sha env) (ge_pick env) (gd_Args req) = Some bound
        \<and> (let inp = embedded_input rc req bound; effect = Effect (fst (policy_Decide (ge_policy env) (FromContext (rc_ctx rc)) e inp s)) in
           gr_Effect resp = (if effect = EffectAllow \<or> effect = EffectPending then effect else EffectDeny)
           \<and> (effect = EffectPending \<longrightarrow> (\<exists>r\<in>set (gv_pending s'). pa_ID r = gr_ActionID resp
                \<and> open_for (call_of_input inp (in_Connector inp) (in_Tool inp) (in_ArgsDigest inp)) True r))))"
proof (intro conjI)
  show "\<forall>tid. gd_TenantID req = Some tid \<longrightarrow> TrimSpace tid = FromContext (rc_ctx rc)" by (rule decided [OF assms(1,2)])
next
  from decided [OF assms(1,2)] obtain bound dec s1 where d:
    "BindArgsStrict (ge_utf8 env) (ge_tokens env) (ge_sha env) (ge_pick env) (gd_Args req) = Some bound"
    "policy_Decide (ge_policy env) (FromContext (rc_ctx rc)) e (embedded_input rc req bound) s = (dec, s1)"
    "Effect dec = EffectPending \<Longrightarrow> writeGovernancePending env (embedded_input rc req bound) dec s1 = (RepliedWith code resp, s')"
    "Effect dec \<noteq> EffectPending \<Longrightarrow> code = 200 \<and> gr_Effect resp = (if Effect dec = EffectAllow then EffectAllow else EffectDeny)" by metis
  let ?inp = "embedded_input rc req bound"
  let ?s = "s1\<lparr>gv_pending := ExpireGovernancePending (ge_now env) (gv_pending s1)\<rparr>"
  have pend: "code = 200 \<and> gr_Effect resp = EffectPending \<and> (\<exists>r\<in>set (gv_pending s'). pa_ID r = gr_ActionID resp
      \<and> open_for (call_of_input ?inp (in_Connector ?inp) (in_Tool ?inp) (in_ArgsDigest ?inp)) True r)" if "Effect dec = EffectPending"
  proof -
    from d(3) [OF that] obtain i where p:
      "persistPendingAction env ?inp (in_Connector ?inp) (in_Tool ?inp) dec (Some (ge_pending_until env)) ?s = (Inr i, s')"
      "code = 200" "gr_Effect resp = EffectPending" "gr_ActionID resp = i"
      by (auto simp: writeGovernancePending_def Let_def split: if_splits prod.splits sum.splits option.splits)
    have "gv_pending s1 = gv_pending s" using policy_Decide_frame(1) [of "ge_policy env" "FromContext (rc_ctx rc)" e ?inp s] d(2) by simp
    then have "open_keys (ge_sha env) (gv_pending ?s)" using expire_keeps_keys [OF assms(5)] by simp
    then show ?thesis using action_persisted [OF p(1) assms(3) digest_bound [OF d(1) assms(4)]] assms(6,7) p(2-4) by simp
  qed
  show "code = 200" using pend d(4) by blast
  show "\<exists>bound. BindArgsStrict (ge_utf8 env) (ge_tokens env) (ge_sha env) (ge_pick env) (gd_Args req) = Some bound
      \<and> (let inp = embedded_input rc req bound; effect = Effect (fst (policy_Decide (ge_policy env) (FromContext (rc_ctx rc)) e inp s)) in
         gr_Effect resp = (if effect = EffectAllow \<or> effect = EffectPending then effect else EffectDeny)
         \<and> (effect = EffectPending \<longrightarrow> (\<exists>r\<in>set (gv_pending s'). pa_ID r = gr_ActionID resp
              \<and> open_for (call_of_input inp (in_Connector inp) (in_Tool inp) (in_ArgsDigest inp)) True r)))"
    using d(1,2,4) pend by (intro exI [of _ bound]) (auto simp: Let_def)
qed

theorem embedded_answer_exact_witness:
  "\<forall>p. \<exists>resp s'. handleGovernanceDecide tagged_env sample_run_ctx ''POST'' (Some sample_decide) ((sample_control p)\<lparr>gv_policy := Some (password_engine\<lparr>predicates := []\<rparr>)\<rparr>)
     = (RepliedWith 200 resp, s') \<and> gr_Effect resp = EffectAllow"
proof
  fix p
  let ?e = "password_engine\<lparr>predicates := []\<rparr>" and ?rc = sample_run_ctx
  let ?s = "(sample_control p)\<lparr>gv_policy := Some ?e\<rparr>"
  have t: "TrimSpace ''bot'' = ''bot''" "TrimSpace ''crm'' = ''crm''" "TrimSpace ''query'' = ''query''" "TrimSpace ''r1'' = ''r1''" "TrimSpace ''acme'' = ''acme''"
    by code_simp+
  have b: "BindArgsStrict (ge_utf8 tagged_env) (ge_tokens tagged_env) (ge_sha tagged_env) (ge_pick tagged_env) (gd_Args sample_decide)
      = Some (JObj [], digestArgs (ge_sha tagged_env) (JObj []), None)"
    by (simp add: BindArgsStrict_def parseCallArguments_def sample_decide_def TrimSpace_Nil redactArgs_def)
  have d: "Effect (fst (policy_Decide (ge_policy tagged_env) (FromContext (rc_ctx ?rc)) ?e (embedded_input ?rc sample_decide (JObj [], x, None)) ?s)) = EffectAllow" for x
    by (simp add: policy_Decide_def Decide_def decide_def tagged_env_def sample_gov_env_def sample_policy_env_def password_engine_def embedded_input_def
        sample_decide_def sample_run_ctx_def FromContext_def t cache_get_def evaluate_def StageToolCall_def StageRunCreate_def static_layer_def take_snapshot_def
        applyPredicates_def applyMandatoryHITL_def matchMandatoryHITL_def default_decision_def effect_defs Let_def)
  let ?bound = "(JObj [], digestArgs (ge_sha tagged_env) (JObj []), None)"
  obtain dec s1 where q: "policy_Decide (ge_policy tagged_env) (FromContext (rc_ctx ?rc)) ?e (embedded_input ?rc sample_decide ?bound) ?s = (dec, s1)"
    by (metis prod.collapse)
  then have "Effect dec = EffectAllow" "Effect dec \<noteq> EffectPending" using d [of "fst (snd ?bound)"] by (simp_all add: effect_defs)
  moreover have "gd_AgentID sample_decide = ''bot''" "gd_Connector sample_decide = ''crm''" "gd_Tool sample_decide = ''query''" "gd_RunID sample_decide = ''r1''"
      "gd_TenantID sample_decide = None" "ge_allow_agent tagged_env ''bot''"
    by (simp_all add: sample_decide_def tagged_env_def sample_gov_env_def)
  ultimately have "\<exists>resp s'. handleGovernanceDecide tagged_env ?rc ''POST'' (Some sample_decide) ?s = (RepliedWith 200 resp, s')"
    by (simp add: handleGovernanceDecide_def Let_def tooLongGovernanceID_def governanceDecideMaxIDLen_def t b q)
  then obtain resp s' where h: "handleGovernanceDecide tagged_env ?rc ''POST'' (Some sample_decide) ?s = (RepliedWith 200 resp, s')" by blast
  have k: "key_hash_ok (ge_sha tagged_env)" "\<forall>x. ge_sha tagged_env x \<noteq> []" by (simp_all add: key_hash_ok_def tagged_env_def)
  have o: "open_keys (ge_sha tagged_env) (gv_pending ?s)" "gv_policy ?s = Some ?e" by (simp_all add: open_keys_def sample_control_def)
  have i: "instant_ok (ge_pending_until tagged_env)" "ge_pending_until tagged_env \<noteq> zero_time"
    by (simp_all add: tagged_env_def sample_gov_env_def instant_ok_def zero_time_def)
  have "gr_Effect resp = EffectAllow"
    using conjunct2 [OF conjunct2 [OF embedded_answer_exact [OF h o(2) k o(1) i]]] d b by (auto simp: Let_def)
  with h show "\<exists>resp s'. handleGovernanceDecide tagged_env ?rc ''POST'' (Some sample_decide) ?s = (RepliedWith 200 resp, s') \<and> gr_Effect resp = EffectAllow"
    by blast
qed

end
