(* ===== verification/Spec2Isabelle.thy ===== *)
theory Spec2Isabelle
  imports Run_Control Governed_Calls
begin

text \<open>
  Verification of the Runkite control plane (Go sources under src/).

  \<^bold>\<open>The program.\<close> Runkite runs agents. A client creates a run over HTTP; admission (kill switches, agent
  permissions, policy, budgets, tenant caps) decides whether it may start; the run is stored, queued and
  handed to a runner process, which executes one attempt of it under a lease, streams events, writes
  checkpoints and reports the end. During the run the runner calls tools of external MCP servers only
  through the connector proxy of the control plane, where a policy engine, argument predicates, a policy
  webhook, mandatory human approval and break-glass windows decide. A reaper takes back the runs of
  crashed runners. An Admin API edits grants, approval rules, kill switches, windows, pending approvals
  and the finops overlay.

  \<^bold>\<open>Theories\<close>, from the bottom up, with the sources they translate (paths below src/internal unless they
  start with cmd). Each opens with a text on its own conventions.

  \<^item> Go_Prelude, Go_Encoding: what the code uses of Go's strings, strconv, int64 arithmetic, utf8 and
    base64, and the lemmas that the other theories share.
  \<^item> Json_Value, Json_Text: jsonvalue. Numbers are tokens and are compared exactly, against the rational
    number that a token denotes (C23); the strict decoder, and json.Marshal, which is injective.
  \<^item> User_Context: the identity of transport/types.go on the wire.
  \<^item> Run_Store, Run_History: tenant, state/completion.go, state/sqlcompletion, state/admission.go and the
    run, thread and checkpoint transactions of state/sqlite. Run_Store has the transactions, Run_History the
    step relation in which each of them commits or aborts, and the properties of all histories: a completion
    is applied at most once (C3), an ended run is frozen until a deletion that may reach it removes it (C20)
    and has settled its thread (C21), caps bound the active runs (C13), a tenant never touches rows of another
    one (C16), a checkpoint is written only by the current attempt and with If-Match only over the version
    seen (C22). The deletions of runs, of threads with their cascade and by retention are steps of the
    histories of C20; the other histories have none of them.
  \<^item> Job_Queue, Event_Broker: transport/inprocess. The queue with its lock-free windows as separate steps:
    a run has at most as many assignments as it was enqueued times and keeps one until it is acknowledged
    or given up (C27), no cancelled run is delivered (C12), a superseded lease is refused
    (C10). The broker and the cancel bus never send on a closed channel.
  \<^item> Runner_Bridge, Run_Control: bridge/server.go, api/completion.go, cmd/reclaim.go, over store, queue,
    broker and cancel bus: an end is acknowledged only once it is durable (C7), a job is handed out only
    for the durable attempt (C17), the run of a crashed runner is ended (C28); waiting callers, cancel
    watchers and the lease of the reaper.
  \<^item> Permissions, Sessions, Access_Control: auth and connector/session.go: permissions of routes, token
    stores, and the three trust boundaries; what is served was admitted (C5), a run-bound call holds a live
    lease of its generation (C11), a grant of one agent is confined to it (C30).
  \<^item> Policy_Rules, Policy_Args, Policy_Engine: policy. When a call is allowed (C4), the cache is
    transparent (C19), equal digests mean equal arguments (C25).
  \<^item> Page_Cursor, Admin_Tables: pagecursor, the governance tables of state/sqlite and their Admin lists: the
    tables refine finite maps (C32), paging lists every row once and ends (C33), grants that change reach
    the engine (C14).
  \<^item> Kill_Drain: api/admin_kill.go and the cancellation of runs; activation ends the runs in scope (C8).
  \<^item> Pending_Actions: approvals in models/pending.go, state/sqlite/governance.go and api/admin_pending.go; an
    approval is used once, by the approved call (C6), and in every history a call has at most one open action, which answers
    each request for it (C34).
  \<^item> Connectors: connector. Circuit breaker, credentials, strict JSON-RPC, tool filter, proxy.
  \<^item> Finops, Spend_Control: finops, api/admin_finops.go, api/usage.go, api/budget_kill.go and the usage and
    hold tables: the overlay governs and is decoded as it was encoded (C37, C38), the budget gate is exact
    and drains exactly the breached scope (C9), the usage of a run is counted once (C15).
  \<^item> Governed_Calls: api/policy.go, api/break_glass.go, api/admission.go, api/governance_decide.go and the
    connector endpoints of api/server.go, on one state of all governance parts: a proxied tool call was
    authorised (C1), a run is admitted exactly when every gate lets it pass (C2), embedded clients get the
    decision of the engine (C18).

  \<^bold>\<open>Defects.\<close> Some theorems show behaviour that the code or its documentation does not intend: checkpoints
  read in an order that is not chronological, so that a completion records the wrong parent (C24), grants revived by an overlapping evaluation (C26), an
  end that cannot be decoded and blocks its run (C29), a drain that reaches other tenants (C31), an
  approval that admits a call repeatedly (C35), a breaker whose trial call refuses itself (C36), a
  documented hold that disables holds (C39), usage of the first second of a day that is not counted (C40).

  \<^bold>\<open>Interfaces.\<close> A locale states what a component promises; its interpretations discharge the laws for the
  definitions of the model: \<open>token_store\<close> (Admin sessions and capability tokens), \<open>job_leases\<close> (the queue as the
  bridge and the run binding use it), \<open>completion_callback\<close> (ends reported by runners and by the reaper),
  \<open>scoped_table\<close> (kill switches, grants, approval rules), and \<open>keyset_listing\<close> with its sublocales \<open>key_listing\<close>
  and \<open>time_listing\<close> (the paged Admin lists).

  \<^bold>\<open>Conventions.\<close> State is passed explicitly; an operation returns its result with the new state. A table is
  the list of its rows, an UPDATE maps over it, a violated constraint is an error value. Errors of the
  code are values of sum, option or reply types; a Go panic is None. int64 is int with the wrap-around
  written out. Handlers take the decoded request; clocks, random identifiers, map iteration orders, hash
  functions, the tokenizer of encoding/json, external services and context cancellation are arguments,
  and a theorem that relies on one of them names what it needs (for example \<open>collision_free\<close> or
  \<open>key_hash_ok\<close> for SHA-256). Concurrency is the interleaving of atomic steps: a transaction, a statement or
  a section under a mutex; CreatePendingAction and the Admin handlers are one step each where a theorem
  runs them as a whole. Timestamps that are read back are those that the code has written, in UTC. Money is exact; rounding of float64 is left out.

  \<^bold>\<open>Bounds.\<close> All functions are total. The strict JSON decoder recurses with fuel, one unit for each token of
  the document, which Json_Text shows to be enough. \<open>killDrainMaxPages\<close> (1000) is the bound of the code
  on the pages of one drain, and C8 is stated for stores of so many pages. \<open>follow_pages\<close> follows the cursors of a
  list with fuel; C33 gives a number of pages that always suffices.

  \<^bold>\<open>Not modelled.\<close>
  \<^item> The Postgres, MySQL and Mongo backends and the Redis, NATS and Kafka transports: the same contracts
    against external services; the SQLite statements and the in-process transport are the translated ones.
    Schema migrations and conformance suites.
  \<^item> The verification of JWT signatures and the authentication webhook (the middleware takes the provider as
    an argument), the Redis session store and the limiter of logins.
  \<^item> Request parsing and response writing of the run, thread, agent, store and registry endpoints, streaming,
    websockets, the MCP server and agent-to-agent endpoints: connections around the modelled operations.
  \<^item> Creation of break-glass windows over HTTP, which computes times from durations; rewriting of large tool
    results, vector stores, simulation, hooks, rate limits, metrics and tracing, which leave the modelled
    state alone or call external services; configuration files, process wiring and timers, among them
    the retention of checkpoints and cron claims (that of runs is PruneRuns).
  \<^item> Failing reads in two places: the list of grants in ReloadPolicyOverlays, after which the engine keeps its
    old overlays, and the run search of a drain, after which the drain stops. C14 and C8 are about calls
    in which these reads succeed.
\<close>

end
